(* ===== verification/Prelude.thy ===== *)
theory Prelude
  imports Complex_Main "HOL-Library.Word" "HOL-Library.Signed_Division"
begin

text \<open>
  Shared material of the development: the outcome type of every fallible operation, the
  sequencing operator on it, the byte type, and generic lemmas on lists, decimal digits and
  big-endian byte strings that the number, data and script theories have in common.

  Outcomes. A C++ operation returns normally, throws one of the exception classes the code
  uses, or has undefined behaviour (a null dereference, a dangling pointer, \<open>back()\<close> of an
  empty vector). These are the branches of \<open>'a result\<close>: \<open>Inr\<close> a value, \<open>Inl (Throw e)\<close>
  an exception of class \<open>e\<close>, \<open>Inl Undef\<close> undefined behaviour. \<open>Inl NoFuel\<close> is not an
  outcome of the program: it marks an evaluation whose fuel was too small (see \<open>Eval\<close>).
  Message texts of exceptions are not modelled.
\<close>

datatype exn =
    ExecutionException
  | MinimaParseException
  | InvalidArgument
  | RuntimeError
  | OutOfRange
  | IosFailure
  | LengthError

datatype error = Throw exn | Undef | NoFuel

type_synonym 'a result = "error + 'a"

type_synonym byte = "8 word"

definition bindE :: "'a result \<Rightarrow> ('a \<Rightarrow> 'b result) \<Rightarrow> 'b result" where
  "bindE r f = (case r of Inl e \<Rightarrow> Inl e | Inr x \<Rightarrow> f x)"

lemma bindE_simps [simp]:
  "bindE (Inl e) f = Inl e" "bindE (Inr x) f = f x"
  by (simp_all add: bindE_def)

lemma bindE_eq_Inr [simp]: "bindE r f = Inr y \<longleftrightarrow> (\<exists>x. r = Inr x \<and> f x = Inr y)"
  by (cases r) auto

lemma bindE_assoc: "bindE (bindE r f) g = bindE r (\<lambda>x. bindE (f x) g)"
  by (cases r) auto

definition guardE :: "bool \<Rightarrow> exn \<Rightarrow> unit result" where
  "guardE b e = (if b then Inr () else Inl (Throw e))"

lemma guardE_simps [simp]:
  "guardE True e = Inr ()" "guardE False e = Inl (Throw e)"
  "guardE b e = Inr u \<longleftrightarrow> b"
  by (simp_all add: guardE_def)

text \<open>\<open>fails_in E r\<close>: if \<open>r\<close> is an error, it is one of \<open>E\<close>. The rules take programs apart.\<close>

definition fails_in :: "error set \<Rightarrow> 'a result \<Rightarrow> bool" where
  "fails_in E r = (\<forall>e. r = Inl e \<longrightarrow> e \<in> E)"

named_theorems fails_rules "decomposition rules for the errors of an operation"

lemma fails_in_basic [fails_rules]:
  "fails_in E (Inr x)" "e \<in> E \<Longrightarrow> fails_in E (Inl e)" "Throw ex \<in> E \<Longrightarrow> fails_in E (guardE b ex)"
  by (simp_all add: fails_in_def guardE_def)

lemma fails_in_bind [fails_rules]:
  "fails_in E r \<Longrightarrow> (\<And>x. r = Inr x \<Longrightarrow> fails_in E (f x)) \<Longrightarrow> fails_in E (bindE r f)"
  by (cases r) (simp_all add: fails_in_def)

lemma fails_in_if [fails_rules]:
  "(b \<Longrightarrow> fails_in E r) \<Longrightarrow> (\<not> b \<Longrightarrow> fails_in E s) \<Longrightarrow> fails_in E (if b then r else s)"
  by simp

lemma fails_in_prod [fails_rules]:
  "(\<And>x y. p = (x, y) \<Longrightarrow> fails_in E (f x y)) \<Longrightarrow> fails_in E (case p of (x, y) \<Rightarrow> f x y)"
  by (cases p) simp

lemma fails_in_option [fails_rules]:
  "(p = None \<Longrightarrow> fails_in E r) \<Longrightarrow> (\<And>x. p = Some x \<Longrightarrow> fails_in E (f x))
    \<Longrightarrow> fails_in E (case p of None \<Rightarrow> r | Some x \<Rightarrow> f x)"
  by (cases p) simp_all

lemma fails_in_mono: "fails_in E r \<Longrightarrow> E \<subseteq> F \<Longrightarrow> fails_in F r"
  by (auto simp: fails_in_def)

lemma fails_inD: "fails_in E r \<Longrightarrow> r = Inl e \<Longrightarrow> e \<in> E"
  by (simp add: fails_in_def)

text \<open>\<open>outcome E P r\<close>: \<open>r\<close> is an error of \<open>E\<close> or a value with \<open>P\<close>.\<close>

definition outcome :: "error set \<Rightarrow> ('a \<Rightarrow> bool) \<Rightarrow> 'a result \<Rightarrow> bool" where
  "outcome E P r = (case r of Inl e \<Rightarrow> e \<in> E | Inr x \<Rightarrow> P x)"

lemma outcome_simps [simp]:
  "outcome E P (Inl e) = (e \<in> E)" "outcome E P (Inr x) = P x"
  by (simp_all add: outcome_def)

lemma outcome_bind:
  "outcome E P r \<Longrightarrow> (\<And>x. P x \<Longrightarrow> r = Inr x \<Longrightarrow> outcome E Q (f x)) \<Longrightarrow> outcome E Q (bindE r f)"
  by (cases r) simp_all

lemma outcome_if:
  "(b \<Longrightarrow> outcome E P r) \<Longrightarrow> (\<not> b \<Longrightarrow> outcome E P s) \<Longrightarrow> outcome E P (if b then r else s)"
  by simp

lemma outcome_option:
  "(p = None \<Longrightarrow> outcome E P r) \<Longrightarrow> (\<And>x. p = Some x \<Longrightarrow> outcome E P (f x))
    \<Longrightarrow> outcome E P (case p of None \<Rightarrow> r | Some x \<Rightarrow> f x)"
  by (cases p) simp_all

lemma outcome_prod:
  "(\<And>x y. p = (x, y) \<Longrightarrow> outcome E P (f x y)) \<Longrightarrow> outcome E P (case p of (x, y) \<Rightarrow> f x y)"
  by (cases p) simp

lemma outcome_guard [simp]: "outcome E P (guardE b ex) = (if b then P () else Throw ex \<in> E)"
  by (simp add: guardE_def)

lemma outcome_mono: "outcome E P r \<Longrightarrow> E \<subseteq> F \<Longrightarrow> (\<And>x. P x \<Longrightarrow> Q x) \<Longrightarrow> outcome F Q r"
  by (cases r) auto

lemma outcome_InrD: "outcome E P r \<Longrightarrow> r = Inr x \<Longrightarrow> P x"
  by simp

lemma outcome_InlD: "outcome E P r \<Longrightarrow> r = Inl e \<Longrightarrow> e \<in> E"
  by simp

lemma outcomeI: "(\<And>e. r = Inl e \<Longrightarrow> e \<in> E) \<Longrightarrow> (\<And>x. r = Inr x \<Longrightarrow> P x) \<Longrightarrow> outcome E P r"
  by (cases r) auto

lemma fails_in_outcome: "fails_in E r = outcome E (\<lambda>_. True) r"
  by (cases r) (simp_all add: fails_in_def)

named_theorems num_simps "unfolding of the decimal number operations"
named_theorems byte_simps "facts on byte strings and their numeric values"
named_theorems kvm_rules "preservation rules for script machine actions"

subsection \<open>Truncating division\<close>

text \<open>\<open>cpp_int\<close> division rounds towards zero: \<open>sdiv\<close> of \<^theory_text>\<open>HOL-Library.Signed_Division\<close>.\<close>

lemma sdiv_pos: "0 < b \<Longrightarrow> (a::int) sdiv b = (if 0 \<le> a then a div b else - ((- a) div b))"
  by (auto simp: signed_divide_int_def sgn_if)

lemma sdiv_0 [simp]: "(0::int) sdiv b = 0"
  by (simp add: signed_divide_int_def)

lemma sdiv_1 [simp]: "(a::int) sdiv 1 = a"
  by (simp add: signed_divide_int_def mult_sgn_abs)

lemma abs_sdiv_pos: "0 < b \<Longrightarrow> \<bar>(a::int) sdiv b\<bar> = \<bar>a\<bar> div b"
  by (simp add: signed_divide_int_def abs_mult sgn_if zero_le_mult_iff pos_imp_zdiv_nonneg_iff)

lemma abs_sdiv_le: "0 < b \<Longrightarrow> \<bar>(a::int) sdiv b\<bar> \<le> \<bar>a\<bar>"
  using zdiv_mono2 [of "\<bar>a\<bar>" 1 b] by (simp add: abs_sdiv_pos)

lemma sdiv_uminus: "0 < b \<Longrightarrow> (- a :: int) sdiv b = - (a sdiv b)"
  by (auto simp: sdiv_pos)

lemma abs_sdiv_mult_le: "0 < b \<Longrightarrow> \<bar>(a::int) sdiv b\<bar> * b \<le> \<bar>a\<bar>"
  by (simp add: abs_sdiv_pos minus_mod_eq_div_mult [symmetric])

lemma sdiv_mult_exact: "0 < b \<Longrightarrow> (a * b :: int) sdiv b = a"
  by (simp add: signed_divide_int_def abs_mult sgn_mult mult_sgn_abs)

lemma zle_div_iff: "0 < c \<Longrightarrow> b \<le> (a::int) div c \<longleftrightarrow> b * c \<le> a"
proof
  assume c: "0 < c" and "b \<le> a div c"
  then have "b * c \<le> (a div c) * c" by (simp add: mult_right_mono)
  also have "\<dots> \<le> a" using c by (simp add: minus_mod_eq_div_mult [symmetric])
  finally show "b * c \<le> a" .
next
  assume c: "0 < c" and "b * c \<le> a"
  then show "b \<le> a div c" using zdiv_mono1 [of "b * c" a c] by simp
qed

lemma zdiv_less_iff: "0 < c \<Longrightarrow> (a::int) div c < b \<longleftrightarrow> a < b * c"
  using zle_div_iff [of c b a] by linarith

subsection \<open>Decimal digits\<close>

definition digit_char :: "nat \<Rightarrow> char" where
  "digit_char d = char_of (48 + d)"

definition char_digit :: "char \<Rightarrow> nat" where
  "char_digit c = of_char c - 48"

definition is_digit :: "char \<Rightarrow> bool" where
  "is_digit c = (of_char c \<ge> (48::nat) \<and> of_char c \<le> (57::nat))"

text \<open>What \<open>operator<<\<close> prints for a non-negative \<open>cpp_int\<close>.\<close>

fun nat_to_dec :: "nat \<Rightarrow> string" where
  "nat_to_dec n = (if n < 10 then [digit_char n]
                   else nat_to_dec (n div 10) @ [digit_char (n mod 10)])"

declare nat_to_dec.simps [simp del]

text \<open>The accumulation loop that reads such digits back.\<close>

definition dec_val :: "string \<Rightarrow> nat" where
  "dec_val s = foldl (\<lambda>acc c. acc * 10 + char_digit c) 0 s"

lemma char_digit_digit_char [simp]: "d < 10 \<Longrightarrow> char_digit (digit_char d) = d"
  by (simp add: char_digit_def digit_char_def)

lemma digit_char_0: "digit_char 0 = CHR ''0''"
  by code_simp

lemma is_digit_digit_char [simp]: "d < 10 \<Longrightarrow> is_digit (digit_char d)"
  by (simp add: is_digit_def digit_char_def)

lemma char_digit_lt: "is_digit c \<Longrightarrow> char_digit c < 10"
  by (auto simp: is_digit_def char_digit_def)

lemma digit_char_char_digit [simp]: "is_digit c \<Longrightarrow> digit_char (char_digit c) = c"
  by (auto simp: is_digit_def char_digit_def digit_char_def)

lemma nat_to_dec_nonempty [simp]: "nat_to_dec n \<noteq> []"
  by (subst nat_to_dec.simps) simp

lemma nat_to_dec_digits: "\<forall>c \<in> set (nat_to_dec n). is_digit c"
proof (induction n rule: nat_to_dec.induct)
  case (1 n)
  then show ?case by (subst nat_to_dec.simps) auto
qed

lemma dec_val_Nil [simp]: "dec_val [] = 0"
  by (simp add: dec_val_def)

lemma dec_val_snoc [simp]: "dec_val (s @ [c]) = dec_val s * 10 + char_digit c"
  by (simp add: dec_val_def)

lemma dec_val_append: "dec_val (s @ t) = dec_val s * 10 ^ length t + dec_val t"
proof (induction t rule: rev_induct)
  case (snoc c t)
  have "dec_val (s @ t @ [c]) = dec_val (s @ t) * 10 + char_digit c"
    by (metis append_assoc dec_val_snoc)
  then show ?case using snoc by (simp add: algebra_simps)
qed simp

lemma dec_val_nat_to_dec [simp]: "dec_val (nat_to_dec n) = n"
proof (induction n rule: nat_to_dec.induct)
  case (1 n)
  show ?case
  proof (cases "n < 10")
    case True
    then show ?thesis using dec_val_snoc [of "[]"] by (subst nat_to_dec.simps) simp
  next
    case False
    then show ?thesis using 1 by (subst nat_to_dec.simps) simp
  qed
qed

lemma dec_val_lt: "\<forall>c \<in> set s. is_digit c \<Longrightarrow> dec_val s < 10 ^ length s"
proof (induction s rule: rev_induct)
  case (snoc c s)
  then have "dec_val s + 1 \<le> 10 ^ length s" "char_digit c < 10" by (auto simp: char_digit_lt)
  then have "dec_val s * 10 + char_digit c < 10 * 10 ^ length s" by linarith
  then show ?case by simp
qed simp

lemma nat_to_dec_lt: "n < 10 ^ length (nat_to_dec n)"
  using dec_val_lt [OF nat_to_dec_digits, of n] by simp

lemma nat_to_dec_ge: "0 < n \<Longrightarrow> 10 ^ (length (nat_to_dec n) - 1) \<le> n"
proof (induction n rule: nat_to_dec.induct)
  case (1 n)
  show ?case
  proof (cases "n < 10")
    case True
    then show ?thesis using 1 by (subst nat_to_dec.simps) simp
  next
    case False
    let ?l = "length (nat_to_dec (n div 10))"
    have l: "?l > 0" by simp
    have "10 ^ (?l - 1) \<le> n div 10" using 1 False by simp
    then have "10 * 10 ^ (?l - 1) \<le> n" by simp
    moreover have "10 * 10 ^ (?l - 1) = (10::nat) ^ ?l"
      using l by (metis Suc_pred' power_Suc)
    ultimately show ?thesis using False by (subst nat_to_dec.simps) simp
  qed
qed

lemma length_nat_to_dec_le:
  assumes "n < 10 ^ k" "0 < k"
  shows "length (nat_to_dec n) \<le> k"
proof (cases "n = 0")
  case True
  then show ?thesis using assms by (subst nat_to_dec.simps) simp
next
  case False
  then have "10 ^ (length (nat_to_dec n) - 1) < (10::nat) ^ k"
    using nat_to_dec_ge [of n] assms by linarith
  then show ?thesis using power_less_imp_less_exp by fastforce
qed

lemma length_nat_to_dec_gt: "10 ^ k \<le> n \<Longrightarrow> k < length (nat_to_dec n)"
  using nat_to_dec_lt [of n] by (metis le_less_trans nat_power_less_imp_less zero_less_numeral)

lemma nat_to_dec_times_10: "0 < n \<Longrightarrow> nat_to_dec (n * 10) = nat_to_dec n @ ''0''"
  by (subst nat_to_dec.simps) (simp add: digit_char_0)

lemma nat_to_dec_times_pow10: "0 < n \<Longrightarrow> nat_to_dec (n * 10 ^ k) = nat_to_dec n @ replicate k CHR ''0''"
proof (induction k)
  case (Suc k)
  then show ?case
    using nat_to_dec_times_10 [of "n * 10 ^ k"] by (simp add: mult_ac replicate_append_same)
qed simp

subsection \<open>Big-endian byte strings\<close>

text \<open>
  \<open>be_bytes\<close> is \<open>export_bits(n, ..., 8, big_endian)\<close> of a positive value: no leading zero byte,
  and no byte at all for 0. \<open>be_val\<close> is the import loop \<open>val = (val << 8) + b\<close>.
\<close>

fun be_bytes :: "nat \<Rightarrow> byte list" where
  "be_bytes n = (if n = 0 then [] else be_bytes (n div 256) @ [of_nat (n mod 256)])"

declare be_bytes.simps [simp del]

definition be_val :: "byte list \<Rightarrow> nat" where
  "be_val bs = foldl (\<lambda>v b. v * 256 + unat b) 0 bs"

lemma be_val_Nil [simp]: "be_val [] = 0"
  by (simp add: be_val_def)

lemma be_val_snoc [simp]: "be_val (bs @ [b]) = be_val bs * 256 + unat b"
  by (simp add: be_val_def)

lemma unat_byte_lt [simp]: "unat (b :: byte) < 256"
  using unsigned_less [of b, where ?'a = nat] by simp

lemma unat_of_nat_byte [simp]: "n < 256 \<Longrightarrow> unat (of_nat n :: byte) = n"
  by (simp add: unat_of_nat)

lemma be_val_append [byte_simps]: "be_val (s @ t) = be_val s * 256 ^ length t + be_val t"
proof (induction t rule: rev_induct)
  case (snoc c t)
  have "be_val (s @ t @ [c]) = be_val (s @ t) * 256 + unat c"
    by (metis append_assoc be_val_snoc)
  then show ?case using snoc by (simp add: algebra_simps)
qed simp

lemma be_val_Cons [byte_simps]: "be_val (b # bs) = unat b * 256 ^ length bs + be_val bs"
  using be_val_append [of "[b]" bs] be_val_snoc [of "[]" b] by simp

lemma be_val_lt: "be_val bs < 256 ^ length bs"
proof (induction bs rule: rev_induct)
  case (snoc b bs)
  then have "be_val bs + 1 \<le> 256 ^ length bs" by simp
  then have "be_val bs * 256 + 256 \<le> 256 * 256 ^ length bs" by linarith
  then show ?case using unat_byte_lt [of b] by (simp del: unat_byte_lt)
qed simp

lemma be_bytes_0 [simp]: "be_bytes 0 = []"
  by (subst be_bytes.simps) simp

lemma be_bytes_eq_Nil [simp]: "be_bytes n = [] \<longleftrightarrow> n = 0"
  by (subst be_bytes.simps) simp

lemma be_val_be_bytes [simp]: "be_val (be_bytes n) = n"
proof (induction n rule: be_bytes.induct)
  case (1 n)
  then show ?case by (subst be_bytes.simps) simp
qed

lemma length_be_bytes_le: "n < 256 ^ k \<Longrightarrow> length (be_bytes n) \<le> k"
proof (induction n arbitrary: k rule: be_bytes.induct)
  case (1 n)
  show ?case
  proof (cases "n = 0")
    case False
    then obtain j where j: "k = Suc j" using 1(2) by (cases k) auto
    then have "n div 256 < 256 ^ j" using 1(2) by (simp add: less_mult_imp_div_less mult.commute)
    then show ?thesis using 1(1) [of j] False j by (subst be_bytes.simps) simp
  qed simp
qed

lemma length_be_bytes_ge: "256 ^ k \<le> n \<Longrightarrow> k < length (be_bytes n)"
  using be_val_lt [of "be_bytes n"] by (metis be_val_be_bytes le_less_trans nat_power_less_imp_less zero_less_numeral)

lemma hd_be_bytes: "0 < n \<Longrightarrow> hd (be_bytes n) \<noteq> 0"
proof (induction n rule: be_bytes.induct)
  case (1 n)
  show ?case
  proof (cases "n < 256")
    case True
    then have "(of_nat n :: byte) \<noteq> 0" using 1(2) by (metis unat_0 unat_of_nat_byte less_not_refl)
    then show ?thesis using True 1(2) by (subst be_bytes.simps) simp
  next
    case False
    then show ?thesis using 1 by (subst be_bytes.simps) simp
  qed
qed

lemma be_val_inj: "length a = length b \<Longrightarrow> be_val a = be_val b \<Longrightarrow> a = b"
proof (induction a b rule: rev_induct2)
  case (4 x xs y ys)
  have u: "unat x < 256" "unat y < 256" by simp_all
  have e: "be_val xs * 256 + unat x = be_val ys * 256 + unat y" using 4(3) by simp
  have v: "be_val xs = be_val ys" using u e by linarith
  then have "unat x = unat y" using e by simp
  then have "x = y" by (metis unsigned_word_eqI)
  with v show ?case using 4 by simp
qed simp_all

lemma be_bytes_be_val: "bs = [] \<or> hd bs \<noteq> 0 \<Longrightarrow> be_bytes (be_val bs) = bs"
proof (cases "bs = []")
  case False
  assume "bs = [] \<or> hd bs \<noteq> 0"
  then obtain b cs where bs: "bs = b # cs" "b \<noteq> 0" using False by (cases bs) auto
  have "256 ^ length cs \<le> unat b * 256 ^ length cs"
    using bs(2) by (cases "unat b") (simp_all add: unat_eq_zero)
  then have "256 ^ length cs \<le> be_val bs" by (simp only: bs(1) be_val_Cons)
  then have "length cs < length (be_bytes (be_val bs))" by (rule length_be_bytes_ge)
  moreover have "length (be_bytes (be_val bs)) \<le> length bs" by (rule length_be_bytes_le [OF be_val_lt])
  ultimately have "length (be_bytes (be_val bs)) = length bs" by (simp add: bs(1))
  then show ?thesis by (rule be_val_inj) simp
qed simp

subsection \<open>Input streams\<close>

text \<open>
  A reader consumes bytes of a \<open>std::istream\<close> and returns the rest. \<open>read_n\<close> is
  \<open>in.read(buf, n)\<close> followed by the test of the stream state that every caller makes.
\<close>

type_synonym 'a reader = "byte list \<Rightarrow> ('a \<times> byte list) result"

definition read_n :: "nat \<Rightarrow> byte list reader" where
  "read_n n inp = (if length inp < n then Inl (Throw IosFailure) else Inr (take n inp, drop n inp))"

lemma read_n_append [simp]: "length xs = n \<Longrightarrow> read_n n (xs @ rest) = Inr (xs, rest)"
  by (auto simp: read_n_def)

subsection \<open>Text\<close>

definition is_space :: "char \<Rightarrow> bool" where
  "is_space c = (let n = of_char c :: nat in n = 32 \<or> 9 \<le> n \<and> n \<le> 13)"

definition trim :: "string \<Rightarrow> string" where
  "trim s = rev (dropWhile is_space (rev (dropWhile is_space s)))"

lemma length_trim: "length (trim s) \<le> length s"
  unfolding trim_def by (metis length_dropWhile_le length_rev order_trans)

text \<open>\<open>strip_zeros\<close> removes the trailing characters \<open>0\<close> of a string.\<close>

definition strip_zeros :: "string \<Rightarrow> string" where
  "strip_zeros s = rev (dropWhile (\<lambda>c. c = CHR ''0'') (rev s))"

lemma length_strip_zeros: "length (strip_zeros s) \<le> length s"
  unfolding strip_zeros_def by (metis length_dropWhile_le length_rev)

end
