(* ===== verification/Streamable.thy ===== *)
theory Streamable
  imports Prelude
begin

text \<open>
  The interface \<open>org::minima::utils::Streamable\<close>: every object of the node writes itself to an
  output stream (here: the bytes written) and is read back from an input stream. The locale states
  the contract every implementation owes, reading back an admissible object and consuming exactly
  its bytes, and proves once what its clients use: the form is injective and prefix-free, and lists
  written back to back are read back.
\<close>

fun read_many :: "'a reader \<Rightarrow> nat \<Rightarrow> 'a list reader" where
  "read_many rd 0 inp = Inr ([], inp)"
| "read_many rd (Suc n) inp =
     bindE (rd inp) (\<lambda>(x, inp). bindE (read_many rd n inp) (\<lambda>(xs, inp). Inr (x # xs, inp)))"

locale streamable =
  fixes wr :: "'a \<Rightarrow> byte list"
    and rd :: "'a reader"
    and ok :: "'a \<Rightarrow> bool"
  assumes roundtrip: "ok x \<Longrightarrow> rd (wr x @ rest) = Inr (x, rest)"
begin

lemma roundtrip_all: "ok x \<Longrightarrow> rd (wr x) = Inr (x, [])"
  using roundtrip [of x "[]"] by simp

lemma prefix_free: "ok x \<Longrightarrow> ok y \<Longrightarrow> wr x @ r = wr y @ s \<Longrightarrow> x = y \<and> r = s"
  by (metis Pair_inject roundtrip sum.inject(2))

lemma injective: "ok x \<Longrightarrow> ok y \<Longrightarrow> wr x = wr y \<longleftrightarrow> x = y"
  by (metis append.right_neutral prefix_free)

lemma read_many_concat:
  "\<forall>x \<in> set xs. ok x \<Longrightarrow> read_many rd (length xs) (concat (map wr xs) @ rest) = Inr (xs, rest)"
  by (induction xs) (simp_all add: roundtrip)

end

text \<open>Two streamable parts one after the other.\<close>

definition wr_pair :: "('a \<Rightarrow> byte list) \<Rightarrow> ('b \<Rightarrow> byte list) \<Rightarrow> 'a \<times> 'b \<Rightarrow> byte list" where
  "wr_pair wa wb p = wa (fst p) @ wb (snd p)"

definition rd_pair :: "'a reader \<Rightarrow> 'b reader \<Rightarrow> ('a \<times> 'b) reader" where
  "rd_pair ra rb inp = bindE (ra inp) (\<lambda>(a, inp). bindE (rb inp) (\<lambda>(b, inp). Inr ((a, b), inp)))"

lemma streamable_pair:
  assumes "streamable wa ra oka" "streamable wb rb okb"
  shows "streamable (wr_pair wa wb) (rd_pair ra rb) (\<lambda>(a, b). oka a \<and> okb b)"
  using assms by (auto simp: streamable_def wr_pair_def rd_pair_def)

end
