(* ===== verification/MiniNumber.thy ===== *)
theory MiniNumber
  imports Prelude
begin

text \<open>
  The decimal number type of the node, \<open>src/org/minima/objects/base/mini_number.cpp\<close>: a number
  is an unscaled \<open>cpp_int\<close> and an \<open>int\<close> scale, its value \<open>unscaled * 10^(-scale)\<close>. Every
  operation rounds towards zero to 64 significant digits and 44 decimal places and throws when
  the magnitude passes \<open>2^256 - 1\<close>. The scale is an unbounded \<open>int\<close> here: the one place where
  a 32-bit scale can overflow is the parser of decimal strings, which returns \<open>Undef\<close> there;
  the conversions to \<open>unsigned\<close> before \<open>pow10\<close> are written out.
\<close>

record mininumber =
  m_unscaled :: int
  m_scale :: int

definition MAX_DIGITS :: int where "MAX_DIGITS = 64"
definition MAX_DECIMAL_PLACES :: int where "MAX_DECIMAL_PLACES = MAX_DIGITS - 20"

definition get_max_value :: int where "get_max_value = 2 ^ 256 - 1"
definition get_min_value :: int where "get_min_value = - get_max_value"

definition mk :: "int \<Rightarrow> int \<Rightarrow> mininumber" where
  "mk u s = \<lparr>m_unscaled = u, m_scale = s\<rparr>"

subsection \<open>Helpers\<close>

text \<open>\<open>pow10(unsigned int n)\<close>: the argument has been cast to a 32-bit unsigned value.\<close>

definition pow10 :: "int \<Rightarrow> int" where
  "pow10 n = 10 ^ nat (n mod 2 ^ 32)"

definition count_decimal_digits :: "int \<Rightarrow> int" where
  "count_decimal_digits v = int (length (nat_to_dec (nat \<bar>v\<bar>)))"

definition align_scales :: "mininumber \<Rightarrow> mininumber \<Rightarrow> int \<times> int \<times> int" where
  "align_scales a b =
     (if m_scale a = m_scale b then (m_unscaled a, m_unscaled b, m_scale a)
      else if m_scale a > m_scale b
      then (m_unscaled a, m_unscaled b * pow10 (m_scale a - m_scale b), m_scale a)
      else (m_unscaled a * pow10 (m_scale b - m_scale a), m_unscaled b, m_scale b))"

definition normalize_zero :: "mininumber \<Rightarrow> mininumber" where
  "normalize_zero m = (if m_unscaled m = 0 then m\<lparr>m_scale := 0\<rparr> else m)"

definition apply_precision_down :: "int \<Rightarrow> mininumber \<Rightarrow> mininumber" where
  "apply_precision_down precision m =
     (if precision \<le> 0 then mk 0 0
      else let digits = count_decimal_digits (m_unscaled m) in
        if digits > precision then
          let k = digits - precision in
          normalize_zero (mk (m_unscaled m sdiv pow10 k) (m_scale m - k))
        else normalize_zero m)"

definition apply_math_context_default :: "mininumber \<Rightarrow> mininumber" where
  "apply_math_context_default m = apply_precision_down MAX_DIGITS m"

definition enforce_max_decimal_places :: "mininumber \<Rightarrow> mininumber" where
  "enforce_max_decimal_places m =
     (if m_scale m > MAX_DECIMAL_PLACES then
        let k = m_scale m - MAX_DECIMAL_PLACES in
        normalize_zero (mk (m_unscaled m sdiv pow10 k) MAX_DECIMAL_PLACES)
      else m)"

definition compare_values :: "int \<Rightarrow> int \<Rightarrow> int \<Rightarrow> int \<Rightarrow> int" where
  "compare_values ua sa ub sb =
     (if sa = sb then (if ua < ub then -1 else if ua > ub then 1 else 0)
      else let (uaa, ubb, scale) = align_scales (mk ua sa) (mk ub sb) in
        if uaa < ubb then -1 else if uaa > ubb then 1 else 0)"

definition checkLimits :: "mininumber \<Rightarrow> mininumber result" where
  "checkLimits m =
     (let m' = enforce_max_decimal_places m in
      if compare_values (m_unscaled m') (m_scale m') get_max_value 0 > 0
      then Inl (Throw RuntimeError)
      else if compare_values (m_unscaled m') (m_scale m') get_min_value 0 < 0
      then Inl (Throw RuntimeError)
      else Inr m')"

text \<open>The tail of every constructor and arithmetic operation.\<close>

abbreviation finish :: "int \<Rightarrow> int \<Rightarrow> mininumber result" where
  "finish u s \<equiv> checkLimits (apply_math_context_default (mk u s))"

subsection \<open>Constructors\<close>

definition mn_of_int :: "int \<Rightarrow> mininumber result" where
  "mn_of_int zNumber = finish zNumber 0"

definition mn_copy :: "mininumber \<Rightarrow> mininumber result" where
  "mn_copy other = checkLimits (apply_math_context_default other)"

definition mn_ZERO :: mininumber where "mn_ZERO = mk 0 0"
definition mn_ONE :: mininumber where "mn_ONE = mk 1 0"
definition mn_MINUSONE :: mininumber where "mn_MINUSONE = mk (-1) 0"
definition mn_TEN :: mininumber where "mn_TEN = mk 1 (-1)"
definition mn_TWOFIVESIX :: mininumber where "mn_TWOFIVESIX = mk 256 0"
definition mn_THOUSAND24 :: mininumber where "mn_THOUSAND24 = mk 1024 0"
definition mn_BILLION :: mininumber where "mn_BILLION = mk 1 (-9)"

subsection \<open>Conversions\<close>

definition getAsBigInteger :: "mininumber \<Rightarrow> int" where
  "getAsBigInteger m =
     (if m_scale m \<le> 0 then m_unscaled m * pow10 (- m_scale m)
      else m_unscaled m sdiv pow10 (m_scale m))"

definition getAsLong :: "mininumber \<Rightarrow> int" where
  "getAsLong m = sint (word_of_int (getAsBigInteger m) :: 64 word)"

definition getAsInt :: "mininumber \<Rightarrow> int" where
  "getAsInt m =
     (let bi = getAsBigInteger m in
      if bi > 2 ^ 31 - 1 then 2 ^ 31 - 1
      else if bi < - (2 ^ 31) then - (2 ^ 31)
      else bi)"

subsection \<open>Arithmetic\<close>

definition mn_add :: "mininumber \<Rightarrow> mininumber \<Rightarrow> mininumber result" where
  "mn_add a b = (let (ua, ub, sc) = align_scales a b in finish (ua + ub) sc)"

definition mn_sub :: "mininumber \<Rightarrow> mininumber \<Rightarrow> mininumber result" where
  "mn_sub a b = (let (ua, ub, sc) = align_scales a b in finish (ua - ub) sc)"

definition divide_with_context :: "mininumber \<Rightarrow> mininumber \<Rightarrow> mininumber result" where
  "divide_with_context a other =
     (if m_unscaled other = 0 then Inl (Throw RuntimeError)
      else let t = MAX_DIGITS + 2;
               N = m_unscaled a * pow10 (m_scale other + t);
               Q = N sdiv m_unscaled other
           in finish Q (m_scale a + t))"

definition mn_div :: "mininumber \<Rightarrow> mininumber \<Rightarrow> mininumber result" where
  "mn_div a zNumber = divide_with_context a zNumber"

definition mn_mult :: "mininumber \<Rightarrow> mininumber \<Rightarrow> mininumber result" where
  "mn_mult a b = finish (m_unscaled a * m_unscaled b) (m_scale a + m_scale b)"

definition multBigInteger :: "mininumber \<Rightarrow> int \<Rightarrow> int" where
  "multBigInteger m zValue =
     (let prod = zValue * m_unscaled m in
      if m_scale m \<le> 0 then (if m_scale m < 0 then prod * pow10 (- m_scale m) else prod)
      else prod sdiv pow10 (m_scale m))"

text \<open>The square-and-multiply loop of \<open>pow\<close>, for a positive exponent \<open>e\<close>.\<close>

fun pow_loop :: "nat \<Rightarrow> mininumber \<Rightarrow> mininumber \<Rightarrow> mininumber result" where
  "pow_loop e base acc =
     (if e = 0 then Inr acc
      else bindE (if odd e then mn_mult acc base else Inr acc) (\<lambda>acc'.
        if e div 2 \<noteq> 0
        then bindE (mn_mult base base) (\<lambda>base'. pow_loop (e div 2) base' acc')
        else Inr acc'))"

declare pow_loop.simps [simp del]

definition mn_pow :: "mininumber \<Rightarrow> int \<Rightarrow> mininumber result" where
  "mn_pow m zNumber =
     (let pos = (\<lambda>n. bindE (mn_copy m) (\<lambda>base. bindE (pow_loop (nat n) base mn_ONE) mn_copy)) in
      if zNumber = 0 then mn_copy mn_ONE
      else if zNumber < 0 then bindE (pos (- zNumber)) (mn_div mn_ONE)
      else pos zNumber)"

datatype round_mode = DOWN | FLOOR | CEILING

definition setScale_impl :: "int \<Rightarrow> round_mode \<Rightarrow> mininumber \<Rightarrow> mininumber" where
  "setScale_impl newScale mode m =
     (if newScale = m_scale m then m
      else if newScale > m_scale m
      then normalize_zero (mk (m_unscaled m * pow10 (newScale - m_scale m)) newScale)
      else let divisor = pow10 (m_scale m - newScale);
               q = m_unscaled m sdiv divisor;
               r = m_unscaled m smod divisor;
               q' = (case mode of DOWN \<Rightarrow> q
                     | FLOOR \<Rightarrow> (if r \<noteq> 0 \<and> m_unscaled m < 0 then q - 1 else q)
                     | CEILING \<Rightarrow> (if r \<noteq> 0 \<and> m_unscaled m > 0 then q + 1 else q))
           in normalize_zero (mk q' newScale))"

definition mn_floor :: "mininumber \<Rightarrow> mininumber result" where
  "mn_floor m = bindE (mn_copy m) (\<lambda>c. mn_copy (setScale_impl 0 FLOOR c))"

definition mn_ceil :: "mininumber \<Rightarrow> mininumber result" where
  "mn_ceil m = bindE (mn_copy m) (\<lambda>c. mn_copy (setScale_impl 0 CEILING c))"

definition remainder_toward_zero :: "mininumber \<Rightarrow> mininumber \<Rightarrow> mininumber result" where
  "remainder_toward_zero a other =
     (if m_unscaled other = 0 then Inl (Throw RuntimeError)
      else let (ua, ub, sc) = align_scales a other; q = ua sdiv ub
           in finish (ua - q * ub) sc)"

definition mn_modulo :: "mininumber \<Rightarrow> mininumber \<Rightarrow> mininumber result" where
  "mn_modulo a zNumber = bindE (remainder_toward_zero a zNumber) mn_copy"

definition setSignificantDigits :: "mininumber \<Rightarrow> int \<Rightarrow> mininumber result" where
  "setSignificantDigits m n =
     (if n > MAX_DIGITS then Inl (Throw InvalidArgument)
      else if n < 0 then Inl (Throw InvalidArgument)
      else bindE (mn_copy m) (\<lambda>c. checkLimits (apply_precision_down n c)))"

definition mn_abs :: "mininumber \<Rightarrow> mininumber result" where
  "mn_abs m = bindE (mn_copy m) (\<lambda>c. finish \<bar>m_unscaled c\<bar> (m_scale c))"

definition increment :: "mininumber \<Rightarrow> mininumber result" where
  "increment m = mn_add m mn_ONE"

definition decrement :: "mininumber \<Rightarrow> mininumber result" where
  "decrement m = mn_sub m mn_ONE"

subsection \<open>Comparison\<close>

definition mn_compareTo :: "mininumber \<Rightarrow> mininumber \<Rightarrow> int" where
  "mn_compareTo a b =
     (let negA = m_unscaled a < 0; negB = m_unscaled b < 0 in
      if negA \<noteq> negB then (if negA then -1 else 1)
      else let cmp = compare_values \<bar>m_unscaled a\<bar> (m_scale a) \<bar>m_unscaled b\<bar> (m_scale b);
               cmp' = (if negA \<and> negB then - cmp else cmp)
           in if m_unscaled a = 0 \<and> m_unscaled b = 0 then 0 else cmp')"

definition mn_isEqual :: "mininumber \<Rightarrow> mininumber \<Rightarrow> bool" where
  "mn_isEqual a b = (mn_compareTo a b = 0)"

definition mn_isLess :: "mininumber \<Rightarrow> mininumber \<Rightarrow> bool" where
  "mn_isLess a b = (mn_compareTo a b < 0)"

definition mn_isLessEqual :: "mininumber \<Rightarrow> mininumber \<Rightarrow> bool" where
  "mn_isLessEqual a b = (mn_compareTo a b \<le> 0)"

definition mn_isMore :: "mininumber \<Rightarrow> mininumber \<Rightarrow> bool" where
  "mn_isMore a b = (mn_compareTo a b > 0)"

definition mn_isMoreEqual :: "mininumber \<Rightarrow> mininumber \<Rightarrow> bool" where
  "mn_isMoreEqual a b = (mn_compareTo a b \<ge> 0)"

definition isValidMinimaValue :: "mininumber \<Rightarrow> bool" where
  "isValidMinimaValue m = (mn_isLessEqual m mn_BILLION \<and> mn_isMore m mn_ZERO)"


subsection \<open>Values and well-formedness\<close>

text \<open>
  The number a pair stands for, as a rational, and the invariant of every number that has
  passed \<open>checkLimits\<close>: at most 64 significant digits, at most 44 decimals, zero in its one
  form, magnitude at most \<open>2^256 - 1\<close>.
\<close>

definition mval :: "mininumber \<Rightarrow> rat" where
  "mval m = of_int (m_unscaled m) * 10 powi (- m_scale m)"

definition in_range :: "mininumber \<Rightarrow> bool" where
  "in_range m = (\<bar>m_unscaled m\<bar> * 10 ^ nat (- m_scale m) \<le> get_max_value * 10 ^ nat (m_scale m))"

definition mn_wf :: "mininumber \<Rightarrow> bool" where
  "mn_wf m = (\<bar>m_unscaled m\<bar> < 10 ^ 64 \<and> m_scale m \<le> MAX_DECIMAL_PLACES
              \<and> (m_unscaled m = 0 \<longrightarrow> m_scale m = 0) \<and> in_range m)"

lemma mk_sel [simp]: "m_unscaled (mk u s) = u" "m_scale (mk u s) = s"
  "mk (m_unscaled m) (m_scale m) = m"
  by (simp_all add: mk_def)

lemma mk_eq_iff: "mk u s = mk u' s' \<longleftrightarrow> u = u' \<and> s = s'"
  by (simp add: mk_def)

lemma mininumber_eqI: "m_unscaled a = m_unscaled b \<Longrightarrow> m_scale a = m_scale b \<Longrightarrow> a = (b::mininumber)"
  by simp

lemma pow10_eq: "0 \<le> n \<Longrightarrow> n < 2 ^ 32 \<Longrightarrow> pow10 n = 10 ^ nat n"
  by (simp add: pow10_def)

lemma pow10_pos [simp]: "0 < pow10 n" "0 \<le> pow10 n" "pow10 n \<noteq> 0"
  by (simp_all add: pow10_def)

lemma p10_nonneg: "0 \<le> i \<Longrightarrow> (10::rat) powi i = 10 ^ nat i"
  by (simp add: power_int_def)

lemma p10_add: "(10::rat) powi (i + j) = 10 powi i * 10 powi j"
  by (simp add: power_int_add)

lemma p10_pos [simp]: "0 < (10::rat) powi i" "0 \<le> (10::rat) powi i"
  by (simp_all add: zero_less_power_int less_imp_le)

lemma p10_neq_0 [simp]: "(10::rat) powi i \<noteq> 0" "\<not> (10::rat) powi i < 0" "\<not> (10::rat) powi i \<le> 0"
  using p10_pos [of i] by linarith+

lemma p10_mono: "i \<le> j \<Longrightarrow> (10::rat) powi i \<le> 10 powi j"
  by (simp add: power_int_increasing)

lemma of_int_pow10: "0 \<le> n \<Longrightarrow> n < 2 ^ 32 \<Longrightarrow> (of_int (pow10 n) :: rat) = 10 powi n"
  by (simp add: pow10_eq p10_nonneg)

lemma mval_mk: "mval (mk u s) = of_int u * 10 powi (- s)"
  by (simp add: mval_def)

lemma mval_zero_iff [simp]: "mval m = 0 \<longleftrightarrow> m_unscaled m = 0"
  by (simp add: mval_def)

lemma mval_sign: "0 < mval m \<longleftrightarrow> 0 < m_unscaled m" "mval m < 0 \<longleftrightarrow> m_unscaled m < 0"
  "0 \<le> mval m \<longleftrightarrow> 0 \<le> m_unscaled m"
  by (simp_all add: mval_def zero_less_mult_iff mult_less_0_iff zero_le_mult_iff not_less [symmetric])

lemma abs_mval: "\<bar>mval m\<bar> = of_int \<bar>m_unscaled m\<bar> * 10 powi (- m_scale m)"
  by (simp add: mval_def abs_mult)

lemma mval_normalize_zero [simp]: "mval (normalize_zero m) = mval m"
  by (simp add: normalize_zero_def mval_def)

text \<open>Aligning scales keeps both values; this needs the scale difference to fit an unsigned.\<close>

lemma align_scales_val:
  assumes "align_scales a b = (ua, ub, sc)" and "\<bar>m_scale a - m_scale b\<bar> < 2 ^ 32"
  shows "mval a = of_int ua * 10 powi (- sc)" "mval b = of_int ub * 10 powi (- sc)"
    "sc = max (m_scale a) (m_scale b)"
proof -
  have eq: "of_int (u * pow10 (t - s)) * (10::rat) powi (- t) = of_int u * 10 powi (- s)"
    if "s < t" "t - s < 2 ^ 32" for u s t :: int
    using that p10_add [of "t - s" "- t"] by (simp add: of_int_pow10)
  have l: "m_scale a < m_scale b \<Longrightarrow> m_scale b - m_scale a < 2 ^ 32"
    and r: "m_scale b < m_scale a \<Longrightarrow> m_scale a - m_scale b < 2 ^ 32"
    using assms(2) by linarith+
  note defs = assms(1) [symmetric, unfolded align_scales_def] mval_def
  show "mval a = of_int ua * 10 powi (- sc)" "mval b = of_int ub * 10 powi (- sc)"
    "sc = max (m_scale a) (m_scale b)"
    using assms(1) eq [OF _ l, of "m_unscaled a"] eq [OF _ r, of "m_unscaled b"]
    by (auto simp: align_scales_def mval_def split: if_splits)
qed

definition cmp3 :: "'a :: linorder \<Rightarrow> 'a \<Rightarrow> int" where
  "cmp3 a b = (if a < b then -1 else if a > b then 1 else 0)"

lemma cmp3_scale: "0 < c \<Longrightarrow> cmp3 (of_int a * c) (of_int b * (c::rat)) = cmp3 a b"
  by (simp add: cmp3_def)

lemma compare_values_val:
  assumes "\<bar>sa - sb\<bar> < 2 ^ 32"
  shows "compare_values ua sa ub sb = cmp3 (mval (mk ua sa)) (mval (mk ub sb))"
proof (cases "sa = sb")
  case True
  then show ?thesis
    by (simp add: compare_values_def mval_def cmp3_scale) (simp add: cmp3_def)
next
  case False
  obtain x y sc where al: "align_scales (mk ua sa) (mk ub sb) = (x, y, sc)"
    by (cases "align_scales (mk ua sa) (mk ub sb)") auto
  have "\<bar>m_scale (mk ua sa) - m_scale (mk ub sb)\<bar> < 2 ^ 32" using assms by simp
  note v = align_scales_val [OF al this]
  show ?thesis
    unfolding v(1,2) by (simp add: compare_values_def False al cmp3_scale) (simp add: cmp3_def)
qed

subsection \<open>Rounding\<close>

text \<open>
  \<open>truncates m m'\<close>: \<open>m'\<close> is \<open>m\<close> cut towards zero, losing less than one unit of its own last
  place. The bound is stated so that truncations compose.
\<close>

definition truncates :: "mininumber \<Rightarrow> mininumber \<Rightarrow> bool" where
  "truncates m m' = (\<bar>mval m'\<bar> \<le> \<bar>mval m\<bar> \<and> (0 < mval m' \<longrightarrow> 0 < mval m) \<and> (mval m' < 0 \<longrightarrow> mval m < 0)
     \<and> \<bar>mval m\<bar> - \<bar>mval m'\<bar> \<le> 10 powi (- m_scale m') - 10 powi (- m_scale m))"

lemma truncates_refl [simp]: "truncates m m"
  by (simp add: truncates_def)

lemma truncates_trans: "truncates a b \<Longrightarrow> truncates b c \<Longrightarrow> truncates a c"
  unfolding truncates_def by (intro conjI) (auto simp: algebra_simps)

lemma truncates_sdiv:
  assumes k: "0 \<le> k" "k < 2 ^ 32"
  shows "truncates (mk u s) (mk (u sdiv pow10 k) (s - k))"
proof -
  let ?c = "pow10 k" let ?q = "\<bar>u\<bar> div ?c" let ?p = "(10::rat) powi (- s)"
  have c: "0 < ?c" by simp
  have absq: "\<bar>u sdiv ?c\<bar> = ?q" using c by (rule abs_sdiv_pos)
  have pk: "(10::rat) powi (- (s - k)) = of_int ?c * ?p"
    using p10_add [of k "- s"] k by (simp add: of_int_pow10)
  have le: "?q * ?c \<le> \<bar>u\<bar>" and lt: "\<bar>u\<bar> - ?q * ?c \<le> ?c - 1"
    using c pos_mod_bound [OF c, of "\<bar>u\<bar>"] by (simp_all add: minus_mult_div_eq_mod mult.commute minus_mod_eq_mult_div [symmetric])
  have v': "\<bar>mval (mk (u sdiv ?c) (s - k))\<bar> = of_int (?q * ?c) * ?p"
    unfolding abs_mval mk_sel absq pk by (simp add: mult.assoc)
  have v: "\<bar>mval (mk u s)\<bar> = of_int \<bar>u\<bar> * ?p" by (simp add: abs_mval)
  have sgn: "0 < u sdiv ?c \<longrightarrow> 0 < u" "u sdiv ?c < 0 \<longrightarrow> u < 0"
    using c by (cases u "0::int" rule: linorder_cases; simp add: sdiv_pos pos_imp_zdiv_neg_iff
      neg_imp_zdiv_neg_iff not_less pos_imp_zdiv_nonneg_iff)+
  have "of_int \<bar>u\<bar> * ?p - of_int (?q * ?c) * ?p = of_int (\<bar>u\<bar> - ?q * ?c) * ?p"
    by (simp add: left_diff_distrib)
  also have "\<dots> \<le> of_int (?c - 1) * ?p"
    using lt by (intro mult_right_mono) (simp_all only: of_int_le_iff p10_pos)
  also have "\<dots> = of_int ?c * ?p - ?p" by (simp add: left_diff_distrib)
  finally have err: "of_int \<bar>u\<bar> * ?p - of_int (?q * ?c) * ?p \<le> of_int ?c * ?p - ?p" .
  have "of_int (?q * ?c) * ?p \<le> of_int \<bar>u\<bar> * ?p"
    using le by (intro mult_right_mono) (simp_all only: of_int_le_iff p10_pos)
  then show ?thesis
    unfolding truncates_def v v' mk_sel pk using err sgn by (simp add: mval_sign)
qed

text \<open>Sizes for which no cast before \<open>pow10\<close> wraps.\<close>

definition big :: int where "big = 10 ^ 200"

definition small :: "int \<Rightarrow> int \<Rightarrow> bool" where
  "small u s = (\<bar>u\<bar> < big \<and> \<bar>s\<bar> \<le> 1000)"

lemma digits_gt_iff: "0 < n \<Longrightarrow> count_decimal_digits u > int n \<longleftrightarrow> 10 ^ n \<le> \<bar>u\<bar>"
proof -
  assume n: "0 < n"
  have "(10 ^ n \<le> \<bar>u\<bar>) = (10 ^ n \<le> nat \<bar>u\<bar>)" by (simp add: le_nat_iff)
  also have "\<dots> = (n < length (nat_to_dec (nat \<bar>u\<bar>)))"
    using length_nat_to_dec_gt [of n "nat \<bar>u\<bar>"] length_nat_to_dec_le [of "nat \<bar>u\<bar>" n] n by linarith
  finally show ?thesis by (simp add: count_decimal_digits_def)
qed

lemma count_decimal_digits_small: "\<bar>u\<bar> < big \<Longrightarrow> count_decimal_digits u \<le> 200"
  using digits_gt_iff [of 200 u] unfolding big_def by linarith

lemma math_context_cases:
  assumes "small u s"
  shows "(\<bar>u\<bar> < 10 ^ 64 \<and> apply_math_context_default (mk u s) = normalize_zero (mk u s))
    \<or> (\<exists>k. 10 ^ 64 \<le> \<bar>u\<bar> \<and> 0 < k \<and> k \<le> 200 \<and> apply_math_context_default (mk u s) = mk (u sdiv pow10 k) (s - k)
        \<and> 10 ^ 63 \<le> \<bar>u sdiv pow10 k\<bar> \<and> \<bar>u sdiv pow10 k\<bar> < 10 ^ 64)"
proof (cases "\<bar>u\<bar> < 10 ^ 64")
  case True
  then show ?thesis
    using digits_gt_iff [of 64 u]
    by (simp add: apply_math_context_default_def apply_precision_down_def MAX_DIGITS_def Let_def)
next
  case False
  let ?d = "count_decimal_digits u" let ?k = "?d - 64"
  have d: "64 < ?d" using False digits_gt_iff [of 64 u] by simp
  have d': "?d \<le> 200" using assms count_decimal_digits_small by (simp add: small_def)
  obtain n where n: "?d = int n" "n = length (nat_to_dec (nat \<bar>u\<bar>))"
    by (simp add: count_decimal_digits_def)
  have hi: "\<bar>u\<bar> < 10 ^ n"
    using nat_to_dec_lt [of "nat \<bar>u\<bar>"] n(2) by (simp add: nat_less_iff)
  have lo: "10 ^ (n - 1) \<le> \<bar>u\<bar>"
    using nat_to_dec_ge [of "nat \<bar>u\<bar>"] n(2) False by (simp add: le_nat_iff)
  define j where "j = n - 64"
  have j: "n = 64 + j" "0 < j" "?k = int j" using d n(1) j_def by simp_all
  have c: "pow10 ?k = 10 ^ j" using d' j(3) by (simp add: pow10_eq)
  have q: "\<bar>u sdiv 10 ^ j\<bar> = \<bar>u\<bar> div 10 ^ j" by (simp add: abs_sdiv_pos)
  have hi': "\<bar>u sdiv pow10 ?k\<bar> < 10 ^ 64"
    unfolding c q using hi j(1) by (simp add: power_add zdiv_less_iff)
  have "n - 1 = 63 + j" using j(1,2) by simp
  then have "10 ^ 63 * 10 ^ j \<le> \<bar>u\<bar>" using lo by (simp only: power_add)
  then have lo': "10 ^ 63 \<le> \<bar>u sdiv pow10 ?k\<bar>"
    unfolding c q by (simp add: zle_div_iff)
  then have "u sdiv pow10 ?k \<noteq> 0" by auto
  then have "apply_math_context_default (mk u s) = mk (u sdiv pow10 ?k) (s - ?k)"
    unfolding apply_math_context_default_def apply_precision_down_def MAX_DIGITS_def Let_def
    using d by (simp add: normalize_zero_def)
  moreover have "10 ^ 64 \<le> \<bar>u\<bar>" using False by linarith
  ultimately show ?thesis
    using d d' hi' lo' by (intro disjI2 exI [of _ ?k] conjI) linarith+
qed

text \<open>The context rounds, bounds the digits, and leaves a short number alone.\<close>

lemma math_context_rounds:
  assumes "small u s" "u \<noteq> 0"
  defines "m \<equiv> apply_math_context_default (mk u s)"
  shows "truncates (mk u s) m" "\<bar>m_unscaled m\<bar> < 10 ^ 64" "m_unscaled m \<noteq> 0"
    "m_scale m \<le> s" "s - 200 \<le> m_scale m" "m = mk u s \<or> 10 ^ 63 \<le> \<bar>m_unscaled m\<bar>"
  using math_context_cases [OF assms(1)] truncates_sdiv [of _ u s] assms(2)
  unfolding m_def by (auto simp: normalize_zero_def)

lemma math_context_short:
  "small u s \<Longrightarrow> \<bar>u\<bar> < 10 ^ 64 \<Longrightarrow> apply_math_context_default (mk u s) = normalize_zero (mk u s)"
  using math_context_cases [of u s] by linarith

lemma normalize_zero_sel:
  "m_unscaled (normalize_zero m) = m_unscaled m"
  "m_scale (normalize_zero m) = (if m_unscaled m = 0 then 0 else m_scale m)"
  by (simp_all add: normalize_zero_def)

lemma enforce_rounds:
  assumes "m_unscaled m \<noteq> 0" "\<bar>m_scale m\<bar> \<le> 2000"
  obtains m' where "enforce_max_decimal_places m = normalize_zero m'" "truncates m m'"
    "\<bar>m_unscaled m'\<bar> \<le> \<bar>m_unscaled m\<bar>" "m' = m \<and> m_scale m \<le> 44 \<or> m_scale m' = 44"
proof (cases "m_scale m > MAX_DECIMAL_PLACES")
  case False
  then show ?thesis
    using assms by (intro that [of m])
      (simp_all add: enforce_max_decimal_places_def normalize_zero_def MAX_DECIMAL_PLACES_def MAX_DIGITS_def)
next
  case True
  let ?k = "m_scale m - MAX_DECIMAL_PLACES"
  let ?q = "m_unscaled m sdiv pow10 ?k"
  have k: "0 \<le> ?k" "?k < 2 ^ 32" using True assms(2) by (simp_all add: MAX_DECIMAL_PLACES_def MAX_DIGITS_def)
  have t: "truncates m (mk ?q MAX_DECIMAL_PLACES)"
    using truncates_sdiv [OF k, of "m_unscaled m" "m_scale m"] by simp
  have "\<bar>?q\<bar> \<le> \<bar>m_unscaled m\<bar>" by (rule abs_sdiv_le) simp
  with t True show ?thesis
    by (intro that [of "mk ?q MAX_DECIMAL_PLACES"])
      (simp_all add: enforce_max_decimal_places_def Let_def, simp add: MAX_DECIMAL_PLACES_def MAX_DIGITS_def)
qed

text \<open>The range test of \<open>checkLimits\<close> is a comparison of values.\<close>

lemma in_range_mval: "in_range m \<longleftrightarrow> \<bar>mval m\<bar> \<le> of_int get_max_value"
proof -
  let ?s = "m_scale m"
  have split: "(10::rat) powi (- ?s) * 10 ^ nat ?s = 10 ^ nat (- ?s)"
  proof (cases "0 \<le> ?s")
    case True
    then show ?thesis by (simp add: p10_nonneg power_int_minus)
  next
    case False
    then show ?thesis using p10_nonneg [of "- ?s"] by simp
  qed
  have "\<bar>mval m\<bar> \<le> of_int get_max_value
      \<longleftrightarrow> \<bar>mval m\<bar> * 10 ^ nat ?s \<le> of_int get_max_value * 10 ^ nat ?s" by simp
  also have "\<bar>mval m\<bar> * 10 ^ nat ?s = of_int (\<bar>m_unscaled m\<bar> * 10 ^ nat (- ?s))"
    unfolding abs_mval by (simp add: mult.assoc split)
  also have "of_int get_max_value * 10 ^ nat ?s = (of_int (get_max_value * 10 ^ nat ?s) :: rat)" by simp
  finally show ?thesis unfolding in_range_def by (simp only: of_int_le_iff)
qed

lemma checkLimits_eq:
  assumes "\<bar>m_scale (enforce_max_decimal_places m)\<bar> < 2 ^ 32"
  shows "checkLimits m = (if in_range (enforce_max_decimal_places m)
           then Inr (enforce_max_decimal_places m) else Inl (Throw RuntimeError))"
proof -
  let ?m = "enforce_max_decimal_places m"
  have "\<bar>m_scale ?m - 0\<bar> < 2 ^ 32" using assms by simp
  note c = compare_values_val [OF this]
  have z: "mval (mk i 0) = of_int i" for i by (simp add: mval_mk)
  show ?thesis
    unfolding checkLimits_def Let_def c z in_range_mval mk_sel cmp3_def
    by (auto simp: get_min_value_def abs_le_iff)
qed

subsection \<open>What one rounding step guarantees\<close>

text \<open>\<open>rounds_down x r\<close>: \<open>r\<close> is the exact value \<open>x\<close> rounded towards zero, with an absolute error
  below \<open>10^-44\<close> or a relative error below \<open>10^-63\<close>.\<close>

definition rounds_down :: "rat \<Rightarrow> mininumber \<Rightarrow> bool" where
  "rounds_down x r = (\<bar>mval r\<bar> \<le> \<bar>x\<bar> \<and> (0 < mval r \<longrightarrow> 0 < x) \<and> (mval r < 0 \<longrightarrow> x < 0)
     \<and> (\<bar>x\<bar> - \<bar>mval r\<bar> < 10 powi -44 \<or> \<bar>x\<bar> - \<bar>mval r\<bar> < \<bar>mval r\<bar> * 10 powi -63))"

lemma rounds_down_exact: "mval r = x \<Longrightarrow> rounds_down x r"
  by (simp add: rounds_down_def)

text \<open>\<open>cut_at p m r\<close>: \<open>r\<close> is \<open>m\<close> truncated at decimal place \<open>p\<close>.\<close>

definition cut_at :: "int \<Rightarrow> mininumber \<Rightarrow> mininumber \<Rightarrow> bool" where
  "cut_at p m r = (\<bar>mval r\<bar> \<le> \<bar>mval m\<bar> \<and> (0 < mval r \<longrightarrow> 0 < mval m) \<and> (mval r < 0 \<longrightarrow> mval m < 0)
     \<and> \<bar>mval m\<bar> - \<bar>mval r\<bar> \<le> 10 powi (- p) - 10 powi (- m_scale m)
     \<and> (p = 44 \<or> p = m_scale m \<or> p = m_scale r \<and> 10 ^ 63 \<le> \<bar>m_unscaled r\<bar>))"

lemma full_digits: "10 ^ 63 \<le> \<bar>m_unscaled r\<bar> \<Longrightarrow> 10 powi (- m_scale r) \<le> \<bar>mval r\<bar> * 10 powi -63"
proof -
  assume "10 ^ 63 \<le> \<bar>m_unscaled r\<bar>"
  then have "(of_int (10 ^ 63) :: rat) \<le> of_int \<bar>m_unscaled r\<bar>" by (simp only: of_int_le_iff)
  then have "of_int (10 ^ 63) * (10::rat) powi (- m_scale r) \<le> \<bar>mval r\<bar>"
    unfolding abs_mval by (intro mult_right_mono) simp_all
  then have "of_int (10 ^ 63) * (10::rat) powi (- m_scale r) * 10 powi -63 \<le> \<bar>mval r\<bar> * 10 powi -63"
    by (intro mult_right_mono) simp_all
  moreover have "of_int (10 ^ 63) * (10::rat) powi -63 = 1" by simp
  ultimately show ?thesis by (simp add: mult.commute mult.left_commute)
qed

lemma cut_at_rounds_down:
  assumes "cut_at p m r" and x: "\<bar>mval m\<bar> \<le> \<bar>x\<bar>" "0 \<le> mval m * x"
    and err: "\<bar>x\<bar> - \<bar>mval m\<bar> < 10 powi (- m_scale m)" and e: "44 \<le> m_scale m \<or> x = mval m"
  shows "rounds_down x r"
proof -
  have c: "\<bar>mval r\<bar> \<le> \<bar>mval m\<bar>" "0 < mval r \<longrightarrow> 0 < mval m" "mval r < 0 \<longrightarrow> mval m < 0"
    "\<bar>mval m\<bar> - \<bar>mval r\<bar> \<le> 10 powi (- p) - 10 powi (- m_scale m)"
    and p: "p = 44 \<or> p = m_scale m \<or> p = m_scale r \<and> 10 ^ 63 \<le> \<bar>m_unscaled r\<bar>"
    using assms(1) by (auto simp: cut_at_def)
  have d: "\<bar>x\<bar> - \<bar>mval r\<bar> < 10 powi (- p)" using c(4) err by linarith
  have "\<bar>x\<bar> - \<bar>mval r\<bar> < 10 powi -44 \<or> \<bar>x\<bar> - \<bar>mval r\<bar> < \<bar>mval r\<bar> * 10 powi -63"
    using p
  proof (elim disjE conjE)
    assume "p = 44"
    then show ?thesis using d by simp
  next
    assume ps: "p = m_scale m"
    from e show ?thesis
    proof
      assume "44 \<le> m_scale m"
      then have "(10::rat) powi (- p) \<le> 10 powi -44" unfolding ps by (intro p10_mono) simp
      then show ?thesis using d by (intro disjI1) linarith
    next
      assume "x = mval m"
      moreover have "\<bar>mval m\<bar> - \<bar>mval r\<bar> \<le> 0" using c(4) unfolding ps by simp
      ultimately show ?thesis using p10_pos(1) [of "-44"] by (intro disjI1) linarith
    qed
  next
    assume "p = m_scale r" and f: "10 ^ 63 \<le> \<bar>m_unscaled r\<bar>"
    then show ?thesis using d full_digits [OF f] by (intro disjI2) simp
  qed
  moreover have "0 < mval m \<longrightarrow> 0 < x" "mval m < 0 \<longrightarrow> x < 0"
    using x by (auto simp: zero_le_mult_iff)
  ultimately show ?thesis unfolding rounds_down_def using c x(1) by auto
qed

lemma finish_zero: "finish 0 s = Inr (mk 0 0)"
proof -
  have "apply_math_context_default (mk 0 s) = mk 0 0"
    by (simp add: apply_math_context_default_def apply_precision_down_def count_decimal_digits_def
        nat_to_dec.simps MAX_DIGITS_def normalize_zero_def mk_def)
  moreover have e: "enforce_max_decimal_places (mk 0 0) = mk 0 0"
    by (simp add: enforce_max_decimal_places_def MAX_DECIMAL_PLACES_def MAX_DIGITS_def)
  moreover have "in_range (mk 0 0)" by (simp add: in_range_def get_max_value_def)
  ultimately show ?thesis by (simp add: checkLimits_eq)
qed

lemma mn_wf_zero [simp]: "mn_wf (mk 0 0)"
  by (simp add: mn_wf_def in_range_def get_max_value_def MAX_DECIMAL_PLACES_def MAX_DIGITS_def)

lemma finish_cases:
  assumes "small u s"
  obtains (ok) r p where "finish u s = Inr r" "mn_wf r" "cut_at p (mk u s) r"
    | (fail) "finish u s = Inl (Throw RuntimeError)" "of_int get_max_value < \<bar>mval (mk u s)\<bar>"
proof (cases "u = 0")
  case True
  have "cut_at s (mk u s) (mk 0 0)" using True by (simp add: cut_at_def mval_mk)
  then show ?thesis
    by (intro ok [of "mk 0 0" s]) (use True in \<open>simp_all add: finish_zero\<close>)
next
  case False
  define m where "m = apply_math_context_default (mk u s)"
  note mc = math_context_rounds [OF assms False, folded m_def]
  have sc: "\<bar>m_scale m\<bar> \<le> 2000" using mc(4,5) assms unfolding small_def by linarith
  obtain m' where en: "enforce_max_decimal_places m = normalize_zero m'" "truncates m m'"
    "\<bar>m_unscaled m'\<bar> \<le> \<bar>m_unscaled m\<bar>" "m' = m \<and> m_scale m \<le> 44 \<or> m_scale m' = 44"
    using enforce_rounds [OF mc(3) sc] by blast
  let ?r = "normalize_zero m'"
  have t: "truncates (mk u s) m'" using mc(1) en(2) by (rule truncates_trans)
  have sc': "\<bar>m_scale ?r\<bar> \<le> 2000" "m_scale ?r \<le> 44" using sc en(4) by (auto simp: normalize_zero_sel)
  then have c: "finish u s = (if in_range ?r then Inr ?r else Inl (Throw RuntimeError))"
    using checkLimits_eq [of m] en(1) by (simp add: m_def)
  show ?thesis
  proof (cases "in_range ?r")
    case True
    have "mn_wf ?r" using True sc'(2) en(3) mc(2)
      by (auto simp: mn_wf_def normalize_zero_sel MAX_DECIMAL_PLACES_def MAX_DIGITS_def)
    moreover have "m_scale m' = 44 \<or> m_scale m' = s \<or> m_scale m' = m_scale ?r \<and> 10 ^ 63 \<le> \<bar>m_unscaled ?r\<bar>"
      using en(4) mc(6) mc(3) by (auto simp: normalize_zero_sel)
    then have "cut_at (m_scale m') (mk u s) ?r"
      using t by (simp add: cut_at_def truncates_def)
    ultimately show ?thesis using c True by (intro ok) simp_all
  next
    case F: False
    then have "of_int get_max_value < \<bar>mval (mk u s)\<bar>"
      using t by (simp add: in_range_mval truncates_def)
    then show ?thesis using c F by (intro fail) simp_all
  qed
qed

lemma finish_short:
  assumes "small u s" "\<bar>u\<bar> < 10 ^ 64" "s \<le> MAX_DECIMAL_PLACES" "in_range (mk u s)"
  shows "finish u s = Inr (normalize_zero (mk u s))"
proof (cases "u = 0")
  case True
  then have "normalize_zero (mk u s) = mk 0 0" by (simp add: normalize_zero_def mk_def)
  then show ?thesis using True by (simp add: finish_zero)
next
  case False
  then have n: "normalize_zero (mk u s) = mk u s" by (simp add: normalize_zero_def)
  have e: "enforce_max_decimal_places (mk u s) = mk u s"
    using assms(3) by (simp add: enforce_max_decimal_places_def)
  show ?thesis
    using assms by (simp add: math_context_short n checkLimits_eq e small_def)
qed

lemma mn_wf_scale_lower: "mn_wf m \<Longrightarrow> - 77 \<le> m_scale m"
proof (rule ccontr)
  assume w: "mn_wf m" and "\<not> - 77 \<le> m_scale m"
  then have s: "78 \<le> nat (- m_scale m)" by linarith
  have u: "1 \<le> \<bar>m_unscaled m\<bar>" using w s by (auto simp: mn_wf_def)
  have "(10::int) ^ 78 \<le> 10 ^ nat (- m_scale m)" using s by (intro power_increasing) simp_all
  also have "\<dots> \<le> \<bar>m_unscaled m\<bar> * 10 ^ nat (- m_scale m)" using u by simp
  also have "\<dots> \<le> get_max_value" using w s by (simp add: mn_wf_def in_range_def)
  finally show False by (simp add: get_max_value_def)
qed

lemma mn_wf_scale: "mn_wf m \<Longrightarrow> \<bar>m_scale m\<bar> \<le> 77"
  using mn_wf_scale_lower [of m] unfolding mn_wf_def MAX_DECIMAL_PLACES_def MAX_DIGITS_def by linarith

lemma mn_wf_small: "mn_wf m \<Longrightarrow> small (m_unscaled m) (m_scale m)"
  using mn_wf_scale [of m] by (simp add: small_def big_def mn_wf_def)

text \<open>Copying a well-formed number is the identity, so by-value passing never fails for one.\<close>

lemma mn_copy_wf [simp]: "mn_wf m \<Longrightarrow> mn_copy m = Inr m"
  using finish_short [OF mn_wf_small, of m]
  by (auto simp: mn_wf_def mn_copy_def normalize_zero_def)

lemma mn_wf_consts [simp]:
  "mn_wf mn_ZERO" "mn_wf mn_ONE" "mn_wf mn_MINUSONE" "mn_wf mn_TEN" "mn_wf mn_TWOFIVESIX"
  "mn_wf mn_THOUSAND24" "mn_wf mn_BILLION"
  by (simp_all add: mn_wf_def mn_ZERO_def mn_ONE_def mn_MINUSONE_def mn_TEN_def mn_TWOFIVESIX_def
      mn_THOUSAND24_def mn_BILLION_def in_range_def get_max_value_def MAX_DECIMAL_PLACES_def MAX_DIGITS_def)

subsection \<open>Arithmetic against the rationals\<close>

lemma align_scales_bound:
  "align_scales a b = (ua, ub, sc) \<Longrightarrow> \<bar>m_unscaled a\<bar> < B \<Longrightarrow> \<bar>m_unscaled b\<bar> < B
    \<Longrightarrow> (0 \<le> m_scale a - m_scale b \<Longrightarrow> \<bar>m_unscaled b * pow10 (m_scale a - m_scale b)\<bar> < B)
    \<Longrightarrow> (0 \<le> m_scale b - m_scale a \<Longrightarrow> \<bar>m_unscaled a * pow10 (m_scale b - m_scale a)\<bar> < B)
    \<Longrightarrow> \<bar>ua\<bar> < B \<and> \<bar>ub\<bar> < B"
  unfolding align_scales_def by (cases "m_scale a" "m_scale b" rule: linorder_cases) auto

lemma mn_wf_align:
  assumes "mn_wf a" "mn_wf b" "align_scales a b = (ua, ub, sc)"
  shows "mval a = of_int ua * 10 powi (- sc)" "mval b = of_int ub * 10 powi (- sc)"
    "\<bar>ua\<bar> < 10 ^ 192" "\<bar>ub\<bar> < 10 ^ 192" "\<bar>sc\<bar> \<le> 77" "sc \<le> MAX_DECIMAL_PLACES"
proof -
  have sa: "\<bar>m_scale a\<bar> \<le> 77" and sb: "\<bar>m_scale b\<bar> \<le> 77" using assms(1,2) mn_wf_scale by auto
  then have d: "\<bar>m_scale a - m_scale b\<bar> < 2 ^ 32" by simp
  note v = align_scales_val [OF assms(3) d]
  show "mval a = of_int ua * 10 powi (- sc)" "mval b = of_int ub * 10 powi (- sc)"
    by (fact v(1), fact v(2))
  show "\<bar>sc\<bar> \<le> 77" "sc \<le> MAX_DECIMAL_PLACES" using v(3) sa sb assms(1,2) by (auto simp: mn_wf_def)
  have bound: "\<bar>u * pow10 k\<bar> < 10 ^ 192" if "\<bar>u\<bar> < 10 ^ 64" "0 \<le> k" "k \<le> 128" for u k
  proof -
    have "pow10 k = 10 ^ nat k" using that by (simp add: pow10_eq)
    also have "(10::int) ^ nat k \<le> 10 ^ 128" using that by (intro power_increasing) auto
    finally have "pow10 k \<le> 10 ^ 128" .
    then have "\<bar>u\<bar> * pow10 k < 10 ^ 64 * 10 ^ 128"
      using that(1) by (intro mult_less_le_imp_less) simp_all
    then show ?thesis by (simp add: abs_mult)
  qed
  have u: "\<bar>m_unscaled a\<bar> < 10 ^ 64" "\<bar>m_unscaled b\<bar> < 10 ^ 64" using assms(1,2) by (simp_all add: mn_wf_def)
  have e: "(10::int) ^ 64 < 10 ^ 192" by (rule power_strict_increasing) simp_all
  have u': "\<bar>m_unscaled a\<bar> < 10 ^ 192" "\<bar>m_unscaled b\<bar> < 10 ^ 192"
    using u e by linarith+
  have sc: "m_scale a - m_scale b \<le> 128" "m_scale b - m_scale a \<le> 128"
    using mn_wf_scale_lower [OF assms(1)] mn_wf_scale_lower [OF assms(2)] assms(1,2)
    by (simp_all add: mn_wf_def MAX_DECIMAL_PLACES_def MAX_DIGITS_def)
  note b1 = bound [OF u(2) _ sc(1)] and b2 = bound [OF u(1) _ sc(2)]
  note c = align_scales_bound [OF assms(3) u' b1 b2]
  show "\<bar>ua\<bar> < 10 ^ 192" by (rule conjunct1 [OF c]) assumption+
  show "\<bar>ub\<bar> < 10 ^ 192" by (rule conjunct2 [OF c]) assumption+
qed

text \<open>
  The specification of a rounded operation: a result is well formed and is the exact value
  rounded down; the only error is the range exception, and only when the exact magnitude passes
  the limit.
\<close>

definition rounded :: "rat \<Rightarrow> mininumber result \<Rightarrow> bool" where
  "rounded x r = (case r of Inr m \<Rightarrow> mn_wf m \<and> rounds_down x m
     | Inl e \<Rightarrow> e = Throw RuntimeError \<and> of_int get_max_value < \<bar>x\<bar>)"

lemma rounded_finish_cut:
  assumes "small u s" "44 \<le> s \<or> x = mval (mk u s)" "\<bar>mval (mk u s)\<bar> \<le> \<bar>x\<bar>" "0 \<le> mval (mk u s) * x"
    "\<bar>x\<bar> - \<bar>mval (mk u s)\<bar> < 10 powi (- s)"
  shows "rounded x (finish u s)"
proof (cases rule: finish_cases [OF assms(1)])
  case (1 r p)
  then show ?thesis using cut_at_rounds_down [OF 1(3), of x] assms by (auto simp: rounded_def)
next
  case 2
  then show ?thesis using assms(3) by (auto simp: rounded_def)
qed

lemma rounded_finish: "small u s \<Longrightarrow> mval (mk u s) = x \<Longrightarrow> rounded x (finish u s)"
  by (rule rounded_finish_cut) auto

lemma rounded_Inr: "rounded x (Inr m) \<Longrightarrow> mn_wf m \<and> rounds_down x m"
  by (simp add: rounded_def)

lemma mn_wf_sum_small:
  assumes "mn_wf a" "mn_wf b" "align_scales a b = (ua, ub, sc)"
  shows "small (ua + ub) sc" "small (ua - ub) sc"
proof -
  have e: "(10::int) ^ 192 + 10 ^ 192 \<le> big" by (simp add: big_def)
  have s: "\<bar>sc\<bar> \<le> 1000" using mn_wf_align(5) [OF assms] by linarith
  have "\<bar>ua\<bar> + \<bar>ub\<bar> < big" using mn_wf_align(3,4) [OF assms] e by (rule order.strict_trans2 [OF add_strict_mono])
  then have "\<bar>ua + ub\<bar> < big" "\<bar>ua - ub\<bar> < big"
    by (rule order.strict_trans1 [OF abs_triangle_ineq], rule order.strict_trans1 [OF abs_triangle_ineq4])
  then show "small (ua + ub) sc" "small (ua - ub) sc" using s by (simp_all add: small_def)
qed

lemma mn_add_rounded: "mn_wf a \<Longrightarrow> mn_wf b \<Longrightarrow> rounded (mval a + mval b) (mn_add a b)"
proof -
  assume w: "mn_wf a" "mn_wf b"
  obtain ua ub sc where al: "align_scales a b = (ua, ub, sc)" by (cases "align_scales a b")
  have "mval (mk (ua + ub) sc) = mval a + mval b"
    unfolding mn_wf_align(1,2) [OF w al] by (simp add: mval_mk distrib_right)
  from rounded_finish [OF mn_wf_sum_small(1) [OF w al] this] show ?thesis
    by (simp add: mn_add_def al)
qed

lemma mn_sub_rounded: "mn_wf a \<Longrightarrow> mn_wf b \<Longrightarrow> rounded (mval a - mval b) (mn_sub a b)"
proof -
  assume w: "mn_wf a" "mn_wf b"
  obtain ua ub sc where al: "align_scales a b = (ua, ub, sc)" by (cases "align_scales a b")
  have "mval (mk (ua - ub) sc) = mval a - mval b"
    unfolding mn_wf_align(1,2) [OF w al] by (simp add: mval_mk left_diff_distrib)
  from rounded_finish [OF mn_wf_sum_small(2) [OF w al] this] show ?thesis
    by (simp add: mn_sub_def al)
qed

lemma mn_mult_small:
  assumes "mn_wf a" "mn_wf b"
  shows "small (m_unscaled a * m_unscaled b) (m_scale a + m_scale b)"
proof -
  have "\<bar>m_unscaled a\<bar> * \<bar>m_unscaled b\<bar> < 10 ^ 64 * 10 ^ 64"
    using assms by (intro mult_strict_mono) (simp_all add: mn_wf_def)
  then show ?thesis
    using mn_wf_scale [OF assms(1)] mn_wf_scale [OF assms(2)]
    by (simp add: small_def big_def abs_mult)
qed

lemma mn_mult_rounded: "mn_wf a \<Longrightarrow> mn_wf b \<Longrightarrow> rounded (mval a * mval b) (mn_mult a b)"
  unfolding mn_mult_def by (rule rounded_finish [OF mn_mult_small]) (simp_all add: mval_def p10_add [of "- m_scale a" "- m_scale b", simplified])

lemma mn_compareTo_val: "mn_wf a \<Longrightarrow> mn_wf b \<Longrightarrow> mn_compareTo a b = cmp3 (mval a) (mval b)"
proof -
  assume w: "mn_wf a" "mn_wf b"
  have d: "\<bar>m_scale a - m_scale b\<bar> < 2 ^ 32"
    using mn_wf_scale [OF w(1)] mn_wf_scale [OF w(2)] by simp
  have v: "mval (mk \<bar>m_unscaled m\<bar> (m_scale m)) = \<bar>mval m\<bar>" for m by (simp add: mval_def abs_mult)
  show ?thesis
    unfolding mn_compareTo_def Let_def compare_values_val [OF d] v
    by (auto simp: cmp3_def mval_sign [symmetric] simp flip: mval_zero_iff)
qed

lemma mn_compare_val [num_simps]:
  assumes "mn_wf a" "mn_wf b"
  shows "mn_isEqual a b \<longleftrightarrow> mval a = mval b" "mn_isLess a b \<longleftrightarrow> mval a < mval b"
    "mn_isLessEqual a b \<longleftrightarrow> mval a \<le> mval b" "mn_isMore a b \<longleftrightarrow> mval a > mval b"
    "mn_isMoreEqual a b \<longleftrightarrow> mval a \<ge> mval b"
  using assms by (auto simp: mn_isEqual_def mn_isLess_def mn_isLessEqual_def mn_isMore_def
      mn_isMoreEqual_def mn_compareTo_val cmp3_def)

lemma mval_consts [simp]:
  "mval mn_ZERO = 0" "mval mn_ONE = 1" "mval mn_MINUSONE = -1" "mval mn_TEN = 10"
  "mval mn_TWOFIVESIX = 256" "mval mn_THOUSAND24 = 1024" "mval mn_BILLION = 10 ^ 9"
  by (simp_all add: mval_mk mn_ZERO_def mn_ONE_def mn_MINUSONE_def mn_TEN_def mn_TWOFIVESIX_def
      mn_THOUSAND24_def mn_BILLION_def)

lemma isValidMinimaValue_val [num_simps]: "mn_wf m \<Longrightarrow> isValidMinimaValue m \<longleftrightarrow> 0 < mval m \<and> mval m \<le> 10 ^ 9"
  by (auto simp: isValidMinimaValue_def mn_compare_val)
end
