(* ===== verification/NumberLaws.thy ===== *)
theory NumberLaws
  imports MiniNumber
begin

text \<open>
  The laws of \<open>MiniNumber\<close> arithmetic: which operations are exact, the rounding of division,
  closure of well-formedness, and the properties of the component.
\<close>

subsection \<open>Exact operations\<close>

text \<open>\<open>exactly x r\<close>: the operation succeeds and loses nothing.\<close>

definition exactly :: "rat \<Rightarrow> mininumber result \<Rightarrow> bool" where
  "exactly x r = (case r of Inr m \<Rightarrow> mn_wf m \<and> mval m = x | Inl e \<Rightarrow> False)"

lemma exactly_iff: "exactly x r \<longleftrightarrow> (\<exists>m. r = Inr m \<and> mn_wf m \<and> mval m = x)"
  by (cases r) (auto simp: exactly_def)

text \<open>A short number written with trailing zeros comes back with its value.\<close>

lemma finish_exact:
  assumes "small (u * 10 ^ k) s" "\<bar>u\<bar> < 10 ^ 64" "s \<le> 44"
    "\<bar>mval (mk (u * 10 ^ k) s)\<bar> \<le> of_int get_max_value"
  shows "exactly (mval (mk (u * 10 ^ k) s)) (finish (u * 10 ^ k) s)"
proof (cases "u = 0")
  case True
  then show ?thesis by (simp add: finish_zero exactly_def mval_mk)
next
  case False
  let ?u = "u * 10 ^ k" and ?x = "mval (mk (u * 10 ^ k) s)"
  have fin: "exactly ?x (finish ?u s)"
    if m: "apply_math_context_default (mk ?u s) = m" "mval m = ?x" "\<bar>m_unscaled m\<bar> < 10 ^ 64"
      "m_scale m \<le> s" "s - 200 \<le> m_scale m" for m
  proof -
    have u: "m_unscaled m \<noteq> 0" using mval_zero_iff [of m] mval_zero_iff [of "mk ?u s"] m(2) False by simp
    have e: "enforce_max_decimal_places m = m"
      using m(4) assms(3) by (simp add: enforce_max_decimal_places_def MAX_DECIMAL_PLACES_def MAX_DIGITS_def)
    have i: "in_range m" using assms(4) by (simp add: in_range_mval m(2))
    have "\<bar>s\<bar> \<le> 1000" using assms(1) by (simp add: small_def)
    then have "\<bar>m_scale m\<bar> \<le> 1200" using m(4,5) by linarith
    then have "\<bar>m_scale m\<bar> < 2 ^ 32" by simp
    then have "finish ?u s = Inr m" using checkLimits_eq [of m] by (simp add: m(1) e i)
    moreover have "mn_wf m" using m(3,4) u i assms(3)
      by (simp add: mn_wf_def MAX_DECIMAL_PLACES_def MAX_DIGITS_def)
    ultimately show ?thesis by (simp add: exactly_def m(2))
  qed
  from math_context_cases [OF assms(1)] show ?thesis
  proof (elim disjE exE conjE)
    assume "\<bar>?u\<bar> < 10 ^ 64" "apply_math_context_default (mk ?u s) = normalize_zero (mk ?u s)"
    then show ?thesis
      by (intro fin [of "mk ?u s"]) (use False in \<open>simp_all add: normalize_zero_def\<close>)
  next
    fix j assume j: "0 < j" "j \<le> 200" "apply_math_context_default (mk ?u s) = mk (?u sdiv pow10 j) (s - j)"
      and lo: "10 ^ 63 \<le> \<bar>?u sdiv pow10 j\<bar>" and hi: "\<bar>?u sdiv pow10 j\<bar> < 10 ^ 64"
    have p: "pow10 j = 10 ^ nat j" using j by (simp add: pow10_eq)
    have jk: "nat j \<le> k"
    proof (rule ccontr)
      assume "\<not> nat j \<le> k"
      then have "Suc k \<le> nat j" by simp
      then have le: "(10::int) ^ Suc k \<le> 10 ^ nat j" by (intro power_increasing) simp_all
      have "10 ^ 63 * pow10 j \<le> \<bar>?u\<bar>" using lo by (simp add: abs_sdiv_pos zle_div_iff)
      also have "\<bar>?u\<bar> = \<bar>u\<bar> * 10 ^ k" by (simp add: abs_mult)
      finally have "10 ^ 63 * 10 ^ Suc k \<le> \<bar>u\<bar> * 10 ^ k"
        using mult_left_mono [OF le, of "10 ^ 63"] unfolding p by (rule order_trans [rotated]) simp
      then have "(10 ^ 63 * 10) * 10 ^ k \<le> \<bar>u\<bar> * 10 ^ k" by (simp only: power_Suc mult.assoc)
      then have "10 ^ 63 * 10 \<le> \<bar>u\<bar>" by (rule mult_right_le_imp_le) simp
      then show False using assms(2) by simp
    qed
    have sp: "?u = u * 10 ^ (k - nat j) * 10 ^ nat j" using jk by (simp add: power_add [symmetric])
    have d: "?u sdiv pow10 j = u * 10 ^ (k - nat j)" unfolding p sp by (rule sdiv_mult_exact) simp
    have "of_int (10 ^ nat j) * (10::rat) powi (- s) = 10 powi (- (s - j))"
      using p10_add [of j "- s"] j(1) by (simp add: p10_nonneg)
    then have "mval (mk (u * 10 ^ (k - nat j)) (s - j)) = ?x"
      unfolding sp by (simp add: mval_mk mult.assoc)
    then show ?thesis using j hi unfolding d by (intro fin [OF j(3)]) (simp_all add: d)
  qed
qed


lemma normalize_zero_mk: "normalize_zero (mk u s) = (if u = 0 then mk 0 0 else mk u s)"
  by (simp add: normalize_zero_def mk_def)

lemma mn_copy_finish: "mn_copy (mk u s) = finish u s" "mn_copy (normalize_zero (mk u s)) = finish u s"
  by (simp_all add: mn_copy_def normalize_zero_mk finish_zero)

lemma exactly_finish_short:
  assumes "\<bar>u\<bar> < 10 ^ 64" "\<bar>s\<bar> \<le> 1000" "s \<le> 44" "\<bar>mval (mk u s)\<bar> \<le> of_int get_max_value"
  shows "exactly (mval (mk u s)) (finish u s)"
  using finish_exact [of u 0 s] assms by (simp add: small_def big_def)

lemma mn_wf_mval_max: "mn_wf m \<Longrightarrow> \<bar>mval m\<bar> \<le> of_int get_max_value"
  by (simp add: mn_wf_def flip: in_range_mval)

text \<open>Rescaling to the integers is exact on the values that are integers already.\<close>

lemma rescale_up:
  assumes "mn_wf m" "m_scale m < 0"
  shows "exactly (mval m) (finish (m_unscaled m * pow10 (- m_scale m)) 0)"
proof -
  let ?k = "nat (- m_scale m)"
  have k: "pow10 (- m_scale m) = 10 ^ ?k" "?k \<le> 77"
    using assms mn_wf_scale_lower [OF assms(1)] by (simp_all add: pow10_eq)
  have v: "mval (mk (m_unscaled m * 10 ^ ?k) 0) = mval m"
    using assms(2) by (simp add: mval_def p10_nonneg)
  have "\<bar>m_unscaled m\<bar> * 10 ^ ?k \<le> get_max_value"
    using assms by (simp add: mn_wf_def in_range_def)
  also have "\<dots> < big" by (simp add: big_def get_max_value_def)
  finally have "small (m_unscaled m * 10 ^ ?k) 0" by (simp add: small_def abs_mult)
  from finish_exact [OF this] show ?thesis
    using assms(1) mn_wf_mval_max [OF assms(1)] by (simp add: k(1) v mn_wf_def)
qed

lemma int_in_max: "\<bar>q\<bar> < 10 ^ 64 \<Longrightarrow> exactly (of_int q) (finish q 0)"
  using exactly_finish_short [of q 0] by (simp add: mval_mk get_max_value_def flip: of_int_abs)

lemma sdiv_floor:
  assumes d: "0 < d"
  shows "(if (u::int) smod d \<noteq> 0 \<and> u < 0 then u sdiv d - 1 else u sdiv d) = u div d"
proof -
  have "u mod d \<noteq> d" using pos_mod_bound [OF d, of u] by simp
  then show ?thesis using d
    by (auto simp: sdiv_pos smod_int_alt_def sgn_if zmod_zminus1_eq_if zdiv_zminus1_eq_if split: if_splits)
qed

lemma sdiv_ceil:
  assumes d: "0 < d"
  shows "(if (u::int) smod d \<noteq> 0 \<and> u > 0 then u sdiv d + 1 else u sdiv d) = - ((- u) div d)"
proof -
  have "u mod d \<noteq> d" using pos_mod_bound [OF d, of u] by simp
  then show ?thesis using d
    by (auto simp: sdiv_pos smod_int_alt_def sgn_if zmod_zminus1_eq_if zdiv_zminus1_eq_if split: if_splits)
qed

lemma mval_div: "0 < m_scale m \<Longrightarrow> m_scale m < 2 ^ 32 \<Longrightarrow> mval m = of_int (m_unscaled m) / of_int (pow10 (m_scale m))"
  by (simp add: mval_def of_int_pow10 power_int_minus field_simps)

lemma floor_mval: "0 < m_scale m \<Longrightarrow> m_scale m < 2 ^ 32 \<Longrightarrow> \<lfloor>mval m\<rfloor> = m_unscaled m div pow10 (m_scale m)"
  by (simp add: mval_div floor_divide_of_int_eq)

lemma ceiling_mval: "0 < m_scale m \<Longrightarrow> m_scale m < 2 ^ 32
  \<Longrightarrow> \<lceil>mval m\<rceil> = - ((- m_unscaled m) div pow10 (m_scale m))"
  using floor_divide_of_int_eq [of "- m_unscaled m" "pow10 (m_scale m)", where ?'a = rat]
  by (simp add: mval_div ceiling_def)

lemma abs_div_bound: "0 < d \<Longrightarrow> \<bar>u\<bar> < B \<Longrightarrow> \<bar>(u::int) div d\<bar> < B"
proof (cases "0 \<le> u")
  case True
  then show "0 < d \<Longrightarrow> \<bar>u\<bar> < B \<Longrightarrow> \<bar>u div d\<bar> < B"
    using abs_sdiv_le [of d u] by (simp add: sdiv_pos)
next
  case False
  assume d: "0 < d" and u: "\<bar>u\<bar> < B"
  have "u * d \<le> u * 1" using d False by (intro mult_left_mono_neg) simp_all
  then have "u \<le> u div d" using d by (simp add: zle_div_iff)
  moreover have "u div d < 0" using d False by (simp add: pos_imp_zdiv_neg_iff)
  ultimately show "\<bar>u div d\<bar> < B" using u by linarith
qed

lemma mn_floor_val: "mn_wf m \<Longrightarrow> exactly (of_int \<lfloor>mval m\<rfloor>) (mn_floor m)"
proof -
  assume w: "mn_wf m"
  have c: "mn_floor m = mn_copy (setScale_impl 0 FLOOR m)" using w by (simp add: mn_floor_def)
  have s: "m_scale m < 2 ^ 32" using mn_wf_scale [OF w] by simp
  consider "m_scale m = 0" | "m_scale m < 0" | "0 < m_scale m" by linarith
  then show ?thesis
  proof cases
    case 1
    then show ?thesis using w by (simp add: c setScale_impl_def exactly_def mval_def)
  next
    case 2
    then have "mval m = of_int (m_unscaled m * 10 ^ nat (- m_scale m))" by (simp add: mval_def p10_nonneg)
    then have e: "of_int \<lfloor>mval m\<rfloor> = mval m" by (metis floor_of_int)
    show ?thesis unfolding e
      using rescale_up [OF w 2] 2 by (simp add: c setScale_impl_def mn_copy_finish)
  next
    case 3
    have "setScale_impl 0 FLOOR m = normalize_zero (mk (m_unscaled m div pow10 (m_scale m)) 0)"
      using 3 by (simp add: setScale_impl_def Let_def sdiv_floor)
    moreover have "\<bar>m_unscaled m div pow10 (m_scale m)\<bar> < 10 ^ 64"
      using w by (intro abs_div_bound) (simp_all add: mn_wf_def)
    ultimately show ?thesis by (simp add: c mn_copy_finish int_in_max floor_mval [OF 3 s])
  qed
qed

lemma mn_ceil_val: "mn_wf m \<Longrightarrow> exactly (of_int \<lceil>mval m\<rceil>) (mn_ceil m)"
proof -
  assume w: "mn_wf m"
  have c: "mn_ceil m = mn_copy (setScale_impl 0 CEILING m)" using w by (simp add: mn_ceil_def)
  have s: "m_scale m < 2 ^ 32" using mn_wf_scale [OF w] by simp
  consider "m_scale m = 0" | "m_scale m < 0" | "0 < m_scale m" by linarith
  then show ?thesis
  proof cases
    case 1
    then show ?thesis using w by (simp add: c setScale_impl_def exactly_def mval_def)
  next
    case 2
    then have "mval m = of_int (m_unscaled m * 10 ^ nat (- m_scale m))" by (simp add: mval_def p10_nonneg)
    then have e: "of_int \<lceil>mval m\<rceil> = mval m" by (metis ceiling_of_int)
    show ?thesis unfolding e
      using rescale_up [OF w 2] 2 by (simp add: c setScale_impl_def mn_copy_finish)
  next
    case 3
    let ?d = "pow10 (m_scale m)"
    have "setScale_impl 0 CEILING m = normalize_zero (mk (- ((- m_unscaled m) div ?d)) 0)"
      using 3 by (simp add: setScale_impl_def Let_def sdiv_ceil)
    moreover have "\<bar>(- m_unscaled m) div ?d\<bar> < 10 ^ 64"
      using w by (intro abs_div_bound) (simp_all add: mn_wf_def)
    ultimately show ?thesis
      using int_in_max [of "- ((- m_unscaled m) div ?d)"] by (simp add: c mn_copy_finish ceiling_mval [OF 3 s])
  qed
qed

lemma mn_abs_val: "mn_wf m \<Longrightarrow> exactly \<bar>mval m\<bar> (mn_abs m)"
proof -
  assume w: "mn_wf m"
  have "mval (mk \<bar>m_unscaled m\<bar> (m_scale m)) = \<bar>mval m\<bar>" by (simp add: mval_def abs_mult)
  then show ?thesis
    using exactly_finish_short [of "\<bar>m_unscaled m\<bar>" "m_scale m"] w mn_wf_scale [OF w] mn_wf_mval_max [OF w]
    by (simp add: mn_abs_def mn_wf_def MAX_DECIMAL_PLACES_def MAX_DIGITS_def)
qed

text \<open>\<open>getAsBigInteger\<close> is the value truncated towards zero.\<close>

lemma getAsBigInteger_val:
  assumes "mn_wf m"
  shows "getAsBigInteger m = (if 0 \<le> mval m then \<lfloor>mval m\<rfloor> else \<lceil>mval m\<rceil>)"
proof (cases "m_scale m \<le> 0")
  case True
  have "pow10 (- m_scale m) = 10 ^ nat (- m_scale m)"
    using True mn_wf_scale_lower [OF assms] by (simp add: pow10_eq)
  then have "mval m = of_int (getAsBigInteger m)"
    using True by (simp add: mval_def getAsBigInteger_def p10_nonneg)
  then show ?thesis by (metis floor_of_int ceiling_of_int)
next
  case False
  then have s: "0 < m_scale m" "m_scale m < 2 ^ 32" using mn_wf_scale [OF assms] by simp_all
  show ?thesis
    using False by (simp add: getAsBigInteger_def floor_mval [OF s] ceiling_mval [OF s] mval_sign sdiv_pos)
qed

text \<open>The remainder of truncated division is exact.\<close>

lemma mn_modulo_val:
  assumes "mn_wf a" "mn_wf b" "mval b \<noteq> 0"
  obtains r q where "mn_modulo a b = Inr r" "mn_wf r" "mval a = of_int q * mval b + mval r"
    "\<bar>mval r\<bar> < \<bar>mval b\<bar>" "0 \<le> mval r * mval a"
proof -
  obtain ua ub sc where al: "align_scales a b = (ua, ub, sc)" by (cases "align_scales a b")
  note w = mn_wf_align [OF assms(1,2) al]
  let ?p = "(10::rat) powi (- sc)"
  let ?r = "ua smod ub" let ?q = "ua sdiv ub"
  have ub: "ub \<noteq> 0" using w(2) assms(3) by auto
  have r: "\<bar>?r\<bar> < \<bar>ub\<bar>" using smod_int_range [OF ub, of ua] by auto
  define z where "z = \<bar>ua\<bar> mod \<bar>ub\<bar>"
  have z: "0 \<le> z" "z \<le> \<bar>ua\<bar>" "?r = sgn ua * z"
    using ub by (simp_all add: z_def smod_int_alt_def zmod_le_nonneg_dividend)
  then have ra: "\<bar>?r\<bar> \<le> \<bar>ua\<bar>" and rs: "0 \<le> ?r * ua"
    by (auto simp: sgn_if abs_mult mult_le_0_iff)
  have "m_scale a \<ge> m_scale b \<Longrightarrow> ua = m_unscaled a" "m_scale a < m_scale b \<Longrightarrow> ub = m_unscaled b"
    using al by (auto simp: align_scales_def split: if_splits)
  then have r64: "\<bar>?r\<bar> < 10 ^ 64"
    using r ra assms(1,2) by (cases "m_scale a \<ge> m_scale b") (auto simp: mn_wf_def)
  have le: "\<bar>mval (mk ?r sc)\<bar> \<le> \<bar>mval a\<bar>"
    unfolding w(1) mval_mk abs_mult using ra by (intro mult_right_mono) (simp_all flip: of_int_abs)
  have lt: "\<bar>mval (mk ?r sc)\<bar> < \<bar>mval b\<bar>"
    unfolding w(2) mval_mk abs_mult using r by (intro mult_strict_right_mono) (simp_all flip: of_int_abs)
  have eq: "mval a = of_int ?q * mval b + mval (mk ?r sc)"
    unfolding w(1,2) mval_mk using sdiv_mult_smod_eq [of ua ub]
    by (metis (mono_tags, lifting) distrib_right mult.assoc of_int_add of_int_mult)
  have sg: "0 \<le> mval (mk ?r sc) * mval a"
  proof -
    have "0 \<le> (of_int ?r * of_int ua :: rat)" using rs by (simp flip: of_int_mult)
    then have "0 \<le> (of_int ?r * of_int ua) * (?p * ?p)" by (rule mult_nonneg_nonneg) simp_all
    then show ?thesis unfolding w(1) mval_mk by (simp only: mult_ac)
  qed
  have "exactly (mval (mk ?r sc)) (finish ?r sc)"
    using r64 w(5,6) le mn_wf_mval_max [OF assms(1)]
    by (intro exactly_finish_short) (simp_all add: MAX_DECIMAL_PLACES_def MAX_DIGITS_def)
  then obtain m where m: "finish ?r sc = Inr m" "mn_wf m" "mval m = mval (mk ?r sc)"
    by (auto simp: exactly_iff)
  moreover have "m_unscaled b \<noteq> 0" using assms(3) by simp
  ultimately have "mn_modulo a b = Inr m"
    by (simp add: mn_modulo_def remainder_toward_zero_def al Let_def minus_sdiv_mult_eq_smod)
  then show ?thesis using that [of m ?q] m(2,3) eq lt sg by simp
qed


text \<open>
  Division. The 66 extra digits of \<open>divide_with_context\<close> are enough for a correctly rounded
  quotient when the dividend has at most 22 and the divisor at most 66 trailing zeros folded into
  its scale.
\<close>

lemma sdiv_abs: "\<bar>(n::int) sdiv d\<bar> = \<bar>n\<bar> div \<bar>d\<bar>"
  by (cases "d = 0") (simp_all add: signed_divide_int_def abs_mult sgn_if zero_le_mult_iff pos_imp_zdiv_nonneg_iff)

lemma sdiv_sign: "0 \<le> ((n::int) sdiv d) * (n * d)"
proof -
  have "(n sdiv d) * (n * d) = (sgn n * n) * (sgn d * d) * (\<bar>n\<bar> div \<bar>d\<bar>)"
    by (simp add: signed_divide_int_def sgn_mult mult_ac)
  also have "\<dots> = \<bar>n\<bar> * \<bar>d\<bar> * (\<bar>n\<bar> div \<bar>d\<bar>)" by (simp add: abs_sgn mult.commute)
  also have "0 \<le> \<dots>" by (cases "d = 0") (auto simp: pos_imp_zdiv_nonneg_iff)
  finally show ?thesis .
qed

lemma mn_div_rounded:
  assumes "mn_wf a" "mn_wf b" "mval b \<noteq> 0" "-22 \<le> m_scale a" "-66 \<le> m_scale b"
  shows "rounded (mval a / mval b) (mn_div a b)"
proof -
  let ?ua = "m_unscaled a" let ?ub = "m_unscaled b" let ?s = "m_scale a + 66" let ?t = "m_scale b + 66"
  let ?N = "?ua * pow10 ?t" let ?Q = "?N sdiv ?ub" let ?p = "(10::rat) powi (- ?s)"
  let ?x = "mval a / mval b"
  have ub: "?ub \<noteq> 0" using assms(3) by simp
  have t: "0 \<le> ?t" "?t \<le> 110" "\<bar>?s\<bar> \<le> 1000"
    using assms(5) mn_wf_scale [OF assms(1)] assms(2) by (simp_all add: mn_wf_def MAX_DECIMAL_PLACES_def MAX_DIGITS_def)
  then have pt: "pow10 ?t = 10 ^ nat ?t" by (simp add: pow10_eq)
  have "(10::int) ^ nat ?t \<le> 10 ^ 110" using t by (intro power_increasing) simp_all
  moreover have "\<bar>?ua\<bar> < 10 ^ 64" using assms(1) by (simp add: mn_wf_def)
  ultimately have "\<bar>?ua\<bar> * pow10 ?t < 10 ^ 64 * 10 ^ 110"
    unfolding pt by (intro mult_less_le_imp_less) simp_all
  then have N: "\<bar>?N\<bar> < big" by (simp add: abs_mult big_def)
  have Qle: "\<bar>?Q\<bar> \<le> \<bar>?N\<bar>" unfolding sdiv_abs using ub zdiv_mono2 [of "\<bar>?N\<bar>" 1 "\<bar>?ub\<bar>"] by simp
  have small: "small ?Q ?s" using N Qle t(3) by (simp add: small_def)
  have x: "?x * of_int ?ub = of_int ?N * ?p"
  proof -
    have "of_int (pow10 ?t) = (10::rat) powi ?t" by (rule of_int_pow10) (use t in simp_all)
    then have "of_int (pow10 ?t) * ?p = (10::rat) powi (?t + (- ?s))" by (simp only: p10_add)
    also have "\<dots> = 10 powi (- m_scale a) * 10 powi (m_scale b)"
      unfolding p10_add [symmetric] by simp
    finally have "of_int ?N * ?p = of_int ?ua * (10 powi (- m_scale a) * 10 powi (m_scale b))"
      by (simp add: mult.assoc)
    then show ?thesis using ub by (auto simp: mval_def power_int_minus field_simps)
  qed
  then have ax: "\<bar>?x\<bar> * of_int \<bar>?ub\<bar> = of_int \<bar>?N\<bar> * ?p" by (metis abs_mult of_int_abs abs_of_nonneg p10_pos(2))
  have aQ: "\<bar>mval (mk ?Q ?s)\<bar> = of_int (\<bar>?N\<bar> div \<bar>?ub\<bar>) * ?p" by (simp add: abs_mval sdiv_abs)
  have d: "(\<bar>?N\<bar> div \<bar>?ub\<bar>) * \<bar>?ub\<bar> \<le> \<bar>?N\<bar>" "\<bar>?N\<bar> < (\<bar>?N\<bar> div \<bar>?ub\<bar> + 1) * \<bar>?ub\<bar>"
    using ub zle_div_iff [of "\<bar>?ub\<bar>" "\<bar>?N\<bar> div \<bar>?ub\<bar>" "\<bar>?N\<bar>"]
      zdiv_less_iff [of "\<bar>?ub\<bar>" "\<bar>?N\<bar>" "\<bar>?N\<bar> div \<bar>?ub\<bar> + 1"] by simp_all
  have ubp: "(0::rat) < of_int \<bar>?ub\<bar>" using ub by simp
  have lo: "\<bar>mval (mk ?Q ?s)\<bar> \<le> \<bar>?x\<bar>"
  proof -
    have "of_int ((\<bar>?N\<bar> div \<bar>?ub\<bar>) * \<bar>?ub\<bar>) * ?p \<le> of_int \<bar>?N\<bar> * ?p"
      using d(1) by (intro mult_right_mono) (simp_all only: of_int_le_iff p10_pos)
    then have "\<bar>mval (mk ?Q ?s)\<bar> * of_int \<bar>?ub\<bar> \<le> \<bar>?x\<bar> * of_int \<bar>?ub\<bar>"
      unfolding aQ ax by (simp only: of_int_mult mult_ac)
    then show ?thesis using ubp by (rule mult_right_le_imp_le)
  qed
  have hi: "\<bar>?x\<bar> - \<bar>mval (mk ?Q ?s)\<bar> < ?p"
  proof -
    have "of_int \<bar>?N\<bar> * ?p < of_int ((\<bar>?N\<bar> div \<bar>?ub\<bar> + 1) * \<bar>?ub\<bar>) * ?p"
      using d(2) by (intro mult_strict_right_mono) (simp_all only: of_int_less_iff p10_pos)
    then have "\<bar>?x\<bar> * of_int \<bar>?ub\<bar> < (\<bar>mval (mk ?Q ?s)\<bar> + ?p) * of_int \<bar>?ub\<bar>"
      unfolding aQ ax by (simp only: of_int_mult of_int_add of_int_1 algebra_simps mult_1_left mult_1_right)
    then have "\<bar>?x\<bar> < \<bar>mval (mk ?Q ?s)\<bar> + ?p"
      using ubp by (metis less_imp_le mult_less_cancel_right not_less)
    then show ?thesis by simp
  qed
  have sg: "0 \<le> mval (mk ?Q ?s) * ?x"
  proof -
    have "(0::rat) \<le> of_int (?Q * (?N * ?ub)) * (?p * ?p)"
      using sdiv_sign [of ?N ?ub] by (intro mult_nonneg_nonneg) (simp_all only: of_int_0_le_iff p10_pos)
    also have "\<dots> = (of_int ?Q * ?p) * (of_int ?N * ?p) * of_int ?ub" by (simp only: of_int_mult mult_ac)
    also have "\<dots> = (mval (mk ?Q ?s) * ?x) * (of_int ?ub * of_int ?ub)"
      unfolding x [symmetric] by (simp only: mval_mk mult_ac)
    finally have "0 * (of_int ?ub * of_int ?ub) \<le> (mval (mk ?Q ?s) * ?x) * (of_int ?ub * of_int ?ub)"
      by (simp only: mult_zero_left)
    moreover have "(0::rat) < of_int ?ub * of_int ?ub" using ub not_real_square_gt_zero by (simp flip: power2_eq_square)
    ultimately show ?thesis by (rule mult_right_le_imp_le)
  qed
  have "rounded ?x (finish ?Q ?s)"
    using assms(4) by (intro rounded_finish_cut small lo hi sg disjI1) simp
  then show ?thesis using ub by (simp add: mn_div_def divide_with_context_def MAX_DIGITS_def Let_def)
qed


subsection \<open>Closure\<close>

text \<open>An operation that can only fail with the range exception, and otherwise stays well formed.\<close>

definition safe :: "mininumber result \<Rightarrow> bool" where
  "safe r = (case r of Inr m \<Rightarrow> mn_wf m | Inl e \<Rightarrow> e = Throw RuntimeError)"

lemma safe_simps [simp]: "safe (Inr m) = mn_wf m" "safe (Inl e) = (e = Throw RuntimeError)"
  by (simp_all add: safe_def)

lemma rounded_safe: "rounded x r \<Longrightarrow> safe r"
  by (cases r) (simp_all add: rounded_def)

lemma exactly_safe: "exactly x r \<Longrightarrow> safe r"
  by (cases r) (simp_all add: exactly_def)

lemma safe_bind: "safe r \<Longrightarrow> (\<And>m. mn_wf m \<Longrightarrow> safe (f m)) \<Longrightarrow> safe (bindE r f)"
  by (cases r) simp_all

lemma mn_ops_safe [intro]:
  assumes "mn_wf a"
  shows "mn_wf b \<Longrightarrow> safe (mn_add a b)" "mn_wf b \<Longrightarrow> safe (mn_sub a b)" "mn_wf b \<Longrightarrow> safe (mn_mult a b)"
    "safe (mn_copy a)" "safe (mn_floor a)" "safe (mn_ceil a)" "safe (mn_abs a)"
  using assms
  by (auto intro: rounded_safe exactly_safe mn_add_rounded mn_sub_rounded mn_mult_rounded
      mn_floor_val mn_ceil_val mn_abs_val)

lemma mn_modulo_safe [intro]: "mn_wf a \<Longrightarrow> mn_wf b \<Longrightarrow> safe (mn_modulo a b)"
  by (cases "mval b = 0", simp add: mn_modulo_def remainder_toward_zero_def)
     (erule (2) mn_modulo_val, simp)

lemma pow_loop_safe: "mn_wf base \<Longrightarrow> mn_wf acc \<Longrightarrow> safe (pow_loop e base acc)"
proof (induction e base acc rule: pow_loop.induct)
  case (1 e base acc)
  have "safe (if odd e then mn_mult acc base else Inr acc)" using 1(2,3) by auto
  with 1 show ?case
    by (subst pow_loop.simps) (auto intro!: safe_bind)
qed

subsection \<open>Exact sums\<close>

text \<open>
  Below \<open>10^20\<close> no significant digit is lost: 20 integer digits and 44 decimals fit the 64 digits
  of the context. Token amounts are at most \<open>10^9\<close>, so their sums are exact.
\<close>

lemma finish_small_exact:
  assumes "\<bar>sc\<bar> \<le> 77" "sc \<le> 44" "\<bar>mval (mk u sc)\<bar> < 10 ^ 20"
  shows "exactly (mval (mk u sc)) (finish u sc)"
proof (rule exactly_finish_short)
  show "\<bar>sc\<bar> \<le> 1000" "sc \<le> 44" using assms by linarith+
  have "(10::rat) powi - 44 \<le> 10 powi - sc" using assms(2) by (intro p10_mono) simp
  then have "of_int \<bar>u\<bar> * (10::rat) powi -44 \<le> of_int \<bar>u\<bar> * 10 powi - sc" by (intro mult_left_mono) simp_all
  also have "\<dots> < 10 ^ 20" using assms(3) by (simp add: mval_mk abs_mult)
  finally have "of_int \<bar>u\<bar> * (10::rat) powi -44 * 10 ^ 44 < 10 ^ 20 * 10 ^ 44"
    by (rule mult_strict_right_mono) simp
  moreover have "(10::rat) powi -44 * 10 ^ 44 = 1" by (simp add: power_int_minus)
  ultimately have "(of_int \<bar>u\<bar> :: rat) < of_int (10 ^ 64)" by (simp only: mult.assoc mult_1_right power_add [symmetric]) simp
  then show "\<bar>u\<bar> < 10 ^ 64" by (simp only: of_int_less_iff)
  have "(10::rat) ^ 20 \<le> of_int get_max_value" by (simp add: get_max_value_def)
  then show "\<bar>mval (mk u sc)\<bar> \<le> of_int get_max_value" using assms(3) by linarith
qed

lemma mn_add_exact:
  assumes "mn_wf a" "mn_wf b" "\<bar>mval a + mval b\<bar> < 10 ^ 20"
  shows "exactly (mval a + mval b) (mn_add a b)"
proof -
  obtain ua ub sc where al: "align_scales a b = (ua, ub, sc)" by (cases "align_scales a b")
  have v: "mval (mk (ua + ub) sc) = mval a + mval b"
    unfolding mn_wf_align(1,2) [OF assms(1,2) al] by (simp add: mval_mk distrib_right)
  have "sc \<le> 44" using mn_wf_align(6) [OF assms(1,2) al] by (simp add: MAX_DECIMAL_PLACES_def MAX_DIGITS_def)
  from finish_small_exact [OF mn_wf_align(5) [OF assms(1,2) al] this, of "ua + ub"] assms(3)
  show ?thesis by (simp add: v mn_add_def al)
qed

text \<open>Summing a list with \<open>add\<close>, the loop of every balance computation of the node.\<close>

fun mn_sum :: "mininumber \<Rightarrow> mininumber list \<Rightarrow> mininumber result" where
  "mn_sum acc [] = Inr acc"
| "mn_sum acc (x # xs) = bindE (mn_add acc x) (\<lambda>acc'. mn_sum acc' xs)"

lemma mn_sum_exact:
  assumes "mn_wf acc" "\<forall>x \<in> set xs. mn_wf x \<and> 0 \<le> mval x" "0 \<le> mval acc"
    "mval acc + (\<Sum>x\<leftarrow>xs. mval x) < 10 ^ 20"
  shows "exactly (mval acc + (\<Sum>x\<leftarrow>xs. mval x)) (mn_sum acc xs)"
  using assms
proof (induction xs arbitrary: acc)
  case Nil
  then show ?case by (simp add: exactly_def)
next
  case (Cons x xs)
  have "0 \<le> (\<Sum>x\<leftarrow>xs. mval x)" using Cons.prems(2) by (intro sum_list_nonneg) auto
  moreover have "0 \<le> mval x" "mn_wf x" using Cons.prems(2) by simp_all
  ultimately have "exactly (mval acc + mval x) (mn_add acc x)"
    using Cons.prems by (intro mn_add_exact) simp_all
  then obtain m where m: "mn_add acc x = Inr m" "mn_wf m" "mval m = mval acc + mval x"
    by (auto simp: exactly_iff)
  have "exactly (mval m + (\<Sum>x\<leftarrow>xs. mval x)) (mn_sum m xs)"
    using Cons.prems m \<open>0 \<le> mval x\<close> by (intro Cons.IH) (simp_all add: add.assoc)
  then show ?case by (simp add: m add.assoc)
qed

subsection \<open>Properties\<close>

text \<open>C1 Addition, subtraction and multiplication of well-formed numbers return the exact rational
  result rounded towards zero with an absolute error below \<open>10^-44\<close> or a relative error below
  \<open>10^-63\<close>, in well-formed shape; they throw only when the exact magnitude passes \<open>2^256 - 1\<close>.\<close>

theorem arithmetic_rounded:
  assumes "mn_wf a" "mn_wf b"
  shows "rounded (mval a + mval b) (mn_add a b) \<and> rounded (mval a - mval b) (mn_sub a b)
    \<and> rounded (mval a * mval b) (mn_mult a b)"
  using assms by (simp add: mn_add_rounded mn_sub_rounded mn_mult_rounded)

theorem arithmetic_rounded_witness:
  "rounded (10 ^ 9 - 1) (mn_sub mn_BILLION mn_ONE) \<and> mn_sub mn_BILLION mn_ONE = Inr (mk 999999999 0)"
proof
  show "rounded (10 ^ 9 - 1) (mn_sub mn_BILLION mn_ONE)"
    using arithmetic_rounded [of mn_BILLION mn_ONE] by simp
  have "mn_wf (mk 999999999 0)"
    by (simp add: mn_wf_def in_range_def get_max_value_def MAX_DECIMAL_PLACES_def MAX_DIGITS_def)
  then show "mn_sub mn_BILLION mn_ONE = Inr (mk 999999999 0)"
    by (simp add: mn_sub_def align_scales_def mn_BILLION_def mn_ONE_def pow10_eq mn_copy_finish [symmetric])
qed

text \<open>C2 Division by a non-zero number is correctly rounded in the same sense when the scale of the
  dividend is at least \<open>-22\<close> and that of the divisor at least \<open>-66\<close> (every number written without
  an exponent has a non-negative scale after parsing its digits).\<close>

theorem division_rounded:
  assumes "mn_wf a" "mn_wf b" "mval b \<noteq> 0" "-22 \<le> m_scale a" "-66 \<le> m_scale b"
  shows "rounded (mval a / mval b) (mn_div a b)"
  by (rule mn_div_rounded) (fact assms)+

theorem division_rounded_witness: "rounded (1 / 256) (mn_div mn_ONE mn_TWOFIVESIX)"
  using division_rounded [of mn_ONE mn_TWOFIVESIX]
  by (simp add: mn_ONE_def mn_TWOFIVESIX_def) (simp flip: mn_ONE_def mn_TWOFIVESIX_def)

text \<open>Without the bound on the dividend's scale the division of \<open>MiniNumber\<close> loses every digit:
  \<open>10^77 / (10^63 * 10^10)\<close>, which is \<open>10^4\<close>, comes out as zero.\<close>

theorem division_underflow:
  "mn_wf (mk 1 (-77)) \<and> mn_wf (mk (10 ^ 63) (-10)) \<and> mn_div (mk 1 (-77)) (mk (10 ^ 63) (-10)) = Inr (mk 0 0)"
  by (simp add: mn_wf_def in_range_def get_max_value_def MAX_DECIMAL_PLACES_def MAX_DIGITS_def
      mn_div_def divide_with_context_def pow10_eq signed_divide_int_def finish_zero)

text \<open>The remainder is exact: dividend equals an integer multiple of the divisor plus the result,
  which is smaller than the divisor and has the sign of the dividend.\<close>

theorem modulo_exact:
  assumes "mn_wf a" "mn_wf b" "mval b \<noteq> 0"
  shows "\<exists>r q. mn_modulo a b = Inr r \<and> mn_wf r \<and> mval a = of_int q * mval b + mval r
    \<and> \<bar>mval r\<bar> < \<bar>mval b\<bar> \<and> 0 \<le> mval r * mval a"
  using mn_modulo_val [OF assms] by metis

theorem modulo_exact_witness:
  "\<exists>r q. mn_modulo mn_BILLION mn_TWOFIVESIX = Inr r \<and> mn_wf r \<and> 10 ^ 9 = of_int q * 256 + mval r
    \<and> \<bar>mval r\<bar> < 256 \<and> 0 \<le> mval r * 10 ^ 9"
  using modulo_exact [of mn_BILLION mn_TWOFIVESIX] by simp

text \<open>Rounding to an integer with \<open>floor\<close>, \<open>ceil\<close> and taking the absolute value never fail and
  are exact; \<open>getAsBigInteger\<close> truncates towards zero.\<close>

theorem rounding_exact:
  assumes "mn_wf m"
  shows "exactly (of_int \<lfloor>mval m\<rfloor>) (mn_floor m) \<and> exactly (of_int \<lceil>mval m\<rceil>) (mn_ceil m)
    \<and> exactly \<bar>mval m\<bar> (mn_abs m)
    \<and> getAsBigInteger m = (if 0 \<le> mval m then \<lfloor>mval m\<rfloor> else \<lceil>mval m\<rceil>)"
  using assms by (simp add: mn_floor_val mn_ceil_val mn_abs_val getAsBigInteger_val)

theorem rounding_exact_witness:
  "exactly (-3) (mn_floor (mk (-25) 1)) \<and> exactly (-2) (mn_ceil (mk (-25) 1))"
proof -
  have v: "mval (mk (-25) 1) = - (5 / 2)" by (simp add: mval_mk power_int_def)
  have "\<lfloor>- (5 / 2) :: rat\<rfloor> = -3" "\<lceil>- (5 / 2) :: rat\<rceil> = -2" by linarith+
  moreover have "mn_wf (mk (-25) 1)"
    by (simp add: mn_wf_def in_range_def get_max_value_def MAX_DECIMAL_PLACES_def MAX_DIGITS_def)
  ultimately show ?thesis using rounding_exact [of "mk (-25) 1"] unfolding v by simp
qed

text \<open>\<open>compareTo\<close> and the six comparison predicates agree with the order of the rational values,
  whatever the scales of the two numbers are.\<close>

theorem comparison_is_rational_order:
  assumes "mn_wf a" "mn_wf b"
  shows "(mn_isLess a b \<longleftrightarrow> mval a < mval b) \<and> (mn_isLessEqual a b \<longleftrightarrow> mval a \<le> mval b)
    \<and> (mn_isMore a b \<longleftrightarrow> mval a > mval b) \<and> (mn_isMoreEqual a b \<longleftrightarrow> mval a \<ge> mval b)
    \<and> (mn_isEqual a b \<longleftrightarrow> mval a = mval b)"
  using assms by (simp add: mn_compare_val)

theorem comparison_is_rational_order_witness: "mn_isLess mn_ONE mn_BILLION \<and> \<not> mn_isLess mn_TEN mn_ONE"
  using comparison_is_rational_order [of mn_ONE mn_BILLION] comparison_is_rational_order [of mn_TEN mn_ONE]
  by simp

end
