(* ===== verification/MiniNumberIO.thy ===== *)
theory MiniNumberIO
  imports NumberLaws
begin

text \<open>
  Text and wire forms of \<open>MiniNumber\<close> (\<open>src/org/minima/objects/base/mini_number.cpp\<close>): the decimal
  parser behind the string constructor, \<open>toString\<close>, and the stream format (scale byte, length
  byte, two's complement bytes). The lemmas show that both forms are read back with their value,
  and that \<open>toString\<close> is a canonical form of the value.
\<close>

unbundle bit_operations_syntax

subsection \<open>Parsing\<close>

text \<open>
  \<open>std::stoi\<close>: leading white space, a sign, at least one digit; anything after the digits is
  ignored. No digit and a value outside \<open>int\<close> both throw; the caller maps both to
  \<open>std::invalid_argument\<close>.
\<close>

definition stoi :: "string \<Rightarrow> int option" where
  "stoi str =
     (let s = dropWhile is_space str;
          neg = (s \<noteq> [] \<and> hd s = CHR ''-'');
          t = (if s \<noteq> [] \<and> (hd s = CHR ''-'' \<or> hd s = CHR ''+'') then tl s else s);
          ds = takeWhile is_digit t;
          v = (if neg then - int (dec_val ds) else int (dec_val ds))
      in if ds = [] then None
         else if v < - (2 ^ 31) \<or> 2 ^ 31 \<le> v then None else Some v)"

text \<open>The loop over the mantissa: digits read so far, number of fractional digits, dot seen.\<close>

fun mantissa_loop :: "string \<Rightarrow> string \<Rightarrow> int \<Rightarrow> bool \<Rightarrow> (string \<times> int) result" where
  "mantissa_loop [] digits frac_digits dot_seen = Inr (digits, frac_digits)"
| "mantissa_loop (c # cs) digits frac_digits dot_seen =
     (if c = CHR ''.'' then
        (if dot_seen then Inl (Throw InvalidArgument) else mantissa_loop cs digits frac_digits True)
      else if \<not> is_digit c then Inl (Throw InvalidArgument)
      else mantissa_loop cs (digits @ [c]) (if dot_seen then frac_digits + 1 else frac_digits) dot_seen)"

text \<open>\<open>scale = frac_digits - exponent\<close> is computed in \<open>int\<close>: leaving its range is undefined.\<close>

definition parse_decimal_string :: "string \<Rightarrow> (int \<times> int) result" where
  "parse_decimal_string s =
     (let str = trim s in
      if str = [] then Inl (Throw InvalidArgument)
      else let neg = (hd str = CHR ''-'');
               rest = (if hd str = CHR ''+'' \<or> hd str = CHR ''-'' then tl str else str);
               mantissa = takeWhile (\<lambda>c. c \<noteq> CHR ''e'' \<and> c \<noteq> CHR ''E'') rest;
               expo = dropWhile (\<lambda>c. c \<noteq> CHR ''e'' \<and> c \<noteq> CHR ''E'') rest
        in bindE (if expo = [] then Inr 0
                  else case stoi (tl expo) of None \<Rightarrow> Inl (Throw InvalidArgument) | Some e \<Rightarrow> Inr e)
             (\<lambda>exponent. bindE (mantissa_loop mantissa [] 0 False)
             (\<lambda>(digits, frac_digits).
               let core = dropWhile (\<lambda>c. c = CHR ''0'') digits in
               if core = [] then Inr (0, 0)
               else let scale = frac_digits - exponent; u = int (dec_val core) in
                 if scale < - (2 ^ 31) \<or> 2 ^ 31 \<le> scale then Inl Undef
                 else Inr (if neg then - u else u, scale))))"

text \<open>
  The string constructor. The context may still lower the scale; an \<open>int\<close> that leaves its range
  there, or a scale that cannot be negated for the comparison of \<open>checkLimits\<close>, is undefined. So is
  a string of \<open>2^31\<close> characters or more, whose digits no longer fit the \<open>int\<close> counters.
\<close>

definition mn_of_string :: "string \<Rightarrow> mininumber result" where
  "mn_of_string s =
     (if list_all (\<lambda>c. c \<in> {CHR '' '', char_of (9::nat), char_of (13::nat), char_of (10::nat)}) s
      then Inr (mk 0 0)
      else if 2 ^ 31 \<le> length s then Inl Undef
      else bindE (parse_decimal_string s) (\<lambda>(u, sc).
        let m = apply_math_context_default (mk u sc) in
        if m_scale m \<le> - (2 ^ 31) then Inl Undef else checkLimits m))"

text \<open>Compared as an integer, the bound on the length is cheap to evaluate.\<close>

lemma mn_of_string_code [code]:
  "mn_of_string s =
     (if list_all (\<lambda>c. c \<in> {CHR '' '', char_of (9::nat), char_of (13::nat), char_of (10::nat)}) s
      then Inr (mk 0 0)
      else if 2 ^ 31 \<le> int (length s) then Inl Undef
      else bindE (parse_decimal_string s) (\<lambda>(u, sc).
        let m = apply_math_context_default (mk u sc) in
        if m_scale m \<le> - (2 ^ 31) then Inl Undef else checkLimits m))"
  by (simp add: mn_of_string_def)

subsection \<open>Printing\<close>

definition to_plain_string :: "mininumber \<Rightarrow> string" where
  "to_plain_string m =
     (if m_unscaled m = 0 then ''0''
      else let digs = nat_to_dec (nat \<bar>m_unscaled m\<bar>); s = m_scale m;
               result =
                 (if s \<ge> 0 then
                    (if int (length digs) > s
                     then let ipos = length digs - nat s; intpart = take ipos digs;
                              frac = strip_zeros (drop ipos digs)
                          in if frac = [] then intpart else intpart @ ''.'' @ frac
                     else let frac = strip_zeros (replicate (nat (s - int (length digs))) CHR ''0'' @ digs)
                          in if frac = [] then ''0'' else ''0.'' @ frac)
                  else digs @ replicate (nat (- s)) CHR ''0'')
           in if m_unscaled m < 0 \<and> result \<noteq> ''0'' then CHR ''-'' # result else result)"

subsection \<open>The stream format\<close>

fun bit_length :: "nat \<Rightarrow> nat" where
  "bit_length n = (if n = 0 then 0 else Suc (bit_length (n div 2)))"

declare bit_length.simps [simp del]

definition to_twos_complement_bytes :: "int \<Rightarrow> byte list" where
  "to_twos_complement_bytes v =
     (if v = 0 then [0]
      else if v > 0 then
        let mag = be_bytes (nat v) in
        if mag \<noteq> [] \<and> (hd mag AND 0x80) \<noteq> 0 then 0 # mag else mag
      else let absval = nat (- v);
               nbits = bit_length absval;
               b = (nbits + 1 + 7) div 8;
               T = 2 ^ (8 * b) - absval;
               tmp = be_bytes T;
               out = (if length tmp < b then replicate (b - length tmp) 0 @ tmp else tmp)
           in if out \<noteq> [] \<and> (hd out AND 0x80) = 0 then 0xFF # out else out)"

definition from_twos_complement_bytes :: "byte list \<Rightarrow> int" where
  "from_twos_complement_bytes bytes =
     (if bytes = [] then 0
      else let v = int (be_val bytes) in
        if (hd bytes AND 0x80) = 0 then v else v - 2 ^ (8 * length bytes))"

definition mn_writeDataStream :: "mininumber \<Rightarrow> byte list" where
  "mn_writeDataStream m =
     (let bytes = to_twos_complement_bytes (m_unscaled m)
      in word_of_int (m_scale m) # of_nat (length bytes) # bytes)"

definition mn_readDataStream :: "mininumber reader" where
  "mn_readDataStream inp =
     bindE (read_n 1 inp) (\<lambda>(scale_byte, inp).
     bindE (read_n 1 inp) (\<lambda>(len_byte, inp).
       let len = sint (hd len_byte) in
       if len < 0 \<or> len > 32 then Inl (Throw IosFailure)
       else bindE (read_n (nat len) inp) (\<lambda>(bytes, inp).
         Inr (apply_math_context_default
                (mk (from_twos_complement_bytes bytes) (sint (hd scale_byte))), inp))))"

subsection \<open>Reading back what is printed\<close>

lemma takeWhile_all: "\<forall>x \<in> set xs. P x \<Longrightarrow> takeWhile P xs = xs"
  by (simp add: takeWhile_eq_all_conv)

lemma dropWhile_all: "\<forall>x \<in> set xs. P x \<Longrightarrow> dropWhile P xs = []"
  by (simp add: dropWhile_eq_Nil_conv)

lemma dropWhile_id: "s \<noteq> [] \<Longrightarrow> \<not> P (hd s) \<Longrightarrow> dropWhile P s = s"
  by (cases s) simp_all

lemma trim_id: "s \<noteq> [] \<Longrightarrow> \<not> is_space (hd s) \<Longrightarrow> \<not> is_space (last s) \<Longrightarrow> trim s = s"
  by (simp add: trim_def dropWhile_id hd_rev)

lemma is_digit_facts:
  assumes "is_digit c"
  shows "\<not> is_space c" "c \<noteq> CHR ''-''" "c \<noteq> CHR ''+''" "c \<noteq> CHR ''.''" "c \<noteq> CHR ''e''" "c \<noteq> CHR ''E''"
    "c \<noteq> CHR '' ''" "c \<noteq> CHR '',''"
  using assms by (auto simp: is_digit_def is_space_def Let_def)

lemma mantissa_digits:
  "\<forall>c \<in> set ds. is_digit c \<Longrightarrow> mantissa_loop (ds @ rest) acc f seen
     = mantissa_loop rest (acc @ ds) (if seen then f + int (length ds) else f) seen"
  by (induction ds arbitrary: acc f) (auto simp: is_digit_facts add.assoc)

lemma char_digit_0 [simp]: "char_digit CHR ''0'' = 0"
  by (simp add: char_digit_def)

lemma is_digit_0 [simp]: "is_digit CHR ''0''"
  by (simp add: is_digit_def)

lemma dec_val_Cons: "dec_val (c # s) = char_digit c * 10 ^ length s + dec_val s"
  using dec_val_append [of "[c]" s] dec_val_snoc [of "[]" c] by simp

lemma dec_val_replicate_0 [simp]: "dec_val (replicate n CHR ''0'') = 0"
  by (induction n) (simp_all add: dec_val_Cons)

lemma dec_val_strip_leading: "dec_val (dropWhile (\<lambda>c. c = CHR ''0'') s) = dec_val s"
  by (induction s) (simp_all add: dec_val_Cons)

lemma char_digit_eq_0: "is_digit c \<Longrightarrow> char_digit c = 0 \<longleftrightarrow> c = CHR ''0''"
  by (metis char_digit_0 digit_char_0 digit_char_char_digit)

lemma dec_val_eq_0: "\<forall>c \<in> set s. is_digit c \<Longrightarrow> dec_val s = 0 \<longleftrightarrow> dropWhile (\<lambda>c. c = CHR ''0'') s = []"
  by (induction s) (auto simp: dec_val_Cons char_digit_eq_0)

text \<open>The shape of a printed number: a sign, integer digits and, after a dot, fractional digits.\<close>

definition plain :: "bool \<Rightarrow> string \<Rightarrow> string \<Rightarrow> string" where
  "plain neg ip fr = (if neg then ''-'' else []) @ ip @ (if fr = [] then [] else ''.'' @ fr)"

definition plain_value :: "bool \<Rightarrow> string \<Rightarrow> string \<Rightarrow> int" where
  "plain_value neg ip fr = (if neg then - int (dec_val (ip @ fr)) else int (dec_val (ip @ fr)))"

lemma parse_plain:
  assumes "ip \<noteq> []" "\<forall>c \<in> set ip. is_digit c" "\<forall>c \<in> set fr. is_digit c" "length fr < 2 ^ 31"
  shows "parse_decimal_string (plain neg ip fr)
    = Inr (plain_value neg ip fr, if dec_val (ip @ fr) = 0 then 0 else int (length fr))"
proof -
  let ?s = "plain neg ip fr"
  define body where "body = ip @ (if fr = [] then [] else ''.'' @ fr)"
  have s: "?s = (if neg then CHR ''-'' # body else body)" by (simp add: plain_def body_def)
  have hd: "hd body \<in> set ip" using assms(1) by (simp add: body_def)
  have "last body \<in> set ip \<union> set fr" using assms(1) by (auto simp: body_def)
  then have sp: "\<not> is_space (hd body)" "\<not> is_space (last body)"
    using hd assms(2,3) is_digit_facts(1) by blast+
  have body: "body \<noteq> []" using assms(1) by (simp add: body_def)
  have t: "trim ?s = ?s"
    unfolding s using sp body by (intro trim_id) (auto simp: is_space_def Let_def)
  have noexp: "\<forall>c \<in> set body. c \<noteq> CHR ''e'' \<and> c \<noteq> CHR ''E''"
    using assms(2,3) by (auto simp: body_def dest: is_digit_facts(5,6))
  have hds: "hd body \<noteq> CHR ''-''" "hd body \<noteq> CHR ''+''"
    using hd assms(2) is_digit_facts by blast+
  have m: "mantissa_loop body [] 0 False = Inr (ip @ fr, int (length fr))"
    using mantissa_digits [OF assms(2), of "if fr = [] then [] else ''.'' @ fr" "[]" 0 False]
      mantissa_digits [OF assms(3), of "[]" ip 0 True] by (simp add: body_def)
  have dg: "\<forall>c \<in> set (ip @ fr). is_digit c" using assms(2,3) by auto
  have cut: "hd ?s = CHR ''-'' \<longleftrightarrow> neg" "?s \<noteq> []"
    "(if hd ?s = CHR ''+'' \<or> hd ?s = CHR ''-'' then tl ?s else ?s) = body"
    using hds body by (auto simp: s)
  have "parse_decimal_string ?s =
    (if dropWhile (\<lambda>c. c = CHR ''0'') (ip @ fr) = [] then Inr (0, 0)
     else Inr (plain_value neg ip fr, int (length fr)))"
    unfolding parse_decimal_string_def t Let_def cut(3) takeWhile_all [OF noexp] dropWhile_all [OF noexp]
    using cut(1,2) assms(4) by (simp add: m dec_val_strip_leading plain_value_def)
  then show ?thesis
    unfolding dec_val_eq_0 [OF dg, symmetric] by (simp add: plain_value_def)
qed

lemma strip_zeros_split: "\<exists>k. s = strip_zeros s @ replicate k CHR ''0''"
proof (induction s rule: rev_induct)
  case (snoc c s)
  show ?case
  proof (cases "c = CHR ''0''")
    case True
    then have "strip_zeros (s @ [c]) = strip_zeros s" by (simp add: strip_zeros_def)
    moreover obtain k where "s = strip_zeros s @ replicate k CHR ''0''" using snoc by blast
    ultimately have "s @ [c] = strip_zeros (s @ [c]) @ replicate (Suc k) CHR ''0''"
      using True by (metis append.assoc replicate_append_same replicate_Suc)
    then show ?thesis by blast
  next
    case False
    then have "strip_zeros (s @ [c]) = s @ [c]" by (simp add: strip_zeros_def)
    then show ?thesis by (metis append.right_neutral replicate_0)
  qed
qed (simp add: strip_zeros_def)

lemma strip_zeros_snoc0 [simp]: "strip_zeros (s @ ''0'') = strip_zeros s"
  by (simp add: strip_zeros_def)

lemma strip_zeros_all: "strip_zeros s = [] \<Longrightarrow> dec_val s = 0"
  using strip_zeros_split [of s] by (metis append_Nil dec_val_replicate_0)

text \<open>Cutting trailing zeros off the fraction keeps the value.\<close>

lemma plain_strip_val:
  "of_nat (dec_val (ip @ strip_zeros fr)) * (10::rat) powi (- int (length (strip_zeros fr)))
   = of_nat (dec_val (ip @ fr)) * 10 powi (- int (length fr))"
proof -
  obtain k where k: "fr = strip_zeros fr @ replicate k CHR ''0''" using strip_zeros_split by blast
  let ?g = "strip_zeros fr"
  have d: "dec_val (ip @ fr) = dec_val (ip @ ?g) * 10 ^ k"
    by (subst k) (simp add: dec_val_append [of "ip @ ?g", simplified])
  have "int (length fr) = int (length ?g) + int k" by (subst (1) k) simp
  then have "(10::rat) powi (- int (length ?g)) = 10 powi (- int (length fr)) * 10 powi (int k)"
    unfolding p10_add [symmetric] by simp
  then show ?thesis unfolding d by (simp add: p10_nonneg)
qed

lemma hd_nat_to_dec: "0 < n \<Longrightarrow> hd (nat_to_dec n) \<noteq> CHR ''0''"
proof (induction n rule: nat_to_dec.induct)
  case (1 n)
  show ?case
  proof (cases "n < 10")
    case True
    then have "char_digit (digit_char n) \<noteq> 0" using 1(2) by simp
    then have "digit_char n \<noteq> CHR ''0''" using char_digit_0 by metis
    then show ?thesis using True by (subst nat_to_dec.simps) simp
  next
    case False
    then show ?thesis using 1 by (subst nat_to_dec.simps) simp
  qed
qed

lemma dotted_neq_0 [simp]: "ip @ CHR ''.'' # fr \<noteq> ''0''"
  by (cases ip) auto

lemma to_plain_string_shape:
  assumes "m_unscaled m \<noteq> 0"
  obtains ip fr where "to_plain_string m = plain (m_unscaled m < 0) ip fr" "ip \<noteq> []"
    "\<forall>c \<in> set ip. is_digit c" "\<forall>c \<in> set fr. is_digit c" "int (length fr) \<le> max 0 (m_scale m)"
    "of_nat (dec_val (ip @ fr)) * 10 powi (- int (length fr)) = \<bar>mval m\<bar>"
proof -
  let ?u = "nat \<bar>m_unscaled m\<bar>" let ?s = "m_scale m"
  define digs where "digs = nat_to_dec ?u"
  have u: "0 < ?u" "int ?u = \<bar>m_unscaled m\<bar>" using assms by simp_all
  have dg: "\<forall>c \<in> set digs. is_digit c" unfolding digs_def by (rule nat_to_dec_digits)
  have tp: "to_plain_string m = (let result =
                 (if ?s \<ge> 0 then
                    (if int (length digs) > ?s
                     then let ipos = length digs - nat ?s; intpart = take ipos digs;
                              frac = strip_zeros (drop ipos digs)
                          in if frac = [] then intpart else intpart @ ''.'' @ frac
                     else let frac = strip_zeros (replicate (nat (?s - int (length digs))) CHR ''0'' @ digs)
                          in if frac = [] then ''0'' else ''0.'' @ frac)
                  else digs @ replicate (nat (- ?s)) CHR ''0'')
           in if m_unscaled m < 0 \<and> result \<noteq> ''0'' then CHR ''-'' # result else result)"
    using assms unfolding to_plain_string_def digs_def Let_def by (simp only: if_False)
  have dv: "dec_val digs = ?u" "hd digs \<noteq> CHR ''0''" "digs \<noteq> []" "0 < dec_val digs"
    using u(1) by (simp_all add: digs_def hd_nat_to_dec)
  have strip_dg: "\<forall>c \<in> set (strip_zeros fr). is_digit c" if "\<forall>c \<in> set fr. is_digit c" for fr
    using that unfolding strip_zeros_def by (auto dest: set_dropWhileD)
  have strip_le: "length (strip_zeros fr) \<le> length fr" for fr
    unfolding strip_zeros_def by (metis length_dropWhile_le length_rev)
  have val: "of_nat (dec_val (ip @ strip_zeros fr)) * (10::rat) powi (- int (length (strip_zeros fr))) = \<bar>mval m\<bar>"
    if "dec_val (ip @ fr) = ?u" "int (length fr) = ?s" for ip fr
  proof -
    have "(of_nat ?u :: rat) = of_int \<bar>m_unscaled m\<bar>" by simp
    then show ?thesis unfolding plain_strip_val that abs_mval by (simp only:)
  qed
  consider (frac) "0 \<le> ?s" "int (length digs) > ?s" | (small) "0 \<le> ?s" "int (length digs) \<le> ?s" | (big) "?s < 0"
    by linarith
  then show thesis
  proof cases
    case frac
    let ?ip = "take (length digs - nat ?s) digs" let ?fr = "drop (length digs - nat ?s) digs"
    have d: "dec_val (?ip @ ?fr) = ?u" by (simp add: dv)
    have "length ?fr = nat ?s" using frac by simp
    then have l: "int (length ?fr) = ?s" using frac by simp
    have ip: "?ip \<noteq> []" using frac by (simp add: nat_le_iff) auto
    have "?ip \<noteq> ''0''"
      using dv(2) ip by (metis hd_append2 append_take_drop_id list.sel(1))
    then have "to_plain_string m = plain (m_unscaled m < 0) ?ip (strip_zeros ?fr)"
      using assms frac by (simp add: tp Let_def plain_def)
    then show thesis
      using that [of ?ip "strip_zeros ?fr"] ip strip_dg dg val [OF d l] l strip_le [of ?fr] frac
      by (metis in_set_takeD in_set_dropD max.absorb2 of_nat_mono)
  next
    case small
    let ?fr = "replicate (nat (?s - int (length digs))) CHR ''0'' @ digs"
    have d: "dec_val (''0'' @ ?fr) = ?u" by (simp add: dec_val_append dec_val_Cons dv)
    have l: "int (length ?fr) = ?s" using small by simp
    have "dec_val ?fr \<noteq> 0" using dv(4) by (simp add: dec_val_append)
    then have ne: "strip_zeros ?fr \<noteq> []" using strip_zeros_all by metis
    then have "to_plain_string m = plain (m_unscaled m < 0) ''0'' (strip_zeros ?fr)"
      using assms small by (simp add: tp Let_def plain_def)
    moreover have "\<forall>c \<in> set ?fr. is_digit c" using dg by auto
    ultimately show thesis
      using that [of "''0''" "strip_zeros ?fr"] strip_dg [of ?fr] val [OF d l] l strip_le [of ?fr] small by simp
  next
    case big
    let ?ip = "digs @ replicate (nat (- ?s)) CHR ''0''"
    have "?ip \<noteq> ''0''" using dv(2,3) by (metis hd_append2 list.sel(1))
    then have "to_plain_string m = plain (m_unscaled m < 0) ?ip []"
      using assms big by (simp add: tp Let_def plain_def)
    moreover have "of_nat (dec_val ?ip) = \<bar>mval m\<bar>"
      using big by (simp add: dec_val_append dv abs_mval p10_nonneg)
    ultimately show thesis
      using dg dv(3) by (intro that [of ?ip "[]"]) auto
  qed
qed


text \<open>Another way of writing a well-formed value with at most as many decimals is read exactly.\<close>

lemma mn_wf_scale44: "mn_wf m \<Longrightarrow> m_scale m \<le> 44"
  by (simp add: mn_wf_def MAX_DECIMAL_PLACES_def MAX_DIGITS_def)

lemma finish_same_value:
  assumes w: "mn_wf m" and v: "mval (mk u s) = mval m" and s: "0 \<le> s" "s \<le> max 0 (m_scale m)"
  shows "exactly (mval m) (finish u s)" "small u s"
proof -
  have s44: "s \<le> 44" using s(2) mn_wf_scale44 [OF w] by linarith
  have "small u s \<and> exactly (mval m) (finish u s)"
  proof (cases "m_scale m < 0")
    case True
    then have s0: "s = 0" using s by simp
    have p: "pow10 (- m_scale m) = 10 ^ nat (- m_scale m)"
      using True mn_wf_scale_lower [OF w] by (simp add: pow10_eq)
    have "of_int u = (of_int (m_unscaled m * 10 ^ nat (- m_scale m)) :: rat)"
      using v True by (simp add: s0 mval_def p10_nonneg)
    then have u: "u = m_unscaled m * pow10 (- m_scale m)" unfolding p by (simp only: of_int_eq_iff)
    have "\<bar>u\<bar> \<le> get_max_value" using w True by (simp add: u p abs_mult mn_wf_def in_range_def)
    also have "get_max_value < big" by (simp add: get_max_value_def big_def)
    finally show ?thesis using rescale_up [OF w True] by (simp add: s0 small_def flip: u)
  next
    case False
    have "(of_int \<bar>u\<bar> :: rat) * 10 powi (- s) = of_int \<bar>m_unscaled m\<bar> * 10 powi (- m_scale m)"
      using v by (metis abs_mval mk_sel(1,2))
    also have "\<dots> \<le> of_int \<bar>m_unscaled m\<bar> * 10 powi (- s)"
      using False s by (intro mult_left_mono p10_mono) simp_all
    finally have "\<bar>u\<bar> \<le> \<bar>m_unscaled m\<bar>" by (simp flip: of_int_abs)
    then have u: "\<bar>u\<bar> < 10 ^ 64" using w by (simp add: mn_wf_def)
    have "\<bar>mval (mk u s)\<bar> \<le> of_int get_max_value" using mn_wf_mval_max [OF w] unfolding v .
    moreover have s1: "\<bar>s\<bar> \<le> 1000" using s s44 by simp
    ultimately have "exactly (mval (mk u s)) (finish u s)" using u s44 by (intro exactly_finish_short)
    moreover have "\<bar>u\<bar> < big" using u by (simp add: big_def)
    ultimately show ?thesis using s1 by (simp add: small_def v)
  qed
  then show "exactly (mval m) (finish u s)" "small u s" by simp_all
qed

lemma mn_of_string_plain:
  assumes "ip \<noteq> []" "\<forall>c \<in> set ip. is_digit c" "\<forall>c \<in> set fr. is_digit c"
    "mn_wf m" "mval m = (if neg then - 1 else 1) * (of_nat (dec_val (ip @ fr)) * 10 powi (- int (length fr)))"
    "int (length fr) \<le> max 0 (m_scale m)" "length (plain neg ip fr) < 2 ^ 31"
  shows "exactly (mval m) (mn_of_string (plain neg ip fr))"
proof -
  let ?u = "plain_value neg ip fr"
  define sc where "sc = (if dec_val (ip @ fr) = 0 then 0 else int (length fr))"
  have "length fr < 2 ^ 31" using assms(6) mn_wf_scale44 [OF assms(4)] by simp
  note p = parse_plain [OF assms(1-3) this, of neg, folded sc_def]
  have v: "mval (mk ?u sc) = mval m"
    using assms(5) by (simp add: plain_value_def mval_mk sc_def)
  have sc: "0 \<le> sc" "sc \<le> max 0 (m_scale m)" using assms(6) by (simp_all add: sc_def)
  note f = finish_same_value [OF assms(4) v sc]
  obtain c cs where ip: "ip = c # cs" "is_digit c" using assms(1,2) by (cases ip) auto
  have nb: "\<not> list_all (\<lambda>c. c \<in> {CHR '' '', char_of (9::nat), char_of (13::nat), char_of (10::nat)}) (plain neg ip fr)"
    using ip(2) by (auto simp: plain_def ip(1) is_digit_def)
  have "- (2 ^ 31) < m_scale (apply_math_context_default (mk ?u sc))"
  proof (cases "?u = 0")
    case True
    then show ?thesis using math_context_short [OF f(2)] by (simp add: normalize_zero_mk)
  next
    case False
    then show ?thesis using math_context_rounds(5) [OF f(2) False] sc(1) by simp
  qed
  then have "mn_of_string (plain neg ip fr) = finish ?u sc"
    unfolding mn_of_string_def if_not_P [OF nb] p using assms(7) by simp
  then show ?thesis using f(1) by simp
qed

lemma length_strip_zeros_le: "length x \<le> k \<Longrightarrow> length (strip_zeros x) \<le> k"
  using length_strip_zeros [of x] by linarith

lemma length_to_plain_string_le:
  "length (to_plain_string m)
     \<le> length (nat_to_dec (nat \<bar>m_unscaled m\<bar>)) + nat (m_scale m) + nat (- m_scale m) + 4"
proof -
  define ds where "ds = nat_to_dec (nat \<bar>m_unscaled m\<bar>)"
  define s where "s = m_scale m"
  have 1: "length (strip_zeros (drop (length ds - nat s) ds)) \<le> nat s"
    by (rule length_strip_zeros_le) simp
  have 2: "length (strip_zeros (replicate (nat (s - int (length ds))) CHR ''0'' @ ds)) \<le> nat s + length ds"
    by (rule length_strip_zeros_le) simp
  show ?thesis
    unfolding to_plain_string_def Let_def ds_def [symmetric] s_def [symmetric] using 1 2
    by (auto split: if_split)
qed

lemma length_to_plain_string: "mn_wf m \<Longrightarrow> length (to_plain_string m) < 2 ^ 31"
proof -
  assume w: "mn_wf m"
  then have "\<bar>m_unscaled m\<bar> < 10 ^ 64" by (simp only: mn_wf_def)
  then have "nat \<bar>m_unscaled m\<bar> < 10 ^ 64" by (simp only: nat_less_iff) simp
  then have "length (nat_to_dec (nat \<bar>m_unscaled m\<bar>)) \<le> 64" by (rule length_nat_to_dec_le) simp
  then show ?thesis using length_to_plain_string_le [of m] mn_wf_scale [OF w] by simp
qed

lemma mn_of_string_to_plain: "mn_wf m \<Longrightarrow> exactly (mval m) (mn_of_string (to_plain_string m))"
proof (cases "m_unscaled m = 0")
  case True
  have "exactly (mval mn_ZERO) (mn_of_string (plain False ''0'' []))"
    by (rule mn_of_string_plain) (simp_all add: dec_val_Cons plain_def)
  moreover have z: "mval m = 0" using True by simp
  ultimately show ?thesis unfolding z using True by (simp add: to_plain_string_def plain_def)
next
  case False
  assume w: "mn_wf m"
  obtain ip fr where sh: "to_plain_string m = plain (m_unscaled m < 0) ip fr" "ip \<noteq> []"
    "\<forall>c \<in> set ip. is_digit c" "\<forall>c \<in> set fr. is_digit c" "int (length fr) \<le> max 0 (m_scale m)"
    "of_nat (dec_val (ip @ fr)) * 10 powi (- int (length fr)) = \<bar>mval m\<bar>"
    using to_plain_string_shape [OF False] by blast
  have "mval m = (if m_unscaled m < 0 then - 1 else 1) * \<bar>mval m\<bar>"
    by (simp add: mval_sign [symmetric] abs_if)
  then show ?thesis unfolding sh(1) using w sh length_to_plain_string [OF w] by (intro mn_of_string_plain) simp_all
qed

subsection \<open>The printed form is canonical\<close>

lemma to_plain_string_shift:
  assumes "u \<noteq> 0"
  shows "to_plain_string (mk (u * 10) (s + 1)) = to_plain_string (mk u s)"
proof -
  define digs where "digs = nat_to_dec (nat \<bar>u\<bar>)"
  have d: "nat_to_dec (nat \<bar>u * 10\<bar>) = digs @ ''0''"
    using nat_to_dec_times_10 [of "nat \<bar>u\<bar>"] assms by (simp add: digs_def abs_mult nat_mult_distrib)
  have neg: "u * 10 < 0 \<longleftrightarrow> u < 0" "u * 10 \<noteq> 0" using assms by simp_all
  have len: "int (length (digs @ ''0'')) > s + 1 \<longleftrightarrow> int (length digs) > s" by simp
  consider "0 \<le> s" | "s = -1" | "s < -1" by linarith
  then show ?thesis
  proof cases
    case 1
    then have s: "0 \<le> s + 1" "nat (s + 1) = Suc (nat s)" by simp_all
    have z: "replicate n CHR ''0'' @ digs @ ''0'' = (replicate n CHR ''0'' @ digs) @ ''0''" for n by simp
    have frac: "drop (length digs - n) (digs @ ''0'') = drop (length digs - n) digs @ ''0''" for n by simp
    have ip: "take (length digs - n) (digs @ ''0'') = take (length digs - n) digs" for n by simp
    show ?thesis
      using 1 s neg assms
      unfolding to_plain_string_def mk_sel d digs_def [symmetric] len Let_def z strip_zeros_snoc0
      by (simp add: frac ip del: append_assoc)
  next
    case 2
    then show ?thesis
      using neg assms unfolding to_plain_string_def mk_sel d digs_def [symmetric]
      by (simp add: strip_zeros_def)
  next
    case 3
    then have "nat (- s) = Suc (nat (- (s + 1)))" by simp
    then have r: "replicate (nat (- s)) CHR ''0'' = CHR ''0'' # replicate (nat (- s - 1)) CHR ''0''" by simp
    show ?thesis
      using 3 neg assms unfolding to_plain_string_def mk_sel d digs_def [symmetric]
      by (simp add: Let_def r)
  qed
qed


lemma to_plain_string_shift_pow: "u \<noteq> 0 \<Longrightarrow> to_plain_string (mk (u * 10 ^ k) (s + int k)) = to_plain_string (mk u s)"
proof (induction k)
  case (Suc k)
  have e: "u * 10 ^ Suc k = u * 10 ^ k * 10" "s + int (Suc k) = s + int k + 1" by simp_all
  show ?case unfolding e using to_plain_string_shift [of "u * 10 ^ k" "s + int k"] Suc by simp
qed simp

lemma to_plain_string_value: "mval a = mval b \<Longrightarrow> m_scale a \<le> m_scale b \<Longrightarrow> to_plain_string a = to_plain_string b"
proof (cases "m_unscaled a = 0")
  case True
  assume "mval a = mval b"
  then have "m_unscaled b = 0" using True by (metis mval_zero_iff)
  then show ?thesis using True by (simp add: to_plain_string_def)
next
  case False
  assume v: "mval a = mval b" and le: "m_scale a \<le> m_scale b"
  define k where "k = nat (m_scale b - m_scale a)"
  have k: "m_scale b = m_scale a + int k" using le by (simp add: k_def)
  have "of_int (m_unscaled b) * (10::rat) powi (- m_scale b) = of_int (m_unscaled a) * 10 powi (int k + (- m_scale b))"
    using v unfolding mval_def by (simp add: k)
  then have "of_int (m_unscaled b) = (of_int (m_unscaled a * 10 ^ k) :: rat)"
    unfolding p10_add by (simp add: p10_nonneg)
  then have "m_unscaled b = m_unscaled a * 10 ^ k" by (simp only: of_int_eq_iff)
  then show ?thesis using to_plain_string_shift_pow [OF False, of k "m_scale a"] by (metis k mk_sel(3))
qed

lemma to_plain_string_eq_iff:
  assumes "mn_wf a" "mn_wf b"
  shows "to_plain_string a = to_plain_string b \<longleftrightarrow> mval a = mval b"
proof
  assume "to_plain_string a = to_plain_string b"
  then show "mval a = mval b"
    using mn_of_string_to_plain [OF assms(1)] mn_of_string_to_plain [OF assms(2)] by (auto simp: exactly_iff)
next
  assume "mval a = mval b"
  then show "to_plain_string a = to_plain_string b"
    using to_plain_string_value [of a b] to_plain_string_value [of b a] by (cases "m_scale a \<le> m_scale b") auto
qed

text \<open>The characters of a printed number.\<close>

lemma to_plain_string_chars: "\<forall>c \<in> set (to_plain_string m). is_digit c \<or> c = CHR ''-'' \<or> c = CHR ''.''"
proof (cases "m_unscaled m = 0")
  case False
  from to_plain_string_shape [OF this] obtain ip fr where
    "to_plain_string m = plain (m_unscaled m < 0) ip fr"
    "\<forall>c \<in> set ip. is_digit c" "\<forall>c \<in> set fr. is_digit c" by metis
  then show ?thesis by (auto simp: plain_def)
qed (simp add: to_plain_string_def)

subsection \<open>The stream form\<close>

lemma bit_length_bound: "n < 2 ^ bit_length n"
proof (induction n rule: bit_length.induct)
  case (1 n)
  then show ?case by (cases "n = 0") (subst bit_length.simps; simp)+
qed

lemma bit_length_ge: "0 < n \<Longrightarrow> 2 ^ (bit_length n - 1) \<le> n"
proof (induction n rule: bit_length.induct)
  case (1 n)
  show ?case
  proof (cases "n div 2 = 0")
    case True
    then show ?thesis using 1(2) by (subst bit_length.simps) (simp add: bit_length.simps)
  next
    case False
    then have "2 ^ (bit_length (n div 2) - 1) \<le> n div 2" using 1 by simp
    moreover have "bit_length (n div 2) \<noteq> 0" using False by (subst bit_length.simps) simp
    ultimately show ?thesis using 1(2)
      by (subst bit_length.simps) (cases "bit_length (n div 2)", auto)
  qed
qed

lemma byte_top_bit: "(b :: byte) AND 0x80 = 0 \<longleftrightarrow> unat b < 128"
proof -
  have "b AND 0x80 = 0 \<longleftrightarrow> \<not> bit b 7"
    using and_exp_eq_0_iff_not_bit [of b 7] by simp
  also have "bit b 7 \<longleftrightarrow> bit (unat b) 7" by (simp add: bit_unsigned_iff)
  also have "\<dots> \<longleftrightarrow> odd (unat b div 128)" by (simp add: bit_iff_odd)
  also have "\<dots> \<longleftrightarrow> \<not> unat b < 128"
  proof -
    have "unat b div 128 < 2" using unat_byte_lt [of b] by (simp add: less_mult_imp_div_less del: unat_byte_lt)
    then have "odd (unat b div 128) \<longleftrightarrow> unat b div 128 \<noteq> 0" by (cases "unat b div 128") auto
    also have "unat b div 128 \<noteq> 0 \<longleftrightarrow> \<not> unat b < 128" by (simp add: div_eq_0_iff)
    finally show ?thesis .
  qed
  finally show ?thesis by simp
qed

lemma from_twos_complement_val:
  "bs \<noteq> [] \<Longrightarrow> from_twos_complement_bytes bs
    = (if unat (hd bs) < 128 then int (be_val bs) else int (be_val bs) - 2 ^ (8 * length bs))"
  by (simp add: from_twos_complement_bytes_def byte_top_bit Let_def)

lemma unat_hd_be_val: "bs \<noteq> [] \<Longrightarrow> unat (hd bs) < 128 \<longleftrightarrow> 2 * be_val bs < 256 ^ length bs"
proof -
  assume "bs \<noteq> []"
  then obtain b cs where bs: "bs = b # cs" by (cases bs) auto
  define p where "p = (256 ^ length cs :: nat)"
  have c: "be_val cs < p" unfolding p_def by (rule be_val_lt)
  have v: "be_val bs = unat b * p + be_val cs" unfolding bs p_def by (rule be_val_Cons)
  show ?thesis
  proof (cases "unat b < 128")
    case True
    then have "unat b + 1 \<le> 128" by simp
    then have "(unat b + 1) * p \<le> 128 * p" by (rule mult_right_mono) simp
    then have "unat b * p + p \<le> 128 * p" by (simp only: distrib_right mult_1)
    moreover define q where "q = unat b * p"
    ultimately have "2 * be_val bs < 256 * p" using c unfolding v q_def [symmetric] by presburger
    then show ?thesis using True by (simp add: bs p_def)
  next
    case False
    then have "128 * p \<le> unat b * p" by (intro mult_right_mono) simp_all
    moreover define q where "q = unat b * p"
    ultimately have "128 * p \<le> q" by simp
    then have "\<not> 2 * be_val bs < 256 * p" unfolding v q_def [symmetric] by presburger
    then show ?thesis using False by (simp add: bs p_def)
  qed
qed

lemma to_twos_complement_neg:
  assumes "v < 0"
  defines "b \<equiv> (bit_length (nat (- v)) + 1 + 7) div 8"
  obtains t where "to_twos_complement_bytes v = t" "length t = b" "t \<noteq> []"
    "int (be_val t) = 2 ^ (8 * b) + v" "\<not> unat (hd t) < 128"
proof -
  define a where "a = nat (- v)"
  define T where "T = 2 ^ (8 * b) - a"
  have a: "0 < a" "v = - int a" using assms(1) by (simp_all add: a_def)
  have "a < 2 ^ bit_length a" by (rule bit_length_bound)
  moreover have "bit_length a + 1 \<le> 8 * b" unfolding b_def a_def by linarith
  then have "(2::nat) ^ (bit_length a + 1) \<le> 2 ^ (8 * b)" by (intro power_increasing) simp_all
  ultimately have half: "2 * a < 2 ^ (8 * b)" by simp
  then have T: "int T = 2 ^ (8 * b) - int a" "0 < T" by (simp_all add: T_def of_nat_diff)
  have p: "(256::nat) ^ b = 2 ^ (8 * b)" by (simp add: power_mult)
  have dbl: "2 ^ (8 * b) < 2 * T" using half by (simp add: T_def)
  let ?t = "be_bytes T"
  have "T < 256 ^ b" using a(1) half by (simp add: T_def p)
  then have "length ?t \<le> b" by (rule length_be_bytes_le)
  moreover have "b \<le> length ?t"
  proof (rule ccontr)
    assume "\<not> b \<le> length ?t"
    then have "Suc (length ?t) \<le> b" by simp
    then have "(256::nat) ^ Suc (length ?t) \<le> 256 ^ b" by (intro power_increasing) simp_all
    moreover have "T < 256 ^ length ?t" using be_val_lt [of ?t] by simp
    ultimately show False using dbl unfolding p by simp
  qed
  ultimately have l: "length ?t = b" by simp
  have ne: "?t \<noteq> []" using T(2) by simp
  have "\<not> 2 * be_val ?t < 256 ^ length ?t" using dbl by (simp add: l p)
  then have top: "\<not> unat (hd ?t) < 128" using unat_hd_be_val [OF ne] by blast
  have "to_twos_complement_bytes v = ?t"
    using assms(1) l top ne unfolding to_twos_complement_bytes_def
    by (simp add: Let_def byte_top_bit T_def b_def a_def)
  then show thesis using that [of ?t] l ne T(1) a(2) top by simp
qed

lemma from_to_twos_complement: "from_twos_complement_bytes (to_twos_complement_bytes v) = v"
proof -
  consider "v = 0" | "v > 0" | "v < 0" by linarith
  then show ?thesis
  proof cases
    case 1
    then show ?thesis by (simp add: to_twos_complement_bytes_def from_twos_complement_bytes_def be_val_Cons)
  next
    case 2
    then have m: "be_bytes (nat v) \<noteq> []" by simp
    then show ?thesis using 2
      by (cases "unat (hd (be_bytes (nat v))) < 128")
        (simp_all add: to_twos_complement_bytes_def byte_top_bit Let_def from_twos_complement_val be_val_Cons)
  next
    case 3
    from to_twos_complement_neg [OF this] show ?thesis
      by (metis add_diff_cancel_left' from_twos_complement_val)
  qed
qed

lemma to_twos_complement_length:
  assumes "\<bar>v\<bar> < 256 ^ k" "0 < k"
  shows "length (to_twos_complement_bytes v) \<le> k + 1"
proof -
  consider "v = 0" | "v > 0" | "v < 0" by linarith
  then show ?thesis
  proof cases
    case 1
    then show ?thesis by (simp add: to_twos_complement_bytes_def)
  next
    case 2
    then have "length (be_bytes (nat v)) \<le> k"
      using assms(1) by (intro length_be_bytes_le) (simp add: nat_less_iff)
    then show ?thesis using 2 by (simp add: to_twos_complement_bytes_def Let_def)
  next
    case 3
    define n where "n = bit_length (nat (- v))"
    have "2 ^ (n - 1) \<le> nat (- v)" unfolding n_def using 3 by (intro bit_length_ge) simp
    moreover have "nat (- v) < 256 ^ k" using assms(1) 3 by (simp add: nat_less_iff)
    ultimately have "(2::nat) ^ (n - 1) < 256 ^ k" by (rule le_less_trans)
    then have "(2::nat) ^ (n - 1) < 2 ^ (8 * k)" by (simp add: power_mult)
    then have "n - 1 < 8 * k" using power_less_imp_less_exp by fastforce
    then have "(n + 1 + 7) div 8 \<le> k + 1" by linarith
    then show ?thesis using to_twos_complement_neg [OF 3] by (metis n_def)
  qed
qed

lemma mn_stream_roundtrip:
  assumes "mn_wf m"
  shows "mn_readDataStream (mn_writeDataStream m @ rest) = Inr (m, rest)"
proof -
  let ?b = "to_twos_complement_bytes (m_unscaled m)"
  have "\<bar>m_unscaled m\<bar> < 256 ^ 27" using assms by (simp add: mn_wf_def)
  then have l: "length ?b \<le> 28" using to_twos_complement_length [of "m_unscaled m" 27] by simp
  have sl: "sint (of_nat (length ?b) :: byte) = int (length ?b)"
    using l by (simp add: signed_of_nat signed_take_bit_int_eq_self)
  have ss: "sint (word_of_int (m_scale m) :: byte) = m_scale m"
    using mn_wf_scale [OF assms] by (simp add: signed_of_int signed_take_bit_int_eq_self)
  have c: "apply_math_context_default m = m"
    using math_context_short [OF mn_wf_small [OF assms]] assms by (auto simp: mn_wf_def normalize_zero_def)
  show ?thesis
    using l by (simp add: mn_readDataStream_def mn_writeDataStream_def Let_def read_n_def sl ss c from_to_twos_complement)
qed

subsection \<open>Every string\<close>

text \<open>The string constructor yields a well-formed number or an error, whatever its argument.\<close>

lemma context_digits:
  assumes "count_decimal_digits u < 2 ^ 32"
  shows "\<bar>m_unscaled (apply_math_context_default (mk u s))\<bar> < 10 ^ 64"
    "m_scale (apply_math_context_default (mk u s)) \<le> max s 0"
proof -
  let ?n = "count_decimal_digits u"
  define k where "k = ?n - 64"
  have hi: "\<bar>u\<bar> < 10 ^ nat ?n"
    using nat_to_dec_lt [of "nat \<bar>u\<bar>"] by (simp add: count_decimal_digits_def nat_less_iff)
  have "\<bar>u sdiv pow10 k\<bar> < 10 ^ 64" if "64 < ?n"
  proof -
    have "pow10 k = 10 ^ nat k" using that assms by (intro pow10_eq) (simp_all add: k_def)
    moreover have "nat ?n = 64 + nat k" using that by (simp add: k_def)
    then have "\<bar>u\<bar> < 10 ^ 64 * 10 ^ nat k" using hi by (simp only: power_add)
    ultimately show ?thesis by (simp add: abs_sdiv_pos zdiv_less_iff)
  qed
  moreover have "\<bar>u\<bar> < 10 ^ 64" if "\<not> 64 < ?n"
    using that digits_gt_iff [of 64 u] by simp
  ultimately show "\<bar>m_unscaled (apply_math_context_default (mk u s))\<bar> < 10 ^ 64"
    unfolding apply_math_context_default_def apply_precision_down_def MAX_DIGITS_def Let_def k_def
    by (simp add: normalize_zero_sel del: power_numeral)
  show "m_scale (apply_math_context_default (mk u s)) \<le> max s 0"
    unfolding apply_math_context_default_def apply_precision_down_def MAX_DIGITS_def Let_def
    by (auto simp: normalize_zero_sel)
qed

lemma checkLimits_outcome:
  assumes "\<bar>m_unscaled m\<bar> < 10 ^ 64" "\<bar>m_scale m\<bar> < 2 ^ 31" "m_unscaled m = 0 \<longrightarrow> m_scale m = 0"
  shows "outcome {Throw RuntimeError} mn_wf (checkLimits m)"
proof -
  let ?e = "enforce_max_decimal_places m"
  have s: "m_scale ?e \<le> MAX_DECIMAL_PLACES" "\<bar>m_scale ?e\<bar> < 2 ^ 31"
    using assms(2)
    by (simp_all add: enforce_max_decimal_places_def Let_def normalize_zero_sel MAX_DECIMAL_PLACES_def MAX_DIGITS_def)
  have u: "\<bar>m_unscaled ?e\<bar> \<le> \<bar>m_unscaled m\<bar>"
    by (simp add: enforce_max_decimal_places_def Let_def normalize_zero_sel abs_sdiv_le)
  have z: "m_unscaled ?e = 0 \<longrightarrow> m_scale ?e = 0"
    using assms(3) by (simp add: enforce_max_decimal_places_def Let_def normalize_zero_sel)
  have "\<bar>m_scale ?e\<bar> < 2 ^ 32" using s(2) by simp
  note c = checkLimits_eq [OF this]
  have "\<bar>m_unscaled ?e\<bar> < 10 ^ 64" using u assms(1) by (rule le_less_trans)
  then show ?thesis unfolding c mn_wf_def using s(1) z by (cases "in_range ?e") simp_all
qed

lemma mantissa_loop_outcome:
  "\<forall>c \<in> set acc. is_digit c \<Longrightarrow> outcome {Throw InvalidArgument}
     (\<lambda>(ds, g). length ds \<le> length ms + length acc \<and> (\<forall>c \<in> set ds. is_digit c)) (mantissa_loop ms acc f d)"
  by (induction ms acc f d rule: mantissa_loop.induct) (auto elim!: outcome_mono)

lemma parse_decimal_outcome:
  assumes "length s < n"
  shows "outcome {Throw InvalidArgument, Undef} (\<lambda>(u, sc). \<bar>u\<bar> < 10 ^ n \<and> sc < 2 ^ 31) (parse_decimal_string s)"
proof -
  let ?E = "{Throw InvalidArgument, Undef}"
  let ?str = "trim s"
  define rest where "rest = (if hd ?str = CHR ''+'' \<or> hd ?str = CHR ''-'' then tl ?str else ?str)"
  define ma where "ma = takeWhile (\<lambda>c. c \<noteq> CHR ''e'' \<and> c \<noteq> CHR ''E'') rest"
  have "length ma \<le> length rest" by (simp add: ma_def length_takeWhile_le)
  also have "\<dots> \<le> length ?str" by (simp add: rest_def)
  also have "\<dots> \<le> length s" by (rule length_trim)
  finally have ma: "length ma < n" using assms by simp
  have u: "int (dec_val (dropWhile (\<lambda>c. c = CHR ''0'') ds)) < 10 ^ n" (is "int (dec_val ?core) < _")
    if "length ds \<le> length ma" "\<forall>c \<in> set ds. is_digit c" for ds
  proof -
    have "dec_val ?core < 10 ^ length ?core" using that by (intro dec_val_lt) (auto dest: set_dropWhileD)
    also have "\<dots> \<le> 10 ^ n"
      using that ma length_dropWhile_le [of "\<lambda>c. c = CHR ''0''" ds] by (intro power_increasing) linarith+
    finally have "int (dec_val ?core) < int (10 ^ n)" by (simp only: of_nat_less_iff)
    then show ?thesis by simp
  qed
  have body: "outcome ?E (\<lambda>(u, sc). \<bar>u\<bar> < 10 ^ n \<and> sc < 2 ^ 31) (bindE (mantissa_loop ma [] 0 False)
        (\<lambda>(digits, frac_digits).
          if dropWhile (\<lambda>c. c = CHR ''0'') digits = [] then Inr (0, 0)
          else if frac_digits - exponent < - (2 ^ 31) \<or> 2 ^ 31 \<le> frac_digits - exponent then Inl Undef
          else Inr (if hd ?str = CHR ''-'' then - int (dec_val (dropWhile (\<lambda>c. c = CHR ''0'') digits))
                    else int (dec_val (dropWhile (\<lambda>c. c = CHR ''0'') digits)), frac_digits - exponent)))"
    for exponent :: int
  proof (rule outcome_bind)
    show "outcome ?E (\<lambda>(ds, g). length ds \<le> length ma \<and> (\<forall>c \<in> set ds. is_digit c)) (mantissa_loop ma [] 0 False)"
      by (rule outcome_mono [OF mantissa_loop_outcome]) auto
  next
    fix p :: "string \<times> int"
    assume p: "(\<lambda>(ds, g). length ds \<le> length ma \<and> (\<forall>c \<in> set ds. is_digit c)) p"
    obtain ds g where [simp]: "p = (ds, g)" by (cases p)
    have b: "int (dec_val (dropWhile (\<lambda>c. c = CHR ''0'') ds)) < 10 ^ n" using p by (intro u) simp_all
    show "outcome ?E (\<lambda>(u, sc). \<bar>u\<bar> < 10 ^ n \<and> sc < 2 ^ 31) ((\<lambda>(digits, frac_digits).
          if dropWhile (\<lambda>c. c = CHR ''0'') digits = [] then Inr (0, 0)
          else if frac_digits - exponent < - (2 ^ 31) \<or> 2 ^ 31 \<le> frac_digits - exponent then Inl Undef
          else Inr (if hd ?str = CHR ''-'' then - int (dec_val (dropWhile (\<lambda>c. c = CHR ''0'') digits))
                    else int (dec_val (dropWhile (\<lambda>c. c = CHR ''0'') digits)), frac_digits - exponent)) p)"
      using b by (simp split: if_split)
  qed
  show ?thesis
    unfolding parse_decimal_string_def Let_def rest_def [symmetric] ma_def [symmetric]
    by (intro outcome_if outcome_bind [where P = "\<lambda>_. True"] body) (simp_all split: option.split)
qed

lemma count_decimal_digits_le: "\<bar>u\<bar> < 10 ^ k \<Longrightarrow> 0 < k \<Longrightarrow> count_decimal_digits u \<le> int k"
  unfolding count_decimal_digits_def by (simp add: length_nat_to_dec_le nat_less_iff)

lemma mn_of_string_outcome:
  "outcome {Throw InvalidArgument, Throw RuntimeError, Undef} mn_wf (mn_of_string s)"
proof -
  let ?E = "{Throw InvalidArgument, Throw RuntimeError, Undef}"
  have m: "outcome ?E mn_wf (if m_scale (apply_math_context_default (mk u sc)) \<le> - (2 ^ 31) then Inl Undef
        else checkLimits (apply_math_context_default (mk u sc)))"
    if "\<bar>u\<bar> < 10 ^ N" "0 < N" "int N < 2 ^ 32" "sc < 2 ^ 31" for u sc N
  proof -
    let ?m = "apply_math_context_default (mk u sc)"
    have "count_decimal_digits u < 2 ^ 32"
      using count_decimal_digits_le [OF that(1,2)] that(3) by (rule le_less_trans)
    note c = context_digits [OF this, of sc]
    have z: "m_unscaled ?m = 0 \<longrightarrow> m_scale ?m = 0"
      unfolding apply_math_context_default_def apply_precision_down_def MAX_DIGITS_def Let_def
      by (simp add: normalize_zero_sel)
    have "outcome {Throw RuntimeError} mn_wf (checkLimits ?m)" if "\<not> m_scale ?m \<le> - (2 ^ 31)"
    proof (rule checkLimits_outcome [OF c(1) _ z])
      show "\<bar>m_scale ?m\<bar> < 2 ^ 31" using that c(2) \<open>sc < 2 ^ 31\<close> by linarith
    qed
    then show ?thesis by (auto elim: outcome_mono)
  qed
  show ?thesis
  proof (cases "2 ^ 31 \<le> length s")
    case True
    then show ?thesis by (simp add: mn_of_string_def)
  next
    case False
    define N :: nat where "N = 2 ^ 31"
    have N: "0 < N" "int N < 2 ^ 32" "length s < N" using False by (simp_all add: N_def)
    have "outcome ?E mn_wf (bindE (parse_decimal_string s) (\<lambda>(u, sc).
        let m = apply_math_context_default (mk u sc) in
        if m_scale m \<le> - (2 ^ 31) then Inl Undef else checkLimits m))"
    proof (rule outcome_bind)
      show "outcome ?E (\<lambda>(u, sc). \<bar>u\<bar> < 10 ^ N \<and> sc < 2 ^ 31) (parse_decimal_string s)"
        by (rule outcome_mono [OF parse_decimal_outcome [OF N(3)]]) simp_all
    next
      fix p :: "int \<times> int"
      assume "(\<lambda>(u, sc). \<bar>u\<bar> < 10 ^ N \<and> sc < 2 ^ 31) p"
      then show "outcome ?E mn_wf ((\<lambda>(u, sc). let m = apply_math_context_default (mk u sc) in
        if m_scale m \<le> - (2 ^ 31) then Inl Undef else checkLimits m) p)"
        using m [OF _ N(1,2)] by (simp only: Let_def split_beta)
    qed
    then show ?thesis using False by (simp add: mn_of_string_def)
  qed
qed

subsection \<open>Properties\<close>

text \<open>C3 Printing and parsing a well-formed number gives back its value, exactly and without an
  exception, also when the printed digits with their zeros exceed the 64 of the context.\<close>

theorem decimal_roundtrip:
  assumes "mn_wf m"
  shows "exactly (mval m) (mn_of_string (to_plain_string m))"
  using assms by (rule mn_of_string_to_plain)

theorem decimal_roundtrip_witness: "exactly (10 ^ 9) (mn_of_string (to_plain_string mn_BILLION))"
  using decimal_roundtrip [of mn_BILLION] by simp

text \<open>\<open>toString\<close> is canonical: two well-formed numbers print alike exactly when they are equal as
  numbers, whatever their scales. The script machine relies on it: printed numbers are the keys of
  its arrays and the way a number is compared with a string.\<close>

theorem toString_canonical:
  assumes "mn_wf a" "mn_wf b"
  shows "to_plain_string a = to_plain_string b \<longleftrightarrow> mn_isEqual a b"
  using assms by (simp add: to_plain_string_eq_iff mn_compare_val)

theorem toString_canonical_witness: "to_plain_string (mk 10 0) = to_plain_string mn_TEN"
proof -
  have "mn_wf (mk 10 0)"
    by (simp add: mn_wf_def in_range_def get_max_value_def MAX_DECIMAL_PLACES_def MAX_DIGITS_def)
  then show ?thesis using toString_canonical [of "mk 10 0" mn_TEN] by (simp add: mn_compare_val mval_mk)
qed

text \<open>The stream form of a well-formed number is read back as the same number, and reading consumes
  exactly the bytes that were written.\<close>

theorem number_stream_roundtrip:
  assumes "mn_wf m"
  shows "mn_readDataStream (mn_writeDataStream m @ rest) = Inr (m, rest)"
  using assms by (rule mn_stream_roundtrip)

theorem number_stream_roundtrip_witness:
  "mn_readDataStream (mn_writeDataStream mn_BILLION @ [7]) = Inr (mn_BILLION, [7])"
  using number_stream_roundtrip [of mn_BILLION "[7]"] by simp

end
