(* ===== verification/DataTypes.thy ===== *)
theory DataTypes
  imports Streamable MiniNumberIO
begin

text \<open>
  Byte strings of the node: the base 16 and base 32 codecs (\<open>src/org/minima/utils/base_converter.cpp\<close>),
  \<open>MiniData\<close> with its lazily cached numeric value, \<open>MiniString\<close> and \<open>MiniByte\<close>
  (\<open>src/org/minima/objects/base\<close>). The codecs work on characters and on big-endian magnitudes the
  way the code does; the lemmas relate them to the numeric value \<open>be_val\<close>.
\<close>

subsection \<open>Characters\<close>

definition to_upper :: "char \<Rightarrow> char" where
  "to_upper c = (let n = of_char c :: nat in if 97 \<le> n \<and> n \<le> 122 then char_of (n - 32) else c)"

definition to_lower :: "char \<Rightarrow> char" where
  "to_lower c = (let n = of_char c :: nat in if 65 \<le> n \<and> n \<le> 90 then char_of (n + 32) else c)"

definition bytes_of_string :: "string \<Rightarrow> byte list" where
  "bytes_of_string s = map of_char s"

definition string_of_bytes :: "byte list \<Rightarrow> string" where
  "string_of_bytes bs = map (\<lambda>b. char_of (unat b)) bs"

subsection \<open>Base 16\<close>

definition hex_char :: "nat \<Rightarrow> char" where
  "hex_char d = (if d < 10 then char_of (48 + d) else char_of (55 + d))"

definition is_hex_upper :: "char \<Rightarrow> bool" where
  "is_hex_upper c = (let n = of_char c :: nat in 48 \<le> n \<and> n \<le> 57 \<or> 65 \<le> n \<and> n \<le> 70)"

definition hex_nibble :: "char \<Rightarrow> int" where
  "hex_nibble c =
     (let n = int (of_char c :: nat) in
      if 48 \<le> n \<and> n \<le> 57 then n - 48
      else if 65 \<le> n \<and> n \<le> 70 then 10 + (n - 65)
      else if 97 \<le> n \<and> n \<le> 102 then 10 + (n - 97)
      else -1)"

definition encode16 :: "byte list \<Rightarrow> string" where
  "encode16 bytes =
     (if bytes = [] then []
      else ''0x'' @ concat (map (\<lambda>b. [hex_char (unat b div 16), hex_char (unat b mod 16)]) bytes))"

fun hex_pairs :: "string \<Rightarrow> byte list" where
  "hex_pairs (a # b # s) = word_of_int (hex_nibble a * 16 + hex_nibble b) # hex_pairs s"
| "hex_pairs _ = []"

definition decode16 :: "string \<Rightarrow> byte list result" where
  "decode16 zHex =
     (let hex = (if take 2 (map to_lower zHex) = ''0x'' then drop 2 zHex else zHex);
          hex = map to_upper hex
      in if hex = [] then Inr []
         else if \<not> list_all is_hex_upper hex then Inl (Throw InvalidArgument)
         else Inr (hex_pairs (if odd (length hex) then CHR ''0'' # hex else hex)))"

subsection \<open>Base 32\<close>

definition trim_leading_zeros :: "byte list \<Rightarrow> byte list" where
  "trim_leading_zeros be = dropWhile (\<lambda>b. b = 0) be"

text \<open>One pass of long division, most significant byte first; the remainder is below \<open>base\<close>, so
  nothing of the 32-bit accumulator is lost.\<close>

fun divmod_loop :: "nat \<Rightarrow> nat \<Rightarrow> byte list \<Rightarrow> byte list \<times> nat" where
  "divmod_loop base rem [] = ([], rem)"
| "divmod_loop base rem (b # bs) =
     (let cur = rem * 256 + unat b; (q, r) = divmod_loop base (cur mod base) bs
      in (of_nat (cur div base) # q, r))"

definition divmod_small :: "byte list \<Rightarrow> nat \<Rightarrow> byte list \<times> nat" where
  "divmod_small mag base = (let (q, r) = divmod_loop base 0 mag in (trim_leading_zeros q, r))"

text \<open>Multiplication and addition from the least significant byte.\<close>

fun mul_loop :: "nat \<Rightarrow> byte list \<Rightarrow> nat \<times> byte list" where
  "mul_loop base [] = (0, [])"
| "mul_loop base (b # bs) =
     (let (carry, bs') = mul_loop base bs; prod = unat b * base + carry
      in (prod div 256, of_nat (prod mod 256) # bs'))"

fun add_loop :: "nat \<Rightarrow> byte list \<Rightarrow> nat \<times> byte list" where
  "add_loop addend [] = (addend, [])"
| "add_loop addend (b # bs) =
     (let (carry, bs') = add_loop addend bs in
      if carry = 0 then (0, b # bs')
      else let sum = unat b + carry in (sum div 256, of_nat (sum mod 256) # bs'))"

fun push_carry :: "nat \<Rightarrow> byte list \<Rightarrow> byte list" where
  "push_carry carry mag =
     (if carry = 0 then mag else push_carry (carry div 256) (of_nat (carry mod 256) # mag))"

declare push_carry.simps [simp del]

definition muladd_small :: "byte list \<Rightarrow> nat \<Rightarrow> nat \<Rightarrow> byte list" where
  "muladd_small mag base addend =
     (let (c, m) = mul_loop base mag; m = push_carry c m; (c', m') = add_loop addend m
      in push_carry c' m')"

definition base32_digit_from_val :: "nat \<Rightarrow> char" where
  "base32_digit_from_val v = (if v < 10 then char_of (48 + v) else char_of (97 + (v - 10)))"

definition base32_val_from_digit :: "char \<Rightarrow> int" where
  "base32_val_from_digit c =
     (let n = int (of_char c :: nat) in
      if 48 \<le> n \<and> n \<le> 57 then n - 48 else if 97 \<le> n \<and> n \<le> 118 then 10 + (n - 97) else -1)"

text \<open>The divmod loop of \<open>encode32\<close>; the magnitude shrinks by at least five bits each round, so
  eight rounds per byte, and one more, are enough.\<close>

fun encode32_loop :: "nat \<Rightarrow> byte list \<Rightarrow> string" where
  "encode32_loop 0 tmp = []"
| "encode32_loop (Suc fuel) tmp =
     (if tmp = [] then []
      else let (tmp', r) = divmod_small tmp 32 in encode32_loop fuel tmp' @ [base32_digit_from_val r])"

definition swap_out :: "char \<Rightarrow> char" where
  "swap_out ch = (if ch = CHR ''i'' then CHR ''w'' else if ch = CHR ''l'' then CHR ''y''
                  else if ch = CHR ''o'' then CHR ''z'' else ch)"

definition swap_in :: "char \<Rightarrow> char" where
  "swap_in ch = (if ch = CHR ''w'' then CHR ''i'' else if ch = CHR ''y'' then CHR ''l''
                 else if ch = CHR ''z'' then CHR ''o'' else ch)"

definition encode32 :: "byte list \<Rightarrow> string" where
  "encode32 zData =
     (let mag = trim_leading_zeros zData;
          digits = (if mag = [] then ''0'' else encode32_loop (8 * length mag + 1) mag)
      in ''Mx'' @ map (\<lambda>ch. to_upper (swap_out ch)) digits)"

fun decode32_loop :: "string \<Rightarrow> byte list \<Rightarrow> byte list result" where
  "decode32_loop [] mag = Inr mag"
| "decode32_loop (ch # s) mag =
     (let v = base32_val_from_digit ch in
      if v < 0 then Inl (Throw InvalidArgument)
      else decode32_loop s (muladd_small mag 32 (nat v)))"

definition decode32 :: "string \<Rightarrow> byte list result" where
  "decode32 zBase32 =
     (let b32 = map to_lower zBase32;
          b32 = (if take 2 b32 = ''mx'' then drop 2 b32 else b32);
          b32 = map swap_in b32
      in if b32 = [] then Inl (Throw InvalidArgument) else decode32_loop b32 [])"

subsection \<open>MiniData\<close>

text \<open>The bytes and the cache of their value; the cache is empty until \<open>getValue\<close> is called.\<close>

record minidata =
  mData :: "byte list"
  mDataValue :: "nat option"

definition MINIMA_MAX_HASH_LENGTH :: int where "MINIMA_MAX_HASH_LENGTH = 64"
definition MINIMA_MAX_MINIDATA_LENGTH :: int where "MINIMA_MAX_MINIDATA_LENGTH = 1024 * 1024 * 512"

definition md :: "byte list \<Rightarrow> minidata" where
  "md bs = \<lparr>mData = bs, mDataValue = None\<rparr>"

definition md_of_string :: "string \<Rightarrow> minidata result" where
  "md_of_string zHexString = bindE (decode16 zHexString) (\<lambda>bs. Inr (md bs))"

definition md_min_length :: "byte list \<Rightarrow> int \<Rightarrow> minidata" where
  "md_min_length zData zMinLength =
     (let len = int (length zData) in
      if len < zMinLength then md (replicate (nat (zMinLength - len)) 0 @ zData) else md zData)"

definition md_of_int :: "int \<Rightarrow> minidata result" where
  "md_of_int zBigInteger =
     (if zBigInteger < 0 then Inl (Throw InvalidArgument)
      else let bs = be_bytes (nat zBigInteger);
               bs = (if bs = [] \<and> zBigInteger = 0 then [0] else bs);
               bs = (if length bs > 1 \<and> hd bs = 0 then tl bs else bs)
           in Inr \<lparr>mData = bs, mDataValue = Some (nat zBigInteger)\<rparr>)"

text \<open>The value, and the object with its cache filled.\<close>

definition md_getValue :: "minidata \<Rightarrow> nat" where
  "md_getValue m = (case mDataValue m of Some v \<Rightarrow> v | None \<Rightarrow> be_val (mData m))"

definition md_cached :: "minidata \<Rightarrow> minidata" where
  "md_cached m = m\<lparr>mDataValue := Some (md_getValue m)\<rparr>"

definition md_isEqual :: "minidata \<Rightarrow> minidata \<Rightarrow> bool" where
  "md_isEqual a b = (length (mData a) = length (mData b) \<and> list_all2 (=) (mData a) (mData b))"

definition stripLeadingZeros :: "byte list \<Rightarrow> byte list" where
  "stripLeadingZeros inp =
     (let rest = dropWhile (\<lambda>b. b = 0) inp in
      if length rest = length inp then inp
      else if rest = [] then (if length inp = 1 \<and> hd inp = 0 then [0] else [])
      else rest)"

fun lex_compare :: "byte list \<Rightarrow> byte list \<Rightarrow> int" where
  "lex_compare (a # as) (b # bs) = (if a < b then -1 else if a > b then 1 else lex_compare as bs)"
| "lex_compare _ _ = 0"

definition compareMagnitude :: "byte list \<Rightarrow> byte list \<Rightarrow> int" where
  "compareMagnitude a b =
     (if length a < length b then -1 else if length a > length b then 1 else lex_compare a b)"

definition md_compare :: "minidata \<Rightarrow> minidata \<Rightarrow> int" where
  "md_compare a b =
     (if mDataValue a = None \<and> mDataValue b = None
      then compareMagnitude (stripLeadingZeros (mData a)) (stripLeadingZeros (mData b))
      else let va = md_getValue a; vb = md_getValue b
           in if va < vb then -1 else if va > vb then 1 else 0)"

definition md_shiftr :: "minidata \<Rightarrow> int \<Rightarrow> minidata result" where
  "md_shiftr m zNumber =
     (if zNumber \<le> 0 then Inr (md (mData m)) else md_of_int (int (md_getValue m div 2 ^ nat zNumber)))"

definition md_shiftl :: "minidata \<Rightarrow> int \<Rightarrow> minidata result" where
  "md_shiftl m zNumber =
     (if zNumber \<le> 0 then Inr (md (mData m)) else md_of_int (int (md_getValue m * 2 ^ nat zNumber)))"

definition md_concat :: "minidata \<Rightarrow> minidata \<Rightarrow> minidata" where
  "md_concat a b = md (mData a @ mData b)"

definition to0xString :: "minidata \<Rightarrow> string" where
  "to0xString m = encode16 (mData m)"

definition to0xString_len :: "minidata \<Rightarrow> int \<Rightarrow> string" where
  "to0xString_len m zLen =
     (let d = to0xString m; len = int (length d); len = (if len > zLen then zLen else len)
      in take (nat (len mod 2 ^ 64)) d @ ''..'')"

definition writeInt32BE :: "int \<Rightarrow> byte list" where
  "writeInt32BE v = map (\<lambda>k. word_of_int (v div 2 ^ k)) [24, 16, 8, 0]"

definition readInt32BE :: "int reader" where
  "readInt32BE inp =
     bindE (read_n 4 inp) (\<lambda>(buf, inp). Inr (sint (word_of_nat (be_val buf) :: 32 word), inp))"

definition md_writeDataStream :: "minidata \<Rightarrow> byte list" where
  "md_writeDataStream m = writeInt32BE (int (length (mData m))) @ mData m"

definition md_readDataStream_size :: "int \<Rightarrow> minidata reader" where
  "md_readDataStream_size zSize inp =
     bindE (readInt32BE inp) (\<lambda>(len, inp).
       if len > MINIMA_MAX_MINIDATA_LENGTH then Inl (Throw IosFailure)
       else if len < 0 then Inl (Throw IosFailure)
       else if zSize \<noteq> -1 \<and> len \<noteq> zSize then Inl (Throw IosFailure)
       else bindE (read_n (nat len) inp) (\<lambda>(bs, inp). Inr (md bs, inp)))"

definition md_readDataStream :: "minidata reader" where
  "md_readDataStream inp = md_readDataStream_size (-1) inp"

definition writeHashToStream :: "minidata \<Rightarrow> byte list result" where
  "writeHashToStream m =
     (if int (length (mData m)) > MINIMA_MAX_HASH_LENGTH then Inl (Throw IosFailure)
      else Inr (writeInt32BE (int (length (mData m))) @ mData m))"

definition readHashFromStream :: "minidata reader" where
  "readHashFromStream inp =
     bindE (readInt32BE inp) (\<lambda>(len, inp).
       if len > MINIMA_MAX_HASH_LENGTH then Inl (Throw IosFailure)
       else if len < 0 then Inl (Throw IosFailure)
       else bindE (read_n (nat len) inp) (\<lambda>(bs, inp). Inr (md bs, inp)))"

subsection \<open>MiniString and MiniByte\<close>

text \<open>A \<open>MiniString\<close> is its bytes; its stream form is that of a \<open>MiniData\<close> of them.\<close>

definition ms_writeDataStream :: "string \<Rightarrow> byte list" where
  "ms_writeDataStream s = md_writeDataStream (md (bytes_of_string s))"

definition ms_readDataStream :: "string reader" where
  "ms_readDataStream inp =
     bindE (md_readDataStream inp) (\<lambda>(strdata, inp).
       Inr (if mData strdata \<noteq> [] then string_of_bytes (mData strdata) else [], inp))"

definition mb_of_bool :: "bool \<Rightarrow> byte" where
  "mb_of_bool zVal = (if zVal then 1 else 0)"

definition mb_isTrue :: "byte \<Rightarrow> bool" where
  "mb_isTrue b = (\<not> uint b = 0)"

definition mb_writeDataStream :: "byte \<Rightarrow> byte list" where
  "mb_writeDataStream b = [b]"

definition mb_readDataStream :: "byte reader" where
  "mb_readDataStream inp = bindE (read_n 1 inp) (\<lambda>(bs, inp). Inr (hd bs, inp))"

subsection \<open>Strings and bytes\<close>

lemma of_char_byte: "char_of (unat (of_char c :: byte)) = (c :: char)"
proof -
  have "unat (of_char c :: byte) = of_char c"
    by (metis of_nat_of_char unat_of_nat_byte of_char_mod_256 mod_less_divisor zero_less_numeral)
  then show ?thesis by simp
qed

lemma string_of_bytes_of_string [simp]: "string_of_bytes (bytes_of_string s) = s"
  by (simp add: string_of_bytes_def bytes_of_string_def comp_def of_char_byte map_idI)

lemma of_char_char_of_byte: "(of_char (char_of (unat (b :: byte)) :: char) :: byte) = b"
proof -
  have "(of_char (char_of (unat b) :: char) :: byte) = of_nat (of_char (char_of (unat b) :: char))"
    by (simp only: of_nat_of_char)
  also have "\<dots> = of_nat (unat b)" using unat_byte_lt [of b] by (simp only: of_char_of mod_less)
  finally show ?thesis by simp
qed

lemma bytes_of_string_of_bytes [simp]: "bytes_of_string (string_of_bytes bs) = bs"
  by (simp add: string_of_bytes_def bytes_of_string_def comp_def of_char_char_of_byte map_idI)

lemma length_string_bytes [simp]: "length (bytes_of_string s) = length s" "length (string_of_bytes bs) = length bs"
  by (simp_all add: bytes_of_string_def string_of_bytes_def)

subsection \<open>Base 16 round trip\<close>

lemma hex_char_cases: "d < 16 \<Longrightarrow> hex_nibble (hex_char d) = int d \<and> is_hex_upper (hex_char d)
    \<and> to_upper (hex_char d) = hex_char d"
  by (cases "d < 10") (simp_all add: hex_char_def hex_nibble_def is_hex_upper_def to_upper_def Let_def)

lemma byte_nibbles: "of_nat (unat b div 16) * 16 + of_nat (unat b mod 16) = (b :: byte)"
proof (rule trans)
  show "of_nat (unat b div 16) * 16 + of_nat (unat b mod 16) = (of_nat (unat b div 16 * 16 + unat b mod 16) :: byte)"
    by (simp only: of_nat_add of_nat_mult of_nat_numeral)
  show "of_nat (unat b div 16 * 16 + unat b mod 16) = b" unfolding div_mult_mod_eq by simp
qed

lemma hex_pairs_encode:
  "hex_pairs (concat (map (\<lambda>b. [hex_char (unat b div 16), hex_char (unat b mod 16)]) bytes)) = bytes"
proof (induction bytes)
  case (Cons b bs)
  have "unat b div 16 < 16" using unat_byte_lt [of b] by (simp add: less_mult_imp_div_less del: unat_byte_lt)
  then show ?case using Cons byte_nibbles [of b] by (simp add: hex_char_cases)
qed simp

lemma decode16_encode16: "decode16 (encode16 bytes) = Inr bytes"
proof (cases "bytes = []")
  case False
  let ?h = "concat (map (\<lambda>b :: byte. [hex_char (unat b div 16), hex_char (unat b mod 16)]) bytes)"
  have d: "unat b div 16 < 16" "unat b mod 16 < 16" for b :: byte
    using unat_byte_lt [of b] by (simp_all add: less_mult_imp_div_less del: unat_byte_lt)
  have up: "map to_upper ?h = ?h" "list_all is_hex_upper ?h" "even (length ?h)"
    by (induction bytes) (simp_all add: hex_char_cases d)
  have ne: "?h \<noteq> []" using False by (cases bytes) auto
  have p: "take 2 (map to_lower (''0x'' @ ?h)) = ''0x''"
    by (simp add: to_lower_def)
  show ?thesis
    using False up ne by (simp add: decode16_def encode16_def to_lower_def hex_pairs_encode)
qed (simp add: decode16_def encode16_def)

subsection \<open>Base 32 round trip\<close>

lemma trim_leading_zeros_val [simp]: "be_val (trim_leading_zeros bs) = be_val bs"
  by (induction bs) (simp_all add: trim_leading_zeros_def be_val_Cons)

lemma trim_leading_zeros_hd: "trim_leading_zeros bs = [] \<or> hd (trim_leading_zeros bs) \<noteq> 0"
  unfolding trim_leading_zeros_def using hd_dropWhile [of "\<lambda>b. b = 0" bs] by blast

lemma trim_leading_zeros_eq: "trim_leading_zeros bs = be_bytes (be_val bs)"
  using be_bytes_be_val [OF trim_leading_zeros_hd, of bs] by simp

lemma divmod_loop_val:
  assumes "0 < base" "base \<le> 256" "rem < base" "divmod_loop base rem bs = (q, r)"
  shows "rem * 256 ^ length bs + be_val bs = be_val q * base + r \<and> r < base \<and> length q = length bs"
  using assms(3,4)
proof (induction bs arbitrary: rem q r)
  case (Cons b bs)
  let ?cur = "rem * 256 + unat b"
  obtain q' r' where qr: "divmod_loop base (?cur mod base) bs = (q', r')" by fastforce
  have IH: "(?cur mod base) * 256 ^ length bs + be_val bs = be_val q' * base + r'" "r' < base" "length q' = length bs"
    using Cons.IH [OF _ qr] assms(1) by simp_all
  have "(rem + 1) * 256 \<le> base * 256" using Cons.prems(1) by (intro mult_le_mono1) simp
  then have "?cur < base * 256" using unat_byte_lt [of b] unfolding add_mult_distrib by linarith
  then have c: "?cur div base < 256" by (simp add: less_mult_imp_div_less mult.commute)
  have q: "q = of_nat (?cur div base) # q'" "r = r'" using Cons.prems(2) qr by (auto simp: Let_def)
  define p where "p = (256::nat) ^ length bs"
  have "rem * 256 ^ length (b # bs) + be_val (b # bs) = ?cur * p + be_val bs"
    by (simp add: be_val_Cons p_def algebra_simps)
  also have "?cur * p = (?cur div base * p) * base + ?cur mod base * p"
  proof -
    have "?cur * p = (?cur div base * base + ?cur mod base) * p" by (simp only: div_mult_mod_eq)
    then show ?thesis by (simp only: distrib_left distrib_right mult_ac)
  qed
  finally have "rem * 256 ^ length (b # bs) + be_val (b # bs) = (?cur div base * p) * base + (be_val q' * base + r')"
    using IH(1) by (simp add: p_def)
  then show ?case using IH(2,3) c by (simp add: q be_val_Cons p_def distrib_right)
qed auto

lemma divmod_small_val:
  assumes "0 < base" "base \<le> 256" "divmod_small mag base = (q, r)"
  shows "q = be_bytes (be_val mag div base)" "r = be_val mag mod base"
proof -
  obtain q' where q: "divmod_loop base 0 mag = (q', r)" "q = trim_leading_zeros q'"
    using assms(3) by (auto simp: divmod_small_def split: prod.splits)
  have v: "be_val mag = be_val q' * base + r" "r < base"
    using divmod_loop_val [OF assms(1,2) _ q(1)] assms(1) by simp_all
  then show "r = be_val mag mod base" by simp
  have "be_val mag div base = be_val q'" using v by (simp add: div_mult_self3)
  then show "q = be_bytes (be_val mag div base)" by (simp add: q(2) trim_leading_zeros_eq)
qed


lemma mul_loop_val: "mul_loop base bs = (c, bs') \<Longrightarrow> be_val bs * base = c * 256 ^ length bs + be_val bs' \<and> length bs' = length bs"
proof (induction bs arbitrary: c bs')
  case (Cons b bs)
  obtain c1 b1 where m: "mul_loop base bs = (c1, b1)" by fastforce
  note IH = Cons.IH [OF m]
  let ?prod = "unat b * base + c1"
  define p where "p = (256::nat) ^ length bs"
  have r: "c = ?prod div 256" "bs' = of_nat (?prod mod 256) # b1" using Cons.prems m by (auto simp: Let_def)
  have "be_val (b # bs) * base = unat b * base * p + be_val bs * base"
    by (simp add: be_val_Cons p_def algebra_simps)
  also have "\<dots> = ?prod * p + be_val b1" using IH by (simp add: p_def distrib_right)
  also have "?prod * p = (?prod div 256 * 256 + ?prod mod 256) * p" by (simp only: div_mult_mod_eq)
  also have "\<dots> = c * (256 * p) + ?prod mod 256 * p" by (simp only: r distrib_right mult.assoc)
  finally show ?case using IH by (simp add: r(2) be_val_Cons p_def)
qed simp

lemma add_loop_val: "add_loop a bs = (c, bs') \<Longrightarrow> be_val bs + a = c * 256 ^ length bs + be_val bs' \<and> length bs' = length bs"
proof (induction bs arbitrary: c bs')
  case (Cons b bs)
  obtain c1 b1 where m: "add_loop a bs = (c1, b1)" by fastforce
  note IH = Cons.IH [OF m]
  let ?sum = "unat b + c1"
  define p where "p = (256::nat) ^ length bs"
  have e: "be_val (b # bs) + a = ?sum * p + be_val b1" using IH by (simp add: be_val_Cons p_def distrib_right)
  show ?case
  proof (cases "c1 = 0")
    case True
    then show ?thesis using Cons.prems m e IH by (auto simp: be_val_Cons p_def)
  next
    case False
    then have r: "c = ?sum div 256" "bs' = of_nat (?sum mod 256) # b1" using Cons.prems m by (auto simp: Let_def)
    have "?sum * p = (?sum div 256 * 256 + ?sum mod 256) * p" by (simp only: div_mult_mod_eq)
    also have "\<dots> = c * (256 * p) + ?sum mod 256 * p" by (simp only: r distrib_right mult.assoc)
    finally show ?thesis using IH e by (simp add: r(2) be_val_Cons p_def)
  qed
qed simp

lemma push_carry_val: "be_val (push_carry c mag) = c * 256 ^ length mag + be_val mag"
proof (induction c mag rule: push_carry.induct)
  case (1 c mag)
  show ?case
  proof (cases "c = 0")
    case True
    then show ?thesis by (subst push_carry.simps) simp
  next
    case False
    define p where "p = (256::nat) ^ length mag"
    have "c * p = (c div 256 * 256 + c mod 256) * p" by (simp only: div_mult_mod_eq)
    also have "\<dots> = c div 256 * (256 * p) + c mod 256 * p" by (simp only: distrib_right mult.assoc)
    finally show ?thesis using 1 False by (subst push_carry.simps) (simp add: be_val_Cons p_def)
  qed
qed

lemma muladd_small_val: "be_val (muladd_small mag base addend) = be_val mag * base + addend"
proof -
  obtain c m where m: "mul_loop base mag = (c, m)" by fastforce
  obtain c' m' where m': "add_loop addend (push_carry c m) = (c', m')" by fastforce
  show ?thesis
    using mul_loop_val [OF m] add_loop_val [OF m'] by (simp add: muladd_small_def m m' push_carry_val)
qed

text \<open>No operation of the loop puts a zero byte in front.\<close>

definition canonical :: "byte list \<Rightarrow> bool" where
  "canonical bs = (bs = [] \<or> hd bs \<noteq> 0)"

lemma canonical_be_bytes: "canonical bs \<longleftrightarrow> bs = be_bytes (be_val bs)"
  unfolding canonical_def using be_bytes_be_val hd_be_bytes by (metis be_bytes_eq_Nil gr0I)

lemma canonical_push_carry: "canonical mag \<or> c \<noteq> 0 \<Longrightarrow> canonical (push_carry c mag)"
proof (induction c mag rule: push_carry.induct)
  case (1 c mag)
  show ?case
  proof (cases "c < 256")
    case True
    then have "c \<noteq> 0 \<Longrightarrow> (of_nat c :: byte) \<noteq> 0" by (metis unat_0 unat_of_nat_byte)
    then show ?thesis using 1(2) True
      by (subst push_carry.simps) (auto simp: canonical_def push_carry.simps)
  next
    case False
    then have "canonical (push_carry (c div 256) (of_nat (c mod 256) # mag))" by (intro 1(1)) auto
    then show ?thesis using False by (subst push_carry.simps) simp
  qed
qed

lemma canonical_loop:
  assumes "canonical bs" "256 ^ (length bs - 1) \<le> be_val bs'' \<or> c \<noteq> 0 \<or> bs = []" "length bs'' = length bs"
  shows "canonical (push_carry c bs'')"
proof -
  have "canonical bs'' \<or> c \<noteq> 0"
  proof (cases bs'')
    case (Cons b cs)
    then have "256 ^ length cs \<le> be_val bs'' \<Longrightarrow> b \<noteq> 0"
      using be_val_lt [of cs] by (auto simp: be_val_Cons)
    moreover have "length cs = length bs - 1" using Cons assms(3) by simp
    ultimately show ?thesis using assms Cons by (auto simp: canonical_def)
  qed (simp add: canonical_def)
  then show ?thesis by (rule canonical_push_carry)
qed

lemma canonical_ge: "canonical bs \<Longrightarrow> bs \<noteq> [] \<Longrightarrow> 256 ^ (length bs - 1) \<le> be_val bs"
proof -
  assume "canonical bs" "bs \<noteq> []"
  then obtain b cs where bs: "bs = b # cs" "b \<noteq> 0" by (cases bs) (auto simp: canonical_def)
  then have "1 * 256 ^ length cs \<le> unat b * 256 ^ length cs"
    by (intro mult_right_mono) (cases "unat b", simp_all add: unat_eq_zero)
  then have "256 ^ length cs \<le> be_val bs" unfolding bs(1) be_val_Cons by linarith
  then show ?thesis by (simp add: bs(1))
qed

lemma canonical_muladd: "canonical mag \<Longrightarrow> 0 < base \<Longrightarrow> canonical (muladd_small mag base addend)"
proof -
  assume can: "canonical mag" and base: "0 < base"
  obtain c m where m: "mul_loop base mag = (c, m)" by fastforce
  note mv = mul_loop_val [OF m]
  define m1 where "m1 = push_carry c m"
  have grow: "256 ^ (length xs - 1) \<le> be_val ys \<or> k \<noteq> 0 \<or> xs = []"
    if "canonical xs" "be_val xs \<le> k * 256 ^ length xs + be_val ys" for xs ys and k :: nat
    using canonical_ge [OF that(1)] that(2) by (cases "k = 0") auto
  have "be_val mag \<le> be_val mag * base" using base by simp
  then have "canonical m1" unfolding m1_def
    using canonical_loop [OF can grow [OF can]] mv by simp
  moreover obtain c' m' where m': "add_loop addend m1 = (c', m')" by fastforce
  moreover note av = add_loop_val [OF m']
  ultimately have "canonical (push_carry c' m')"
    using canonical_loop [OF _ grow] av by (metis le_add1)
  then show ?thesis by (simp add: muladd_small_def m m' flip: m1_def)
qed


lemma decode32_loop_append: "decode32_loop (s @ t) mag = bindE (decode32_loop s mag) (decode32_loop t)"
  by (induction s arbitrary: mag) (auto simp: Let_def)

lemma char_of_eq: "n < 256 \<Longrightarrow> char_of n = c \<longleftrightarrow> n = (of_char c :: nat)"
  by (metis char_of_char of_char_of mod_less)
lemma char_of_eq': "n < 256 \<Longrightarrow> c = char_of n \<longleftrightarrow> n = (of_char c :: nat)"
  using char_of_eq by metis
lemma base32_digit_swap: "v < 32 \<Longrightarrow> swap_in (to_lower (to_upper (swap_out (base32_digit_from_val v)))) = base32_digit_from_val v"
proof -
  assume v: "v < 32"
  consider "v < 10" | "v = 18" | "v = 21" | "v = 24" | "10 \<le> v" "v \<noteq> 18" "v \<noteq> 21" "v \<noteq> 24" by linarith
  then show ?thesis
  proof cases
    case 1
    then show ?thesis
      by (simp add: base32_digit_from_val_def to_upper_def to_lower_def swap_in_def swap_out_def Let_def char_of_eq)
  next
    case 5
    have "swap_out (char_of (87 + v)) = char_of (87 + v)" using 5 v by (simp add: swap_out_def char_of_eq)
    moreover have "to_upper (char_of (87 + v)) = char_of (55 + v)" using 5 v by (simp add: to_upper_def)
    moreover have "to_lower (char_of (55 + v)) = char_of (87 + v)" using 5 v by (simp add: to_lower_def)
    moreover have "swap_in (char_of (87 + v)) = char_of (87 + v)" using 5 v by (simp add: swap_in_def char_of_eq)
    moreover have "base32_digit_from_val v = char_of (87 + v)" using 5 v by (simp add: base32_digit_from_val_def)
    ultimately show ?thesis by simp
  qed (simp_all add: base32_digit_from_val_def to_upper_def to_lower_def swap_in_def swap_out_def char_of_eq char_of_eq')
qed
lemma base32_digit:
  assumes "v < 32"
  shows "base32_val_from_digit (base32_digit_from_val v) = int v"
    "swap_in (to_lower (to_upper (swap_out (base32_digit_from_val v)))) = base32_digit_from_val v"
proof -
  show "base32_val_from_digit (base32_digit_from_val v) = int v"
    using assms by (auto simp: base32_digit_from_val_def base32_val_from_digit_def)
  show "swap_in (to_lower (to_upper (swap_out (base32_digit_from_val v)))) = base32_digit_from_val v"
    using assms by (rule base32_digit_swap)
qed

lemma encode32_loop_digits:
  "\<forall>ch \<in> set (encode32_loop fuel tmp). swap_in (to_lower (to_upper (swap_out ch))) = ch"
proof (induction fuel arbitrary: tmp)
  case (Suc fuel)
  obtain q r where d: "divmod_small tmp 32 = (q, r)" by (cases "divmod_small tmp 32")
  have "r < 32" using divmod_small_val(2) [OF _ _ d] by simp
  then show ?case using Suc [of q] by (simp add: d base32_digit ball_Un)
qed simp

lemma decode32_encode32_loop:
  "canonical tmp \<Longrightarrow> be_val tmp < 32 ^ fuel \<Longrightarrow> decode32_loop (encode32_loop fuel tmp) [] = Inr tmp"
proof (induction fuel arbitrary: tmp)
  case 0
  then have "tmp = be_bytes 0" by (simp add: canonical_be_bytes)
  then show ?case by simp
next
  case (Suc fuel)
  show ?case
  proof (cases "tmp = []")
    case False
    obtain q r where d: "divmod_small tmp 32 = (q, r)" by fastforce
    have q: "q = be_bytes (be_val tmp div 32)" "r = be_val tmp mod 32"
      using divmod_small_val [OF _ _ d] by simp_all
    have "be_val q < 32 ^ fuel" using Suc.prems(2) by (simp add: q(1) less_mult_imp_div_less mult.commute)
    moreover have cq: "canonical q" unfolding q(1) by (simp add: canonical_be_bytes)
    ultimately have IH: "decode32_loop (encode32_loop fuel q) [] = Inr q" by (intro Suc.IH)
    have "canonical (muladd_small q 32 r)" by (rule canonical_muladd [OF cq]) simp
    then have "muladd_small q 32 r = be_bytes (be_val q * 32 + r)"
      by (simp add: canonical_be_bytes muladd_small_val)
    also have "be_val q * 32 + r = be_val tmp" by (simp add: q)
    finally have "muladd_small q 32 r = tmp" using Suc.prems(1) by (simp add: canonical_be_bytes)
    moreover have "r < 32" by (simp add: q(2))
    ultimately show ?thesis using False IH by (simp add: d decode32_loop_append base32_digit)
  qed simp
qed

lemma decode32_encode32: "decode32 (encode32 bs) = Inr (trim_leading_zeros bs)"
proof -
  define mag where "mag = trim_leading_zeros bs"
  define ds where "ds = (if mag = [] then ''0'' else encode32_loop (8 * length mag + 1) mag)"
  have e: "encode32 bs = CHR ''M'' # CHR ''x'' # map (\<lambda>ch. to_upper (swap_out ch)) ds"
    by (simp add: encode32_def mag_def ds_def Let_def)
  have can: "canonical mag" unfolding mag_def canonical_def by (rule trim_leading_zeros_hd)
  have p5: "(2::nat) ^ (5 * k) = 32 ^ k" for k by (simp add: power_mult)
  have "be_val mag < 256 ^ length mag" by (rule be_val_lt)
  also have "(256::nat) ^ length mag = 2 ^ (8 * length mag)" by (simp add: power_mult)
  also have "\<dots> \<le> 2 ^ (5 * (8 * length mag + 1))" by (intro power_increasing) simp_all
  also have "\<dots> = 32 ^ (8 * length mag + 1)" by (rule p5)
  finally have dec: "decode32_loop ds [] = Inr mag"
  proof (cases "mag = []")
    case True
    then show ?thesis by (simp add: ds_def base32_val_from_digit_def muladd_small_def push_carry.simps)
  next
    case False
    assume "be_val mag < 32 ^ (8 * length mag + 1)"
    from decode32_encode32_loop [OF can this] show ?thesis using False by (simp only: ds_def if_False)
  qed
  have "\<forall>ch \<in> set ds. swap_in (to_lower (to_upper (swap_out ch))) = ch"
  proof (cases "mag = []")
    case True
    have "base32_digit_from_val 0 = CHR ''0''" by (simp add: base32_digit_from_val_def char_of_eq)
    then show ?thesis using base32_digit_swap [of 0] True by (simp add: ds_def)
  next
    case False
    then show ?thesis using encode32_loop_digits by (simp only: ds_def if_False)
  qed
  then have m: "map (\<lambda>ch. swap_in (to_lower (to_upper (swap_out ch)))) ds = ds" by (simp add: map_idI)
  have low: "to_lower CHR ''M'' = CHR ''m''" "to_lower CHR ''x'' = CHR ''x''"
    by (simp_all add: to_lower_def char_of_eq)
  have "ds \<noteq> []" by (simp add: ds_def) (auto simp: Let_def split: prod.splits)
  then show ?thesis
    using dec m low by (simp add: decode32_def e Let_def comp_def flip: mag_def)
qed

subsection \<open>Order\<close>

lemma lex_compare_val:
  "length a = length b \<Longrightarrow> lex_compare a b = cmp3 (be_val a) (be_val b)"
proof (induction a b rule: lex_compare.induct)
  case (1 a as b bs)
  define p where "p = (256::nat) ^ length as"
  have v: "be_val (a # as) = unat a * p + be_val as" "be_val (b # bs) = unat b * p + be_val bs"
    using 1(2) by (simp_all add: be_val_Cons p_def)
  have lt: "be_val as < p" "be_val bs < p" using be_val_lt [of as] be_val_lt [of bs] 1(2) by (simp_all add: p_def)
  have step: "x < y \<Longrightarrow> x * p + i < y * p + j" if "i < p" for x y i j :: nat
  proof -
    assume "x < y"
    then have "(x + 1) * p \<le> y * p" by (intro mult_right_mono) simp_all
    then show ?thesis using that by simp
  qed
  consider "a < b" | "b < a" | "a = b" by fastforce
  then show ?case
  proof cases
    case 1
    then show ?thesis using step [OF lt(1), of "unat a" "unat b" "be_val bs"] unfolding v
      by (simp add: cmp3_def word_less_nat_alt)
  next
    case 2
    then have "\<not> a < b" by simp
    then show ?thesis using step [OF lt(2), of "unat b" "unat a" "be_val as"] 2 unfolding v
      by (simp add: cmp3_def word_less_nat_alt)
  next
    case 3
    then show ?thesis using 1 unfolding v by (simp add: cmp3_def)
  qed
qed (auto simp: cmp3_def)

lemma compareMagnitude_val:
  assumes "canonical a" "canonical b"
  shows "compareMagnitude a b = cmp3 (be_val a) (be_val b)"
proof -
  have less: "be_val x < be_val y" if "canonical y" "length x < length y" for x y
  proof -
    have "be_val x < 256 ^ length x" by (rule be_val_lt)
    also have "\<dots> \<le> 256 ^ (length y - 1)" using that by (intro power_increasing) auto
    also have "\<dots> \<le> be_val y" using that by (intro canonical_ge) auto
    finally show ?thesis .
  qed
  consider "length a < length b" | "length b < length a" | "length a = length b" by linarith
  then show ?thesis
    using less [OF assms(1), of b] less [OF assms(2), of a]
    by cases (simp_all add: compareMagnitude_def lex_compare_val, simp_all add: cmp3_def)
qed

lemma stripLeadingZeros_val: "inp \<noteq> [0] \<Longrightarrow> stripLeadingZeros inp = trim_leading_zeros inp"
proof -
  assume ne: "inp \<noteq> [0]"
  define r where "r = dropWhile (\<lambda>b. b = 0) inp"
  have eq: "r = inp" if "length r = length inp"
    using that unfolding r_def using takeWhile_dropWhile_id [of "\<lambda>b. b = 0" inp] by (metis append_eq_append_conv append_self_conv2)
  have "\<not> (length inp = 1 \<and> hd inp = 0)" using ne by (cases inp) auto
  then show ?thesis
    unfolding stripLeadingZeros_def trim_leading_zeros_def Let_def r_def [symmetric]
    by (simp only: if_False) (cases "length r = length inp"; simp add: eq)
qed

definition cache_ok :: "minidata \<Rightarrow> bool" where
  "cache_ok m = (case mDataValue m of None \<Rightarrow> True | Some v \<Rightarrow> v = be_val (mData m))"

lemma md_getValue_ok: "cache_ok m \<Longrightarrow> md_getValue m = be_val (mData m)"
  by (simp add: cache_ok_def md_getValue_def split: option.splits)

lemma md_compare_val:
  assumes "cache_ok a" "cache_ok b"
    "mDataValue a = None \<and> mDataValue b = None \<longrightarrow> mData a \<noteq> [0] \<and> mData b \<noteq> [0]"
  shows "md_compare a b = cmp3 (be_val (mData a)) (be_val (mData b))"
proof (cases "mDataValue a = None \<and> mDataValue b = None")
  case True
  then show ?thesis
    using assms(3) compareMagnitude_val [of "trim_leading_zeros (mData a)" "trim_leading_zeros (mData b)"]
      trim_leading_zeros_hd by (simp add: md_compare_def stripLeadingZeros_val canonical_def)
next
  case False
  then show ?thesis using assms(1,2) unfolding md_compare_def if_not_P [OF False] by (simp add: md_getValue_ok cmp3_def)
qed


subsection \<open>Stream forms\<close>

lemma be_val_writeInt32BE:
  assumes "0 \<le> v" "v < 2 ^ 31"
  shows "int (be_val (writeInt32BE v)) = v"
proof -
  have b: "uint (word_of_int x :: byte) = x mod 256" for x
    by (simp add: unsigned_of_int take_bit_eq_mod)
  have "v div 16777216 < 256" "0 \<le> v div 16777216" using assms by simp_all
  then have m: "v div 16777216 mod 256 = v div 16777216" by simp
  have d: "v div 65536 = v div 256 div 256" "v div 16777216 = v div 65536 div 256"
    by (simp_all flip: zdiv_zmult2_eq)
  have e: "v = v div 256 * 256 + v mod 256" "v div 256 = v div 65536 * 256 + v div 256 mod 256"
    "v div 65536 = v div 16777216 * 256 + v div 65536 mod 256"
    unfolding d by simp_all
  have "int (be_val (writeInt32BE v)) = v div 16777216 * 16777216 + (v div 65536 mod 256 * 65536
      + (v div 256 mod 256 * 256 + v mod 256))"
    by (simp add: writeInt32BE_def be_val_Cons b m)
  then show ?thesis using e by linarith
qed

lemma readInt32BE_write:
  assumes "0 \<le> v" "v < 2 ^ 31"
  shows "readInt32BE (writeInt32BE v @ rest) = Inr (v, rest)"
proof -
  have "length (writeInt32BE v) = 4" by (simp add: writeInt32BE_def)
  moreover have "(word_of_nat (be_val (writeInt32BE v)) :: 32 word) = word_of_int v"
    using be_val_writeInt32BE [OF assms] by (metis of_int_of_nat_eq)
  moreover have "sint (word_of_int v :: 32 word) = v"
    using assms by (simp add: signed_of_int signed_take_bit_int_eq_self)
  ultimately show ?thesis by (simp add: readInt32BE_def)
qed

lemma md_stream_roundtrip:
  assumes "int (length bs) \<le> MINIMA_MAX_MINIDATA_LENGTH" "z = -1 \<or> z = int (length bs)"
  shows "md_readDataStream_size z (md_writeDataStream (md bs) @ rest) = Inr (md bs, rest)"
proof -
  have "int (length bs) < 2 ^ 31" using assms(1) by (simp add: MINIMA_MAX_MINIDATA_LENGTH_def)
  then show ?thesis
    using assms readInt32BE_write [of "int (length bs)"]
    by (auto simp: md_readDataStream_size_def md_writeDataStream_def md_def)
qed

lemma hash_stream_roundtrip:
  assumes "int (length bs) \<le> MINIMA_MAX_HASH_LENGTH"
  shows "\<exists>out. writeHashToStream (md bs) = Inr out \<and> readHashFromStream (out @ rest) = Inr (md bs, rest)"
proof -
  have "int (length bs) < 2 ^ 31" using assms by (simp add: MINIMA_MAX_HASH_LENGTH_def)
  then show ?thesis
    using assms readInt32BE_write [of "int (length bs)"]
    by (auto simp: readHashFromStream_def writeHashToStream_def md_def)
qed

lemma md_sel [simp]: "mData (md bs) = bs" "mDataValue (md bs) = None" "md a = md b \<longleftrightarrow> a = b"
  by (simp_all add: md_def)

lemma md_eta: "mDataValue m = None \<Longrightarrow> md (mData m) = m"
  by (simp add: md_def)

interpretation mn_stream: streamable mn_writeDataStream mn_readDataStream mn_wf
  by unfold_locales (rule mn_stream_roundtrip)

interpretation md_stream: streamable md_writeDataStream md_readDataStream
    "\<lambda>m. mDataValue m = None \<and> int (length (mData m)) \<le> MINIMA_MAX_MINIDATA_LENGTH"
proof unfold_locales
  fix m :: minidata and rest
  assume "mDataValue m = None \<and> int (length (mData m)) \<le> MINIMA_MAX_MINIDATA_LENGTH"
  then show "md_readDataStream (md_writeDataStream m @ rest) = Inr (m, rest)"
    using md_stream_roundtrip [of "mData m" "-1" rest] md_eta [of m] by (simp add: md_readDataStream_def)
qed

interpretation ms_stream: streamable ms_writeDataStream ms_readDataStream
    "\<lambda>s. int (length s) \<le> MINIMA_MAX_MINIDATA_LENGTH"
proof unfold_locales
  fix s rest
  assume "int (length (s :: string)) \<le> MINIMA_MAX_MINIDATA_LENGTH"
  then have "md_readDataStream_size (-1) (md_writeDataStream (md (bytes_of_string s)) @ rest)
      = Inr (md (bytes_of_string s), rest)"
    by (intro md_stream_roundtrip) simp_all
  moreover have "bytes_of_string s = [] \<longleftrightarrow> s = []" by (simp add: bytes_of_string_def)
  ultimately show "ms_readDataStream (ms_writeDataStream s @ rest) = Inr (s, rest)"
    by (cases "s = []") (simp_all add: ms_readDataStream_def ms_writeDataStream_def md_readDataStream_def)
qed

interpretation mb_stream: streamable mb_writeDataStream mb_readDataStream "\<lambda>b. True"
  by unfold_locales (simp add: mb_writeDataStream_def mb_readDataStream_def read_n_def)

subsection \<open>Properties\<close>

text \<open>Base 16: \<open>decode16\<close> reads back what \<open>encode16\<close> prints, for every byte string including the
  empty one, and the printed form determines the bytes.\<close>

theorem base16_roundtrip: "decode16 (encode16 bytes) = Inr bytes \<and> (encode16 a = encode16 b \<longleftrightarrow> a = b)"
  using decode16_encode16 by (metis sum.inject(2))


text \<open>\<open>MiniData::compare\<close> is the order of the numeric values, whether it compares the bytes or
  the cached values, as long as neither of two uncached operands is the single byte zero.\<close>

theorem data_compare_numeric:
  assumes "cache_ok a" "cache_ok b"
    "mDataValue a = None \<and> mDataValue b = None \<longrightarrow> mData a \<noteq> [0] \<and> mData b \<noteq> [0]"
  shows "md_compare a b = cmp3 (be_val (mData a)) (be_val (mData b))"
  using assms by (rule md_compare_val)

theorem data_compare_numeric_witness: "md_compare (md [0, 2]) (md [1, 0]) = -1"
  using data_compare_numeric [of "md [0, 2]" "md [1, 0]"]
  by (simp add: cache_ok_def md_def be_val_Cons cmp3_def)


text \<open>The stream form of a byte string of at most 512 MB is read back as the same bytes by a reader
  with no or with the right expected size, consuming exactly what was written; a hash of at most 64
  bytes is written and read back the same way, and a longer one is refused by the writer.\<close>

theorem data_stream_roundtrip:
  assumes "int (length bs) \<le> MINIMA_MAX_MINIDATA_LENGTH" "z = -1 \<or> z = int (length bs)"
  shows "md_readDataStream_size z (md_writeDataStream (md bs) @ rest) = Inr (md bs, rest)
    \<and> (if length bs \<le> 64
       then \<exists>out. writeHashToStream (md bs) = Inr out \<and> readHashFromStream (out @ rest) = Inr (md bs, rest)
       else writeHashToStream (md bs) = Inl (Throw IosFailure))"
  using md_stream_roundtrip [OF assms] hash_stream_roundtrip [of bs rest]
  by (auto simp: MINIMA_MAX_HASH_LENGTH_def writeHashToStream_def md_def)

theorem data_stream_roundtrip_witness:
  "md_readDataStream_size 3 (md_writeDataStream (md [1, 2, 3]) @ [9]) = Inr (md [1, 2, 3], [9])"
  using data_stream_roundtrip [of "[1, 2, 3]" 3 "[9]"] by (simp add: MINIMA_MAX_MINIDATA_LENGTH_def)

end
