(* ===== verification/KissValue.thy ===== *)
theory KissValue
  imports DataTypes
begin

unbundle bit_operations_syntax

text \<open>
  The values of the script machine (\<open>src/org/minima/kissvm/values\<close>): booleans, byte strings of at
  most 64 KB, decimal numbers and strings of at most 64 KB. Every constructor that can throw is an
  operation returning a result. A number is copied through its checking copy constructor when it
  enters a value; the further copies the code makes are the identity on well-formed numbers
  (\<open>mn_copy_wf\<close>) and are not repeated.
\<close>

definition MAX_STACK_DEPTH :: int where "MAX_STACK_DEPTH = 64"
definition MAX_FUNCTION_PARAMS :: int where "MAX_FUNCTION_PARAMS = 32"
definition MAX_DATA_SIZE :: int where "MAX_DATA_SIZE = 64 * 1024"

datatype kvalue =
    BooleanValue bool
  | HexValue "byte list"
  | NumberValue mininumber
  | StringValue string

definition VALUE_HEX :: nat where "VALUE_HEX = 1"
definition VALUE_NUMBER :: nat where "VALUE_NUMBER = 2"
definition VALUE_SCRIPT :: nat where "VALUE_SCRIPT = 4"
definition VALUE_BOOLEAN :: nat where "VALUE_BOOLEAN = 8"

lemmas value_type_defs = VALUE_HEX_def VALUE_NUMBER_def VALUE_SCRIPT_def VALUE_BOOLEAN_def

fun getValueType :: "kvalue \<Rightarrow> nat" where
  "getValueType (BooleanValue _) = VALUE_BOOLEAN"
| "getValueType (HexValue _) = VALUE_HEX"
| "getValueType (NumberValue _) = VALUE_NUMBER"
| "getValueType (StringValue _) = VALUE_SCRIPT"

subsection \<open>Constructors\<close>

definition hex_value :: "byte list \<Rightarrow> kvalue result" where
  "hex_value zData =
     (if int (length zData) > MAX_DATA_SIZE then Inl (Throw InvalidArgument) else Inr (HexValue zData))"

definition hex_value_of_string :: "string \<Rightarrow> kvalue result" where
  "hex_value_of_string zHex = bindE (decode16 zHex) hex_value"

text \<open>The big-endian two's complement bytes of a non-negative number.\<close>

definition cpp_int_to_java_positive_twos_bytes :: "int \<Rightarrow> byte list result" where
  "cpp_int_to_java_positive_twos_bytes v =
     (if v < 0 then Inl (Throw InvalidArgument)
      else if v = 0 then Inr [0]
      else let magnitude = be_bytes (nat v) in
        Inr (if magnitude \<noteq> [] \<and> (hd magnitude AND 0x80) \<noteq> 0 then 0 # magnitude else magnitude))"

definition hex_value_of_number :: "mininumber \<Rightarrow> kvalue result" where
  "hex_value_of_number zNumber =
     (if mn_isLess zNumber mn_ZERO then Inl (Throw InvalidArgument)
      else bindE (mn_floor zNumber) (\<lambda>fl.
        if \<not> mn_isEqual fl zNumber then Inl (Throw InvalidArgument)
        else bindE (cpp_int_to_java_positive_twos_bytes (getAsBigInteger zNumber)) hex_value))"

definition number_value :: "mininumber \<Rightarrow> kvalue result" where
  "number_value zValue = bindE (mn_copy zValue) (\<lambda>m. Inr (NumberValue m))"

definition number_value_of_string :: "string \<Rightarrow> kvalue result" where
  "number_value_of_string zNumber = bindE (mn_of_string zNumber) number_value"

text \<open>\<open>std::to_string\<close>; the integer constructors of \<open>NumberValue\<close> go through it.\<close>

definition int_to_dec :: "int \<Rightarrow> string" where
  "int_to_dec z = (if z < 0 then CHR ''-'' # nat_to_dec (nat (- z)) else nat_to_dec (nat z))"

definition number_value_of_int :: "int \<Rightarrow> kvalue result" where
  "number_value_of_int zValue = bindE (mn_of_string (int_to_dec zValue)) number_value"

definition string_value :: "string \<Rightarrow> kvalue result" where
  "string_value zScript =
     (if int (length (bytes_of_string zScript)) > MAX_DATA_SIZE then Inl (Throw InvalidArgument)
      else Inr (StringValue zScript))"

subsection \<open>Operations\<close>

definition verifyType :: "kvalue \<Rightarrow> nat \<Rightarrow> unit result" where
  "verifyType v zType = guardE (getValueType v = zType) InvalidArgument"

definition checkSameType :: "kvalue \<Rightarrow> kvalue \<Rightarrow> unit result" where
  "checkSameType zV1 zV2 = guardE (getValueType zV1 = getValueType zV2) InvalidArgument"

definition checkSameTypeOf :: "kvalue \<Rightarrow> kvalue \<Rightarrow> nat \<Rightarrow> unit result" where
  "checkSameTypeOf zV1 zV2 zType =
     bindE (guardE (getValueType zV1 = getValueType zV2) InvalidArgument)
       (\<lambda>_. guardE (getValueType zV1 = zType) InvalidArgument)"

fun value_toString :: "kvalue \<Rightarrow> string" where
  "value_toString (BooleanValue b) = (if b then ''TRUE'' else ''FALSE'')"
| "value_toString (HexValue bs) = encode16 bs"
| "value_toString (NumberValue m) = to_plain_string m"
| "value_toString (StringValue s) = s"

text \<open>The comparison of two values of the same type behind \<open>EQ\<close>.\<close>

fun value_isEqual :: "kvalue \<Rightarrow> kvalue \<Rightarrow> bool" where
  "value_isEqual (BooleanValue a) (BooleanValue b) = (a = b)"
| "value_isEqual (HexValue a) (HexValue b) = md_isEqual (md a) (md b)"
| "value_isEqual (NumberValue a) (NumberValue b) = mn_isEqual a b"
| "value_isEqual (StringValue a) (StringValue b) = (a = b)"
| "value_isEqual _ _ = False"

text \<open>\<open>ScriptTokenizer::isNumeric\<close>: the regular expression \<open>[0-9]+(\.[0-9]+)?\<close>.\<close>

definition isNumeric :: "string \<Rightarrow> bool" where
  "isNumeric w =
     (let rest = dropWhile is_digit w in
      takeWhile is_digit w \<noteq> []
      \<and> (rest = [] \<or> hd rest = CHR ''.'' \<and> tl rest \<noteq> [] \<and> list_all is_digit (tl rest)))"

text \<open>\<open>Value::getValue\<close>: a value from any string.\<close>

definition value_getValue :: "string \<Rightarrow> kvalue result" where
  "value_getValue zValue =
     (if zValue \<noteq> [] \<and> hd zValue = CHR ''['' \<and> length zValue \<ge> 2 \<and> last zValue = CHR '']''
      then string_value (take (length zValue - 2) (drop 1 zValue))
      else if take 2 zValue = ''0x'' then hex_value_of_string zValue
      else if zValue = ''TRUE'' then Inr (BooleanValue True)
      else if zValue = ''FALSE'' then Inr (BooleanValue False)
      else if zValue \<noteq> [] \<and> hd zValue = CHR ''-'' \<or> isNumeric zValue then number_value_of_string zValue
      else Inl (Throw InvalidArgument))"

definition value_getValueType :: "string \<Rightarrow> nat result" where
  "value_getValueType zValue =
     (if zValue \<noteq> [] \<and> hd zValue = CHR ''['' \<and> length zValue \<ge> 2 \<and> last zValue = CHR '']'' then Inr VALUE_SCRIPT
      else if take 2 zValue = ''0x'' then Inr VALUE_HEX
      else if zValue = ''TRUE'' then Inr VALUE_BOOLEAN
      else if zValue = ''FALSE'' then Inr VALUE_BOOLEAN
      else if zValue \<noteq> [] \<and> hd zValue = CHR ''-'' \<or> isNumeric zValue then Inr VALUE_NUMBER
      else Inl (Throw InvalidArgument))"

subsection \<open>Well-formed values\<close>

definition value_wf :: "kvalue \<Rightarrow> bool" where
  "value_wf v = (case v of BooleanValue _ \<Rightarrow> True
     | HexValue bs \<Rightarrow> int (length bs) \<le> MAX_DATA_SIZE
     | NumberValue m \<Rightarrow> mn_wf m
     | StringValue s \<Rightarrow> int (length s) \<le> MAX_DATA_SIZE)"

lemma value_wf_simps [simp]:
  "value_wf (BooleanValue b)" "value_wf (HexValue bs) \<longleftrightarrow> int (length bs) \<le> MAX_DATA_SIZE"
  "value_wf (NumberValue m) \<longleftrightarrow> mn_wf m" "value_wf (StringValue s) \<longleftrightarrow> int (length s) \<le> MAX_DATA_SIZE"
  by (simp_all add: value_wf_def)

lemma hex_value_wf: "hex_value bs = Inr v \<Longrightarrow> value_wf v"
  by (auto simp: hex_value_def split: if_splits)

lemma string_value_wf: "string_value s = Inr v \<Longrightarrow> value_wf v"
  by (auto simp: string_value_def split: if_splits)

lemma number_value_eq [simp]: "mn_wf m \<Longrightarrow> number_value m = Inr (NumberValue m)"
  by (simp add: number_value_def)

subsection \<open>What the constructors return\<close>

definition value_errors :: "error set" where
  "value_errors = {Throw InvalidArgument, Throw RuntimeError, Undef}"

lemma value_errors_simps [simp]:
  "Throw InvalidArgument \<in> value_errors" "Throw RuntimeError \<in> value_errors" "Undef \<in> value_errors"
  "NoFuel \<notin> value_errors"
  by (simp_all add: value_errors_def)

lemma hex_value_outcome: "outcome value_errors value_wf (hex_value bs)"
  by (rule outcomeI) (auto simp: hex_value_def hex_value_wf split: if_splits)

lemma string_value_outcome: "outcome value_errors value_wf (string_value s)"
  by (rule outcomeI) (auto simp: string_value_def split: if_splits)

lemma decode16_outcome: "outcome value_errors (\<lambda>_. True) (decode16 s)"
  by (auto simp: decode16_def Let_def)

lemma number_outcome: "safe r \<Longrightarrow> outcome value_errors value_wf (bindE r number_value)"
  by (cases r) auto

lemma mn_of_string_value: "outcome value_errors value_wf (number_value_of_string s)"
  unfolding number_value_of_string_def
  by (rule outcome_bind [OF outcome_mono [OF mn_of_string_outcome]]) (auto simp: value_errors_def)

lemma hex_value_of_string_outcome: "outcome value_errors value_wf (hex_value_of_string s)"
  unfolding hex_value_of_string_def by (rule outcome_bind [OF decode16_outcome hex_value_outcome])

lemma value_getValue_outcome: "outcome value_errors value_wf (value_getValue s)"
  unfolding value_getValue_def
  by (intro outcome_if string_value_outcome hex_value_of_string_outcome mn_of_string_value) simp_all

end
