(* ===== verification/KissTokens.thy ===== *)
theory KissTokens
  imports KissValue
begin

text \<open>
  Functions known by name and the tokenizer of scripts: \<open>functions/minima_function.cpp\<close>,
  \<open>tokens/script_token.cpp\<close> and \<open>tokens/script_tokenizer.cpp\<close> under \<open>src/org/minima/kissvm\<close>.
  The tokenizer walks over the remaining characters; it is given as many rounds as the script has
  characters plus one, and \<open>tokenize_total\<close> shows that it never needs more.
\<close>

subsection \<open>The function registry\<close>

datatype func =
    F_CONCAT
  | F_LEN
  | F_REV
  | F_SUBSET
  | F_GET
  | F_EXISTS
  | F_ADDRESS
  | F_BOOL
  | F_HEX
  | F_NUMBER
  | F_STRING
  | F_ASCII
  | F_UTF8
  | F_ABS
  | F_CEIL
  | F_FLOOR
  | F_MAX
  | F_MIN
  | F_DEC
  | F_INC
  | F_SIGDIG
  | F_POW
  | F_SQRT
  | F_FUNCTION
  | F_SUMINPUTS
  | F_SUMOUTPUTS
  | F_SETLEN
  | F_REPLACE
  | F_REPLACEFIRST
  | F_SUBSTR
  | F_OVERWRITE
  | F_SHA2
  | F_SHA3
  | F_PROOF
  | F_BITSET
  | F_BITGET
  | F_BITCOUNT
  | F_SIGNEDBY
  | F_MULTISIG
  | F_CHECKSIG
  | F_GETINADDR
  | F_GETINAMT
  | F_GETINID
  | F_GETINTOK
  | F_VERIFYIN
  | F_GETOUTADDR
  | F_GETOUTAMT
  | F_GETOUTTOK
  | F_GETOUTKEEPSTATE
  | F_VERIFYOUT
  | F_STATE
  | F_PREVSTATE
  | F_SAMESTATE

text \<open>The prototypes in the order of the code; \<open>getFunction\<close> finds the first whose name is the
  upper-cased argument.\<close>

definition prototypeList :: "(string \<times> func) list" where
  "prototypeList =
    [(''CONCAT'', F_CONCAT), (''LEN'', F_LEN), (''REV'', F_REV), (''SUBSET'', F_SUBSET),
     (''GET'', F_GET), (''EXISTS'', F_EXISTS), (''ADDRESS'', F_ADDRESS), (''BOOL'', F_BOOL),
     (''HEX'', F_HEX), (''NUMBER'', F_NUMBER), (''STRING'', F_STRING), (''ASCII'', F_ASCII),
     (''UTF8'', F_UTF8), (''ABS'', F_ABS), (''CEIL'', F_CEIL), (''FLOOR'', F_FLOOR),
     (''MAX'', F_MAX), (''MIN'', F_MIN), (''DEC'', F_DEC), (''INC'', F_INC),
     (''SIGDIG'', F_SIGDIG), (''POW'', F_POW), (''SQRT'', F_SQRT), (''FUNCTION'', F_FUNCTION),
     (''SUMINPUTS'', F_SUMINPUTS), (''SUMOUTPUTS'', F_SUMOUTPUTS), (''SETLEN'', F_SETLEN), (''REPLACE'', F_REPLACE),
     (''REPLACEFIRST'', F_REPLACEFIRST), (''SUBSTR'', F_SUBSTR), (''OVERWRITE'', F_OVERWRITE), (''SHA2'', F_SHA2),
     (''SHA3'', F_SHA3), (''PROOF'', F_PROOF), (''BITSET'', F_BITSET), (''BITGET'', F_BITGET),
     (''BITCOUNT'', F_BITCOUNT), (''SIGNEDBY'', F_SIGNEDBY), (''MULTISIG'', F_MULTISIG), (''CHECKSIG'', F_CHECKSIG),
     (''GETINADDR'', F_GETINADDR), (''GETINAMT'', F_GETINAMT), (''GETINID'', F_GETINID), (''GETINTOK'', F_GETINTOK),
     (''VERIFYIN'', F_VERIFYIN), (''GETOUTADDR'', F_GETOUTADDR), (''GETOUTAMT'', F_GETOUTAMT), (''GETOUTTOK'', F_GETOUTTOK),
     (''GETOUTKEEPSTATE'', F_GETOUTKEEPSTATE), (''VERIFYOUT'', F_VERIFYOUT), (''STATE'', F_STATE), (''PREVSTATE'', F_PREVSTATE),
     (''SAMESTATE'', F_SAMESTATE)]"

definition getFunction :: "string \<Rightarrow> func result" where
  "getFunction zFunction =
     (case map_of prototypeList (map to_upper zFunction) of
        None \<Rightarrow> Inl (Throw MinimaParseException) | Some f \<Rightarrow> Inr f)"

text \<open>The parameter counts the functions declare.\<close>

fun requiredParams :: "func \<Rightarrow> int" where
  "requiredParams F_CONCAT = 2"
| "requiredParams F_LEN = 1"
| "requiredParams F_REV = 1"
| "requiredParams F_SUBSET = 3"
| "requiredParams F_GET = 1"
| "requiredParams F_EXISTS = 1"
| "requiredParams F_ADDRESS = 1"
| "requiredParams F_BOOL = 1"
| "requiredParams F_HEX = 1"
| "requiredParams F_NUMBER = 1"
| "requiredParams F_STRING = 1"
| "requiredParams F_ASCII = 1"
| "requiredParams F_UTF8 = 1"
| "requiredParams F_ABS = 1"
| "requiredParams F_CEIL = 1"
| "requiredParams F_FLOOR = 1"
| "requiredParams F_MAX = 2"
| "requiredParams F_MIN = 2"
| "requiredParams F_DEC = 1"
| "requiredParams F_INC = 1"
| "requiredParams F_SIGDIG = 2"
| "requiredParams F_POW = 2"
| "requiredParams F_SQRT = 1"
| "requiredParams F_FUNCTION = 1"
| "requiredParams F_SUMINPUTS = 1"
| "requiredParams F_SUMOUTPUTS = 1"
| "requiredParams F_SETLEN = 2"
| "requiredParams F_REPLACE = 3"
| "requiredParams F_REPLACEFIRST = 3"
| "requiredParams F_SUBSTR = 3"
| "requiredParams F_OVERWRITE = 5"
| "requiredParams F_SHA2 = 1"
| "requiredParams F_SHA3 = 1"
| "requiredParams F_PROOF = 5"
| "requiredParams F_BITSET = 3"
| "requiredParams F_BITGET = 2"
| "requiredParams F_BITCOUNT = 1"
| "requiredParams F_SIGNEDBY = 1"
| "requiredParams F_MULTISIG = 2"
| "requiredParams F_CHECKSIG = 3"
| "requiredParams F_GETINADDR = 1"
| "requiredParams F_GETINAMT = 1"
| "requiredParams F_GETINID = 1"
| "requiredParams F_GETINTOK = 1"
| "requiredParams F_VERIFYIN = 4"
| "requiredParams F_GETOUTADDR = 1"
| "requiredParams F_GETOUTAMT = 1"
| "requiredParams F_GETOUTTOK = 1"
| "requiredParams F_GETOUTKEEPSTATE = 1"
| "requiredParams F_VERIFYOUT = 4"
| "requiredParams F_STATE = 1"
| "requiredParams F_PREVSTATE = 1"
| "requiredParams F_SAMESTATE = 2"

definition isRequiredMinimumParameterNumber :: "func \<Rightarrow> bool" where
  "isRequiredMinimumParameterNumber f = (f \<in> {F_CONCAT, F_GET, F_EXISTS, F_MAX, F_MIN, F_FUNCTION, F_MULTISIG, F_VERIFYOUT})"

definition checkParamNumberCorrect :: "func \<Rightarrow> int \<Rightarrow> unit result" where
  "checkParamNumberCorrect f paramsize =
     (if isRequiredMinimumParameterNumber f
      then guardE (\<not> paramsize < requiredParams f) MinimaParseException
      else guardE (\<not> paramsize \<noteq> requiredParams f) MinimaParseException)"

subsection \<open>Tokens\<close>

datatype token_type =
    TOKEN_COMMAND | TOKEN_FUNCTION | TOKEN_OPERATOR | TOKEN_VALUE | TOKEN_VARIABLE | TOKEN_GLOBAL
  | TOKEN_OPENBRACKET | TOKEN_CLOSEBRACKET | TOKEN_TRUE | TOKEN_FALSE | TOKEN_FUNCTIONPARAM

record token =
  mTokenType :: token_type
  mToken :: string

definition tok :: "token_type \<Rightarrow> string \<Rightarrow> token" where
  "tok zTokenType zToken = \<lparr>mTokenType = zTokenType, mToken = zToken\<rparr>"

definition tokensCommand :: "string list" where
  "tokensCommand = [''LET'', ''IF'', ''THEN'', ''ELSEIF'', ''ELSE'', ''ENDIF'', ''RETURN'', ''ASSERT'',
     ''WHILE'', ''DO'', ''ENDWHILE'', ''EXEC'', ''MAST'']"

definition tokensNumberOperator :: "char list" where
  "tokensNumberOperator = ''+-/*%&|^~=''"

definition tokensBooleanOperator :: "string list" where
  "tokensBooleanOperator = [''LT'', ''LTE'', ''GT'', ''GTE'', ''EQ'', ''NEQ'', ''XOR'', ''AND'', ''OR'',
     ''NXOR'', ''NAND'', ''NOR'', ''NOT'', ''NEG'']"

text \<open>The one-character end-of-word tokens; a one-character word never equals \<open><<\<close> or \<open>>>\<close>.\<close>

definition tokensEndOfWord :: "char list" where
  "tokensEndOfWord = ''+-/*%&|^~=()[]<>''"

definition isHex :: "string \<Rightarrow> bool" where
  "isHex w = (take 2 w = ''0x'' \<and> drop 2 w \<noteq> [] \<and> list_all (\<lambda>c. hex_nibble c \<ge> 0) (drop 2 w))"

definition is_lower :: "char \<Rightarrow> bool" where
  "is_lower c = (let n = of_char c :: nat in 97 \<le> n \<and> n \<le> 122)"

definition is_upper :: "char \<Rightarrow> bool" where
  "is_upper c = (let n = of_char c :: nat in 65 \<le> n \<and> n \<le> 90)"

definition isVariable :: "string \<Rightarrow> bool" where
  "isVariable w = (w \<noteq> [] \<and> list_all is_lower w)"

definition isGlobal :: "string \<Rightarrow> bool" where
  "isGlobal w = (w \<noteq> [] \<and> hd w = CHR ''@'' \<and> tl w \<noteq> [] \<and> list_all is_upper (tl w))"

subsection \<open>The tokenizer\<close>

definition in_word :: "char \<Rightarrow> bool" where
  "in_word c = (\<not> (c \<in> set tokensEndOfWord \<or> is_space c))"

text \<open>\<open>getNextWord\<close>: the word and the rest of the script.\<close>

definition getNextWord :: "string \<Rightarrow> string \<times> string" where
  "getNextWord s = (takeWhile in_word s, dropWhile in_word s)"

definition isValidFunctionName :: "string \<Rightarrow> bool" where
  "isValidFunctionName name = (case getFunction name of Inl _ \<Rightarrow> False | Inr _ \<Rightarrow> True)"

text \<open>The loop over a bracketed string, with the number of open brackets.\<close>

fun square_loop :: "int \<Rightarrow> string \<Rightarrow> string \<Rightarrow> string \<times> string" where
  "square_loop sq str [] = (str, [])"
| "square_loop sq str (c # cs) =
     (if c = CHR ''['' then square_loop (sq + 1) (str @ [c]) cs
      else if c = CHR '']'' then
        (if sq - 1 = 0 then (str @ [c], cs) else square_loop (sq - 1) (str @ [c]) cs)
      else square_loop sq (str @ [c]) cs)"

text \<open>The classification of a general word.\<close>

definition word_token :: "bool \<Rightarrow> bool \<Rightarrow> string \<Rightarrow> token result" where
  "word_token ci waslastspace word =
     (let up = (if ci then map to_upper word else word);
          low = (if ci then map to_lower word else word)
      in if up \<in> set tokensCommand then
           (if \<not> waslastspace then Inl (Throw MinimaParseException) else Inr (tok TOKEN_COMMAND up))
         else if isNumeric word \<or> isHex word then Inr (tok TOKEN_VALUE word)
         else if isValidFunctionName up then Inr (tok TOKEN_FUNCTION up)
         else if up \<in> set tokensBooleanOperator then Inr (tok TOKEN_OPERATOR up)
         else if up = ''TRUE'' then Inr (tok TOKEN_TRUE up)
         else if up = ''FALSE'' then Inr (tok TOKEN_FALSE up)
         else if isGlobal up then Inr (tok TOKEN_GLOBAL up)
         else if isVariable low then
           (if length low > 32 then Inl (Throw MinimaParseException) else Inr (tok TOKEN_VARIABLE low))
         else Inl (Throw MinimaParseException))"

fun tokenize_loop :: "nat \<Rightarrow> bool \<Rightarrow> bool \<Rightarrow> string \<Rightarrow> token list result" where
  "tokenize_loop 0 ci waslastspace s = Inl NoFuel"
| "tokenize_loop (Suc n) ci waslastspace [] = Inr []"
| "tokenize_loop (Suc n) ci waslastspace (c # cs) =
     (let one = (\<lambda>t rest. bindE (tokenize_loop n ci False rest) (\<lambda>ts. Inr (t # ts))) in
      if is_space c then tokenize_loop n ci True cs
      else if c \<in> set tokensNumberOperator then one (tok TOKEN_OPERATOR [c]) cs
      else if c = CHR ''<'' then
        (if cs = [] \<or> hd cs \<noteq> CHR ''<'' then Inl (Throw MinimaParseException)
         else one (tok TOKEN_OPERATOR ''<<'') (tl cs))
      else if c = CHR ''>'' then
        (if cs = [] \<or> hd cs \<noteq> CHR ''>'' then Inl (Throw MinimaParseException)
         else one (tok TOKEN_OPERATOR ''>>'') (tl cs))
      else if c = CHR ''('' then one (tok TOKEN_OPENBRACKET [c]) cs
      else if c = CHR '')'' then one (tok TOKEN_CLOSEBRACKET [c]) cs
      else if c = CHR ''['' then
        (let (str, rest) = square_loop 0 [] (c # cs) in one (tok TOKEN_VALUE str) rest)
      else if c = CHR ''$'' then
        (let (word, rest) = getNextWord (c # cs) in one (tok TOKEN_FUNCTIONPARAM word) rest)
      else let (word, rest) = getNextWord (c # cs) in
        bindE (word_token ci waslastspace word) (\<lambda>t. one t rest))"

definition tokenize_ci :: "bool \<Rightarrow> string \<Rightarrow> token list result" where
  "tokenize_ci ci zScript = tokenize_loop (Suc (length zScript)) ci True zScript"

definition tokenize :: "string \<Rightarrow> token list result" where
  "tokenize zScript = tokenize_ci False zScript"

subsection \<open>The tokenizer terminates\<close>

lemma tok_sel [simp]: "mTokenType (tok t s) = t" "mToken (tok t s) = s"
  by (simp_all add: tok_def)

lemma length_square_loop: "length (snd (square_loop sq str s)) \<le> length s"
  by (induction sq str s rule: square_loop.induct) auto

lemma length_square_loop_less: "length (snd (square_loop 0 [] (CHR ''['' # cs))) < Suc (length cs)"
  using length_square_loop [of 1 "''[''" cs] by simp

lemma length_getNextWord: "length (snd (getNextWord s)) \<le> length s"
  by (simp add: getNextWord_def length_dropWhile_le)

lemma word_token_nonempty: "word_token ci w [] = Inl (Throw MinimaParseException)"
  by (simp add: word_token_def tokensCommand_def isNumeric_def isHex_def isValidFunctionName_def
      getFunction_def prototypeList_def tokensBooleanOperator_def isGlobal_def isVariable_def)

lemma word_token_fails: "fails_in {Throw MinimaParseException} (word_token ci w s)"
  unfolding word_token_def Let_def by (intro fails_rules) simp_all

lemma dollar_in_word: "in_word CHR ''$''"
  by (simp add: in_word_def tokensEndOfWord_def is_space_def Let_def)

lemma tokenize_loop_total:
  "length s < n \<Longrightarrow> fails_in {Throw MinimaParseException} (tokenize_loop n ci w s)"
proof (induction n arbitrary: w s)
  case (Suc n)
  show ?case
  proof (cases s)
    case Nil
    then show ?thesis by (simp add: fails_rules)
  next
    case (Cons c cs)
    have len: "length cs < n" "length (tl cs) < n" using Suc.prems Cons by simp_all
    have sq: "length rest < n" if "c = CHR ''[''" "square_loop 0 [] (c # cs) = (str, rest)" for str rest
      using that length_square_loop_less [of cs] len by simp
    have gw: "length rest < n" if "getNextWord (c # cs) = (word, rest)" "in_word c" for word rest
      using that len by (auto simp: getNextWord_def intro: le_less_trans [OF length_dropWhile_le])
    have nw: "word = []" if "getNextWord (c # cs) = (word, rest)" "\<not> in_word c" for word rest
      using that by (auto simp: getNextWord_def)
    have gen: "fails_in {Throw MinimaParseException} (bindE (word_token ci w word)
        (\<lambda>t. bindE (tokenize_loop n ci False rest) (\<lambda>ts. Inr (t # ts))))"
      if "getNextWord (c # cs) = (word, rest)" for word rest
      using gw [OF that] nw [OF that] Suc.IH word_token_fails [of ci w word]
      by (cases "in_word c") (auto simp: word_token_nonempty intro!: fails_rules)
    have "c = CHR ''$'' \<Longrightarrow> in_word c" by (simp add: dollar_in_word)
    then show ?thesis
      unfolding Cons tokenize_loop.simps Let_def
      using len sq gw gen by (intro gen fails_rules Suc.IH) simp_all
  qed
qed simp

text \<open>The tokenizer always ends: on every script, in either case mode, it returns the tokens or throws
  a parse exception, and never runs out of the rounds it is given.\<close>

theorem tokenizer_total:
  "fails_in {Throw MinimaParseException} (tokenize_ci ci zScript)"
  unfolding tokenize_ci_def by (rule tokenize_loop_total) simp

end
