(* ===== verification/KissParser.thy ===== *)
theory KissParser
  imports KissTokens
begin

text \<open>
  Expressions, statements and their parsers: \<open>expressions/expression_parser.cpp\<close>,
  \<open>statements/statement_parser.cpp\<close> and \<open>tokens/lexical_tokenizer.cpp\<close> under
  \<open>src/org/minima/kissvm\<close>. A \<open>LexicalTokenizer\<close> is the list of the tokens not yet consumed
  (\<open>goBackToken\<close> keeps the list from before) and its stack depth; a position in a token vector is
  the list of the tokens from there on. Recursion through \<open>getExpression\<close> and \<open>parseTokens\<close> is
  bounded by the depth check both make, which is the fuel of the two recursions; the loops run over
  the remaining tokens. \<open>parser_total\<close> shows that the fuel is always enough. The second recursion
  guard of \<open>getExpression\<close>, at 200 nested calls, is never reached below the depth of 64 and is left
  out.
\<close>

subsection \<open>Abstract syntax\<close>

datatype bool_op =
    BOOLEAN_AND | BOOLEAN_NAND | BOOLEAN_OR | BOOLEAN_NOR | BOOLEAN_XOR | BOOLEAN_NXOR | BOOLEAN_NOT
  | BOOLEAN_EQ | BOOLEAN_NEQ | BOOLEAN_LT | BOOLEAN_LTE | BOOLEAN_GT | BOOLEAN_GTE

datatype operator =
    OPERATOR_ADD | OPERATOR_SUB | OPERATOR_MUL | OPERATOR_DIV | OPERATOR_NEG | OPERATOR_MODULO
  | OPERATOR_SHIFTL | OPERATOR_SHIFTR | OPERATOR_AND | OPERATOR_OR | OPERATOR_XOR | OPERATOR_NOT

text \<open>The right operand of a unary operator is absent (\<open>mRight = nullptr\<close>); the one of \<open>NOT\<close> is a
  constant \<open>FALSE\<close>.\<close>

datatype expr =
    ConstantExpression kvalue
  | GlobalExpression string
  | VariableExpression string
  | BooleanExpression expr expr bool_op
  | OperatorExpression expr "expr option" operator
  | FunctionExpression func "expr list"

definition not_expression :: "expr \<Rightarrow> expr" where
  "not_expression zLeft = BooleanExpression zLeft (ConstantExpression (BooleanValue False)) BOOLEAN_NOT"

datatype stmt =
    LETvariable string expr
  | LETarray "expr list" expr
  | EXECstatement expr
  | MASTstatement expr
  | IFstatement "(expr \<times> stmt list) list"
  | WHILEstatement expr "stmt list"
  | ASSERTstatement expr
  | RETURNstatement expr

subsection \<open>Expressions\<close>

type_synonym 'a parser = "token list \<Rightarrow> ('a \<times> token list) result"

definition getNextToken :: "token parser" where
  "getNextToken ts = (case ts of [] \<Rightarrow> Inl (Throw MinimaParseException) | t # rest \<Rightarrow> Inr (t, rest))"

text \<open>The loop of every binary level: while the next token is one of the level's operators, parse a
  right operand and combine; otherwise go back.\<close>

fun level_loop :: "nat \<Rightarrow> (string \<Rightarrow> (expr \<Rightarrow> expr \<Rightarrow> expr) option) \<Rightarrow> expr parser \<Rightarrow> expr \<Rightarrow> expr parser" where
  "level_loop 0 ops operand ex ts = Inl NoFuel"
| "level_loop (Suc n) ops operand ex [] = Inr (ex, [])"
| "level_loop (Suc n) ops operand ex (t # ts) =
     (case ops (mToken t) of
        None \<Rightarrow> Inr (ex, t # ts)
      | Some combine \<Rightarrow> bindE (operand ts) (\<lambda>(right, rest).
          level_loop n ops operand (combine ex right) rest))"

definition level :: "(string \<Rightarrow> (expr \<Rightarrow> expr \<Rightarrow> expr) option) \<Rightarrow> expr parser \<Rightarrow> expr parser" where
  "level ops operand ts =
     bindE (operand ts) (\<lambda>(ex, rest). level_loop (Suc (length rest)) ops operand ex rest)"

definition boolean_node :: "bool_op \<Rightarrow> (expr \<Rightarrow> expr \<Rightarrow> expr) option" where
  "boolean_node bop = Some (\<lambda>l r. BooleanExpression l r bop)"

definition operator_node :: "operator \<Rightarrow> (expr \<Rightarrow> expr \<Rightarrow> expr) option" where
  "operator_node oper = Some (\<lambda>l r. OperatorExpression l (Some r) oper)"

definition expression_ops :: "string \<Rightarrow> (expr \<Rightarrow> expr \<Rightarrow> expr) option" where
  "expression_ops t =
     (if t = ''AND'' then boolean_node BOOLEAN_AND
      else if t = ''OR'' then boolean_node BOOLEAN_OR
      else if t = ''XOR'' then boolean_node BOOLEAN_XOR
      else if t = ''NAND'' then boolean_node BOOLEAN_NAND
      else if t = ''NOR'' then boolean_node BOOLEAN_NOR
      else if t = ''NXOR'' then boolean_node BOOLEAN_NXOR
      else None)"

definition relation_ops :: "string \<Rightarrow> (expr \<Rightarrow> expr \<Rightarrow> expr) option" where
  "relation_ops t =
     (if t = ''LT'' then boolean_node BOOLEAN_LT
      else if t = ''LTE'' then boolean_node BOOLEAN_LTE
      else if t = ''GT'' then boolean_node BOOLEAN_GT
      else if t = ''GTE'' then boolean_node BOOLEAN_GTE
      else if t = ''EQ'' then boolean_node BOOLEAN_EQ
      else if t = ''NEQ'' then boolean_node BOOLEAN_NEQ
      else None)"

definition logic_ops :: "string \<Rightarrow> (expr \<Rightarrow> expr \<Rightarrow> expr) option" where
  "logic_ops t =
     (if t = ''&'' then operator_node OPERATOR_AND
      else if t = ''|'' then operator_node OPERATOR_OR
      else if t = ''^'' then operator_node OPERATOR_XOR
      else None)"

definition addsub_ops :: "string \<Rightarrow> (expr \<Rightarrow> expr \<Rightarrow> expr) option" where
  "addsub_ops t =
     (if t = ''+'' then operator_node OPERATOR_ADD
      else if t = ''-'' then operator_node OPERATOR_SUB
      else None)"

definition muldiv_ops :: "string \<Rightarrow> (expr \<Rightarrow> expr \<Rightarrow> expr) option" where
  "muldiv_ops t =
     (if t = ''*'' then operator_node OPERATOR_MUL
      else if t = ''/'' then operator_node OPERATOR_DIV
      else if t = ''%'' then operator_node OPERATOR_MODULO
      else if t = ''<<'' then operator_node OPERATOR_SHIFTL
      else if t = ''>>'' then operator_node OPERATOR_SHIFTR
      else None)"

text \<open>The parameters of a function up to the closing bracket. After the 33rd the loop has thrown.\<close>

fun param_loop :: "nat \<Rightarrow> expr parser \<Rightarrow> expr list \<Rightarrow> expr list parser" where
  "param_loop 0 subexpression params ts = Inl NoFuel"
| "param_loop (Suc n) subexpression params ts =
     bindE (getNextToken ts) (\<lambda>(isclosebracket, rest).
       if mTokenType isclosebracket = TOKEN_CLOSEBRACKET then Inr (params, rest)
       else bindE (subexpression ts) (\<lambda>(param, rest').
         if int (length (params @ [param])) > MAX_FUNCTION_PARAMS then Inl (Throw MinimaParseException)
         else param_loop n subexpression (params @ [param]) rest'))"

text \<open>The parsers below \<open>getExpression\<close> take it as a parameter, already at one more stack depth.\<close>

definition getBaseUnit :: "expr parser \<Rightarrow> expr parser" where
  "getBaseUnit deeper ts =
     bindE (getNextToken ts) (\<lambda>(t, rest).
       if mTokenType t = TOKEN_VALUE then
         bindE (value_getValue (mToken t)) (\<lambda>val. Inr (ConstantExpression val, rest))
       else if mToken t = ''-'' then
         bindE (getNextToken rest) (\<lambda>(num, rest').
         bindE (mn_of_string (mToken num)) (\<lambda>m.
         bindE (mn_mult m mn_MINUSONE) (\<lambda>numv.
         bindE (number_value numv) (\<lambda>nv. Inr (ConstantExpression nv, rest')))))
       else if mTokenType t = TOKEN_GLOBAL then Inr (GlobalExpression (mToken t), rest)
       else if mTokenType t = TOKEN_VARIABLE then Inr (VariableExpression (mToken t), rest)
       else if mTokenType t = TOKEN_TRUE then Inr (ConstantExpression (BooleanValue True), rest)
       else if mTokenType t = TOKEN_FALSE then Inr (ConstantExpression (BooleanValue False), rest)
       else if mTokenType t = TOKEN_FUNCTION then
         bindE (getFunction (mToken t)) (\<lambda>f.
         bindE (getNextToken rest) (\<lambda>(bracket, rest').
           if mTokenType bracket \<noteq> TOKEN_OPENBRACKET then Inl (Throw MinimaParseException)
           else bindE (param_loop 34 deeper [] rest') (\<lambda>(params, rest'').
             bindE (checkParamNumberCorrect f (int (length params))) (\<lambda>_.
             Inr (FunctionExpression f params, rest'')))))
       else if mTokenType t = TOKEN_OPENBRACKET then
         bindE (deeper rest) (\<lambda>(ex, rest').
         bindE (getNextToken rest') (\<lambda>(closebracket, rest'').
           if mTokenType closebracket \<noteq> TOKEN_CLOSEBRACKET then Inl (Throw MinimaParseException)
           else Inr (ex, rest'')))
       else Inl (Throw MinimaParseException))"

definition getPrimary :: "expr parser \<Rightarrow> expr parser" where
  "getPrimary deeper ts =
     bindE (getNextToken ts) (\<lambda>(t, rest).
       if mToken t = ''NOT'' then
         bindE (getBaseUnit deeper rest) (\<lambda>(unt, rest'). Inr (not_expression unt, rest'))
       else if mToken t = ''NEG'' then
         bindE (getBaseUnit deeper rest) (\<lambda>(unt, rest'). Inr (OperatorExpression unt None OPERATOR_NEG, rest'))
       else if mToken t = ''~'' then
         bindE (getBaseUnit deeper rest) (\<lambda>(unt, rest'). Inr (OperatorExpression unt None OPERATOR_NOT, rest'))
       else getBaseUnit deeper ts)"

definition getMulDiv :: "expr parser \<Rightarrow> expr parser" where
  "getMulDiv deeper = level muldiv_ops (getPrimary deeper)"

definition getAddSub :: "expr parser \<Rightarrow> expr parser" where
  "getAddSub deeper = level addsub_ops (getMulDiv deeper)"

definition getLogic :: "expr parser \<Rightarrow> expr parser" where
  "getLogic deeper = level logic_ops (getAddSub deeper)"

definition getRelation :: "expr parser \<Rightarrow> expr parser" where
  "getRelation deeper = level relation_ops (getLogic deeper)"

fun getExpression_fuel :: "nat \<Rightarrow> int \<Rightarrow> expr parser" where
  "getExpression_fuel 0 zStackDepth ts = Inl NoFuel"
| "getExpression_fuel (Suc n) zStackDepth ts =
     (if zStackDepth > MAX_STACK_DEPTH then Inl (Throw MinimaParseException)
      else level expression_ops (getRelation (getExpression_fuel n (zStackDepth + 1))) ts)"

definition getExpression_lt :: "int \<Rightarrow> expr parser" where
  "getExpression_lt zStackDepth = getExpression_fuel (Suc (nat (MAX_STACK_DEPTH + 1 - zStackDepth))) zStackDepth"

definition getExpression :: "token list \<Rightarrow> int \<Rightarrow> expr result" where
  "getExpression zTokens zStackDepth =
     (if zTokens = [] then Inl (Throw MinimaParseException)
      else bindE (getExpression_lt zStackDepth zTokens) (\<lambda>(ex, rest).
        if rest \<noteq> [] then Inl (Throw MinimaParseException) else Inr ex))"

subsection \<open>Statements\<close>

definition equalsIgnoreCase :: "string \<Rightarrow> string \<Rightarrow> bool" where
  "equalsIgnoreCase a b = (map to_lower a = map to_lower b)"

text \<open>\<open>zTokens.at(currentPosition++)\<close>.\<close>

definition at_token :: "token parser" where
  "at_token ts = (case ts of [] \<Rightarrow> Inl (Throw OutOfRange) | t # rest \<Rightarrow> Inr (t, rest))"

definition is_command :: "token \<Rightarrow> string \<Rightarrow> bool" where
  "is_command t w = (mTokenType t = TOKEN_COMMAND \<and> mToken t = w)"

definition getTokensToNextCommand :: "token list \<Rightarrow> token list" where
  "getTokensToNextCommand ts = takeWhile (\<lambda>t. mTokenType t \<noteq> TOKEN_COMMAND) ts"

definition getTokensToRequiredCommand :: "token list \<Rightarrow> string \<Rightarrow> token list result" where
  "getTokensToRequiredCommand ts zRequiredToken =
     (if \<exists>t \<in> set ts. mToken t = zRequiredToken
      then Inr (takeWhile (\<lambda>t. mToken t \<noteq> zRequiredToken) ts) else Inl (Throw MinimaParseException))"

definition getTokensToNextEquals :: "token list \<Rightarrow> token list" where
  "getTokensToNextEquals ts = takeWhile (\<lambda>t. \<not> (mTokenType t = TOKEN_OPERATOR \<and> mToken t = ''='')) ts"

function getElseOrElseIfOrEndIF :: "bool \<Rightarrow> token list \<Rightarrow> token list" where
  "getElseOrElseIfOrEndIF zElseAlso [] = []"
| "getElseOrElseIfOrEndIF zElseAlso (t # ts) =
     (if is_command t ''ENDIF'' then [t]
      else if zElseAlso \<and> is_command t ''ELSEIF'' then [t]
      else if zElseAlso \<and> is_command t ''ELSE'' then [t]
      else if is_command t ''IF'' then
        (let toks = getElseOrElseIfOrEndIF False ts in
         t # toks @ getElseOrElseIfOrEndIF zElseAlso (drop (length toks) ts))
      else t # getElseOrElseIfOrEndIF zElseAlso ts)"
  by pat_completeness auto
termination by (relation "measure (\<lambda>(b, ts). length ts)") auto

function getEndWHILE :: "token list \<Rightarrow> token list" where
  "getEndWHILE [] = []"
| "getEndWHILE (t # ts) =
     (if is_command t ''ENDWHILE'' then [t]
      else if is_command t ''WHILE'' then
        (let toks = getEndWHILE ts in t # toks @ getEndWHILE (drop (length toks) ts))
      else t # getEndWHILE ts)"
  by pat_completeness auto
termination by (relation "measure length") auto

text \<open>The index expressions of an array \<open>LET\<close>, one after the other.\<close>

fun index_loop :: "nat \<Rightarrow> int \<Rightarrow> expr list \<Rightarrow> token list \<Rightarrow> expr list result" where
  "index_loop 0 currentStackDepth exps ts = Inl NoFuel"
| "index_loop (Suc n) currentStackDepth exps ts =
     (if ts = [] then Inr exps
      else bindE (getExpression_lt currentStackDepth ts) (\<lambda>(letexp, rest).
        index_loop n currentStackDepth (exps @ [letexp]) rest))"

definition parse_to_next_command :: "int \<Rightarrow> expr parser" where
  "parse_to_next_command currentStackDepth ts =
     (let toks = getTokensToNextCommand ts in
      bindE (getExpression toks currentStackDepth) (\<lambda>ex. Inr (ex, drop (length toks) ts)))"

definition parse_LET :: "int \<Rightarrow> stmt parser" where
  "parse_LET currentStackDepth ts =
     bindE (at_token ts) (\<lambda>(var0, rest).
       if mTokenType var0 = TOKEN_OPENBRACKET then
         (let arraypos = getTokensToNextEquals rest; rest1 = drop (length arraypos) rest in
          if arraypos = [] then Inl (Throw MinimaParseException)
          else if mTokenType (last arraypos) \<noteq> TOKEN_CLOSEBRACKET then Inl (Throw MinimaParseException)
          else bindE (at_token rest1) (\<lambda>(eq, rest2).
            if mTokenType eq \<noteq> TOKEN_OPERATOR \<and> mToken eq \<noteq> ''='' then Inl (Throw MinimaParseException)
            else if butlast arraypos = [] then Inl (Throw MinimaParseException)
            else bindE (index_loop (Suc (length arraypos)) currentStackDepth [] (butlast arraypos)) (\<lambda>exps.
              bindE (parse_to_next_command currentStackDepth rest2) (\<lambda>(ex, rest3).
              Inr (LETarray exps ex, rest3)))))
       else if mTokenType var0 = TOKEN_VARIABLE then
         bindE (at_token rest) (\<lambda>(eq, rest1).
           if mToken eq \<noteq> ''='' then Inl (Throw MinimaParseException)
           else bindE (parse_to_next_command currentStackDepth rest1) (\<lambda>(ex, rest2).
             Inr (LETvariable (mToken var0) ex, rest2)))
       else Inl (Throw MinimaParseException))"

text \<open>A condition up to \<open>THEN\<close> or \<open>DO\<close>, and the rest after it.\<close>

definition parse_condition :: "int \<Rightarrow> string \<Rightarrow> expr parser" where
  "parse_condition currentStackDepth zRequired ts =
     bindE (getTokensToRequiredCommand ts zRequired) (\<lambda>conditiontokens.
     bindE (getExpression conditiontokens currentStackDepth) (\<lambda>condition.
     Inr (condition, drop (length conditiontokens + 1) ts)))"

text \<open>The block of a branch with the marker that ends it; \<open>back()\<close> of no tokens is undefined.\<close>

definition parse_branch :: "(token list \<Rightarrow> stmt list result) \<Rightarrow> (stmt list \<times> string) parser" where
  "parse_branch block ts =
     (let actiontokens = getElseOrElseIfOrEndIF True ts in
      if actiontokens = [] then Inl Undef
      else bindE (block (butlast actiontokens)) (\<lambda>action.
        Inr ((action, mToken (last actiontokens)), drop (length actiontokens) ts)))"

fun else_loop :: "nat \<Rightarrow> (token list \<Rightarrow> stmt list result) \<Rightarrow> int \<Rightarrow> (expr \<times> stmt list) list \<Rightarrow> string
    \<Rightarrow> stmt parser" where
  "else_loop 0 block currentStackDepth conditions nexttok ts = Inl NoFuel"
| "else_loop (Suc n) block currentStackDepth conditions nexttok ts =
     (if nexttok = ''ENDIF'' then Inr (IFstatement conditions, ts)
      else bindE (if nexttok = ''ELSE'' then
                    bindE (getExpression [tok TOKEN_TRUE ''TRUE''] currentStackDepth) (\<lambda>c. Inr (c, ts))
                  else if nexttok = ''ELSEIF'' then parse_condition currentStackDepth ''THEN'' ts
                  else Inl (Throw MinimaParseException)) (\<lambda>(condition, rest).
        bindE (parse_branch block rest) (\<lambda>((action, nexttok'), rest').
        else_loop n block currentStackDepth (conditions @ [(condition, action)]) nexttok' rest')))"

definition parse_IF :: "(token list \<Rightarrow> stmt list result) \<Rightarrow> int \<Rightarrow> stmt parser" where
  "parse_IF block currentStackDepth ts =
     bindE (parse_condition currentStackDepth ''THEN'' ts) (\<lambda>(condition, rest).
     bindE (parse_branch block rest) (\<lambda>((action, nexttok), rest').
     else_loop (Suc (length rest')) block currentStackDepth [(condition, action)] nexttok rest'))"

text \<open>\<open>pop_back()\<close> of no tokens is undefined.\<close>

definition parse_WHILE :: "(token list \<Rightarrow> stmt list result) \<Rightarrow> int \<Rightarrow> stmt parser" where
  "parse_WHILE block currentStackDepth ts =
     bindE (parse_condition currentStackDepth ''DO'' ts) (\<lambda>(condition, rest).
       let actiontokens = getEndWHILE rest in
       if actiontokens = [] then Inl Undef
       else bindE (block (butlast actiontokens)) (\<lambda>action.
         Inr (WHILEstatement condition action, drop (length actiontokens) rest)))"

definition parse_statement :: "(token list \<Rightarrow> stmt list result) \<Rightarrow> int \<Rightarrow> string \<Rightarrow> stmt parser" where
  "parse_statement block currentStackDepth token ts =
     (let simple = (\<lambda>make. bindE (parse_to_next_command currentStackDepth ts) (\<lambda>(ex, rest). Inr (make ex, rest))) in
      if equalsIgnoreCase token ''LET'' then parse_LET currentStackDepth ts
      else if equalsIgnoreCase token ''EXEC'' then simple EXECstatement
      else if equalsIgnoreCase token ''MAST'' then simple MASTstatement
      else if equalsIgnoreCase token ''IF'' then parse_IF block currentStackDepth ts
      else if equalsIgnoreCase token ''WHILE'' then parse_WHILE block currentStackDepth ts
      else if equalsIgnoreCase token ''ASSERT'' then simple ASSERTstatement
      else if equalsIgnoreCase token ''RETURN'' then simple RETURNstatement
      else Inl (Throw MinimaParseException))"

fun statement_loop :: "nat \<Rightarrow> (token list \<Rightarrow> stmt list result) \<Rightarrow> int \<Rightarrow> stmt list \<Rightarrow> token list \<Rightarrow> stmt list result" where
  "statement_loop 0 block currentStackDepth stats ts = Inl NoFuel"
| "statement_loop (Suc n) block currentStackDepth stats [] = Inr stats"
| "statement_loop (Suc n) block currentStackDepth stats (t # ts) =
     (if mTokenType t \<noteq> TOKEN_COMMAND then Inl (Throw MinimaParseException)
      else bindE (parse_statement block currentStackDepth (mToken t) ts) (\<lambda>(stat, rest).
        statement_loop n block currentStackDepth (stats @ [stat]) rest))"

fun parseTokens_fuel :: "nat \<Rightarrow> token list \<Rightarrow> int \<Rightarrow> stmt list result" where
  "parseTokens_fuel 0 zTokens zStackDepth = Inl NoFuel"
| "parseTokens_fuel (Suc n) zTokens zStackDepth =
     (let currentStackDepth = zStackDepth + 1 in
      if currentStackDepth > MAX_STACK_DEPTH then Inl (Throw MinimaParseException)
      else statement_loop (Suc (length zTokens)) (\<lambda>ts. parseTokens_fuel n ts currentStackDepth)
             currentStackDepth [] zTokens)"

definition parseTokens :: "token list \<Rightarrow> int \<Rightarrow> stmt list result" where
  "parseTokens zTokens zStackDepth = parseTokens_fuel (Suc (nat (MAX_STACK_DEPTH - zStackDepth))) zTokens zStackDepth"

text \<open>A script from its text.\<close>

definition parse_script :: "string \<Rightarrow> int \<Rightarrow> stmt list result" where
  "parse_script zScript zStackDepth = bindE (tokenize zScript) (\<lambda>tokens. parseTokens tokens zStackDepth)"

subsection \<open>Well-formed programs\<close>

text \<open>What the evaluator relies on: constants are legal values, functions have the declared number
  of parameters, binary operators have a right operand.\<close>

definition arity_ok :: "func \<Rightarrow> int \<Rightarrow> bool" where
  "arity_ok f n = (n \<le> MAX_FUNCTION_PARAMS \<and> checkParamNumberCorrect f n = Inr ())"

fun expr_wf :: "expr \<Rightarrow> bool" where
  "expr_wf (ConstantExpression v) = value_wf v"
| "expr_wf (GlobalExpression w) = True"
| "expr_wf (VariableExpression w) = True"
| "expr_wf (BooleanExpression l r bop) = (expr_wf l \<and> expr_wf r)"
| "expr_wf (OperatorExpression l r oper) =
     (expr_wf l \<and> (case r of None \<Rightarrow> oper = OPERATOR_NEG \<or> oper = OPERATOR_NOT
                           | Some r \<Rightarrow> expr_wf r \<and> oper \<noteq> OPERATOR_NEG \<and> oper \<noteq> OPERATOR_NOT))"
| "expr_wf (FunctionExpression f ps) = (arity_ok f (int (length ps)) \<and> (\<forall>p \<in> set ps. expr_wf p))"

fun stmt_wf :: "stmt \<Rightarrow> bool" where
  "stmt_wf (LETvariable w e) = expr_wf e"
| "stmt_wf (LETarray is e) = ((\<forall>i \<in> set is. expr_wf i) \<and> expr_wf e)"
| "stmt_wf (EXECstatement e) = expr_wf e"
| "stmt_wf (MASTstatement e) = expr_wf e"
| "stmt_wf (IFstatement cs) = (\<forall>c \<in> set cs. expr_wf (fst c) \<and> (\<forall>s \<in> set (snd c). stmt_wf s))"
| "stmt_wf (WHILEstatement e b) = (expr_wf e \<and> (\<forall>s \<in> set b. stmt_wf s))"
| "stmt_wf (ASSERTstatement e) = expr_wf e"
| "stmt_wf (RETURNstatement e) = expr_wf e"

definition block_wf :: "stmt list \<Rightarrow> bool" where
  "block_wf b = (\<forall>s \<in> set b. stmt_wf s)"

lemma block_wf_iff [simp]: "block_wf b \<longleftrightarrow> (\<forall>s \<in> set b. stmt_wf s)"
  by (simp add: block_wf_def)

text \<open>Any error but the exhaustion of the fuel.\<close>

definition proper :: "error set" where
  "proper = - {NoFuel}"

lemma proper_simps [simp]: "Throw e \<in> proper" "Undef \<in> proper" "NoFuel \<notin> proper"
  by (simp_all add: proper_def)

lemma value_errors_proper: "value_errors \<subseteq> proper"
  by (auto simp: value_errors_def)

subsection \<open>The expression parser\<close>

text \<open>\<open>parses P p ts\<close>: \<open>p\<close> ends, and what it returns has \<open>P\<close> and has consumed a token.\<close>

definition parses :: "('a \<Rightarrow> bool) \<Rightarrow> 'a parser \<Rightarrow> token list \<Rightarrow> bool" where
  "parses P p ts = outcome proper (\<lambda>(x, rest). P x \<and> length rest < length ts) (p ts)"

lemma getNextToken_outcome:
  "outcome proper (\<lambda>(t, rest). ts = t # rest) (getNextToken ts)"
  by (cases ts) (simp_all add: getNextToken_def)

lemma bind_getNextToken:
  "(\<And>t rest. ts = t # rest \<Longrightarrow> outcome proper P (f (t, rest))) \<Longrightarrow> outcome proper P (bindE (getNextToken ts) f)"
  by (cases ts) (simp_all add: getNextToken_def)

lemma bind_parses:
  assumes "parses P p ts"
    and "\<And>x rest. P x \<Longrightarrow> length rest < length ts \<Longrightarrow> outcome proper Q (f (x, rest))"
  shows "outcome proper Q (bindE (p ts) f)"
  using assms(1) unfolding parses_def by (rule outcome_bind) (use assms(2) in auto)

lemma level_loop_parses:
  assumes "\<And>ts. parses expr_wf operand ts"
    and "\<And>t c l r. ops t = Some c \<Longrightarrow> expr_wf l \<Longrightarrow> expr_wf r \<Longrightarrow> expr_wf (c l r)"
  shows "length ts < n \<Longrightarrow> expr_wf e
    \<Longrightarrow> outcome proper (\<lambda>(x, rest). expr_wf x \<and> length rest \<le> length ts) (level_loop n ops operand e ts)"
proof (induction n arbitrary: ts e)
  case (Suc n)
  show ?case
  proof (cases ts)
    case (Cons t us)
    have "outcome proper (\<lambda>(x, rest). expr_wf x \<and> length rest \<le> length ts)
        (bindE (operand us) (\<lambda>(right, rest). level_loop n ops operand (c e right) rest))" if "ops (mToken t) = Some c" for c
    proof (rule bind_parses [OF assms(1)])
      fix x and rest :: "token list"
      assume x: "expr_wf x" "length rest < length us"
      have "outcome proper (\<lambda>(x, r). expr_wf x \<and> length r \<le> length rest) (level_loop n ops operand (c e x) rest)"
        using x Suc.prems Cons assms(2) [OF that] by (intro Suc.IH) simp_all
      then show "outcome proper (\<lambda>(x, rest). expr_wf x \<and> length rest \<le> length ts)
          ((\<lambda>(right, rest). level_loop n ops operand (c e right) rest) (x, rest))"
        using x Cons by (auto elim!: outcome_mono)
    qed
    then show ?thesis using Suc.prems Cons by (auto split: option.split)
  qed (use Suc.prems in simp)
qed simp

lemma level_parses:
  assumes "\<And>ts. parses expr_wf operand ts"
    and "\<And>t c l r. ops t = Some c \<Longrightarrow> expr_wf l \<Longrightarrow> expr_wf r \<Longrightarrow> expr_wf (c l r)"
  shows "parses expr_wf (level ops operand) ts"
proof -
  have l: "outcome proper (\<lambda>(x, r). expr_wf x \<and> length r < length ts) (level_loop (Suc (length rest)) ops operand e rest)"
    if "expr_wf e" "length rest < length ts" for e rest
  proof -
    have "outcome proper (\<lambda>(x, r). expr_wf x \<and> length r \<le> length rest) (level_loop (Suc (length rest)) ops operand e rest)"
      by (rule level_loop_parses) (use assms that in auto)
    then show ?thesis by (rule outcome_mono) (use that in auto)
  qed
  show ?thesis
    unfolding parses_def level_def by (rule bind_parses [OF assms(1)]) (simp only: prod.case l)
qed

lemma ops_wf:
  "expression_ops t = Some c \<Longrightarrow> expr_wf l \<Longrightarrow> expr_wf r \<Longrightarrow> expr_wf (c l r)"
  "relation_ops t = Some c \<Longrightarrow> expr_wf l \<Longrightarrow> expr_wf r \<Longrightarrow> expr_wf (c l r)"
  "logic_ops t = Some c \<Longrightarrow> expr_wf l \<Longrightarrow> expr_wf r \<Longrightarrow> expr_wf (c l r)"
  "addsub_ops t = Some c \<Longrightarrow> expr_wf l \<Longrightarrow> expr_wf r \<Longrightarrow> expr_wf (c l r)"
  "muldiv_ops t = Some c \<Longrightarrow> expr_wf l \<Longrightarrow> expr_wf r \<Longrightarrow> expr_wf (c l r)"
  by (auto simp: expression_ops_def relation_ops_def logic_ops_def addsub_ops_def muldiv_ops_def
      boolean_node_def operator_node_def split: if_splits)

lemma param_loop_parses:
  assumes "\<And>ts. parses expr_wf sub ts"
  shows "length ps + n = 34 \<Longrightarrow> length ps \<le> 32 \<Longrightarrow> \<forall>p \<in> set ps. expr_wf p
    \<Longrightarrow> parses (\<lambda>qs. length qs \<le> 32 \<and> (\<forall>q \<in> set qs. expr_wf q)) (param_loop n sub ps) ts"
proof (induction n arbitrary: ps ts)
  case (Suc n ps ts)
  let ?P = "\<lambda>qs. length qs \<le> 32 \<and> (\<forall>q \<in> set qs. expr_wf q)"
  have "outcome proper (\<lambda>(x, r). ?P x \<and> length r < length ts)
      (bindE (sub ts) (\<lambda>(param, rest').
         if int (length (ps @ [param])) > MAX_FUNCTION_PARAMS then Inl (Throw MinimaParseException)
         else param_loop n sub (ps @ [param]) rest'))"
  proof (rule bind_parses [OF assms])
    fix x and rest :: "token list"
    assume x: "expr_wf x" "length rest < length ts"
    have "outcome proper (\<lambda>(x, r). ?P x \<and> length r < length ts) (param_loop n sub (ps @ [x]) rest)"
      if "\<not> int (length (ps @ [x])) > MAX_FUNCTION_PARAMS"
    proof -
      have "parses ?P (param_loop n sub (ps @ [x])) rest"
        using that x Suc.prems by (intro Suc.IH) (simp_all add: MAX_FUNCTION_PARAMS_def)
      then show ?thesis unfolding parses_def by (rule outcome_mono) (use x in auto)
    qed
    then show "outcome proper (\<lambda>(x, r). ?P x \<and> length r < length ts)
        ((\<lambda>(param, rest'). if int (length (ps @ [param])) > MAX_FUNCTION_PARAMS then Inl (Throw MinimaParseException)
         else param_loop n sub (ps @ [param]) rest') (x, rest))"
      by (simp del: length_append)
  qed
  then show ?case
    unfolding parses_def param_loop.simps using Suc.prems
    by (intro bind_getNextToken) (simp only: prod.case, auto)
qed simp

lemma parses_mono: "parses P p us \<Longrightarrow> length us \<le> length ts \<Longrightarrow> outcome proper (\<lambda>(x, r). P x \<and> length r < length ts) (p us)"
  unfolding parses_def by (erule outcome_mono) auto

lemma negative_literal_outcome:
  "outcome value_errors value_wf (bindE (mn_of_string s) (\<lambda>m. bindE (mn_mult m mn_MINUSONE) number_value))"
  by (rule outcome_bind [OF outcome_mono [OF mn_of_string_outcome]])
    (auto simp: value_errors_def intro!: number_outcome [unfolded value_errors_def] mn_ops_safe)

lemma getFunction_outcome: "outcome proper (\<lambda>_. True) (getFunction w)"
  by (auto simp: getFunction_def split: option.split)

lemma arity_outcome:
  "length ps \<le> 32 \<Longrightarrow> outcome proper (\<lambda>_. arity_ok f (int (length ps))) (checkParamNumberCorrect f (int (length ps)))"
  by (auto simp: checkParamNumberCorrect_def arity_ok_def MAX_FUNCTION_PARAMS_def)

lemma getBaseUnit_parses:
  assumes d: "\<And>ts. parses expr_wf deeper ts"
  shows "parses expr_wf (getBaseUnit deeper) ts"
  unfolding parses_def getBaseUnit_def
proof (intro bind_getNextToken, unfold prod.case, intro outcome_if)
  fix t rest
  assume ts: "ts = t # rest"
  let ?Q = "\<lambda>(x, r). expr_wf x \<and> length r < length ts"
  show "outcome proper ?Q (bindE (value_getValue (mToken t)) (\<lambda>val. Inr (ConstantExpression val, rest)))"
    using outcome_mono [OF value_getValue_outcome value_errors_proper] ts
    by (intro outcome_bind [where P = value_wf]) auto
  show "outcome proper ?Q (bindE (getNextToken rest) (\<lambda>(num, rest'). bindE (mn_of_string (mToken num))
      (\<lambda>m. bindE (mn_mult m mn_MINUSONE) (\<lambda>numv. bindE (number_value numv) (\<lambda>nv. Inr (ConstantExpression nv, rest'))))))"
  proof (rule bind_getNextToken, unfold prod.case)
    fix num rest'
    assume r: "rest = num # rest'"
    have "outcome proper ?Q (bindE (bindE (mn_of_string (mToken num)) (\<lambda>m. bindE (mn_mult m mn_MINUSONE) number_value))
        (\<lambda>nv. Inr (ConstantExpression nv, rest')))"
      using outcome_mono [OF negative_literal_outcome value_errors_proper] ts r
      by (intro outcome_bind [where P = value_wf]) auto
    then show "outcome proper ?Q (bindE (mn_of_string (mToken num)) (\<lambda>m. bindE (mn_mult m mn_MINUSONE)
        (\<lambda>numv. bindE (number_value numv) (\<lambda>nv. Inr (ConstantExpression nv, rest')))))"
      by (simp only: bindE_assoc)
  qed
  show "outcome proper ?Q (bindE (getFunction (mToken t)) (\<lambda>f. bindE (getNextToken rest) (\<lambda>(bracket, rest').
      if mTokenType bracket \<noteq> TOKEN_OPENBRACKET then Inl (Throw MinimaParseException)
      else bindE (param_loop 34 deeper [] rest') (\<lambda>(params, rest''). bindE (checkParamNumberCorrect f (int (length params)))
             (\<lambda>_. Inr (FunctionExpression f params, rest''))))))"
  proof (rule outcome_bind [OF getFunction_outcome], intro bind_getNextToken, unfold prod.case, intro outcome_if)
    fix f bracket rest'
    assume r: "rest = bracket # rest'"
    have "parses (\<lambda>qs. length qs \<le> 32 \<and> (\<forall>q \<in> set qs. expr_wf q)) (param_loop 34 deeper []) rest'"
      using d by (rule param_loop_parses) simp_all
    then show "outcome proper ?Q (bindE (param_loop 34 deeper [] rest') (\<lambda>(params, rest''). bindE (checkParamNumberCorrect f (int (length params)))
             (\<lambda>_. Inr (FunctionExpression f params, rest''))))"
    proof (rule bind_parses, unfold prod.case)
      fix params rest''
      assume p: "length params \<le> 32 \<and> (\<forall>q \<in> set params. expr_wf q)" "length rest'' < length rest'"
      show "outcome proper ?Q (bindE (checkParamNumberCorrect f (int (length params))) (\<lambda>_. Inr (FunctionExpression f params, rest'')))"
        using p ts r by (intro outcome_bind [OF arity_outcome]) auto
    qed
  qed simp
  show "outcome proper ?Q (bindE (deeper rest) (\<lambda>(ex, rest'). bindE (getNextToken rest') (\<lambda>(closebracket, rest'').
      if mTokenType closebracket \<noteq> TOKEN_CLOSEBRACKET then Inl (Throw MinimaParseException) else Inr (ex, rest''))))"
    using d ts by (intro bind_parses [OF d], unfold prod.case, intro bind_getNextToken) auto
qed auto

lemma getPrimary_parses:
  assumes d: "\<And>ts. parses expr_wf deeper ts"
  shows "parses expr_wf (getPrimary deeper) ts"
  unfolding parses_def getPrimary_def
proof (intro bind_getNextToken, unfold prod.case, intro outcome_if)
  fix t rest
  assume ts: "ts = t # rest"
  have unary: "outcome proper (\<lambda>(x, r). expr_wf x \<and> length r < length ts)
      (bindE (getBaseUnit deeper rest) (\<lambda>(unt, rest'). Inr (make unt, rest')))"
    if "\<And>e. expr_wf e \<Longrightarrow> expr_wf (make e)" for make
    using that ts by (intro bind_parses [OF getBaseUnit_parses [OF d]]) auto
  show "outcome proper (\<lambda>(x, r). expr_wf x \<and> length r < length ts)
      (bindE (getBaseUnit deeper rest) (\<lambda>(unt, rest'). Inr (not_expression unt, rest')))"
    by (rule unary) (simp add: not_expression_def)
  show "outcome proper (\<lambda>(x, r). expr_wf x \<and> length r < length ts)
      (bindE (getBaseUnit deeper rest) (\<lambda>(unt, rest'). Inr (OperatorExpression unt None OPERATOR_NEG, rest')))"
    by (rule unary) simp
  show "outcome proper (\<lambda>(x, r). expr_wf x \<and> length r < length ts)
      (bindE (getBaseUnit deeper rest) (\<lambda>(unt, rest'). Inr (OperatorExpression unt None OPERATOR_NOT, rest')))"
    by (rule unary) simp
  show "outcome proper (\<lambda>(x, r). expr_wf x \<and> length r < length ts) (getBaseUnit deeper ts)"
    using getBaseUnit_parses [OF d] by (simp only: parses_def)
qed

lemma levels_parse:
  assumes "\<And>ts. parses expr_wf p ts"
  shows "parses expr_wf (level expression_ops p) ts" "parses expr_wf (level relation_ops p) ts"
    "parses expr_wf (level logic_ops p) ts" "parses expr_wf (level addsub_ops p) ts"
    "parses expr_wf (level muldiv_ops p) ts"
  by (rule level_parses [OF assms], erule (2) ops_wf)+

lemma getRelation_parses:
  assumes "\<And>ts. parses expr_wf deeper ts"
  shows "parses expr_wf (getRelation deeper) ts"
  unfolding getRelation_def getLogic_def getAddSub_def getMulDiv_def
  by (intro levels_parse getPrimary_parses assms)

lemma getExpression_fuel_parses:
  "0 < n \<Longrightarrow> MAX_STACK_DEPTH + 1 - d < int n \<Longrightarrow> parses expr_wf (getExpression_fuel n d) ts"
proof (induction n arbitrary: d ts)
  case (Suc n d ts)
  show ?case
  proof (cases "d > MAX_STACK_DEPTH")
    case False
    have "parses expr_wf (getExpression_fuel n (d + 1)) us" for us
      using Suc.prems False by (intro Suc.IH) linarith+
    then have "parses expr_wf (level expression_ops (getRelation (getExpression_fuel n (d + 1)))) ts"
      by (intro levels_parse getRelation_parses)
    then show ?thesis using False by (simp add: parses_def)
  qed (simp add: parses_def)
qed simp

lemma getExpression_lt_parses: "parses expr_wf (getExpression_lt d) ts"
  unfolding getExpression_lt_def by (rule getExpression_fuel_parses) simp_all

lemma getExpression_outcome: "outcome proper expr_wf (getExpression ts d)"
  unfolding getExpression_def
  by (intro outcome_if bind_parses [OF getExpression_lt_parses], simp, unfold prod.case, intro outcome_if) simp_all

subsection \<open>The statement parser\<close>

lemma length_getElse: "length (getElseOrElseIfOrEndIF b ts) \<le> length ts"
proof (induction b ts rule: getElseOrElseIfOrEndIF.induct)
  case (2 b t ts)
  then show ?case
    by (cases "is_command t ''IF''"; cases "is_command t ''ENDIF''"; cases "b \<and> is_command t ''ELSEIF''";
        cases "b \<and> is_command t ''ELSE''") (auto simp: Let_def)
qed simp

lemma at_token_bind:
  "(\<And>t rest. ts = t # rest \<Longrightarrow> outcome proper P (f (t, rest))) \<Longrightarrow> outcome proper P (bindE (at_token ts) f)"
  by (cases ts) (simp_all add: at_token_def)

text \<open>\<open>consumes P p ts\<close>: as \<open>parses\<close>, but the parser may consume nothing.\<close>

definition consumes :: "('a \<Rightarrow> bool) \<Rightarrow> 'a parser \<Rightarrow> token list \<Rightarrow> bool" where
  "consumes P p ts = outcome proper (\<lambda>(x, rest). P x \<and> length rest \<le> length ts) (p ts)"

lemma bind_consumes:
  assumes "consumes P p ts"
    and "\<And>x rest. P x \<Longrightarrow> length rest \<le> length ts \<Longrightarrow> outcome proper Q (f (x, rest))"
  shows "outcome proper Q (bindE (p ts) f)"
  using assms(1) unfolding consumes_def by (rule outcome_bind) (use assms(2) in auto)

lemma consumes_mono:
  "consumes P p us \<Longrightarrow> length us \<le> length ts \<Longrightarrow> outcome proper (\<lambda>(x, r). P x \<and> length r \<le> length ts) (p us)"
  unfolding consumes_def by (erule outcome_mono) auto

lemma parse_to_next_command_consumes: "consumes expr_wf (parse_to_next_command d) ts"
  unfolding consumes_def parse_to_next_command_def Let_def
  by (rule outcome_bind [OF getExpression_outcome]) simp

lemma index_loop_outcome:
  "length ts < n \<Longrightarrow> \<forall>e \<in> set es. expr_wf e \<Longrightarrow> outcome proper (\<lambda>es. \<forall>e \<in> set es. expr_wf e) (index_loop n d es ts)"
proof (induction n arbitrary: es ts)
  case (Suc n es ts)
  show ?case unfolding index_loop.simps
  proof (intro outcome_if bind_parses [OF getExpression_lt_parses], unfold prod.case)
    fix x and rest :: "token list"
    assume "expr_wf x" "length rest < length ts"
    then show "outcome proper (\<lambda>es. \<forall>e \<in> set es. expr_wf e) (index_loop n d (es @ [x]) rest)"
      using Suc.prems by (intro Suc.IH) auto
  qed (use Suc.prems in simp)
qed simp

lemma let_array_outcome:
  "length rest < k \<Longrightarrow> outcome proper (\<lambda>(x, r). stmt_wf x \<and> length r \<le> k)
     (bindE (index_loop (Suc (length ap)) d [] (butlast ap)) (\<lambda>exps.
        bindE (parse_to_next_command d rest) (\<lambda>(ex, rest3). Inr (LETarray exps ex, rest3))))"
  by (rule outcome_bind [OF index_loop_outcome], simp, simp, rule bind_consumes [OF parse_to_next_command_consumes]) simp

lemma let_variable_outcome:
  "length rest < k \<Longrightarrow> outcome proper (\<lambda>(x, r). stmt_wf x \<and> length r \<le> k)
     (bindE (parse_to_next_command d rest) (\<lambda>(ex, rest2). Inr (LETvariable w ex, rest2)))"
  by (rule bind_consumes [OF parse_to_next_command_consumes]) simp

lemma drop_eq_ConsD: "drop n xs = y # ys \<Longrightarrow> length ys < length xs"
  by (drule arg_cong [where f = length]) simp

lemma parse_LET_consumes: "consumes stmt_wf (parse_LET d) ts"
  unfolding consumes_def parse_LET_def Let_def
  by ((rule at_token_bind, unfold prod.case, intro outcome_if at_token_bind, simp_all only: prod.case);
      (intro outcome_if let_array_outcome let_variable_outcome)?; auto dest!: drop_eq_ConsD)

lemma parse_condition_consumes: "consumes expr_wf (parse_condition d w) ts"
  unfolding consumes_def parse_condition_def getTokensToRequiredCommand_def
  by (auto intro: outcome_bind [OF getExpression_outcome])

lemma consumed_less: "ys \<noteq> [] \<Longrightarrow> length ys \<le> n \<Longrightarrow> n - length ys < n"
  by (cases ys) auto

lemma parse_branch_parses:
  assumes "\<And>ts. outcome proper block_wf (block ts)"
  shows "parses (\<lambda>(b, w). block_wf b) (parse_branch block) ts"
  unfolding parses_def parse_branch_def Let_def
  using length_getElse [of True ts] by (auto intro!: outcome_if outcome_bind [OF assms] consumed_less)

lemma else_loop_consumes:
  assumes b: "\<And>ts. outcome proper block_wf (block ts)"
  shows "length ts < n \<Longrightarrow> \<forall>c \<in> set cs. expr_wf (fst c) \<and> block_wf (snd c)
    \<Longrightarrow> consumes stmt_wf (else_loop n block d cs w) ts"
proof (induction n arbitrary: cs w ts)
  case (Suc n cs w ts)
  let ?cond = "if w = ''ELSE'' then bindE (getExpression [tok TOKEN_TRUE ''TRUE''] d) (\<lambda>c. Inr (c, ts))
                  else if w = ''ELSEIF'' then parse_condition d ''THEN'' ts
                  else Inl (Throw MinimaParseException)"
  have c: "outcome proper (\<lambda>(c, rest). expr_wf c \<and> length rest \<le> length ts) ?cond"
    using parse_condition_consumes [of d "''THEN''" ts]
    by (intro outcome_if outcome_bind [OF getExpression_outcome]) (simp_all add: consumes_def)
  have "outcome proper (\<lambda>(x, r). stmt_wf x \<and> length r \<le> length ts) (bindE ?cond (\<lambda>(condition, rest).
        bindE (parse_branch block rest) (\<lambda>((action, nexttok'), rest').
        else_loop n block d (cs @ [(condition, action)]) nexttok' rest')))"
  proof (rule outcome_bind [OF c], clarify)
    fix condition and rest :: "token list"
    assume 1: "expr_wf condition" "length rest \<le> length ts"
    show "outcome proper (\<lambda>(x, r). stmt_wf x \<and> length r \<le> length ts)
        (bindE (parse_branch block rest) (\<lambda>((action, nexttok'), rest').
          else_loop n block d (cs @ [(condition, action)]) nexttok' rest'))"
    proof (rule bind_parses [OF parse_branch_parses [OF b]], clarify)
      fix action w' and rest' :: "token list"
      assume 2: "block_wf action" "length rest' < length rest"
      have "consumes stmt_wf (else_loop n block d (cs @ [(condition, action)]) w') rest'"
        using 1 2 Suc.prems by (intro Suc.IH) auto
      then show "outcome proper (\<lambda>(x, r). stmt_wf x \<and> length r \<le> length ts)
          (else_loop n block d (cs @ [(condition, action)]) w' rest')"
        using 1 2 by (intro consumes_mono) auto
    qed
  qed
  then show ?case unfolding consumes_def else_loop.simps using Suc.prems(2) by (intro outcome_if) auto
qed simp

lemma parse_IF_consumes:
  assumes "\<And>ts. outcome proper block_wf (block ts)"
  shows "consumes stmt_wf (parse_IF block d) ts"
  unfolding consumes_def parse_IF_def
proof (rule bind_consumes [OF parse_condition_consumes], unfold prod.case, rule bind_parses [OF parse_branch_parses [OF assms]], clarify)
  fix c action w and rest rest' :: "token list"
  assume "expr_wf c" "length rest \<le> length ts" "block_wf action" "length rest' < length rest"
  then show "outcome proper (\<lambda>(x, r). stmt_wf x \<and> length r \<le> length ts)
      (else_loop (Suc (length rest')) block d [(c, action)] w rest')"
    by (intro consumes_mono else_loop_consumes [OF assms]) auto
qed

lemma parse_WHILE_consumes:
  assumes "\<And>ts. outcome proper block_wf (block ts)"
  shows "consumes stmt_wf (parse_WHILE block d) ts"
  unfolding consumes_def parse_WHILE_def Let_def
  by (rule bind_consumes [OF parse_condition_consumes], unfold prod.case, intro outcome_if outcome_bind [OF assms]) auto

lemma parse_statement_consumes:
  assumes "\<And>ts. outcome proper block_wf (block ts)"
  shows "consumes stmt_wf (parse_statement block d w) ts"
proof -
  have s: "outcome proper (\<lambda>(x, r). stmt_wf x \<and> length r \<le> length ts)
      (bindE (parse_to_next_command d ts) (\<lambda>(ex, rest). Inr (make ex, rest)))"
    if "\<And>e. expr_wf e \<Longrightarrow> stmt_wf (make e)" for make
    using that by (intro bind_consumes [OF parse_to_next_command_consumes]) auto
  show ?thesis
    unfolding consumes_def parse_statement_def Let_def
    using parse_LET_consumes [of d ts] parse_IF_consumes [where d = d and ts = ts, OF assms]
      parse_WHILE_consumes [where d = d and ts = ts, OF assms]
    by (intro outcome_if s) (simp_all add: consumes_def)
qed

lemma statement_loop_outcome:
  assumes "\<And>ts. outcome proper block_wf (block ts)"
  shows "length ts < n \<Longrightarrow> block_wf ss \<Longrightarrow> outcome proper block_wf (statement_loop n block d ss ts)"
proof (induction n arbitrary: ss ts)
  case (Suc n ss ts)
  show ?case
  proof (cases ts)
    case (Cons t us)
    have "outcome proper block_wf (bindE (parse_statement block d (mToken t) us)
        (\<lambda>(stat, rest). statement_loop n block d (ss @ [stat]) rest))"
    proof (rule bind_consumes [OF parse_statement_consumes [OF assms]], unfold prod.case)
      fix x and rest :: "token list"
      assume "stmt_wf x" "length rest \<le> length us"
      then show "outcome proper block_wf (statement_loop n block d (ss @ [x]) rest)"
        using Suc.prems Cons by (intro Suc.IH) auto
    qed
    then show ?thesis unfolding Cons by (simp del: block_wf_iff)
  qed (use Suc.prems in simp)
qed simp

lemma parseTokens_fuel_outcome:
  "0 < n \<Longrightarrow> MAX_STACK_DEPTH - d < int n \<Longrightarrow> outcome proper block_wf (parseTokens_fuel n ts d)"
proof (induction n arbitrary: d ts)
  case (Suc n d ts)
  show ?case
  proof (cases "d + 1 > MAX_STACK_DEPTH")
    case False
    have "outcome proper block_wf (parseTokens_fuel n us (d + 1))" for us
      using Suc.prems False by (intro Suc.IH) linarith+
    then have "outcome proper block_wf (statement_loop (Suc (length ts)) (\<lambda>us. parseTokens_fuel n us (d + 1)) (d + 1) [] ts)"
      by (rule statement_loop_outcome) simp_all
    then show ?thesis using False by (simp add: Let_def del: block_wf_iff)
  qed (simp add: Let_def)
qed simp

lemma parseTokens_outcome: "outcome proper block_wf (parseTokens ts d)"
  unfolding parseTokens_def by (rule parseTokens_fuel_outcome) simp_all

lemma parse_script_outcome: "outcome proper block_wf (parse_script s d)"
proof -
  have "outcome proper (\<lambda>_. True) (tokenize s)"
    using tokenize_loop_total [of s "Suc (length s)" False True]
    unfolding tokenize_def tokenize_ci_def fails_in_outcome by (auto elim: outcome_mono)
  then show ?thesis
    unfolding parse_script_def by (rule outcome_bind) (rule parseTokens_outcome)
qed

subsection \<open>Properties\<close>

text \<open>C6 Parsing a script always ends and never exhausts the rounds it is given, whatever the text and the
  starting depth: it throws, reaches the one undefined case (an empty vector asked for its last element, or
  a decimal exponent outside \<open>int\<close>), or yields a well-formed program, in which every constant is a legal value, every binary operator has
  both operands, and every function call has the number of parameters the function declares, at most 32.\<close>

theorem parser_total: "outcome proper block_wf (parse_script zScript zStackDepth)"
  by (rule parse_script_outcome)

end
