(* ===== verification/Crypto.thy ===== *)
theory Crypto
  imports DataTypes
begin

text \<open>
  Hashing of objects (\<open>src/org/minima/utils/crypto.cpp\<close>). The digests themselves are computed by
  OpenSSL, which is not part of the sources: they are the two functions of the record \<open>crypto\<close>, an
  argument of every definition that hashes. An object is the result of writing it to a stream; an
  exception while writing makes the hash of the object the empty \<open>MiniData\<close>.
  Security statements do not assume these functions to be injective: they say that either the claim
  holds or two different byte strings that the program hashed have one digest.
\<close>

record crypto =
  sha2_256 :: "byte list \<Rightarrow> byte list"
  sha3_256 :: "byte list \<Rightarrow> byte list"

definition hashSHA2 :: "crypto \<Rightarrow> byte list \<Rightarrow> byte list" where
  "hashSHA2 c zData = sha2_256 c zData"

definition hashData :: "crypto \<Rightarrow> byte list \<Rightarrow> byte list" where
  "hashData c zData = sha3_256 c zData"

definition hash_stream :: "crypto \<Rightarrow> byte list result \<Rightarrow> byte list result" where
  "hash_stream c r = (case r of Inr bs \<Rightarrow> Inr (hashData c bs) | Inl (Throw e) \<Rightarrow> Inr [] | Inl e \<Rightarrow> Inl e)"

definition hashObject :: "crypto \<Rightarrow> byte list result \<Rightarrow> byte list result" where
  "hashObject c zObject = hash_stream c zObject"

text \<open>Writing several objects one after the other.\<close>

fun write_all :: "byte list result list \<Rightarrow> byte list result" where
  "write_all [] = Inr []"
| "write_all (w # ws) = bindE w (\<lambda>bs. bindE (write_all ws) (\<lambda>cs. Inr (bs @ cs)))"

definition hashObjects :: "crypto \<Rightarrow> byte list result \<Rightarrow> byte list result \<Rightarrow> byte list result" where
  "hashObjects c zLeftObject zRightObject = hash_stream c (write_all [zLeftObject, zRightObject])"

definition hashAllObjects :: "crypto \<Rightarrow> byte list result list \<Rightarrow> byte list result" where
  "hashAllObjects c zObjects = hash_stream c (write_all zObjects)"

lemma hash_stream_Inr [simp]: "hash_stream c (Inr bs) = Inr (hashData c bs)"
  by (simp add: hash_stream_def)

lemma hash_stream_eq_Inr: "hash_stream c r = Inr h \<Longrightarrow> (\<exists>bs. r = Inr bs \<and> h = hashData c bs) \<or> h = []"
  by (auto simp: hash_stream_def split: sum.splits error.splits)

lemma write_all_Inr [simp]: "write_all (map Inr bss) = Inr (concat bss)"
  by (induction bss) simp_all

end
