(* ===== verification/Mmr.thy ===== *)
theory Mmr
  imports Crypto
begin

text \<open>
  The Merkle Mountain Range of coins and keys: \<open>src/org/minima/objects/mmr\<close>. Entry numbers are
  decimal numbers (unscaled value and scale) as in the code; the entries of a set are a map from the
  key \<open>row:entry\<close>; a set with its chain of parents is the set and the list of its ancestors. The
  fallback to the node's mega MMR (\<open>GeneralParams::IS_MEGAMMR\<close>) is taken to be off. Dereferencing the
  data of an empty entry is undefined.
\<close>

subsection \<open>Entry numbers\<close>

record entry_number =
  en_unscaled :: int
  en_scale :: int

definition en :: "int \<Rightarrow> entry_number" where
  "en v = \<lparr>en_unscaled = v, en_scale = 0\<rparr>"

definition en_ZERO :: entry_number where "en_ZERO = en 0"
definition en_TWO :: entry_number where "en_TWO = en 2"

definition en_compareTo :: "entry_number \<Rightarrow> entry_number \<Rightarrow> int" where
  "en_compareTo x y =
     (if en_unscaled x = 0 \<and> en_unscaled y = 0 then 0
      else let s = max (en_scale x) (en_scale y);
               a = en_unscaled x * pow10 (s - en_scale x); b = en_unscaled y * pow10 (s - en_scale y)
           in if a < b then -1 else if a > b then 1 else 0)"

definition en_isEqual :: "entry_number \<Rightarrow> entry_number \<Rightarrow> bool" where
  "en_isEqual x y = (en_compareTo x y = 0)"

definition en_isLess :: "entry_number \<Rightarrow> entry_number \<Rightarrow> bool" where
  "en_isLess x y = (en_compareTo x y < 0)"

definition en_isLessEqual :: "entry_number \<Rightarrow> entry_number \<Rightarrow> bool" where
  "en_isLessEqual x y = (en_compareTo x y \<le> 0)"

text \<open>The remainder after the test for a zero divisor.\<close>

definition en_rem :: "entry_number \<Rightarrow> entry_number \<Rightarrow> entry_number" where
  "en_rem x y =
     (let sa = en_scale x; sb = en_scale y; e = sb - sa;
          num = (if e \<ge> 0 then en_unscaled x * pow10 e else en_unscaled x);
          den = (if e \<ge> 0 then en_unscaled y else en_unscaled y * pow10 (- e));
          q = num sdiv den; s = max sa sb
      in \<lparr>en_unscaled = en_unscaled x * pow10 (s - sa) - q * (en_unscaled y * pow10 (s - sb)), en_scale = s\<rparr>)"

definition en_modulo :: "entry_number \<Rightarrow> entry_number \<Rightarrow> entry_number result" where
  "en_modulo x y = (if en_unscaled y = 0 then Inl (Throw RuntimeError) else Inr (en_rem x y))"

definition en_floor :: "entry_number \<Rightarrow> entry_number" where
  "en_floor x =
     (if en_scale x \<le> 0 then en (en_unscaled x * pow10 (- en_scale x))
      else let denom = pow10 (en_scale x); q = en_unscaled x sdiv denom; r = en_unscaled x smod denom
           in en (if en_unscaled x \<ge> 0 \<or> r = 0 then q else q - 1))"

definition en_increment :: "entry_number \<Rightarrow> entry_number" where
  "en_increment x =
     (let s = max (en_scale x) 0
      in \<lparr>en_unscaled = en_unscaled x * pow10 (s - en_scale x) + 1 * pow10 s, en_scale = s\<rparr>)"

definition en_decrement :: "entry_number \<Rightarrow> entry_number" where
  "en_decrement x =
     (let s = max (en_scale x) 0
      in \<lparr>en_unscaled = en_unscaled x * pow10 (s - en_scale x) - 1 * pow10 s, en_scale = s\<rparr>)"

definition en_div2 :: "entry_number \<Rightarrow> entry_number" where
  "en_div2 x =
     (if even (en_unscaled x) then x\<lparr>en_unscaled := en_unscaled x div 2\<rparr>
      else \<lparr>en_unscaled = en_unscaled x * 5, en_scale = en_scale x + 1\<rparr>)"

definition en_mult2 :: "entry_number \<Rightarrow> entry_number" where
  "en_mult2 x = x\<lparr>en_unscaled := en_unscaled x * 2\<rparr>"

text \<open>The printed form drops trailing zeros and a trailing point also of an integer that has been
  scaled, as \<open>to_plain_string_strip_trailing_zeros\<close> does.\<close>

definition strip_point :: "string \<Rightarrow> string" where
  "strip_point s = (let z = strip_zeros s in if z \<noteq> [] \<and> last z = CHR ''.'' then butlast z else z)"

definition en_toString :: "entry_number \<Rightarrow> string" where
  "en_toString x =
     (if en_unscaled x = 0 then ''0''
      else let neg = en_unscaled x < 0; digits = nat_to_dec (nat \<bar>en_unscaled x\<bar>); scale = en_scale x in
        if scale \<le> 0 then (if neg then ''-'' else []) @ digits @ replicate (nat (- scale)) CHR ''0''
        else let out = strip_point
                   (if int (length digits) \<le> scale
                    then ''0.'' @ replicate (nat (scale - int (length digits))) CHR ''0'' @ digits
                    else take (length digits - nat scale) digits @ ''.'' @ drop (length digits - nat scale) digits)
             in if neg \<and> out \<noteq> ''0'' then CHR ''-'' # out else out)"

text \<open>The stream form: the scale as a \<open>MiniNumber\<close>, the bytes as a \<open>MiniData\<close>.\<close>

definition en_writeDataStream :: "entry_number \<Rightarrow> byte list result" where
  "en_writeDataStream x =
     bindE (mn_of_int (en_scale x)) (\<lambda>sc.
     Inr (mn_writeDataStream sc @ md_writeDataStream (md (to_twos_complement_bytes (en_unscaled x)))))"

definition en_readDataStream :: "entry_number reader" where
  "en_readDataStream inp =
     bindE (mn_readDataStream inp) (\<lambda>(scaleNum, inp).
     bindE (md_readDataStream inp) (\<lambda>(unscaleddata, inp).
     Inr (\<lparr>en_unscaled = from_twos_complement_bytes (mData unscaleddata), en_scale = getAsInt scaleNum\<rparr>, inp)))"

subsection \<open>Nodes\<close>

record mmrdata =
  d_hash :: "byte list"
  d_value :: mininumber
  d_unspendable :: bool

definition mmr_data :: "byte list \<Rightarrow> mininumber \<Rightarrow> mmrdata" where
  "mmr_data zHash zValue = \<lparr>d_hash = zHash, d_value = zValue, d_unspendable = False\<rparr>"

text \<open>\<open>Clone\<close> resets the unspendable flag.\<close>

definition d_Clone :: "mmrdata \<Rightarrow> mmrdata" where
  "d_Clone d = mmr_data (d_hash d) (d_value d)"

definition d_isEqual :: "mmrdata \<Rightarrow> mmrdata \<Rightarrow> bool" where
  "d_isEqual x y = (md_isEqual (md (d_hash x)) (md (d_hash y)) \<and> mn_isEqual (d_value x) (d_value y))"

definition CreateMMRDataLeafNode :: "crypto \<Rightarrow> byte list result \<Rightarrow> mininumber \<Rightarrow> mmrdata result" where
  "CreateMMRDataLeafNode c zData zSumValue =
     bindE (hashAllObjects c [Inr (mn_writeDataStream mn_ZERO), zData, Inr (mn_writeDataStream zSumValue)])
       (\<lambda>h. Inr (mmr_data h zSumValue))"

definition parent_bytes :: "byte list \<Rightarrow> byte list \<Rightarrow> mininumber \<Rightarrow> byte list" where
  "parent_bytes l r s = concat [mn_writeDataStream mn_ONE, md_writeDataStream (md l), md_writeDataStream (md r),
     mn_writeDataStream s]"

definition CreateMMRDataParentNode :: "crypto \<Rightarrow> mmrdata \<Rightarrow> mmrdata \<Rightarrow> mmrdata result" where
  "CreateMMRDataParentNode c zLeft zRight =
     bindE (mn_add (d_value zLeft) (d_value zRight)) (\<lambda>sumvalue.
     Inr (mmr_data (hashData c (parent_bytes (d_hash zLeft) (d_hash zRight) sumvalue)) sumvalue))"

definition d_writeDataStream :: "mmrdata \<Rightarrow> byte list result" where
  "d_writeDataStream d =
     bindE (writeHashToStream (md (d_hash d))) (\<lambda>h. Inr (h @ mn_writeDataStream (d_value d)))"

definition d_readDataStream :: "mmrdata reader" where
  "d_readDataStream inp =
     bindE (readHashFromStream inp) (\<lambda>(h, inp). bindE (mn_readDataStream inp) (\<lambda>(v, inp).
     Inr (mmr_data (mData h) v, inp)))"

record mmr_entry =
  mRow :: int
  mEntryNumber :: entry_number
  mMMRData :: "mmrdata option"

text \<open>An entry is empty exactly when it was made without data.\<close>

definition empty_entry :: "int \<Rightarrow> entry_number \<Rightarrow> mmr_entry" where
  "empty_entry zRow zEntry = \<lparr>mRow = zRow, mEntryNumber = zEntry, mMMRData = None\<rparr>"

definition full_entry :: "int \<Rightarrow> entry_number \<Rightarrow> mmrdata \<Rightarrow> mmr_entry" where
  "full_entry zRow zEntry zMMRData = \<lparr>mRow = zRow, mEntryNumber = zEntry, mMMRData = Some (d_Clone zMMRData)\<rparr>"

text \<open>Copying an entry makes its data anew, which resets the unspendable flag.\<close>

definition e_copy :: "mmr_entry \<Rightarrow> mmr_entry" where
  "e_copy other = other\<lparr>mMMRData := map_option d_Clone (mMMRData other)\<rparr>"

definition isEmpty :: "mmr_entry \<Rightarrow> bool" where
  "isEmpty e = (mMMRData e = None)"

definition deref :: "'a option \<Rightarrow> 'a result" where
  "deref p = (case p of None \<Rightarrow> Inl Undef | Some x \<Rightarrow> Inr x)"

definition isLeft :: "mmr_entry \<Rightarrow> bool" where
  "isLeft e = en_isEqual (en_rem (mEntryNumber e) en_TWO) en_ZERO"

definition isRight :: "mmr_entry \<Rightarrow> bool" where
  "isRight e = (\<not> isLeft e)"

definition getSibling :: "mmr_entry \<Rightarrow> entry_number" where
  "getSibling e = (if isLeft e then en_increment (mEntryNumber e) else en_decrement (mEntryNumber e))"

definition getParentRow :: "mmr_entry \<Rightarrow> int" where
  "getParentRow e = mRow e + 1"

definition getParentEntry :: "mmr_entry \<Rightarrow> entry_number" where
  "getParentEntry e = en_floor (en_div2 (mEntryNumber e))"

definition getChildRow :: "mmr_entry \<Rightarrow> int" where
  "getChildRow e = mRow e - 1"

definition getLeftChildEntry :: "mmr_entry \<Rightarrow> entry_number" where
  "getLeftChildEntry e = en_mult2 (mEntryNumber e)"

definition getRightChildEntry :: "mmr_entry \<Rightarrow> entry_number" where
  "getRightChildEntry e = en_increment (getLeftChildEntry e)"

definition checkPosition :: "mmr_entry \<Rightarrow> mmr_entry \<Rightarrow> bool" where
  "checkPosition e zEntry = (mRow zEntry = mRow e \<and> en_isEqual (mEntryNumber zEntry) (mEntryNumber e))"

definition checkPositions :: "mmr_entry \<Rightarrow> mmr_entry list \<Rightarrow> bool" where
  "checkPositions e zMultipleEntries = list_ex (checkPosition e) zMultipleEntries"

definition e_writeDataStream :: "mmr_entry \<Rightarrow> byte list result" where
  "e_writeDataStream e =
     bindE (mn_of_int (mRow e)) (\<lambda>row.
     bindE (en_writeDataStream (mEntryNumber e)) (\<lambda>n.
     case mMMRData e of None \<Rightarrow> Inl (Throw RuntimeError)
     | Some d \<Rightarrow> bindE (d_writeDataStream d) (\<lambda>bs. Inr (mn_writeDataStream row @ n @ bs))))"

definition e_readDataStream :: "mmr_entry reader" where
  "e_readDataStream inp =
     bindE (mn_readDataStream inp) (\<lambda>(row, inp). bindE (en_readDataStream inp) (\<lambda>(n, inp).
     bindE (d_readDataStream inp) (\<lambda>(d, inp).
     Inr (\<lparr>mRow = getAsInt row, mEntryNumber = n, mMMRData = Some d\<rparr>, inp))))"

subsection \<open>Proofs\<close>

record mmr_proof =
  p_blocktime :: mininumber
  p_chain :: "(bool \<times> mmrdata) list"

definition empty_proof :: "mininumber \<Rightarrow> mmr_proof" where
  "empty_proof zBlockTime = \<lparr>p_blocktime = zBlockTime, p_chain = []\<rparr>"

definition addProofChunk :: "bool \<times> mmrdata \<Rightarrow> mmr_proof \<Rightarrow> mmr_proof" where
  "addProofChunk ch p = p\<lparr>p_chain := p_chain p @ [(fst ch, d_Clone (snd ch))]\<rparr>"

definition proof_step :: "crypto \<Rightarrow> bool \<times> mmrdata \<Rightarrow> mmrdata \<Rightarrow> mmrdata result" where
  "proof_step c ch d =
     (if fst ch then CreateMMRDataParentNode c (snd ch) d else CreateMMRDataParentNode c d (snd ch))"

fun calculate_chain :: "crypto \<Rightarrow> mmrdata \<Rightarrow> (bool \<times> mmrdata) list \<Rightarrow> mmrdata result" where
  "calculate_chain c d [] = Inr d"
| "calculate_chain c d (ch # chs) = bindE (proof_step c ch d) (\<lambda>d'. calculate_chain c d' chs)"

definition calculateProof :: "crypto \<Rightarrow> mmr_proof \<Rightarrow> mmrdata \<Rightarrow> mmrdata result" where
  "calculateProof c p zData = calculate_chain c (d_Clone zData) (p_chain p)"

definition chunk_writeDataStream :: "bool \<times> mmrdata \<Rightarrow> byte list result" where
  "chunk_writeDataStream ch =
     bindE (d_writeDataStream (snd ch)) (\<lambda>bs. Inr (mb_writeDataStream (mb_of_bool (fst ch)) @ bs))"

definition chunk_readDataStream :: "(bool \<times> mmrdata) reader" where
  "chunk_readDataStream inp =
     bindE (mb_readDataStream inp) (\<lambda>(l, inp). bindE (d_readDataStream inp) (\<lambda>(d, inp).
     Inr ((mb_isTrue l, d), inp)))"

text \<open>A list is its length as a \<open>MiniNumber\<close> and its elements; \<open>reserve\<close> of a negative length
  throws.\<close>

definition write_list :: "('a \<Rightarrow> byte list result) \<Rightarrow> 'a list \<Rightarrow> byte list result" where
  "write_list wr xs =
     bindE (mn_of_int (int (length xs))) (\<lambda>len. bindE (write_all (map wr xs)) (\<lambda>bs.
     Inr (mn_writeDataStream len @ bs)))"

definition read_list :: "'a reader \<Rightarrow> 'a list reader" where
  "read_list rd inp =
     bindE (mn_readDataStream inp) (\<lambda>(n, inp).
       let len = getAsInt n in
       if len < 0 then Inl (Throw LengthError) else read_many rd (nat len) inp)"

definition proof_writeDataStream :: "mmr_proof \<Rightarrow> byte list result" where
  "proof_writeDataStream p =
     bindE (write_list chunk_writeDataStream (p_chain p)) (\<lambda>bs. Inr (mn_writeDataStream (p_blocktime p) @ bs))"

definition proof_readDataStream :: "mmr_proof reader" where
  "proof_readDataStream inp =
     bindE (mn_readDataStream inp) (\<lambda>(t, inp). bindE (read_list chunk_readDataStream inp) (\<lambda>(chs, inp).
     Inr (\<lparr>p_blocktime = t, p_chain = map (\<lambda>ch. (fst ch, d_Clone (snd ch))) chs\<rparr>, inp)))"

definition proof_convertMiniDataVersion :: "byte list \<Rightarrow> mmr_proof result" where
  "proof_convertMiniDataVersion zMMRProof = bindE (proof_readDataStream zMMRProof) (\<lambda>(p, rest). Inr p)"

subsection \<open>Sets\<close>

definition MAXROWS :: nat where "MAXROWS = 256"

record mmr =
  mBlockTime :: mininumber
  mEntryCount :: entry_number
  mSetEntries :: "string \<Rightarrow> mmr_entry option"
  mMaxRow :: int
  mMaxEntries :: "mmr_entry option list"
  mFinalized :: bool
  mFinalizedPeaks :: "mmr_entry list"
  mFinalizedRoot :: "mmrdata option"
  mPrunedCoins :: "string set"

definition mmr_new :: mmr where
  "mmr_new = \<lparr>mBlockTime = mn_ZERO, mEntryCount = en 0, mSetEntries = (\<lambda>_. None), mMaxRow = 0,
     mMaxEntries = replicate MAXROWS None, mFinalized = False, mFinalizedPeaks = [], mFinalizedRoot = None,
     mPrunedCoins = {}\<rparr>"

definition getHashTableEntry :: "int \<Rightarrow> entry_number \<Rightarrow> string" where
  "getHashTableEntry zRow zEntry =
     (if zRow < 0 then CHR ''-'' # nat_to_dec (nat (- zRow)) else nat_to_dec (nat zRow)) @ '':'' @ en_toString zEntry"

text \<open>A row outside the array of maxima is an access out of bounds.\<close>

definition setEntry :: "int \<Rightarrow> entry_number \<Rightarrow> mmrdata \<Rightarrow> mmr \<Rightarrow> (mmr_entry \<times> mmr) result" where
  "setEntry zRow zEntry zData m =
     (let entry = full_entry zRow zEntry zData in
      if mFinalized m then Inr (entry, m)
      else if zRow < 0 \<or> int (length (mMaxEntries m)) \<le> zRow then Inl Undef
      else let m = (if zRow > mMaxRow m then m\<lparr>mMaxRow := zRow\<rparr> else m);
               m = m\<lparr>mSetEntries := (mSetEntries m)(getHashTableEntry zRow zEntry \<mapsto> entry)\<rparr>;
               upd = (case mMaxEntries m ! nat zRow of None \<Rightarrow> True
                      | Some x \<Rightarrow> en_isLessEqual (mEntryNumber x) zEntry)
           in Inr (entry, if upd then m\<lparr>mMaxEntries := (mMaxEntries m)[nat zRow := Some entry]\<rparr> else m))"

text \<open>The search through the set and its ancestors, down to a block time.\<close>

fun getEntry_back :: "mmr list \<Rightarrow> int \<Rightarrow> entry_number \<Rightarrow> mininumber \<Rightarrow> mmr_entry" where
  "getEntry_back [] zRow zEntry zMaxBack = empty_entry zRow zEntry"
| "getEntry_back (m # ms) zRow zEntry zMaxBack =
     (if mn_isLess (mBlockTime m) zMaxBack then empty_entry zRow zEntry
      else case mSetEntries m (getHashTableEntry zRow zEntry) of
        Some e \<Rightarrow> e_copy e | None \<Rightarrow> getEntry_back ms zRow zEntry zMaxBack)"

definition getEntry :: "mmr list \<Rightarrow> int \<Rightarrow> entry_number \<Rightarrow> mmr_entry" where
  "getEntry ms zRow zEntry = getEntry_back ms zRow zEntry mn_ZERO"

text \<open>The climb after an append. The row grows in each round and is refused at the end of the array,
  so \<open>MAXROWS + 1\<close> rounds are enough.\<close>

fun addEntry_loop :: "nat \<Rightarrow> crypto \<Rightarrow> mmr list \<Rightarrow> mmr_entry \<Rightarrow> mmr \<Rightarrow> mmr result" where
  "addEntry_loop 0 c ps entry m = Inl NoFuel"
| "addEntry_loop (Suc n) c ps entry m =
     (if \<not> isRight entry then Inr m
      else let sibling = getEntry (m # ps) (mRow entry) (getSibling entry) in
        bindE (deref (mMMRData sibling)) (\<lambda>sd. bindE (deref (mMMRData entry)) (\<lambda>ed.
        bindE (CreateMMRDataParentNode c sd ed) (\<lambda>parentdata.
        bindE (setEntry (getParentRow entry) (getParentEntry entry) parentdata m) (\<lambda>(entry', m').
        addEntry_loop n c ps entry' m')))))"

definition addEntry :: "crypto \<Rightarrow> mmr list \<Rightarrow> mmrdata \<Rightarrow> mmr \<Rightarrow> (mmr_entry \<times> mmr) result" where
  "addEntry c ps zData m =
     bindE (setEntry 0 (mEntryCount m) zData m) (\<lambda>(entry, m1).
     let m2 = m1\<lparr>mEntryCount := en_increment (mEntryCount m1)\<rparr> in
     bindE (addEntry_loop (Suc MAXROWS) c ps entry m2) (\<lambda>m3. Inr (entry, m3)))"

definition getPeaks :: "mmr \<Rightarrow> mmr_entry list" where
  "getPeaks m =
     (if mFinalized m then map e_copy (mFinalizedPeaks m)
      else concat (map (\<lambda>i. case mMaxEntries m ! nat i of None \<Rightarrow> []
                           | Some e \<Rightarrow> if isLeft e then [e_copy e] else []) (rev [0..mMaxRow m])))"

text \<open>An MMR of the data of some entries, as the peaks are bagged.\<close>

fun add_peaks :: "crypto \<Rightarrow> mmr_entry list \<Rightarrow> mmr \<Rightarrow> mmr result" where
  "add_peaks c [] m = Inr m"
| "add_peaks c (p # ps) m =
     bindE (deref (mMMRData p)) (\<lambda>d. bindE (addEntry c [] (d_Clone d) m) (\<lambda>(e, m'). add_peaks c ps m'))"

text \<open>Bagging the peaks until one is left; each round leaves fewer peaks, and the number of peaks is a
  bound on the rounds.\<close>

fun bag_loop :: "nat \<Rightarrow> crypto \<Rightarrow> mmr_entry list \<Rightarrow> mmr_entry list result" where
  "bag_loop 0 c peaks = Inl NoFuel"
| "bag_loop (Suc n) c peaks =
     (if length peaks \<le> 1 then Inr peaks
      else bindE (add_peaks c peaks mmr_new) (\<lambda>newmmr. bag_loop n c (getPeaks newmmr)))"

definition getRootInternal :: "crypto \<Rightarrow> mmr \<Rightarrow> mmrdata option result" where
  "getRootInternal c m =
     (let peaks = getPeaks m in
      if peaks = [] then Inr None
      else bindE (bag_loop (Suc (length peaks)) c peaks) (\<lambda>ps.
        bindE (deref (mMMRData (hd ps))) (\<lambda>d. Inr (Some (d_Clone d)))))"

definition getRoot :: "crypto \<Rightarrow> mmr \<Rightarrow> mmrdata option result" where
  "getRoot c m =
     (if mFinalized m then Inr (map_option d_Clone (mFinalizedRoot m)) else getRootInternal c m)"

definition finalizeSet :: "crypto \<Rightarrow> mmr \<Rightarrow> mmr result" where
  "finalizeSet c m =
     (let m = m\<lparr>mFinalized := False\<rparr>; m = m\<lparr>mFinalizedPeaks := getPeaks m\<rparr> in
      bindE (getRoot c m) (\<lambda>r. Inr (m\<lparr>mFinalizedRoot := r, mFinalized := True\<rparr>)))"

text \<open>The siblings up to the peak. An MMR in which the climb never ends is not built by the operations;
  the rows of existing entries are below \<open>MAXROWS\<close>, so \<open>MAXROWS + 1\<close> rounds are enough.\<close>

fun proof_loop :: "nat \<Rightarrow> mmr list \<Rightarrow> mmr_entry \<Rightarrow> mmr_proof \<Rightarrow> mmr_proof result" where
  "proof_loop 0 ms sibling p = Inl NoFuel"
| "proof_loop (Suc n) ms sibling p =
     (case mMMRData sibling of
        None \<Rightarrow> Inr p
      | Some d \<Rightarrow>
          let p = addProofChunk (isLeft sibling, d) p;
              parent = empty_entry (getParentRow sibling) (getParentEntry sibling)
          in proof_loop n ms (getEntry ms (mRow parent) (getSibling parent)) p)"

definition getProofToPeak :: "mmr list \<Rightarrow> mmr \<Rightarrow> entry_number \<Rightarrow> mmr_proof result" where
  "getProofToPeak ps m zEntryNumber =
     (let entry = getEntry (m # ps) 0 zEntryNumber
      in proof_loop (Suc MAXROWS) (m # ps) (getEntry (m # ps) (mRow entry) (getSibling entry))
           (empty_proof (mBlockTime m)))"

text \<open>The rounds of \<open>getPeakToRoot\<close>: bag the peaks, look for the current peak by its hash, and climb in
  the new MMR. The index of the last match persists between the rounds.\<close>

fun add_keep :: "crypto \<Rightarrow> byte list \<Rightarrow> mmr_entry list \<Rightarrow> entry_number option \<Rightarrow> mmr
    \<Rightarrow> (entry_number option \<times> mmr) result" where
  "add_keep c h [] keeper m = Inr (keeper, m)"
| "add_keep c h (p # ps) keeper m =
     bindE (deref (mMMRData p)) (\<lambda>d. bindE (addEntry c [] d m) (\<lambda>(current, m').
     add_keep c h ps (if md_isEqual (md (d_hash d)) (md h) then Some (mEntryNumber current) else keeper) m'))"

fun peak_loop :: "nat \<Rightarrow> crypto \<Rightarrow> mmrdata \<Rightarrow> mmr_entry list \<Rightarrow> mmrdata \<Rightarrow> entry_number option \<Rightarrow> mmr_proof
    \<Rightarrow> mmr_proof result" where
  "peak_loop 0 c zPeak peaks currentpeak keeper totalproof = Inl NoFuel"
| "peak_loop (Suc n) c zPeak peaks currentpeak keeper totalproof =
     (if length peaks \<le> 1 then Inr totalproof
      else bindE (add_keep c (d_hash currentpeak) peaks keeper mmr_new) (\<lambda>(keeper', newmmr).
           bindE (deref keeper') (\<lambda>k.
           bindE (getProofToPeak [] newmmr k) (\<lambda>p.
           let totalproof' = foldl (\<lambda>t ch. addProofChunk ch t) totalproof (p_chain p) in
           bindE (calculateProof c totalproof' zPeak) (\<lambda>currentpeak'.
           peak_loop n c zPeak (getPeaks newmmr) currentpeak' keeper' totalproof')))))"

definition getPeakToRoot :: "crypto \<Rightarrow> mmr \<Rightarrow> mmrdata \<Rightarrow> mmr_proof result" where
  "getPeakToRoot c m zPeak =
     (let peaks = getPeaks m in
      peak_loop (Suc (length peaks)) c zPeak peaks (d_Clone zPeak) None (empty_proof (mBlockTime m)))"

definition getProof :: "crypto \<Rightarrow> mmr list \<Rightarrow> mmr \<Rightarrow> entry_number \<Rightarrow> mmr_proof result" where
  "getProof c ps m zEntryNumber =
     (let entry = getEntry (m # ps) 0 zEntryNumber in
      bindE (getProofToPeak ps m zEntryNumber) (\<lambda>proof1.
      bindE (deref (mMMRData entry)) (\<lambda>d.
      bindE (calculateProof c proof1 d) (\<lambda>peak.
      bindE (getPeakToRoot c m peak) (\<lambda>rootproof.
      Inr (foldl (\<lambda>t ch. addProofChunk ch t) proof1 (p_chain rootproof)))))))"

subsection \<open>Checking and updating\<close>

fun any_equal :: "mmrdata \<Rightarrow> mmr_entry list \<Rightarrow> bool result" where
  "any_equal d [] = Inr False"
| "any_equal d (p # ps) =
     bindE (deref (mMMRData p)) (\<lambda>x. if d_isEqual d x then Inr True else any_equal d ps)"

definition checkProof :: "crypto \<Rightarrow> mmr \<Rightarrow> mmrdata \<Rightarrow> mmr_proof \<Rightarrow> bool result" where
  "checkProof c m zMMRData zProof =
     bindE (calculateProof c zProof zMMRData) (\<lambda>rootcalc.
     bindE (getRoot c m) (\<lambda>rt.
       case rt of
         Some r \<Rightarrow> if d_isEqual rootcalc r then Inr True else any_equal rootcalc (getPeaks m)
       | None \<Rightarrow> any_equal rootcalc (getPeaks m)))"

fun getParentAtTime :: "mmr list \<Rightarrow> mininumber \<Rightarrow> mmr option" where
  "getParentAtTime [] zTime = None"
| "getParentAtTime (m # ms) zTime =
     (if mn_isEqual (mBlockTime m) zTime then Some m
      else if mn_isLess (mBlockTime m) zTime then None
      else getParentAtTime ms zTime)"

definition checkProofTimeValid :: "crypto \<Rightarrow> mmr list \<Rightarrow> mmr \<Rightarrow> entry_number \<Rightarrow> mmrdata \<Rightarrow> mmr_proof \<Rightarrow> bool result" where
  "checkProofTimeValid c ps m zEntry zMMRData zProof =
     (case getParentAtTime (m # ps) (p_blocktime zProof) of
        None \<Rightarrow> Inr False
      | Some parentmmr \<Rightarrow> bindE (checkProof c parentmmr zMMRData zProof) (\<lambda>ok.
          if \<not> ok then Inr False
          else case mMMRData (getEntry_back (m # ps) 0 zEntry (p_blocktime zProof)) of
                 None \<Rightarrow> Inr True | Some d \<Rightarrow> Inr (d_isEqual d zMMRData)))"

fun updateEntry_loop :: "nat \<Rightarrow> crypto \<Rightarrow> mmr list \<Rightarrow> mmr_entry list \<Rightarrow> mmr_proof \<Rightarrow> int \<Rightarrow> mmr_entry \<Rightarrow> mmr
    \<Rightarrow> mmr result" where
  "updateEntry_loop 0 c ps peaks zOldProof currentproof entry m = Inl NoFuel"
| "updateEntry_loop (Suc n) c ps peaks zOldProof currentproof entry m =
     (if checkPositions entry peaks then Inr m
      else let sibling = getEntry_back (m # ps) (mRow entry) (getSibling entry) (p_blocktime zOldProof) in
        bindE (case mMMRData sibling of
                 Some d \<Rightarrow> Inr d
               | None \<Rightarrow> if int (length (p_chain zOldProof)) \<le> currentproof then Inl (Throw OutOfRange)
                         else Inr (d_Clone (snd (p_chain zOldProof ! nat currentproof)))) (\<lambda>siblingdata.
        bindE (setEntry (mRow sibling) (mEntryNumber sibling) siblingdata m) (\<lambda>(siblingtop, m).
        bindE (deref (mMMRData entry)) (\<lambda>ed. bindE (deref (mMMRData siblingtop)) (\<lambda>sd.
        bindE (if isLeft entry then CreateMMRDataParentNode c ed sd else CreateMMRDataParentNode c sd ed) (\<lambda>parentdata.
        bindE (setEntry (getParentRow entry) (getParentEntry entry) parentdata m) (\<lambda>(entry, m).
        updateEntry_loop n c ps peaks zOldProof (currentproof + 1) entry m)))))))"

definition updateEntry :: "crypto \<Rightarrow> mmr list \<Rightarrow> entry_number \<Rightarrow> mmr_proof \<Rightarrow> mmrdata \<Rightarrow> mmr \<Rightarrow> mmr result" where
  "updateEntry c ps zEntry zOldProof zNewData m =
     (let peaks = getPeaks m in
      bindE (setEntry 0 zEntry zNewData m) (\<lambda>(entry, m).
      updateEntry_loop (Suc MAXROWS) c ps peaks zOldProof 0 entry m))"

text \<open>A set on top of a parent: the parent is finalised, its peaks are copied.\<close>

fun copy_peaks :: "mmr_entry list \<Rightarrow> int \<Rightarrow> mmr \<Rightarrow> (int \<times> mmr) result" where
  "copy_peaks [] tot m = Inr (tot, m)"
| "copy_peaks (p # ps) tot m =
     bindE (deref (mMMRData p)) (\<lambda>d. bindE (setEntry (mRow p) (mEntryNumber p) d m) (\<lambda>(e, m).
     copy_peaks ps (tot + 2 ^ nat (mRow p)) m))"

definition mmr_child :: "crypto \<Rightarrow> mmr \<Rightarrow> (mmr \<times> mmr) result" where
  "mmr_child c zParent =
     bindE (if mFinalized zParent then Inr zParent else finalizeSet c zParent) (\<lambda>parent.
     bindE (mn_add (mBlockTime parent) mn_ONE) (\<lambda>t.
     bindE (copy_peaks (getPeaks parent) 0 (mmr_new\<lparr>mBlockTime := t\<rparr>)) (\<lambda>(tot, m).
     Inr (m\<lparr>mEntryCount := en tot\<rparr>, parent))))"

definition calculateEntryNumberFromPeaks :: "mmr \<Rightarrow> mmr result" where
  "calculateEntryNumberFromPeaks m =
     bindE (copy_peaks (getPeaks m) 0 m) (\<lambda>(tot, m). Inr (m\<lparr>mEntryCount := en tot\<rparr>))"

text \<open>The stream form holds the entries in the order in which the hash map yields them, the argument
  \<open>es\<close>; a set that is read back is finalised.\<close>

definition mmr_writeDataStream :: "mmr_entry list \<Rightarrow> mmr \<Rightarrow> byte list result" where
  "mmr_writeDataStream es m =
     bindE (en_writeDataStream (mEntryCount m)) (\<lambda>n.
     bindE (write_list e_writeDataStream es) (\<lambda>bs. Inr (mn_writeDataStream (mBlockTime m) @ n @ bs)))"

fun set_all :: "mmr_entry list \<Rightarrow> mmr \<Rightarrow> mmr result" where
  "set_all [] m = Inr m"
| "set_all (e # es) m =
     bindE (deref (mMMRData e)) (\<lambda>d. bindE (setEntry (mRow e) (mEntryNumber e) d m) (\<lambda>(e', m'). set_all es m'))"

fun set_read :: "nat \<Rightarrow> mmr \<Rightarrow> mmr reader" where
  "set_read 0 m inp = Inr (m, inp)"
| "set_read (Suc n) m inp =
     bindE (e_readDataStream inp) (\<lambda>(e, inp). bindE (set_all [e] m) (\<lambda>m'. set_read n m' inp))"

definition mmr_readDataStream :: "crypto \<Rightarrow> mmr reader" where
  "mmr_readDataStream c inp =
     bindE (mn_readDataStream inp) (\<lambda>(t, inp).
     bindE (en_readDataStream inp) (\<lambda>(n, inp).
     bindE (mn_readDataStream inp) (\<lambda>(len, inp).
     bindE (set_read (nat (getAsInt len)) (mmr_new\<lparr>mBlockTime := t, mEntryCount := n\<rparr>) inp) (\<lambda>(m, inp).
     bindE (finalizeSet c m) (\<lambda>m. Inr (m, inp))))))"

subsection \<open>Pruning\<close>

definition removeHashTableEntry :: "mmr_entry \<Rightarrow> mmr \<Rightarrow> mmr" where
  "removeHashTableEntry zEntry m =
     m\<lparr>mSetEntries := (mSetEntries m)(getHashTableEntry (mRow zEntry) (mEntryNumber zEntry) := None)\<rparr>"

text \<open>The recursions go down one row per call; their fuel is the row plus two.\<close>

fun prune_fuel :: "nat \<Rightarrow> mmr list \<Rightarrow> mmr_entry \<Rightarrow> mmr \<Rightarrow> mmr result" where
  "prune_fuel 0 ps zStartNode m = Inl NoFuel"
| "prune_fuel (Suc n) ps zStartNode m =
     (if isEmpty zStartNode then Inr m
      else if getChildRow zStartNode < 0 then Inr m
      else let childrow = getChildRow zStartNode;
               leftchild = getEntry (m # ps) childrow (getLeftChildEntry zStartNode);
               rightchild = getEntry (m # ps) childrow (getRightChildEntry zStartNode)
        in bindE (prune_fuel n ps leftchild m) (\<lambda>m.
           bindE (prune_fuel n ps rightchild m) (\<lambda>m.
           bindE (deref (mMMRData zStartNode)) (\<lambda>d.
           Inr (if mn_isEqual (d_value d) mn_ZERO
                then removeHashTableEntry rightchild (removeHashTableEntry leftchild m) else m)))))"

fun prune_all :: "mmr list \<Rightarrow> mmr_entry list \<Rightarrow> mmr \<Rightarrow> mmr result" where
  "prune_all ps [] m = Inr m"
| "prune_all ps (e # es) m = bindE (prune_fuel (nat (mRow e) + 2) ps e m) (prune_all ps es)"

definition pruneTree :: "mmr list \<Rightarrow> mmr \<Rightarrow> mmr result" where
  "pruneTree ps m = prune_all ps (getPeaks m) m"

definition setUnspendable :: "string \<Rightarrow> bool \<Rightarrow> mmr \<Rightarrow> mmr result" where
  "setUnspendable key b m =
     (case mSetEntries m key of None \<Rightarrow> Inr m
      | Some e \<Rightarrow> bindE (deref (mMMRData e)) (\<lambda>d.
          Inr (m\<lparr>mSetEntries := (mSetEntries m)(key \<mapsto> e\<lparr>mMMRData := Some (d\<lparr>d_unspendable := b\<rparr>)\<rparr>)\<rparr>)))"

definition zero_or_empty :: "mmr_entry \<Rightarrow> bool" where
  "zero_or_empty e = (case mMMRData e of None \<Rightarrow> True | Some d \<Rightarrow> mn_isEqual (d_value d) mn_ZERO)"

fun scanUnspendable_fuel :: "nat \<Rightarrow> mmr list \<Rightarrow> mmr_entry \<Rightarrow> mmr \<Rightarrow> (bool \<times> mmr) result" where
  "scanUnspendable_fuel 0 ps zStartNode m = Inl NoFuel"
| "scanUnspendable_fuel (Suc n) ps zStartNode m =
     (if isEmpty zStartNode then Inr (True, m)
      else if getChildRow zStartNode < 0
      then bindE (deref (mMMRData zStartNode)) (\<lambda>d. Inr (d_unspendable d, m))
      else let childrow = getChildRow zStartNode;
               leftchild = getEntry (m # ps) childrow (getLeftChildEntry zStartNode);
               rightchild = getEntry (m # ps) childrow (getRightChildEntry zStartNode);
               key = getHashTableEntry (mRow zStartNode) (mEntryNumber zStartNode)
        in bindE (scanUnspendable_fuel n ps leftchild m) (\<lambda>(leftunspend, m).
           bindE (scanUnspendable_fuel n ps rightchild m) (\<lambda>(rightunspend, m).
           if (leftunspend \<or> zero_or_empty leftchild) \<and> (rightunspend \<or> zero_or_empty rightchild)
           then bindE (setUnspendable key True m) (\<lambda>m.
             let m = removeHashTableEntry rightchild (removeHashTableEntry leftchild m);
                 gone = (if isEmpty leftchild then {} else {en_toString (mEntryNumber leftchild)})
                   \<union> (if isEmpty rightchild then {} else {en_toString (mEntryNumber rightchild)})
             in Inr (True, if childrow = 0 then m\<lparr>mPrunedCoins := mPrunedCoins m \<union> gone\<rparr> else m))
           else bindE (setUnspendable key False m) (\<lambda>m. Inr (False, m)))))"

fun scan_all :: "mmr list \<Rightarrow> mmr_entry list \<Rightarrow> mmr \<Rightarrow> mmr result" where
  "scan_all ps [] m = Inr m"
| "scan_all ps (e # es) m =
     bindE (scanUnspendable_fuel (nat (mRow e) + 2) ps e m) (\<lambda>(b, m). scan_all ps es m)"

definition scanUnspendableTree :: "mmr list \<Rightarrow> mmr \<Rightarrow> mmr result" where
  "scanUnspendableTree ps m = scan_all ps (getPeaks m) (m\<lparr>mPrunedCoins := {}\<rparr>)"

end
