(* ===== verification/MmrLaws.thy ===== *)
theory MmrLaws
  imports Mmr
begin

text \<open>
  Laws of the Merkle Mountain Range: the navigation on whole entry numbers, the invariant of a set that
  is built by appending (the entries are exactly the complete subtrees, each with the hash of its
  leaves), the proofs it hands out, and what a proof commits to.
\<close>

subsection \<open>Navigation\<close>

named_theorems en_simps "entry numbers of scale 0 as integers"

lemma en_sel [simp]: "en_unscaled (en a) = a" "en_scale (en a) = 0" "en a = en b \<longleftrightarrow> a = b"
  by (simp_all add: en_def)

lemma pow10_small [simp]: "pow10 0 = 1" "pow10 1 = 10"
  by (simp_all add: pow10_def)

lemma en_order [en_simps]:
  "en_isEqual (en a) (en b) = (a = b)" "en_isLess (en a) (en b) = (a < b)" "en_isLessEqual (en a) (en b) = (a \<le> b)"
  by (auto simp: en_isEqual_def en_isLess_def en_isLessEqual_def en_compareTo_def Let_def)

lemma en_step [en_simps]:
  "en_increment (en a) = en (a + 1)" "en_decrement (en a) = en (a - 1)" "en_mult2 (en a) = en (2 * a)"
  by (simp_all add: en_increment_def en_decrement_def en_mult2_def en_def)

lemma en_half [en_simps]: "0 \<le> a \<Longrightarrow> en_floor (en_div2 (en a)) = en (a div 2)"
proof (cases "even a")
  case True
  then show ?thesis by (simp add: en_floor_def en_div2_def en_def)
next
  case False
  assume "0 \<le> a"
  then show ?thesis
    using False by (auto simp: en_floor_def en_div2_def sdiv_pos elim!: oddE)
qed

lemma en_rem_two: "en_rem (en a) en_TWO = en (a - 2 * (a sdiv 2))"
  by (simp add: en_rem_def en_TWO_def Let_def en_def)

lemma isLeft_en [en_simps]: "mEntryNumber e = en a \<Longrightarrow> isLeft e = even a"
proof -
  have "a = 2 * (a sdiv 2) \<longleftrightarrow> even a"
    using dvd_mult_div_cancel [of 2 a] dvd_mult_div_cancel [of 2 "- a"] by (auto simp: sdiv_pos) (metis dvd_minus_iff dvd_triv_left)+
  moreover assume "mEntryNumber e = en a"
  ultimately show ?thesis by (simp add: isLeft_def en_rem_two en_ZERO_def en_order)
qed
text \<open>The nodes of the tree are \<open>(r, k)\<close>: the \<open>k\<close>-th complete subtree of \<open>2 ^ r\<close> leaves.\<close>

definition node :: "nat \<Rightarrow> nat \<Rightarrow> mmrdata \<Rightarrow> mmr_entry" where
  "node r k d = \<lparr>mRow = int r, mEntryNumber = en (int k), mMMRData = Some (d_Clone d)\<rparr>"

definition nkey :: "nat \<Rightarrow> nat \<Rightarrow> string" where
  "nkey r k = nat_to_dec r @ '':'' @ nat_to_dec k"

lemma en_toString_int [simp]: "en_toString (en (int k)) = nat_to_dec k"
  by (simp add: en_toString_def Let_def nat_to_dec.simps [of 0] digit_char_0)

lemma getHashTableEntry_nkey [simp]: "getHashTableEntry (int r) (en (int k)) = nkey r k"
  by (simp add: getHashTableEntry_def nkey_def)

lemma nat_to_dec_inj [simp]: "nat_to_dec m = nat_to_dec n \<longleftrightarrow> m = n"
  by (metis dec_val_nat_to_dec)

lemma colon_split: "CHR '':'' \<notin> set a \<Longrightarrow> CHR '':'' \<notin> set c \<Longrightarrow>
    a @ CHR '':'' # b = c @ CHR '':'' # d \<longleftrightarrow> a = c \<and> b = d"
  by (auto simp: append_eq_append_conv2 append_eq_Cons_conv Cons_eq_append_conv)

lemma colon_notin_dec: "CHR '':'' \<notin> set (nat_to_dec n)"
  using nat_to_dec_digits [of n] by (auto simp: is_digit_def)

lemma nkey_inj [simp]: "nkey r k = nkey r' k' \<longleftrightarrow> r = r' \<and> k = k'"
  using colon_split [OF colon_notin_dec colon_notin_dec] by (simp add: nkey_def)

lemma d_Clone_idem [simp]: "d_Clone (d_Clone d) = d_Clone d"
  by (simp add: d_Clone_def mmr_data_def)

lemma node_sel [simp]:
  "mRow (node r k d) = int r" "mEntryNumber (node r k d) = en (int k)" "mMMRData (node r k d) = Some (d_Clone d)"
  "e_copy (node r k d) = node r k d" "node r k (d_Clone d) = node r k d"
  "full_entry (int r) (en (int k)) d = node r k d"
  by (simp_all add: node_def e_copy_def full_entry_def)

lemma node_nav [en_simps]:
  "isLeft (node r k d) = even k" "isRight (node r k d) = odd k"
  "getParentRow (node r k d) = int (Suc r)" "getParentEntry (node r k d) = en (int (k div 2))"
  "even k \<Longrightarrow> getSibling (node r k d) = en (int (k + 1))"
  "odd k \<Longrightarrow> getSibling (node r k d) = en (int (k - 1))"
  by (auto simp: isLeft_en isRight_def getParentRow_def getParentEntry_def en_half getSibling_def en_step
      of_nat_diff zdiv_int elim: oddE)

subsection \<open>The subtrees over a list of leaves\<close>

fun subtree :: "crypto \<Rightarrow> mmrdata list \<Rightarrow> nat \<Rightarrow> nat \<Rightarrow> mmrdata result" where
  "subtree c ds 0 k = Inr (d_Clone (ds ! k))"
| "subtree c ds (Suc r) k =
     bindE (subtree c ds r (2 * k)) (\<lambda>x. bindE (subtree c ds r (2 * k + 1)) (\<lambda>y. CreateMMRDataParentNode c x y))"

definition complete_at :: "mmrdata list \<Rightarrow> nat \<Rightarrow> nat \<Rightarrow> bool" where
  "complete_at ds r k = ((k + 1) * 2 ^ r \<le> length ds)"

lemma complete_child: "complete_at ds (Suc r) k \<Longrightarrow> complete_at ds r (2 * k) \<and> complete_at ds r (2 * k + 1)"
  by (auto simp: complete_at_def algebra_simps)

lemma subtree_append: "complete_at ds r k \<Longrightarrow> subtree c (ds @ es) r k = subtree c ds r k"
proof (induction r arbitrary: k)
  case 0
  then show ?case by (simp add: complete_at_def nth_append)
next
  case (Suc r k)
  then show ?case using complete_child [OF Suc.prems] by simp
qed

lemma CreateMMRDataParentNode_clone:
  "CreateMMRDataParentNode c (d_Clone x) y = CreateMMRDataParentNode c x y"
  "CreateMMRDataParentNode c x (d_Clone y) = CreateMMRDataParentNode c x y"
  by (simp_all add: CreateMMRDataParentNode_def d_Clone_def mmr_data_def)

lemma CreateMMRDataParentNode_is_clone: "CreateMMRDataParentNode c x y = Inr d \<Longrightarrow> d_Clone d = d"
  by (auto simp: CreateMMRDataParentNode_def d_Clone_def mmr_data_def)

lemma subtree_clone: "subtree c ds r k = Inr d \<Longrightarrow> d_Clone d = d"
  by (cases r) (auto intro: CreateMMRDataParentNode_is_clone)
subsection \<open>The invariant of appending\<close>

text \<open>Row \<open>r\<close> holds its first \<open>t r\<close> nodes.\<close>

definition rows :: "crypto \<Rightarrow> mmrdata list \<Rightarrow> (nat \<Rightarrow> nat) \<Rightarrow> mmr \<Rightarrow> bool" where
  "rows c ds t m \<longleftrightarrow>
     \<not> mFinalized m \<and> length (mMaxEntries m) = MAXROWS \<and> 0 \<le> mMaxRow m \<and> mMaxRow m < int MAXROWS
     \<and> (\<forall>r k. k < t r \<longrightarrow> (\<exists>d. subtree c ds r k = Inr d \<and> mSetEntries m (nkey r k) = Some (node r k d)))
     \<and> (\<forall>r k. \<not> k < t r \<longrightarrow> mSetEntries m (nkey r k) = None)
     \<and> (\<forall>r < MAXROWS. mMaxEntries m ! r = (if t r = 0 then None else mSetEntries m (nkey r (t r - 1))))
     \<and> (\<forall>r. t r \<noteq> 0 \<longrightarrow> int r \<le> mMaxRow m)"

definition mmr_inv :: "crypto \<Rightarrow> mmrdata list \<Rightarrow> mmr \<Rightarrow> bool" where
  "mmr_inv c ds m \<longleftrightarrow> length ds < 2 ^ MAXROWS \<and> mEntryCount m = en (int (length ds))
     \<and> \<not> mn_isLess (mBlockTime m) mn_ZERO
     \<and> rows c ds (\<lambda>r. length ds div 2 ^ r) m"

lemma rowsD:
  assumes "rows c ds t m"
  shows "\<not> mFinalized m" "length (mMaxEntries m) = MAXROWS" "mMaxRow m < int MAXROWS" "0 \<le> mMaxRow m"
    "k < t r \<Longrightarrow> \<exists>d. subtree c ds r k = Inr d \<and> mSetEntries m (nkey r k) = Some (node r k d)"
    "\<not> k < t r \<Longrightarrow> mSetEntries m (nkey r k) = None"
    "r < MAXROWS \<Longrightarrow> mMaxEntries m ! r = (if t r = 0 then None else mSetEntries m (nkey r (t r - 1)))"
    "0 < t r \<Longrightarrow> int r \<le> mMaxRow m"
  using assms by (auto simp: rows_def)

lemma mmr_new_inv: "mmr_inv c [] mmr_new"
  by (simp add: num_simps mmr_inv_def rows_def mmr_new_def MAXROWS_def)

lemma rows_cong: "rows c ds t m \<Longrightarrow> (\<And>r. t r = t' r) \<Longrightarrow> rows c ds t' m"
  by (metis ext)

lemma rows_other:
  assumes "rows c ds t m" "mFinalized m' = mFinalized m" "mMaxEntries m' = mMaxEntries m"
    "mMaxRow m' = mMaxRow m" "mSetEntries m' = mSetEntries m"
  shows "rows c ds t m'"
  using assms by (simp add: rows_def)

lemma max_entry_none:
  assumes "rows c ds t m" "r < MAXROWS"
  shows "(case mMaxEntries m ! r of None \<Rightarrow> True | Some x \<Rightarrow> en_isLessEqual (mEntryNumber x) (en (int (t r))))"
proof (cases "t r = 0")
  case True
  then show ?thesis using rowsD(7) [OF assms] by simp
next
  case False
  then obtain d where "mSetEntries m (nkey r (t r - 1)) = Some (node r (t r - 1) d)"
    using rowsD(5) [OF assms(1), of "t r - 1" r] by auto
  then show ?thesis using False rowsD(7) [OF assms] by (simp add: en_simps)
qed

lemma setEntry_rows:
  assumes m: "rows c ds t m" and r: "r < MAXROWS" and d: "subtree c ds r (t r) = Inr d"
  obtains m' where "setEntry (int r) (en (int (t r))) d m = Inr (node r (t r) d, m')"
    "rows c ds (t(r := Suc (t r))) m'" "mEntryCount m' = mEntryCount m" "mBlockTime m' = mBlockTime m"
proof -
  let ?e = "node r (t r) d"
  let ?m1 = "m\<lparr>mMaxRow := max (mMaxRow m) (int r), mSetEntries := (mSetEntries m)(nkey r (t r) \<mapsto> ?e),
      mMaxEntries := (mMaxEntries m)[r := Some ?e]\<rparr>"
  have "setEntry (int r) (en (int (t r))) d m = Inr (?e, ?m1)"
    using rowsD(1,2) [OF m] r max_entry_none [OF m r]
    by (auto simp: setEntry_def Let_def max_def split: option.splits)
  moreover have "rows c ds (t(r := Suc (t r))) ?m1"
    using m r d by (auto simp: rows_def nth_list_update less_Suc_eq le_max_iff_disj)
  ultimately show thesis by (rule that) simp_all
qed

lemma setEntry_out_of_rows:
  "rows c ds t m \<Longrightarrow> MAXROWS \<le> r \<Longrightarrow> setEntry (int r) k d m = Inl Undef"
  by (auto simp: setEntry_def Let_def rows_def)
lemma getEntry_rows:
  assumes "rows c ds t m" "mn_isLess (mBlockTime m) mn_ZERO = False"
  shows "k < t r \<Longrightarrow> \<exists>d. subtree c ds r k = Inr d \<and> getEntry [m] (int r) (en (int k)) = node r k d"
    "\<not> k < t r \<Longrightarrow> getEntry [m] (int r) (en (int k)) = empty_entry (int r) (en (int k))"
  using rowsD(5,6) [OF assms(1), of k r] assms(2) by (auto simp: getEntry_def)

lemma row_count_below:
  assumes "n + 1 = (k + 1) * 2 ^ r" "even k" "r < q"
  shows "(n + 1) div 2 ^ q = n div (2::nat) ^ q"
proof -
  have "\<not> 2 * 2 ^ r dvd (k + 1) * (2::nat) ^ r"
    using assms(2) by (subst dvd_times_right_cancel_iff) simp_all
  then have "\<not> 2 ^ Suc r dvd n + 1" using assms(1) by simp
  moreover have "(2::nat) ^ Suc r dvd 2 ^ q" using assms(3) by (intro le_imp_power_dvd) simp
  ultimately have "\<not> 2 ^ q dvd n + 1" using dvd_trans by blast
  then show ?thesis using div_Suc [of n "2 ^ q"] by (simp add: mod_eq_0_iff_dvd)
qed

definition mid :: "nat \<Rightarrow> nat \<Rightarrow> nat \<Rightarrow> nat" where
  "mid n r q = (if q \<le> r then (n + 1) div 2 ^ q else n div 2 ^ q)"

lemma mid_step:
  assumes "n + 1 = (k + 1) * 2 ^ r" "odd k"
  shows "(mid n r)(Suc r := Suc (mid n r (Suc r))) = mid n (Suc r)" "mid n r (Suc r) = k div 2"
    "n + 1 = (k div 2 + 1) * 2 ^ Suc r"
proof -
  show e: "n + 1 = (k div 2 + 1) * 2 ^ Suc r" using assms by (auto elim!: oddE)
  have "2 ^ Suc r dvd n + 1" using e by (metis dvd_triv_right)
  then have "(n + 1) div 2 ^ Suc r = Suc (n div 2 ^ Suc r)"
    using div_Suc [of n "2 ^ Suc r"] by (simp add: mod_eq_0_iff_dvd)
  then show "(mid n r)(Suc r := Suc (mid n r (Suc r))) = mid n (Suc r)"
    by (auto simp: mid_def fun_eq_iff le_Suc_eq)
  have "(n + 1) div 2 ^ Suc r = k div 2 + 1" using e by (metis nonzero_mult_div_cancel_right power_not_zero zero_neq_numeral)
  then show "mid n r (Suc r) = k div 2"
    using \<open>(n + 1) div 2 ^ Suc r = Suc (n div 2 ^ Suc r)\<close> by (simp add: mid_def)
qed

lemma mid_here: "n + 1 = (k + 1) * 2 ^ r \<Longrightarrow> mid n r r = Suc k"
  by (simp add: mid_def)

lemma not_full:
  fixes n :: nat
  assumes "n < 2 ^ M" "n + 1 = (k + 1) * 2 ^ r" "even k" "r < M"
  shows "n + 1 < 2 ^ M"
proof (rule ccontr)
  assume "\<not> n + 1 < 2 ^ M"
  then have "n + 1 = 2 ^ M" using assms(1) by simp
  also have "\<dots> = 2 ^ (M - r) * 2 ^ r" using assms(4) by (simp flip: power_add)
  finally have "(k + 1) * 2 ^ r = 2 ^ (M - r) * 2 ^ r" using assms(2) by (simp only:)
  then have "k + 1 = 2 ^ (M - r)" by (simp only: mult_cancel2) simp
  moreover have "even ((2::nat) ^ (M - r))" using assms(4) by simp
  ultimately show False using assms(3) by (metis even_plus_one_iff)
qed

lemma addEntry_loop_rows:
  assumes "rows c ds (mid n r) m" "n + 1 = (k + 1) * 2 ^ r" "subtree c ds r k = Inr d" "r < MAXROWS"
    "mn_isLess (mBlockTime m) mn_ZERO = False"
    "addEntry_loop N c [] (node r k d) m = Inr m'" "n < 2 ^ MAXROWS"
  shows "rows c ds (\<lambda>q. (n + 1) div 2 ^ q) m' \<and> n + 1 < 2 ^ MAXROWS
    \<and> mEntryCount m' = mEntryCount m \<and> mBlockTime m' = mBlockTime m"
  using assms
proof (induction N arbitrary: r k d m)
  case (Suc N r k d m)
  show ?case
  proof (cases "even k")
    case True
    have "rows c ds (\<lambda>q. (n + 1) div 2 ^ q) m"
      using row_count_below [OF Suc.prems(2) True]
      by (intro rows_cong [OF Suc.prems(1)]) (simp add: mid_def)
    moreover have "n + 1 < 2 ^ MAXROWS" using not_full [OF Suc.prems(7,2) True Suc.prems(4)] .
    moreover have "m' = m" using Suc.prems(6) True by (simp add: en_simps)
    ultimately show ?thesis by simp
  next
    case False
    note step = mid_step [OF Suc.prems(2) False]
    have "k - 1 < mid n r r" using mid_here [OF Suc.prems(2)] by simp
    from getEntry_rows(1) [OF Suc.prems(1,5) this] obtain s where s: "subtree c ds r (k - 1) = Inr s"
        "getEntry [m] (int r) (en (int (k - 1))) = node r (k - 1) s" by blast
    have kk: "2 * (k div 2) = k - 1" "2 * (k div 2) + 1 = k" using False by (auto elim!: oddE)
    from Suc.prems(6) False s obtain p e m1 where p: "CreateMMRDataParentNode c s d = Inr p"
        and m1: "setEntry (int (Suc r)) (en (int (k div 2))) p m = Inr (e, m1)"
        and rest: "addEntry_loop N c [] e m1 = Inr m'"
      by (auto simp: en_simps deref_def CreateMMRDataParentNode_clone)
    have sub: "subtree c ds (Suc r) (mid n r (Suc r)) = Inr p"
      using s(1) Suc.prems(3) p kk by (simp add: step(2) del: One_nat_def)
    have r: "Suc r < MAXROWS"
      using setEntry_out_of_rows [OF Suc.prems(1), of "Suc r"] m1 by (metis linorder_not_le sum.distinct(1))
    from setEntry_rows [OF Suc.prems(1) r sub] obtain m2 where m2:
        "setEntry (int (Suc r)) (en (int (k div 2))) p m = Inr (node (Suc r) (k div 2) p, m2)"
        "rows c ds (mid n (Suc r)) m2" "mEntryCount m2 = mEntryCount m" "mBlockTime m2 = mBlockTime m"
      unfolding step(2) step(1) [unfolded step(2)] by blast
    have eq: "e = node (Suc r) (k div 2) p" "m1 = m2" using m1 m2(1) by simp_all
    have "subtree c ds (Suc r) (k div 2) = Inr p" using sub step(2) by simp
    from Suc.IH [OF m2(2) step(3) this r] rest m2(3,4) Suc.prems(5,7) show ?thesis
      unfolding eq by simp
  qed
qed simp
lemma complete_iff: "complete_at ds r k \<longleftrightarrow> k < length ds div 2 ^ r"
  using less_eq_div_iff_mult_less_eq [of "2 ^ r" "k + 1" "length ds"] by (simp add: complete_at_def Suc_le_eq)

lemma rows_append:
  assumes "rows c ds (\<lambda>r. length ds div 2 ^ r) m"
  shows "rows c (ds @ es) (\<lambda>r. length ds div 2 ^ r) m"
proof -
  have "subtree c (ds @ es) r k = subtree c ds r k" if "k < length ds div 2 ^ r" for r k
    using that by (intro subtree_append) (simp add: complete_iff)
  then show ?thesis using assms by (simp add: rows_def)
qed

theorem addEntry_inv:
  assumes m: "mmr_inv c ds m" and a: "addEntry c [] d m = Inr (e, m')"
  shows "mmr_inv c (ds @ [d]) m' \<and> e = node 0 (length ds) d \<and> mBlockTime m' = mBlockTime m"
proof -
  let ?n = "length ds" and ?ds = "ds @ [d]"
  have r0: "rows c ?ds (\<lambda>r. ?n div 2 ^ r) m" "mEntryCount m = en (int ?n)" and n: "?n < 2 ^ MAXROWS"
      and t: "mn_isLess (mBlockTime m) mn_ZERO = False"
    using m rows_append by (auto simp: mmr_inv_def)
  have sub: "subtree c ?ds 0 ?n = Inr (d_Clone d)" by simp
  have M: "0 < MAXROWS" by (simp add: MAXROWS_def)
  obtain m1 where m1: "setEntry (int 0) (en (int ?n)) (d_Clone d) m = Inr (node 0 ?n (d_Clone d), m1)"
      "rows c ?ds ((\<lambda>r. ?n div 2 ^ r)(0 := Suc ?n)) m1" "mEntryCount m1 = mEntryCount m"
      "mBlockTime m1 = mBlockTime m"
    using setEntry_rows [OF r0(1) M, of "d_Clone d"] sub by auto
  have m1': "setEntry 0 (en (int ?n)) d m = Inr (node 0 ?n d, m1)"
    using m1(1) by (simp add: setEntry_def full_entry_def cong: if_cong)
  define m2 where "m2 = m1\<lparr>mEntryCount := en_increment (mEntryCount m1)\<rparr>"
  have m2: "rows c ?ds (mid ?n 0) m2" "mEntryCount m2 = en (int (length ?ds))" "mBlockTime m2 = mBlockTime m"
    using m1(3,4) r0(2)
    by (simp_all add: m2_def en_step rows_other [OF rows_cong [OF m1(2), of "mid ?n 0"]] mid_def)
  from a have e: "e = node 0 ?n d" and l: "addEntry_loop (Suc MAXROWS) c [] (node 0 ?n (d_Clone d)) m2 = Inr m'"
    using m1' r0(2) by (auto simp: addEntry_def m2_def Let_def simp del: addEntry_loop.simps)
  have b: "mn_isLess (mBlockTime m2) mn_ZERO = False" using t m2(3) by simp
  from addEntry_loop_rows [OF m2(1) _ sub M b l n]
  have "rows c ?ds (\<lambda>q. (?n + 1) div 2 ^ q) m' \<and> ?n + 1 < 2 ^ MAXROWS
    \<and> mEntryCount m' = mEntryCount m2 \<and> mBlockTime m' = mBlockTime m2" by simp
  then show ?thesis using e m2(2,3) t by (simp add: mmr_inv_def)
qed

fun add_list :: "crypto \<Rightarrow> mmrdata list \<Rightarrow> mmr \<Rightarrow> mmr result" where
  "add_list c [] m = Inr m"
| "add_list c (d # ds) m = bindE (addEntry c [] d m) (\<lambda>(e, m'). add_list c ds m')"

lemma add_list_inv: "mmr_inv c ds m \<Longrightarrow> add_list c es m = Inr m' \<Longrightarrow> mmr_inv c (ds @ es) m'"
proof (induction es arbitrary: ds m)
  case (Cons e es)
  then obtain x m1 where a: "addEntry c [] e m = Inr (x, m1)" "add_list c es m1 = Inr m'" by auto
  with addEntry_inv [OF Cons.prems(1) a(1)] Cons.IH [of "ds @ [e]" m1] show ?case by simp
qed simp
subsection \<open>Proofs to a peak\<close>

lemma bindE_return [simp]: "bindE r Inr = r"
  by (cases r) simp_all

lemma calculate_chain_append:
  "calculate_chain c d (xs @ ys) = bindE (calculate_chain c d xs) (\<lambda>d'. calculate_chain c d' ys)"
  by (induction xs arbitrary: d) (simp_all add: bindE_assoc)

lemma proof_step_clone: "proof_step c (l, d_Clone x) y = proof_step c (l, x) y"
  by (simp add: proof_step_def CreateMMRDataParentNode_clone)

lemma addProofChunk_chain [simp]: "p_chain (addProofChunk ch p) = p_chain p @ [(fst ch, d_Clone (snd ch))]"
  by (simp add: addProofChunk_def)

text \<open>A peak is a complete subtree whose sibling is not complete.\<close>

definition peak :: "mmrdata list \<Rightarrow> nat \<Rightarrow> nat \<Rightarrow> bool" where
  "peak ds r k = (even k \<and> length ds div 2 ^ r = k + 1)"

lemma parent_of:
  assumes "k < length ds div 2 ^ r" "\<not> peak ds r k"
  shows "k div 2 < length ds div 2 ^ Suc r" "even k \<Longrightarrow> k + 1 < length ds div 2 ^ r"
proof -
  have "length ds div 2 ^ Suc r = (length ds div 2 ^ r) div 2"
    by (simp add: power_Suc2 div_mult2_eq del: power_Suc)
  then show "k div 2 < length ds div 2 ^ Suc r" "even k \<Longrightarrow> k + 1 < length ds div 2 ^ r"
    using assms by (auto simp: peak_def elim!: evenE oddE)
qed

lemma inv_getEntry:
  assumes "mmr_inv c ds m"
  shows "k < length ds div 2 ^ r \<Longrightarrow>
      \<exists>d. subtree c ds r k = Inr d \<and> getEntry [m] (int r) (en (int k)) = node r k d"
    "\<not> k < length ds div 2 ^ r \<Longrightarrow> getEntry [m] (int r) (en (int k)) = empty_entry (int r) (en (int k))"
  using assms getEntry_rows [of c ds "\<lambda>r. length ds div 2 ^ r" m k r] by (simp_all add: mmr_inv_def)

definition sib :: "nat \<Rightarrow> nat" where
  "sib k = (if even k then k + 1 else k - 1)"

lemma node_sib: "getSibling (empty_entry r (en (int k))) = en (int (sib k))"
  by (auto simp: getSibling_def isLeft_en empty_entry_def en_step sib_def of_nat_diff elim!: oddE)

lemma sib_sib [simp]: "sib (sib k) = k" "even (sib k) = odd k" "sib k div 2 = k div 2"
  by (auto simp: sib_def elim!: oddE evenE)

lemma proof_loop_climbs:
  assumes m: "mmr_inv c ds m" and "k < length ds div 2 ^ r"
    "calculate_chain c d (p_chain p) = subtree c ds r k" "MAXROWS < r + N"
  shows "\<exists>q r' k' x. proof_loop N [m] (getEntry [m] (int r) (en (int (sib k)))) p = Inr q \<and> peak ds r' k'
    \<and> calculate_chain c d (p_chain q) = Inr x \<and> subtree c ds r' k' = Inr x"
  using assms(2-)
proof (induction N arbitrary: r k p)
  case (0 r k p)
  have "length ds div 2 ^ r = 0"
    using m 0(3) by (simp add: mmr_inv_def div_eq_0_iff)
      (meson less_le_trans less_imp_le_nat one_le_numeral power_increasing)
  then show ?case using 0 by simp
next
  case (Suc N r k p)
  obtain x where x: "subtree c ds r k = Inr x" using inv_getEntry(1) [OF m Suc.prems(1)] by blast
  show ?case
  proof (cases "sib k < length ds div 2 ^ r")
    case False
    then have "even k" using Suc.prems(1) by (simp add: sib_def split: if_splits)
    then have "peak ds r k" using parent_of(2) [OF Suc.prems(1)] False by (auto simp: sib_def)
    then show ?thesis
      using inv_getEntry(2) [OF m False] Suc.prems(2) x by (auto simp: empty_entry_def)
  next
    case True
    then obtain s where s: "subtree c ds r (sib k) = Inr s" "getEntry [m] (int r) (en (int (sib k))) = node r (sib k) s"
      using inv_getEntry(1) [OF m] by blast
    have np: "\<not> peak ds r k" using True by (auto simp: peak_def sib_def)
    let ?p = "addProofChunk (even (sib k), d_Clone s) p"
    obtain y where y: "subtree c ds (Suc r) (k div 2) = Inr y"
      using inv_getEntry(1) [OF m parent_of(1) [OF Suc.prems(1) np]] by blast
    have "calculate_chain c d (p_chain ?p) = subtree c ds (Suc r) (k div 2)"
    proof (cases "even k")
      case True
      then have "2 * (k div 2) = k" "2 * (k div 2) + 1 = sib k" by (auto simp: sib_def)
      then show ?thesis using True s(1) x Suc.prems(2)
        by (simp add: calculate_chain_append proof_step_def CreateMMRDataParentNode_clone del: One_nat_def)
    next
      case False
      then have "2 * (k div 2) = sib k" "2 * (k div 2) + 1 = k" by (auto simp: sib_def elim!: oddE)
      then show ?thesis using False s(1) x Suc.prems(2)
        by (simp add: calculate_chain_append proof_step_def CreateMMRDataParentNode_clone del: One_nat_def)
    qed
    from Suc.IH [OF parent_of(1) [OF Suc.prems(1) np] this] Suc.prems(3) show ?thesis
      unfolding s(2) by (simp add: en_simps node_sib [unfolded empty_entry_def] empty_entry_def)
  qed
qed

lemma mn_isEqual_refl [simp]: "mn_isEqual a a"
  by (simp add: mn_isEqual_def mn_compareTo_def compare_values_def Let_def)

lemma d_isEqual_refl [simp]: "d_isEqual d d" "d_isEqual d (d_Clone d)" "d_isEqual (d_Clone d) d"
  by (simp_all add: d_isEqual_def md_isEqual_def list_all2_refl d_Clone_def mmr_data_def)

lemma set_getPeaks:
  assumes m: "mmr_inv c ds m" and p: "peak ds r k" and d: "subtree c ds r k = Inr d"
  shows "node r k d \<in> set (getPeaks m)"
proof -
  have R: "rows c ds (\<lambda>r. length ds div 2 ^ r) m" using m by (simp add: mmr_inv_def)
  have k: "length ds div 2 ^ r = k + 1" and e: "even k" using p by (simp_all add: peak_def)
  have r: "int r \<le> mMaxRow m" "r < MAXROWS"
    using rowsD(8) [OF R, of r] rowsD(3) [OF R] k by simp_all
  have "mMaxEntries m ! r = Some (node r k d)"
    using rowsD(5) [OF R, of k r] rowsD(7) [OF R r(2)] k d by auto
  then show ?thesis using rowsD(1) [OF R] e r(1)
    by (auto simp: getPeaks_def en_simps intro!: bexI [of _ "int r"])
qed

lemma getPeaks_full:
  assumes m: "mmr_inv c ds m" and p: "x \<in> set (getPeaks m)"
  shows "mMMRData x \<noteq> None"
proof -
  have R: "rows c ds (\<lambda>r. length ds div 2 ^ r) m" using m by (simp add: mmr_inv_def)
  from p rowsD(1) [OF R] obtain i e where i: "0 \<le> i" "i \<le> mMaxRow m" "mMaxEntries m ! nat i = Some e" "x = e_copy e"
    by (auto simp: getPeaks_def split: option.splits if_splits) metis
  then have "nat i < MAXROWS" using rowsD(3) [OF R] by simp
  then show ?thesis
    using rowsD(7) [OF R, of "nat i"] rowsD(5) [OF R, of "length ds div 2 ^ nat i - 1" "nat i"] i(3,4)
    by (auto simp: e_copy_def split: if_splits)
qed

lemma any_equal_found:
  "\<forall>x \<in> set ps. mMMRData x \<noteq> None \<Longrightarrow> x \<in> set ps \<Longrightarrow> mMMRData x = Some d \<Longrightarrow> d_isEqual e d
    \<Longrightarrow> any_equal e ps = Inr True"
  by (induction ps) (auto simp: deref_def)

lemma getProofToPeak_inv:
  assumes m: "mmr_inv c ds m" and i: "i < length ds"
  shows "\<exists>q r k x. getProofToPeak [] m (en (int i)) = Inr q \<and> peak ds r k
    \<and> calculateProof c q (ds ! i) = Inr x \<and> subtree c ds r k = Inr x"
proof -
  have "getEntry [m] 0 (en (int i)) = node 0 i (ds ! i)"
    using inv_getEntry(1) [OF m, of i 0] i by auto
  then show ?thesis
    using proof_loop_climbs [OF m, of i 0 "d_Clone (ds ! i)" "empty_proof (mBlockTime m)" "Suc MAXROWS"] i
    by (simp add: getProofToPeak_def calculateProof_def empty_proof_def en_simps sib_def of_nat_diff
        split: if_splits del: proof_loop.simps)
qed
subsection \<open>What a proof commits to\<close>

text \<open>The byte strings hashed along a proof, and two computations that hash different strings to one
  digest.\<close>

definition step_input :: "bool \<times> mmrdata \<Rightarrow> mmrdata \<Rightarrow> mmrdata \<Rightarrow> byte list" where
  "step_input ch d d' =
     (if fst ch then parent_bytes (d_hash (snd ch)) (d_hash d) (d_value d')
      else parent_bytes (d_hash d) (d_hash (snd ch)) (d_value d'))"

fun chain_inputs :: "crypto \<Rightarrow> mmrdata \<Rightarrow> (bool \<times> mmrdata) list \<Rightarrow> byte list list" where
  "chain_inputs c d [] = []"
| "chain_inputs c d (ch # chs) =
     (case proof_step c ch d of Inl e \<Rightarrow> [] | Inr d' \<Rightarrow> step_input ch d d' # chain_inputs c d' chs)"

definition clash :: "crypto \<Rightarrow> byte list list \<Rightarrow> byte list list \<Rightarrow> bool" where
  "clash c xs ys = (\<exists>x \<in> set xs. \<exists>y \<in> set ys. x \<noteq> y \<and> hashData c x = hashData c y)"

lemma clash_Cons: "clash c xs ys \<Longrightarrow> clash c (x # xs) (y # ys)"
  by (auto simp: clash_def)

definition d_ok :: "mmrdata \<Rightarrow> bool" where
  "d_ok d = (mn_wf (d_value d) \<and> int (length (d_hash d)) \<le> MINIMA_MAX_MINIDATA_LENGTH)"

definition chain_ok :: "(bool \<times> mmrdata) list \<Rightarrow> bool" where
  "chain_ok chs = list_all (\<lambda>ch. d_ok (snd ch)) chs"

lemma parent_bytes_inj:
  assumes "int (length l) \<le> MINIMA_MAX_MINIDATA_LENGTH" "int (length r) \<le> MINIMA_MAX_MINIDATA_LENGTH"
    "int (length l') \<le> MINIMA_MAX_MINIDATA_LENGTH" "int (length r') \<le> MINIMA_MAX_MINIDATA_LENGTH"
    "mn_wf s" "mn_wf s'" "parent_bytes l r s = parent_bytes l' r' s'"
  shows "l = l' \<and> r = r' \<and> s = s'"
proof -
  have "md l = md l' \<and> md_writeDataStream (md r) @ mn_writeDataStream s = md_writeDataStream (md r') @ mn_writeDataStream s'"
    using assms by (intro md_stream.prefix_free) (simp_all add: parent_bytes_def)
  moreover from this have "md r = md r' \<and> mn_writeDataStream s = mn_writeDataStream s'"
    using assms by (intro md_stream.prefix_free) simp_all
  ultimately show ?thesis using mn_stream.injective [OF assms(5,6)] by simp
qed

lemma proof_step_hash:
  assumes "proof_step c ch d = Inr d'" "d_ok d" "d_ok (snd ch)"
  shows "d_hash d' = hashData c (step_input ch d d')" "mn_wf (d_value d')"
proof -
  show "d_hash d' = hashData c (step_input ch d d')"
    using assms(1) by (auto simp: proof_step_def CreateMMRDataParentNode_def step_input_def mmr_data_def
        split: if_splits)
  show "mn_wf (d_value d')"
    using assms mn_add_rounded [of "d_value d" "d_value (snd ch)"] mn_add_rounded [of "d_value (snd ch)" "d_value d"]
    by (auto simp: proof_step_def CreateMMRDataParentNode_def mmr_data_def d_ok_def dest: rounded_Inr split: if_splits)
qed

lemma chain_binding:
  assumes "calculate_chain c d chs = Inr x" "calculate_chain c d' chs' = Inr x'" "d_hash x = d_hash x'"
    "map fst chs = map fst chs'" "d_ok d" "d_ok d'" "chain_ok chs" "chain_ok chs'"
    "\<forall>y. int (length (hashData c y)) \<le> MINIMA_MAX_MINIDATA_LENGTH" "\<not> clash c (chain_inputs c d chs) (chain_inputs c d' chs')"
  shows "d_hash d = d_hash d' \<and> map (d_hash \<circ> snd) chs = map (d_hash \<circ> snd) chs' \<and> (chs = [] \<or> d_value x = d_value x')"
  using assms
proof (induction chs arbitrary: d d' chs')
  case (Cons ch chs d d' chs')
  then obtain ch' cs' where [simp]: "chs' = ch' # cs'" and f: "fst ch = fst ch'" "map fst chs = map fst cs'" by auto
  from Cons.prems(1,2) obtain y y' where y: "proof_step c ch d = Inr y" "proof_step c ch' d' = Inr y'"
      "calculate_chain c y chs = Inr x" "calculate_chain c y' cs' = Inr x'" by auto
  have ok: "d_ok (snd ch)" "d_ok (snd ch')" "chain_ok chs" "chain_ok cs'"
    using Cons.prems(7,8) by (simp_all add: chain_ok_def)
  note h = proof_step_hash [OF y(1) Cons.prems(5) ok(1)] proof_step_hash [OF y(2) Cons.prems(6) ok(2)]
  have yo: "d_ok y" "d_ok y'" using h Cons.prems(9) by (simp_all add: d_ok_def)
  have n: "\<not> clash c (chain_inputs c y chs) (chain_inputs c y' cs')"
    using Cons.prems(10) y clash_Cons by fastforce
  note ih = Cons.IH [OF y(3,4) Cons.prems(3) f(2) yo ok(3,4) Cons.prems(9) n]
  then have "step_input ch d y = step_input ch' d' y'"
    using Cons.prems(10) h(1,3) y(1,2) by (auto simp: clash_def)
  then have "d_hash d = d_hash d' \<and> d_hash (snd ch) = d_hash (snd ch') \<and> d_value y = d_value y'"
    using Cons.prems(5,6) ok(1,2) f(1) h(2,4)
    by (auto simp: step_input_def d_ok_def split: if_splits dest!: parent_bytes_inj [rotated -1])
  then show ?case using ih y(3,4) Cons.prems(4) by (cases chs) auto
qed auto
subsection \<open>The scan for unspendable coins\<close>

lemma getPeaks_node:
  assumes m: "mmr_inv c ds m" and p: "x \<in> set (getPeaks m)"
  obtains r k d where "k < length ds div 2 ^ r" "subtree c ds r k = Inr d" "x = node r k d"
proof -
  have R: "rows c ds (\<lambda>r. length ds div 2 ^ r) m" using m by (simp add: mmr_inv_def)
  from p rowsD(1) [OF R] obtain i e where i: "0 \<le> i" "i \<le> mMaxRow m" "mMaxEntries m ! nat i = Some e" "x = e_copy e"
    by (auto simp: getPeaks_def split: option.splits if_splits) metis
  then have "nat i < MAXROWS" using rowsD(3) [OF R] by simp
  then have "length ds div 2 ^ nat i \<noteq> 0" "mSetEntries m (nkey (nat i) (length ds div 2 ^ nat i - 1)) = Some e"
    using rowsD(7) [OF R, of "nat i"] i(3) by (auto split: if_splits)
  moreover from this(1) obtain d where "subtree c ds (nat i) (length ds div 2 ^ nat i - 1) = Inr d"
      "mSetEntries m (nkey (nat i) (length ds div 2 ^ nat i - 1)) = Some (node (nat i) (length ds div 2 ^ nat i - 1) d)"
    using rowsD(5) [OF R, of "length ds div 2 ^ nat i - 1" "nat i"] by auto
  ultimately show thesis
    using i(4) by (intro that [of "length ds div 2 ^ nat i - 1" "nat i" d]) auto
qed

lemma mn_add_pos:
  assumes "mn_wf a" "mn_wf b" "0 < mval a" "0 < mval b" "mn_add a b = Inr s"
  shows "mn_wf s \<and> 0 < mval s"
proof -
  have s: "mn_wf s" "rounds_down (mval a + mval b) s"
    using rounded_Inr mn_add_rounded [OF assms(1,2)] assms(5) by metis+
  have "10 powi (-44) \<le> mval a"
  proof -
    have "(10::rat) powi (-44) \<le> 10 powi (- m_scale a)"
      using assms(1) by (intro p10_mono) (simp add: mn_wf_def MAX_DECIMAL_PLACES_def MAX_DIGITS_def)
    also have "\<dots> \<le> of_int (m_unscaled a) * 10 powi (- m_scale a)"
      using assms(3) by (simp add: mval_sign)
    finally show ?thesis using mval_mk [of "m_unscaled a" "m_scale a"] by simp
  qed
  then have "mval s \<noteq> 0" "\<not> mval s < 0" using s(2) assms(3,4) by (auto simp: rounds_down_def simp del: mval_zero_iff)
  then show ?thesis using s(1) by (simp del: mval_zero_iff)
qed

definition positive :: "mmrdata list \<Rightarrow> bool" where
  "positive ds = list_all (\<lambda>d. mn_wf (d_value d) \<and> mn_isMore (d_value d) mn_ZERO) ds"

lemma subtree_positive:
  assumes "positive ds" "complete_at ds r k" "subtree c ds r k = Inr d"
  shows "mn_wf (d_value d) \<and> 0 < mval (d_value d)"
  using assms(2,3)
proof (induction r arbitrary: k d)
  case 0
  then have "k < length ds" by (simp add: complete_at_def)
  then have "mn_wf (d_value (ds ! k)) \<and> mn_isMore (d_value (ds ! k)) mn_ZERO"
    using assms(1) by (simp add: positive_def list_all_length)
  then show ?case using 0 by (auto simp: d_Clone_def mmr_data_def num_simps)
next
  case (Suc r k d)
  from Suc.prems(2) obtain x y where x: "subtree c ds r (2 * k) = Inr x" "subtree c ds r (2 * k + 1) = Inr y"
      "mn_add (d_value x) (d_value y) = Inr (d_value d)"
    by (auto simp: CreateMMRDataParentNode_def mmr_data_def)
  then show ?case
    using Suc.IH complete_child [OF Suc.prems(1)] mn_add_pos by blast
qed

lemma setUnspendable_same:
  "mSetEntries m (nkey r k) = Some (node r k d) \<Longrightarrow> setUnspendable (nkey r k) False m = Inr m"
  by (auto simp: setUnspendable_def deref_def node_def d_Clone_def mmr_data_def fun_upd_idem)

lemma scan_node:
  assumes m: "mmr_inv c ds m" and p: "positive ds"
  shows "complete_at ds r k \<Longrightarrow> r < N \<Longrightarrow> subtree c ds r k = Inr d
    \<Longrightarrow> scanUnspendable_fuel N [] (node r k d) m = Inr (False, m)"
proof (induction r arbitrary: k d N)
  case 0
  then show ?case
    by (cases N) (simp_all add: isEmpty_def getChildRow_def deref_def d_Clone_def mmr_data_def)
next
  case (Suc r k d N)
  have R: "rows c ds (\<lambda>r. length ds div 2 ^ r) m" using m by (simp add: mmr_inv_def)
  from Suc.prems(2) obtain N' where N: "N = Suc N'" "r < N'" by (cases N) auto
  note cc = complete_child [OF Suc.prems(1)]
  obtain x where x: "subtree c ds r (2 * k) = Inr x" "getEntry [m] (int r) (en (int (2 * k))) = node r (2 * k) x"
    using inv_getEntry(1) [OF m, of "2 * k" r] cc unfolding complete_iff by blast
  obtain y where y: "subtree c ds r (2 * k + 1) = Inr y" "getEntry [m] (int r) (en (int (2 * k + 1))) = node r (2 * k + 1) y"
    using inv_getEntry(1) [OF m, of "2 * k + 1" r] cc unfolding complete_iff by blast
  have ch: "getLeftChildEntry (node (Suc r) k d) = en (int (2 * k))" "getRightChildEntry (node (Suc r) k d) = en (int (2 * k + 1))"
      "getChildRow (node (Suc r) k d) = int r"
    by (simp_all add: getLeftChildEntry_def getRightChildEntry_def en_step getChildRow_def add.commute)
  have z: "\<not> zero_or_empty (node r (2 * k) x)" "\<not> zero_or_empty (node r (2 * k + 1) y)"
    using subtree_positive [OF p conjunct1 [OF cc] x(1)] subtree_positive [OF p conjunct2 [OF cc] y(1)]
    by (auto simp: zero_or_empty_def d_Clone_def mmr_data_def num_simps simp del: mval_zero_iff)
  have s: "mSetEntries m (nkey (Suc r) k) = Some (node (Suc r) k d)"
    using rowsD(5) [OF R, of k "Suc r"] Suc.prems by (simp only: complete_iff) auto
  have e: "getHashTableEntry (mRow (node (Suc r) k d)) (mEntryNumber (node (Suc r) k d)) = nkey (Suc r) k"
    using getHashTableEntry_nkey [of "Suc r" k] by simp
  have nz: "\<not> isEmpty (node (Suc r) k d)" by (simp add: isEmpty_def)
  note ih = Suc.IH [OF conjunct1 [OF cc] N(2) x(1)] Suc.IH [OF conjunct2 [OF cc] N(2) y(1)]
  show ?case unfolding N(1) scanUnspendable_fuel.simps Let_def ch e x(2) y(2) ih
    using nz z setUnspendable_same [OF s] by (simp add: ih [unfolded Suc_eq_plus1 [symmetric]])
qed

lemma scan_all_same:
  assumes "\<forall>x \<in> set ps. scanUnspendable_fuel (nat (mRow x) + 2) [] x m = Inr (False, m)"
  shows "scan_all [] ps m = Inr m"
  using assms by (induction ps) (simp_all del: scanUnspendable_fuel.simps)

subsection \<open>Proofs to the root\<close>

lemma addEntry_clone: "addEntry c ps (d_Clone d) m = addEntry c ps d m"
  by (simp add: addEntry_def setEntry_def full_entry_def cong: if_cong)

definition datas :: "mmr_entry list \<Rightarrow> mmrdata list" where
  "datas ps = map (\<lambda>p. the (mMMRData p)) ps"

definition full :: "mmr_entry list \<Rightarrow> bool" where
  "full ps = (\<forall>p \<in> set ps. \<exists>d. mMMRData p = Some (d_Clone d))"

lemma add_peaks_list: "full ps \<Longrightarrow> add_peaks c ps m = add_list c (datas ps) m"
proof (induction ps arbitrary: m)
  case (Cons p ps m)
  then have "add_peaks c ps = add_list c (datas ps)" by (simp add: full_def fun_eq_iff)
  then show ?case using Cons.prems by (auto simp: full_def datas_def deref_def addEntry_clone)
qed (simp add: datas_def)

lemma md_isEqual_eq [simp]: "md_isEqual a b \<longleftrightarrow> mData a = mData b"
  by (auto simp: md_isEqual_def list.rel_eq)

text \<open>The index that is kept is one with the wanted hash.\<close>

lemma add_keep_found:
  assumes "mmr_inv c es m" "full ps" "add_list c (datas ps) m = Inr m'"
    "(\<exists>d \<in> set (datas ps). d_hash d = h) \<or> (\<exists>i < length es. k = Some (en (int i)) \<and> d_hash (es ! i) = h)"
  shows "\<exists>i < length (es @ datas ps). add_keep c h ps k m = Inr (Some (en (int i)), m')
    \<and> d_hash ((es @ datas ps) ! i) = h"
  using assms
proof (induction ps arbitrary: es k m)
  case (Cons p ps es k m)
  obtain d where d: "mMMRData p = Some d" "datas (p # ps) = d # datas ps" "full ps"
    using Cons.prems(2) by (auto simp: full_def datas_def)
  from Cons.prems(3) d(2) obtain e m1 where a: "addEntry c [] d m = Inr (e, m1)" "add_list c (datas ps) m1 = Inr m'"
    by auto
  note inv = addEntry_inv [OF Cons.prems(1) a(1)]
  let ?k = "if d_hash d = h then Some (mEntryNumber e) else k"
  have "(\<exists>d \<in> set (datas ps). d_hash d = h)
      \<or> (\<exists>i < length (es @ [d]). ?k = Some (en (int i)) \<and> d_hash ((es @ [d]) ! i) = h)"
    using Cons.prems(4) inv unfolding d(2)
    by (cases "d_hash d = h") (auto simp: nth_append intro: exI [of _ "length es"] less_SucI)
  from Cons.IH [OF conjunct1 [OF inv] d(3) a(2) this] show ?case
    using a(1) d(1) unfolding d(2) by (simp add: deref_def)
qed (auto simp: datas_def)

text \<open>Two peaks of a round with one hash are the same node.\<close>

definition hash_functional :: "mmrdata list \<Rightarrow> bool" where
  "hash_functional ds = list_all (\<lambda>x. list_all (\<lambda>y. d_hash x = d_hash y \<longrightarrow> x = y) ds) ds"

fun bag_ok :: "nat \<Rightarrow> crypto \<Rightarrow> mmr_entry list \<Rightarrow> bool" where
  "bag_ok 0 c ps = True"
| "bag_ok (Suc n) c ps =
     (length ps \<le> 1 \<or> hash_functional (datas ps)
        \<and> (case add_peaks c ps mmr_new of Inl e \<Rightarrow> True | Inr m \<Rightarrow> bag_ok n c (getPeaks m)))"

lemma full_getPeaks: "mmr_inv c ds m \<Longrightarrow> full (getPeaks m)"
  by (auto simp: full_def elim!: getPeaks_node)

lemma datas_getPeaks:
  assumes "mmr_inv c ds m" "peak ds r k" "subtree c ds r k = Inr d"
  shows "d \<in> set (datas (getPeaks m))"
  using imageI [OF set_getPeaks [OF assms], of "\<lambda>p. the (mMMRData p)"] subtree_clone [OF assms(3)]
  by (simp add: datas_def)

lemma calculateProof_append:
  assumes "calculateProof c p z = Inr x" "d_Clone x = x" "calculateProof c q x = Inr y"
  shows "calculateProof c (foldl (\<lambda>t ch. addProofChunk ch t) p (p_chain q)) z = Inr y"
proof -
  have f: "p_chain (foldl (\<lambda>t ch. addProofChunk ch t) p chs) = p_chain p @ map (\<lambda>ch. (fst ch, d_Clone (snd ch))) chs" for chs
    by (induction chs arbitrary: p) simp_all
  have "calculate_chain c d (map (\<lambda>ch. (fst ch, d_Clone (snd ch))) chs) = calculate_chain c d chs" for d chs
    by (induction chs arbitrary: d) (simp_all add: proof_step_clone [where l = "fst _" and x = "snd _", simplified])
  then show ?thesis using assms by (simp add: calculateProof_def calculate_chain_append f)
qed

lemma peak_loop_root:
  assumes "full ps" "x \<in> set (datas ps)" "d_Clone x = x" "calculateProof c tot0 z = Inr x"
    "bag_ok N c ps" "bag_loop N c ps = Inr rs"
  shows "\<exists>p. peak_loop N c z ps x k tot0 = Inr p \<and> calculateProof c p z = Inr (hd (datas rs)) \<and> rs \<noteq> [] \<and> full rs"
  using assms
proof (induction N arbitrary: ps x k tot0)
  case (Suc N ps x k tot0)
  show ?case
  proof (cases "length ps \<le> 1")
    case True
    then have "datas ps = [x]" "ps \<noteq> []" using Suc.prems(2) by (cases ps; auto simp: datas_def)+
    then show ?thesis using True Suc.prems(1,4,6) by auto
  next
    case False
    then obtain m where m: "add_peaks c ps mmr_new = Inr m" "bag_loop N c (getPeaks m) = Inr rs"
      using Suc.prems(6) by auto
    have al: "add_list c (datas ps) mmr_new = Inr m" using m(1) Suc.prems(1) by (simp add: add_peaks_list)
    have inv: "mmr_inv c (datas ps) m" using add_list_inv [OF mmr_new_inv al] by simp
    have ok: "hash_functional (datas ps)" "bag_ok N c (getPeaks m)" using Suc.prems(5) False m(1) by simp_all
    from add_keep_found [OF mmr_new_inv Suc.prems(1) al, of "d_hash x" k] Suc.prems(2)
    obtain i where i: "i < length (datas ps)" "add_keep c (d_hash x) ps k mmr_new = Inr (Some (en (int i)), m)"
        "d_hash (datas ps ! i) = d_hash x" by auto
    have xi: "datas ps ! i = x" using ok(1) i(1,3) Suc.prems(2) by (auto simp: hash_functional_def list_all_iff)
    from getProofToPeak_inv [OF inv i(1)] obtain q r kk y where q: "getProofToPeak [] m (en (int i)) = Inr q"
        "peak (datas ps) r kk" "calculateProof c q x = Inr y" "subtree c (datas ps) r kk = Inr y"
      unfolding xi by blast
    note tot = calculateProof_append [OF Suc.prems(4,3) q(3)]
    from Suc.IH [OF full_getPeaks [OF inv] datas_getPeaks [OF inv q(2,4)] subtree_clone [OF q(4)] tot ok(2) m(2)]
    show ?thesis using False i(2) q(1) tot by (simp add: deref_def Let_def)
  qed
qed simp

subsection \<open>Appending and bagging never fail on sums that exist\<close>

definition sums_ok :: "crypto \<Rightarrow> mmrdata list \<Rightarrow> bool" where
  "sums_ok c ds = (\<forall>r k. complete_at ds r k \<longrightarrow> (\<exists>d. subtree c ds r k = Inr d))"

definition sum_errors :: "crypto \<Rightarrow> mmrdata list \<Rightarrow> error set" where
  "sum_errors c ds = (if sums_ok c ds then {} else {Throw RuntimeError})"

definition values_wf :: "mmrdata list \<Rightarrow> bool" where
  "values_wf ds = (\<forall>d \<in> set ds. mn_wf (d_value d))"

lemma sums_ok_append: "sums_ok c (ds @ es) \<Longrightarrow> sums_ok c ds"
  unfolding sums_ok_def by (metis complete_at_def le_trans length_append le_add1 subtree_append)

lemma sum_errors_append: "sum_errors c ds \<subseteq> sum_errors c (ds @ es)"
  using sums_ok_append by (auto simp: sum_errors_def)

lemma CreateMMRDataParentNode_outcome:
  "mn_wf (d_value x) \<Longrightarrow> mn_wf (d_value y)
    \<Longrightarrow> outcome {Throw RuntimeError} (\<lambda>d. mn_wf (d_value d)) (CreateMMRDataParentNode c x y)"
  using mn_add_rounded [of "d_value x" "d_value y"]
  by (cases "mn_add (d_value x) (d_value y)") (auto simp: CreateMMRDataParentNode_def rounded_def mmr_data_def)

lemma subtree_wf: "values_wf ds \<Longrightarrow> complete_at ds r k \<Longrightarrow> subtree c ds r k = Inr d \<Longrightarrow> mn_wf (d_value d)"
proof (induction r arbitrary: k d)
  case (0 k d)
  then have "d_value d = d_value (ds ! k)" "k < length ds"
    by (auto simp: complete_at_def d_Clone_def mmr_data_def)
  then show ?case using 0 by (simp add: values_wf_def)
next
  case (Suc r k d)
  from Suc.prems(3) obtain x y where x: "subtree c ds r (2 * k) = Inr x" "subtree c ds r (2 * k + 1) = Inr y"
      "CreateMMRDataParentNode c x y = Inr d" by auto
  have "mn_wf (d_value x)" "mn_wf (d_value y)"
    using Suc.IH [OF Suc.prems(1)] complete_child [OF Suc.prems(2)] x(1,2) by blast+
  from outcome_InrD [OF CreateMMRDataParentNode_outcome [OF this] x(3)] show ?case .
qed

lemma addEntry_loop_outcome:
  assumes "rows c ds (mid n r) m" "n + 1 = (k + 1) * 2 ^ r" "subtree c ds r k = Inr d" "r < MAXROWS"
    "mn_isLess (mBlockTime m) mn_ZERO = False" "length ds = n + 1" "n + 1 < 2 ^ MAXROWS" "values_wf ds" "MAXROWS < N + r"
  shows "outcome (sum_errors c ds) (\<lambda>m'. True) (addEntry_loop N c [] (node r k d) m)"
  using assms
proof (induction N arbitrary: r k d m)
  case (Suc N r k d m)
  show ?case
  proof (cases "even k")
    case False
    note step = mid_step [OF Suc.prems(2) False]
    have "k - 1 < mid n r r" using mid_here [OF Suc.prems(2)] by simp
    from getEntry_rows(1) [OF Suc.prems(1,5) this] obtain s where s: "subtree c ds r (k - 1) = Inr s"
        "getEntry [m] (int r) (en (int (k - 1))) = node r (k - 1) s" by blast
    have kk: "2 * (k div 2) = k - 1" "2 * (k div 2) + 1 = k" using False by (auto elim!: oddE)
    have com: "complete_at ds (Suc r) (k div 2)" using step(3) Suc.prems(6) by (simp add: complete_at_def)
    have com2: "complete_at ds r (k - 1)" "complete_at ds r k"
      using complete_child [OF com] unfolding kk(2) unfolding kk(1) by simp_all
    have wf: "mn_wf (d_value s)" "mn_wf (d_value d)"
      using subtree_wf [OF Suc.prems(8)] com2 s(1) Suc.prems(3) by blast+
    have cp: "CreateMMRDataParentNode c s d = subtree c ds (Suc r) (k div 2)"
      using s(1) Suc.prems(3) kk by (simp del: One_nat_def)
    show ?thesis
    proof (cases "subtree c ds (Suc r) (k div 2)")
      case (Inl e)
      then have "\<not> sums_ok c ds" using com unfolding sums_ok_def by (metis sum.distinct(1))
      moreover have "e = Throw RuntimeError"
        using CreateMMRDataParentNode_outcome [OF wf, of c] cp Inl by simp
      ultimately show ?thesis
        using cp [unfolded Inl] s(2) False by (simp add: en_simps deref_def CreateMMRDataParentNode_clone sum_errors_def)
    next
      case (Inr p)
      have "(2::nat) ^ Suc r < 2 ^ MAXROWS"
        using step(3) Suc.prems(7) by (metis le_add1 le_less_trans mult.commute mult_1_right mult_le_mono2 add.commute)
      then have r: "Suc r < MAXROWS" by (rule power_less_imp_less_exp [rotated]) simp
      have sub: "subtree c ds (Suc r) (mid n r (Suc r)) = Inr p" using Inr step(2) by simp
      from setEntry_rows [OF Suc.prems(1) r sub] obtain m2 where m2:
          "setEntry (int (Suc r)) (en (int (k div 2))) p m = Inr (node (Suc r) (k div 2) p, m2)"
          "rows c ds (mid n (Suc r)) m2" "mBlockTime m2 = mBlockTime m"
        unfolding step(2) step(1) [unfolded step(2)] by blast
      have t: "mn_isLess (mBlockTime m2) mn_ZERO = False" using Suc.prems(5) m2(3) by simp
      have "outcome (sum_errors c ds) (\<lambda>m'. True) (addEntry_loop N c [] (node (Suc r) (k div 2) p) m2)"
        using Suc.prems(9) by (intro Suc.IH [OF m2(2) step(3) Inr r t Suc.prems(6,7,8)]) simp
      then show ?thesis
        using m2(1) cp [unfolded Inr] s(2) False by (simp add: en_simps deref_def CreateMMRDataParentNode_clone)
    qed
  qed (simp add: en_simps)
qed simp

lemma addEntry_outcome:
  assumes m: "mmr_inv c ds m" and w: "values_wf (ds @ [d])" and n: "length ds + 1 < 2 ^ MAXROWS"
  shows "outcome (sum_errors c (ds @ [d])) (\<lambda>(e, m'). mmr_inv c (ds @ [d]) m') (addEntry c [] d m)"
proof (rule outcomeI)
  show "addEntry c [] d m = Inr x \<Longrightarrow> case x of (e, m') \<Rightarrow> mmr_inv c (ds @ [d]) m'" for x
    using addEntry_inv [OF m] by (cases x) auto
next
  fix er assume er: "addEntry c [] d m = Inl er"
  let ?n = "length ds" and ?ds = "ds @ [d]"
  have r0: "rows c ?ds (\<lambda>r. ?n div 2 ^ r) m" "mEntryCount m = en (int ?n)"
      and t: "mn_isLess (mBlockTime m) mn_ZERO = False"
    using m rows_append by (auto simp: mmr_inv_def)
  have sub: "subtree c ?ds 0 ?n = Inr (d_Clone d)" by simp
  have M: "0 < MAXROWS" by (simp add: MAXROWS_def)
  obtain m1 where m1: "setEntry (int 0) (en (int ?n)) (d_Clone d) m = Inr (node 0 ?n (d_Clone d), m1)"
      "rows c ?ds ((\<lambda>r. ?n div 2 ^ r)(0 := Suc ?n)) m1" "mEntryCount m1 = mEntryCount m"
      "mBlockTime m1 = mBlockTime m"
    using setEntry_rows [OF r0(1) M, of "d_Clone d"] sub by auto
  have m1': "setEntry 0 (en (int ?n)) d m = Inr (node 0 ?n d, m1)"
    using m1(1) by (simp add: setEntry_def full_entry_def cong: if_cong)
  define m2 where "m2 = m1\<lparr>mEntryCount := en_increment (mEntryCount m1)\<rparr>"
  have m2: "rows c ?ds (mid ?n 0) m2" "mn_isLess (mBlockTime m2) mn_ZERO = False"
    using m1(4) t by (simp_all add: m2_def rows_other [OF rows_cong [OF m1(2), of "mid ?n 0"]] mid_def)
  have "outcome (sum_errors c ?ds) (\<lambda>m'. True) (addEntry_loop (Suc MAXROWS) c [] (node 0 ?n (d_Clone d)) m2)"
    using n by (intro addEntry_loop_outcome [OF m2(1) _ sub M m2(2) _ _ w]) simp_all
  then show "er \<in> sum_errors c ?ds"
    using er m1' r0(2) by (cases "addEntry_loop (Suc MAXROWS) c [] (node 0 ?n d) m2")
      (simp_all add: addEntry_def m2_def Let_def del: addEntry_loop.simps)
qed

lemma add_list_outcome:
  "mmr_inv c ds m \<Longrightarrow> values_wf (ds @ es) \<Longrightarrow> length (ds @ es) < 2 ^ MAXROWS
    \<Longrightarrow> outcome (sum_errors c (ds @ es)) (mmr_inv c (ds @ es)) (add_list c es m)"
proof (induction es arbitrary: ds m)
  case (Cons e es ds m)
  have w: "values_wf (ds @ [e])" using Cons.prems(2) by (simp add: values_wf_def)
  have E: "sum_errors c (ds @ [e]) \<subseteq> sum_errors c (ds @ e # es)" using sum_errors_append [of c "ds @ [e]" es] by simp
  have "outcome (sum_errors c (ds @ [e])) (\<lambda>(e', m'). mmr_inv c (ds @ [e]) m') (addEntry c [] e m)"
    using Cons.prems(3) by (intro addEntry_outcome [OF Cons.prems(1) w]) simp
  then have o: "outcome (sum_errors c (ds @ e # es)) (\<lambda>(e', m'). mmr_inv c (ds @ [e]) m') (addEntry c [] e m)"
    by (rule outcome_mono [OF _ E])
  show ?case unfolding add_list.simps
    using Cons.IH [of "ds @ [e]"] Cons.prems(2,3) by (intro outcome_bind [OF o]) auto
qed simp

text \<open>There are fewer peaks than leaves.\<close>

lemma odd_digits_less:
  "(\<Sum>i < M. n div 2 ^ i mod 2) \<le> (n :: nat)" "2 \<le> n \<Longrightarrow> (\<Sum>i < M. n div 2 ^ i mod 2) < n"
proof -
  have e: "(\<Sum>i < Suc M. n div 2 ^ i mod 2) = n mod 2 + (\<Sum>i < M. n div 2 div 2 ^ i mod 2)" for M and n :: nat
    unfolding sum.lessThan_Suc_shift by (simp add: div_mult2_eq)
  have le: "(\<Sum>i < M. n div 2 ^ i mod 2) \<le> n" for M and n :: nat
  proof (induction M arbitrary: n)
    case (Suc M n)
    have "n mod 2 + n div 2 \<le> n" by presburger
    then show ?case using Suc [of "n div 2"] by (simp only: e)
  qed simp
  show "(\<Sum>i < M. n div 2 ^ i mod 2) \<le> n" by (rule le)
  assume n: "2 \<le> n"
  show "(\<Sum>i < M. n div 2 ^ i mod 2) < n"
  proof (cases M)
    case (Suc M')
    have "n mod 2 + n div 2 < n" using n by presburger
    then show ?thesis using le [of "n div 2" M'] unfolding Suc e by linarith
  qed (use n in simp)
qed

lemma even_pred: "q \<noteq> 0 \<Longrightarrow> even (q - 1) \<Longrightarrow> q mod 2 = (1::nat)"
  by presburger

lemma sum_list_upto: "sum_list (map f [0..z]) = (\<Sum>i \<in> {0..z}. f i)"
  by (simp add: interv_sum_list_conv_sum_set_int)

lemma length_getPeaks:
  assumes m: "mmr_inv c ds m"
  shows "length (getPeaks m) \<le> (\<Sum>i < MAXROWS. length ds div 2 ^ i mod 2)"
proof -
  let ?f = "\<lambda>i. case mMaxEntries m ! nat i of None \<Rightarrow> [] | Some e \<Rightarrow> if isLeft e then [e_copy e] else []"
  let ?g = "\<lambda>i. length ds div 2 ^ i mod 2"
  have R: "rows c ds (\<lambda>r. length ds div 2 ^ r) m" using m by (simp add: mmr_inv_def)
  have b: "length (?f i) \<le> ?g (nat i)" if "i \<in> {0..mMaxRow m}" for i
  proof -
    have r: "nat i < MAXROWS" using that rowsD(3) [OF R] by (auto simp: nat_less_iff)
    show ?thesis
    proof (cases "length ds div 2 ^ nat i = 0")
      case False
      let ?k = "length ds div 2 ^ nat i - 1"
      obtain d where "mMaxEntries m ! nat i = Some (node (nat i) ?k d)"
        using rowsD(5) [OF R, of ?k "nat i"] rowsD(7) [OF R r] False by auto
      moreover have "even ?k \<Longrightarrow> ?g (nat i) = 1" by (rule even_pred [OF False])
      ultimately show ?thesis by (simp add: en_simps)
    qed (use rowsD(7) [OF R r] in simp)
  qed
  have "length (getPeaks m) = sum_list (map (\<lambda>i. length (?f i)) (rev [0..mMaxRow m]))"
    using rowsD(1) [OF R] by (simp add: getPeaks_def length_concat comp_def)
  also have "\<dots> = (\<Sum>i \<in> {0..mMaxRow m}. length (?f i))"
    by (simp only: rev_map [symmetric] sum_list_rev sum_list_upto)
  also have "\<dots> \<le> (\<Sum>i \<in> {0..mMaxRow m}. ?g (nat i))" using b by (rule sum_mono)
  also have "\<dots> = (\<Sum>j \<in> nat ` {0..mMaxRow m}. ?g j)"
    by (rule sum.reindex [symmetric, unfolded comp_def]) (auto simp: inj_on_def)
  also have "\<dots> \<le> (\<Sum>j < MAXROWS. ?g j)"
    using rowsD(3) [OF R] by (intro sum_mono2) auto
  finally show ?thesis .
qed

lemma fewer_peaks:
  assumes "mmr_inv c ds m"
  shows "length (getPeaks m) \<le> length ds" "2 \<le> length ds \<Longrightarrow> length (getPeaks m) < length ds"
  using length_getPeaks [OF assms] odd_digits_less [of "length ds" MAXROWS] by linarith+

subsection \<open>Bagging ends\<close>

lemma getPeaks_nonempty:
  assumes m: "mmr_inv c ds m" and n: "ds \<noteq> []"
  shows "getPeaks m \<noteq> []"
proof -
  have "0 < length ds" using n by simp
  then show ?thesis using getProofToPeak_inv [OF m, of 0] set_getPeaks [OF m] by fastforce
qed

lemma values_wf_peaks:
  assumes m: "mmr_inv c ds m" and w: "values_wf ds"
  shows "values_wf (datas (getPeaks m))"
proof -
  have "mn_wf (d_value (the (mMMRData x)))" if "x \<in> set (getPeaks m)" for x
    using getPeaks_node [OF m that] subtree_wf [OF w] unfolding complete_iff
    by (metis d_Clone_def mmr_data_def node_sel(3) option.sel subtree_clone)
  then show ?thesis by (auto simp: values_wf_def datas_def)
qed

definition zeros :: "mmrdata list \<Rightarrow> bool" where
  "zeros ds = (\<forall>d \<in> set ds. d_value d = mn_ZERO)"

lemma mn_add_zero: "mn_add mn_ZERO mn_ZERO = Inr mn_ZERO"
  by (simp add: mn_add_def mn_ZERO_def align_scales_def finish_zero)

lemma subtree_zero: "zeros ds \<Longrightarrow> complete_at ds r k \<Longrightarrow> \<exists>d. subtree c ds r k = Inr d \<and> d_value d = mn_ZERO"
proof (induction r arbitrary: k)
  case 0
  then show ?case by (auto simp: zeros_def complete_at_def d_Clone_def mmr_data_def)
next
  case (Suc r k)
  obtain x y where x: "subtree c ds r (2 * k) = Inr x" "d_value x = mn_ZERO"
      "subtree c ds r (2 * k + 1) = Inr y" "d_value y = mn_ZERO"
    using Suc.IH [OF Suc.prems(1)] complete_child [OF Suc.prems(2)] by blast
  then show ?case by (simp add: CreateMMRDataParentNode_def mn_add_zero mmr_data_def)
qed

lemma zeros_sums: "zeros ds \<Longrightarrow> sum_errors c ds = {} \<and> values_wf ds"
  unfolding sum_errors_def sums_ok_def using subtree_zero [of ds _ _ c] by (auto simp: values_wf_def zeros_def) blast

lemma zeros_peaks:
  assumes m: "mmr_inv c ds m" and z: "zeros ds"
  shows "zeros (datas (getPeaks m))"
proof -
  have "d_value (the (mMMRData x)) = mn_ZERO" if "x \<in> set (getPeaks m)" for x
    using getPeaks_node [OF m that] subtree_zero [OF z] unfolding complete_iff
    by (metis d_Clone_def mmr_data_def node_sel(3) option.sel subtree_clone sum.inject(2))
  then show ?thesis by (auto simp: zeros_def datas_def)
qed

definition bag_errors :: "mmrdata list \<Rightarrow> error set" where
  "bag_errors ds = (if zeros ds then {} else {Throw RuntimeError})"

lemma bag_loop_outcome:
  "full ps \<Longrightarrow> values_wf (datas ps) \<Longrightarrow> ps \<noteq> [] \<Longrightarrow> length ps \<le> N \<Longrightarrow> length ps < 2 ^ MAXROWS
    \<Longrightarrow> outcome (bag_errors (datas ps)) (\<lambda>rs. full rs \<and> length rs = 1) (bag_loop N c ps)"
proof (induction N arbitrary: ps)
  case (Suc N ps)
  show ?case
  proof (cases "length ps \<le> 1")
    case True
    then show ?thesis using Suc.prems(1,3) by (cases ps) auto
  next
    case False
    have len: "length (datas ps) = length ps" by (simp add: datas_def)
    have "outcome (sum_errors c (datas ps)) (mmr_inv c (datas ps)) (add_list c (datas ps) mmr_new)"
      using add_list_outcome [OF mmr_new_inv, of "datas ps" c] Suc.prems(2,5) by (simp add: datas_def)
    moreover have "sum_errors c (datas ps) \<subseteq> bag_errors (datas ps)"
      using zeros_sums [of "datas ps" c] by (auto simp: bag_errors_def sum_errors_def)
    ultimately have o: "outcome (bag_errors (datas ps)) (mmr_inv c (datas ps)) (add_peaks c ps mmr_new)"
      unfolding add_peaks_list [OF Suc.prems(1)] by (rule outcome_mono) simp
    have "outcome (bag_errors (datas ps)) (\<lambda>rs. full rs \<and> length rs = 1) (bag_loop N c (getPeaks m))"
      if m: "mmr_inv c (datas ps) m" for m
    proof -
      have f: "length (getPeaks m) < length ps" using fewer_peaks(2) [OF m] False len by simp
      have "outcome (bag_errors (datas (getPeaks m))) (\<lambda>rs. full rs \<and> length rs = 1) (bag_loop N c (getPeaks m))"
        using full_getPeaks [OF m] values_wf_peaks [OF m Suc.prems(2)] getPeaks_nonempty [OF m] f Suc.prems(3,4,5) len
        by (intro Suc.IH) (auto simp: datas_def)
      moreover have "bag_errors (datas (getPeaks m)) \<subseteq> bag_errors (datas ps)"
        using zeros_peaks [OF m] by (auto simp: bag_errors_def)
      ultimately show ?thesis by (rule outcome_mono) simp
    qed
    then show ?thesis using False by (simp add: outcome_bind [OF o])
  qed
qed simp

lemma getRoot_outcome:
  assumes m: "mmr_inv c ds m" and w: "values_wf ds" and n: "ds \<noteq> []"
  shows "outcome (bag_errors ds) (\<lambda>r. r \<noteq> None) (getRoot c m)"
proof -
  have nf: "\<not> mFinalized m" using m by (simp add: mmr_inv_def rows_def)
  have l: "length (getPeaks m) < 2 ^ MAXROWS" using fewer_peaks(1) [OF m] m by (simp add: mmr_inv_def)
  have "outcome (bag_errors (datas (getPeaks m))) (\<lambda>rs. full rs \<and> length rs = 1)
      (bag_loop (Suc (length (getPeaks m))) c (getPeaks m))"
    using full_getPeaks [OF m] values_wf_peaks [OF m w] getPeaks_nonempty [OF m n] l
    by (intro bag_loop_outcome) auto
  moreover have "bag_errors (datas (getPeaks m)) \<subseteq> bag_errors ds"
    using zeros_peaks [OF m] by (auto simp: bag_errors_def)
  ultimately have o: "outcome (bag_errors ds) (\<lambda>rs. full rs \<and> length rs = 1)
      (bag_loop (Suc (length (getPeaks m))) c (getPeaks m))" by (rule outcome_mono) simp
  show ?thesis using nf getPeaks_nonempty [OF m n]
    by (auto simp: getRoot_def getRootInternal_def Let_def length_Suc_conv full_def deref_def
        simp del: bag_loop.simps intro!: outcome_bind [OF o])
qed

subsection \<open>Properties\<close>

text \<open>A digest for examples: the last 32 bytes of the padded input.\<close>

definition sample_crypto :: crypto where
  "sample_crypto = \<lparr>sha2_256 = (\<lambda>x. take 32 (rev x @ replicate 32 0)), sha3_256 = (\<lambda>x. take 32 (rev x @ replicate 32 0))\<rparr>"

definition sample_leaves :: "mmrdata list" where
  "sample_leaves = [mmr_data [1] (mk 5 0), mmr_data [2] (mk 7 0), mmr_data [3] (mk 1 0)]"

text \<open>C7 Appending leaves to an empty MMR builds exactly the complete subtrees: after any number of
  appends the entry at row \<open>r\<close> and position \<open>k\<close> exists iff the leaves \<open>k * 2 ^ r\<close> up to
  \<open>(k + 1) * 2 ^ r\<close> have been added, and it holds the hash and the sum of that subtree; the next free
  position is the number of leaves, and the row array is never exceeded.\<close>

theorem appending_builds_subtrees:
  assumes "add_list c ds mmr_new = Inr m"
  shows "mEntryCount m = en (int (length ds)) \<and> length ds < 2 ^ MAXROWS
    \<and> (if (k + 1) * 2 ^ r \<le> length ds
       then \<exists>d. subtree c ds r k = Inr d \<and> getEntry [m] (int r) (en (int k)) = node r k d
       else isEmpty (getEntry [m] (int r) (en (int k))))"
proof -
  have m: "mmr_inv c ds m" using add_list_inv [OF mmr_new_inv assms] by simp
  then show ?thesis
    using inv_getEntry [OF m, of k r] complete_iff [of ds r k]
    by (auto simp: mmr_inv_def complete_at_def isEmpty_def empty_entry_def)
qed

text \<open>C8 Every leaf of an MMR built by appending has a proof, and the MMR accepts it: for each position
  the climb over the siblings ends at a peak, the proof recomputes the data of that peak, and
  \<open>checkProof\<close> returns true whenever the root can be computed at all.\<close>

theorem leaf_proofs_accepted:
  assumes "add_list c ds mmr_new = Inr m" "i < length ds" "getRoot c m = Inr r"
  shows "\<exists>p. getProofToPeak [] m (en (int i)) = Inr p \<and> checkProof c m (ds ! i) p = Inr True"
proof -
  have m: "mmr_inv c ds m" using add_list_inv [OF mmr_new_inv assms(1)] by simp
  from getProofToPeak_inv [OF m assms(2)] obtain p q k x where p: "getProofToPeak [] m (en (int i)) = Inr p"
      "peak ds q k" "calculateProof c p (ds ! i) = Inr x" "subtree c ds q k = Inr x" by blast
  have "any_equal x (getPeaks m) = Inr True"
    using set_getPeaks [OF m p(2,4)] getPeaks_full [OF m]
    by (intro any_equal_found [of _ "node q k x"]) auto
  then show ?thesis using p(1,3) assms(3) by (auto simp: checkProof_def split: option.splits)
qed

text \<open>C9 A proof commits to its leaf: if two chains with the same sides lead to the same root hash,
  they start from the same leaf hash and contain the same sibling hashes, and (unless they are empty)
  the roots carry the same sum, or two different byte strings hashed along them have one digest.\<close>

theorem proof_binding:
  assumes "calculateProof c p d = Inr x" "calculateProof c q d' = Inr x'" "d_hash x = d_hash x'"
    "map fst (p_chain p) = map fst (p_chain q)" "d_ok d" "d_ok d'" "chain_ok (p_chain p)" "chain_ok (p_chain q)"
    "\<forall>y. length (hashData c y) = 32"
    "\<not> clash c (chain_inputs c (d_Clone d) (p_chain p)) (chain_inputs c (d_Clone d') (p_chain q))"
  shows "d_hash d = d_hash d' \<and> map (d_hash \<circ> snd) (p_chain p) = map (d_hash \<circ> snd) (p_chain q)
    \<and> (p_chain p = [] \<or> d_value x = d_value x')"
proof -
  have "d_ok (d_Clone d)" "d_ok (d_Clone d')" using assms(5,6) by (simp_all add: d_ok_def d_Clone_def mmr_data_def)
  then show ?thesis
    using chain_binding [OF assms(1,2) [unfolded calculateProof_def] assms(3,4) _ _ assms(7,8) _ assms(10)] assms(9)
    by (simp add: MINIMA_MAX_MINIDATA_LENGTH_def d_Clone_def mmr_data_def)
qed

lemma sample_builds:
  obtains m r where "add_list sample_crypto sample_leaves mmr_new = Inr m" "getRoot sample_crypto m = Inr r"
proof -
  have "case add_list sample_crypto sample_leaves mmr_new of Inl _ \<Rightarrow> False
      | Inr m \<Rightarrow> (case getRoot sample_crypto m of Inl _ \<Rightarrow> False | Inr r \<Rightarrow> True)" by code_simp
  then show thesis using that by (auto split: sum.splits)
qed

theorem appending_builds_subtrees_witness:
  "\<exists>m d. add_list sample_crypto sample_leaves mmr_new = Inr m \<and> getEntry [m] 1 (en 0) = node 1 0 d"
proof -
  obtain m where "add_list sample_crypto sample_leaves mmr_new = Inr m" using sample_builds by blast
  with appending_builds_subtrees [OF this, of 0 1] show ?thesis by (auto simp: sample_leaves_def)
qed

theorem leaf_proofs_accepted_witness:
  "\<exists>m p. add_list sample_crypto sample_leaves mmr_new = Inr m \<and> getProofToPeak [] m (en 1) = Inr p
    \<and> checkProof sample_crypto m (mmr_data [2] (mk 7 0)) p = Inr True"
proof -
  obtain m r where m: "add_list sample_crypto sample_leaves mmr_new = Inr m" "getRoot sample_crypto m = Inr r"
    by (rule sample_builds)
  with leaf_proofs_accepted [OF m(1) _ m(2), of 1] show ?thesis by (auto simp: sample_leaves_def)
qed

theorem proof_binding_witness:
  "\<exists>x. calculateProof sample_crypto \<lparr>p_blocktime = mn_ZERO, p_chain = [(True, mmr_data [1] mn_ONE)]\<rparr> (mmr_data [2] mn_ONE) = Inr x
    \<and> d_hash (mmr_data [2] mn_ONE) = [2]"
proof -
  let ?p = "\<lparr>p_blocktime = mn_ZERO, p_chain = [(True, mmr_data [1] mn_ONE)]\<rparr>" and ?d = "mmr_data [2] mn_ONE"
  have "case calculateProof sample_crypto ?p ?d of Inl _ \<Rightarrow> False | Inr x \<Rightarrow> True" by code_simp
  then obtain x where x: "calculateProof sample_crypto ?p ?d = Inr x" by (auto split: sum.splits)
  have ok: "d_ok ?d" "chain_ok (p_chain ?p)"
    by (simp_all add: d_ok_def chain_ok_def mmr_data_def MINIMA_MAX_MINIDATA_LENGTH_def)
  have n: "\<not> clash sample_crypto (chain_inputs sample_crypto (d_Clone ?d) (p_chain ?p)) (chain_inputs sample_crypto (d_Clone ?d) (p_chain ?p))"
    by code_simp
  from proof_binding [OF x x refl refl ok(1) ok(1) ok(2) ok(2) _ n] x show ?thesis
    by (simp add: hashData_def sample_crypto_def mmr_data_def)
qed

lemma getProof_reaches_root:
  assumes a: "add_list c ds mmr_new = Inr m" and i: "i < length ds" and r: "getRoot c m = Inr (Some d)"
    and ok: "bag_ok (Suc (length (getPeaks m))) c (getPeaks m)"
  shows "\<exists>p. getProof c [] m (en (int i)) = Inr p \<and> calculateProof c p (ds ! i) = Inr d"
proof -
  have m: "mmr_inv c ds m" using add_list_inv [OF mmr_new_inv a] by simp
  have nf: "\<not> mFinalized m" using m by (simp add: mmr_inv_def rows_def)
  from getProofToPeak_inv [OF m i] obtain p q k x where p: "getProofToPeak [] m (en (int i)) = Inr p"
      "peak ds q k" "calculateProof c p (ds ! i) = Inr x" "subtree c ds q k = Inr x" by blast
  note xc = subtree_clone [OF p(4)]
  from r nf obtain rs e where rs: "bag_loop (Suc (length (getPeaks m))) c (getPeaks m) = Inr rs"
      "mMMRData (hd rs) = Some e" "d = d_Clone e"
    by (auto simp: getRoot_def getRootInternal_def Let_def deref_def split: if_splits option.splits)
  have "calculateProof c (empty_proof (mBlockTime m)) x = Inr x"
    using xc by (simp add: calculateProof_def empty_proof_def)
  from peak_loop_root [OF full_getPeaks [OF m] datas_getPeaks [OF m p(2,4)] xc this ok rs(1), of None]
  obtain rp where rp: "getPeakToRoot c m x = Inr rp" "calculateProof c rp x = Inr (hd (datas rs))" "rs \<noteq> []" "full rs"
    unfolding getPeakToRoot_def Let_def xc by blast
  have "hd (datas rs) = d"
    using rs(2,3) rp(3,4) by (cases rs) (auto simp: datas_def full_def)
  moreover have "getEntry [m] 0 (en (int i)) = node 0 i (ds ! i)"
    using inv_getEntry(1) [OF m, of i 0] i by auto
  moreover have "calculateProof c p (d_Clone (ds ! i)) = Inr x" using p(3) by (simp add: calculateProof_def)
  ultimately show ?thesis
    using p(1) rp(1) calculateProof_append [OF p(3) xc rp(2)] by (simp add: getProof_def deref_def Let_def)
qed

text \<open>The full proof of a leaf leads to the root: \<open>getProof\<close> climbs to the peak of the leaf, bags the
  peaks as \<open>getRoot\<close> does and follows the leaf's peak by its hash; the proof recomputes the root,
  provided no round of bagging has two different peaks with one hash.\<close>

theorem getProof_root:
  assumes a: "add_list c ds mmr_new = Inr m" and i: "i < length ds" and r: "getRoot c m = Inr (Some d)"
    and ok: "bag_ok (Suc (length (getPeaks m))) c (getPeaks m)"
  shows "\<exists>p. getProof c [] m (en (int i)) = Inr p \<and> calculateProof c p (ds ! i) = Inr d"
  by (rule getProof_reaches_root [OF assms])

theorem getProof_root_witness:
  "\<exists>m d p. add_list sample_crypto sample_leaves mmr_new = Inr m \<and> getRoot sample_crypto m = Inr (Some d)
    \<and> getProof sample_crypto [] m (en 2) = Inr p \<and> calculateProof sample_crypto p (mmr_data [3] (mk 1 0)) = Inr d"
proof -
  have "case add_list sample_crypto sample_leaves mmr_new of Inl _ \<Rightarrow> False
      | Inr m \<Rightarrow> (case getRoot sample_crypto m of Inl _ \<Rightarrow> False | Inr None \<Rightarrow> False
          | Inr (Some d) \<Rightarrow> bag_ok (Suc (length (getPeaks m))) sample_crypto (getPeaks m))" by code_simp
  then obtain m d where m: "add_list sample_crypto sample_leaves mmr_new = Inr m" "getRoot sample_crypto m = Inr (Some d)"
      "bag_ok (Suc (length (getPeaks m))) sample_crypto (getPeaks m)"
    by (auto split: sum.splits option.splits)
  from getProof_root [OF m(1) _ m(2,3), of 2] m show ?thesis
    by (auto simp: sample_leaves_def)
qed

text \<open>C10 The unspendable flag of a coin does not survive in an MMR: every copy of an entry, also the one
  that an append stores and the one the pruning scan looks at, has the flag reset. On an MMR built by
  appending leaves with positive amounts, whatever their flags, the scan prunes nothing.\<close>

theorem unspendable_flag_lost:
  assumes "add_list c ds mmr_new = Inr m" "positive ds"
  shows "scanUnspendableTree [] m = Inr (m\<lparr>mPrunedCoins := {}\<rparr>)"
proof -
  have "mmr_inv c ds m" using add_list_inv [OF mmr_new_inv assms(1)] by simp
  then have m: "mmr_inv c ds (m\<lparr>mPrunedCoins := {}\<rparr>)" by (simp add: mmr_inv_def rows_def)
  have g: "getPeaks (m\<lparr>mPrunedCoins := {}\<rparr>) = getPeaks m" by (simp add: getPeaks_def)
  have "\<forall>x \<in> set (getPeaks m). scanUnspendable_fuel (nat (mRow x) + 2) [] x (m\<lparr>mPrunedCoins := {}\<rparr>)
      = Inr (False, m\<lparr>mPrunedCoins := {}\<rparr>)"
    using getPeaks_node [OF m] unfolding g
    by (metis scan_node [OF m assms(2)] complete_iff node_sel(1) nat_int less_add_same_cancel1 zero_less_numeral)
  then show ?thesis unfolding scanUnspendableTree_def by (rule scan_all_same)
qed

theorem unspendable_flag_lost_witness:
  "\<exists>m. add_list sample_crypto (map (\<lambda>d. d\<lparr>d_unspendable := True\<rparr>) sample_leaves) mmr_new = Inr m
    \<and> scanUnspendableTree [] m = Inr (m\<lparr>mPrunedCoins := {}\<rparr>)"
proof -
  let ?ds = "map (\<lambda>d. d\<lparr>d_unspendable := True\<rparr>) sample_leaves"
  have "case add_list sample_crypto ?ds mmr_new of Inl _ \<Rightarrow> False | Inr m \<Rightarrow> True" by code_simp
  then obtain m where m: "add_list sample_crypto ?ds mmr_new = Inr m" by (auto split: sum.splits)
  have "positive ?ds" by code_simp
  from unspendable_flag_lost [OF m this] m show ?thesis by blast
qed

text \<open>C11 Appending and bagging always end with an answer: for leaves with well-formed amounts, fewer than
  \<open>2 ^ 256\<close> of them, the only failure of an append or of \<open>getRoot\<close> is the overflow of a sum of amounts.
  No row is missing, no peak is dereferenced that is not there, the climb leaves no fuel open and each
  round of bagging leaves fewer peaks.\<close>

theorem append_and_root_total:
  assumes "values_wf ds" "ds \<noteq> []" "length ds < 2 ^ MAXROWS"
  shows "outcome {Throw RuntimeError} (\<lambda>m. outcome {Throw RuntimeError} (\<lambda>r. r \<noteq> None) (getRoot c m))
    (add_list c ds mmr_new)"
proof -
  have "outcome (sum_errors c ds) (mmr_inv c ds) (add_list c ds mmr_new)"
    using add_list_outcome [OF mmr_new_inv, of ds] assms(1,3) by simp
  then show ?thesis
  proof (rule outcome_mono)
    show "sum_errors c ds \<subseteq> {Throw RuntimeError}" by (simp add: sum_errors_def)
    show "outcome {Throw RuntimeError} (\<lambda>r. r \<noteq> None) (getRoot c m)" if "mmr_inv c ds m" for m
      using getRoot_outcome [OF that assms(1,2)]
      by (rule outcome_mono) (simp_all add: bag_errors_def)
  qed
qed

theorem append_and_root_total_witness:
  "outcome {Throw RuntimeError} (\<lambda>m. outcome {Throw RuntimeError} (\<lambda>r. r \<noteq> None) (getRoot sample_crypto m))
    (add_list sample_crypto sample_leaves mmr_new)"
proof (rule append_and_root_total)
  show "values_wf sample_leaves" "sample_leaves \<noteq> []" by code_simp+
  show "length sample_leaves < 2 ^ MAXROWS" by (simp add: sample_leaves_def MAXROWS_def)
qed

end
