(* ===== verification/Keys.thy ===== *)
theory Keys
  imports MmrLaws
begin

text \<open>
  The signature scheme: \<open>src/org/minima/objects/keys\<close>. Winternitz one-time keys with \<open>w = 8\<close> (34 chains of
  32-byte digests), and trees of them: each node of a tree is an MMR over its one-time keys, whose keys
  sign the roots of the child nodes, which are made on demand. The number of hardware threads, which the
  code asks from the operating system, is an argument; the digests are those of \<open>crypto\<close>. A tree key is
  passed and returned, since signing uses up keys and caches children.
\<close>

subsection \<open>Winternitz one-time signatures\<close>

definition w_param :: int where "w_param = 8"
definition n_bytes :: nat where "n_bytes = 32"
definition l1 :: int where "l1 = (int n_bytes * 8 + w_param - 1) div w_param"

text \<open>The smallest \<open>n2\<close> with \<open>n \<le> 2 ^ n2\<close>, found by doubling \<open>n3\<close>; \<open>n3\<close> is never zero.\<close>

function getLog_loop :: "nat \<Rightarrow> nat \<Rightarrow> nat \<Rightarrow> nat" where
  "getLog_loop n n2 n3 = (if n3 < n \<and> n3 \<noteq> 0 then getLog_loop n (n2 + 1) (n3 * 2) else n2)"
  by pat_completeness auto

termination by (relation "measure (\<lambda>(n, n2, n3). n - n3)") auto

declare getLog_loop.simps [simp del]

definition getLog :: "nat \<Rightarrow> nat" where "getLog n = getLog_loop n 1 2"

definition checksumsize :: int where "checksumsize = int (getLog (nat (l1 * 2 ^ nat w_param + 1)))"
definition l2 :: int where "l2 = (checksumsize + w_param - 1) div w_param"
definition l_total :: nat where "l_total = nat (l1 + l2)"

definition to_hash256 :: "byte list \<Rightarrow> byte list" where
  "to_hash256 v = take 32 (v @ replicate 32 0)"

text \<open>Both digest helpers write 32 bytes into a buffer of that size.\<close>

definition sha3_256_array :: "crypto \<Rightarrow> byte list \<Rightarrow> byte list" where
  "sha3_256_array c inp = to_hash256 (sha3_256 c inp)"

definition sha3_256_bytes :: "crypto \<Rightarrow> byte list \<Rightarrow> byte list" where
  "sha3_256_bytes c inp = to_hash256 (sha3_256 c inp)"

text \<open>Increment of a big-endian number, from the last byte.\<close>

fun add_one_rev :: "byte list \<Rightarrow> byte list" where
  "add_one_rev [] = []"
| "add_one_rev (b # bs) = (if b + 1 \<noteq> 0 then (b + 1) # bs else 0 # add_one_rev bs)"

definition add_one_be :: "byte list \<Rightarrow> byte list" where
  "add_one_be d = rev (add_one_rev (rev d))"

fun derive_loop :: "nat \<Rightarrow> crypto \<Rightarrow> byte list \<Rightarrow> byte list list" where
  "derive_loop 0 c current_seed = []"
| "derive_loop (Suc n) c current_seed =
     to_hash256 (sha3_256_bytes c current_seed) # derive_loop n c (add_one_be current_seed)"

definition derive_private_chains :: "crypto \<Rightarrow> byte list \<Rightarrow> byte list list" where
  "derive_private_chains c seed = derive_loop l_total c (to_hash256 seed)"

fun chain_hash :: "crypto \<Rightarrow> nat \<Rightarrow> byte list \<Rightarrow> byte list" where
  "chain_hash c 0 current = current"
| "chain_hash c (Suc n) current = chain_hash c n (sha3_256_array c current)"

definition chain_hash_opt :: "crypto \<Rightarrow> byte list \<Rightarrow> int \<Rightarrow> byte list" where
  "chain_hash_opt c current steps = chain_hash c (nat steps) current"

text \<open>The chains are split among the threads; each thread writes its own slots of the result, in some
  interleaving with the others.\<close>

definition thread_range :: "nat \<Rightarrow> nat \<Rightarrow> nat list" where
  "thread_range per t = [t * per ..< min (t * per + per) l_total]"

definition thread_tasks :: "nat \<Rightarrow> nat list list" where
  "thread_tasks num_threads =
     (let per = (l_total + num_threads - 1) div num_threads
      in map (thread_range per) (takeWhile (\<lambda>t. t * per < l_total) [0 ..< num_threads]))"

fun run_writes :: "crypto \<Rightarrow> byte list list \<Rightarrow> nat list \<Rightarrow> byte list list \<Rightarrow> byte list list" where
  "run_writes c x [] results = results"
| "run_writes c x (i # is) results = run_writes c x is (results[i := chain_hash_opt c (x ! i) (2 ^ nat w_param - 1)])"

definition compute_public_key_parallel :: "crypto \<Rightarrow> nat \<Rightarrow> byte list list \<Rightarrow> byte list result" where
  "compute_public_key_parallel c hw x =
     (let num_threads = min hw l_total in
      if num_threads = 0 then Inl Undef
      else Inr (sha3_256_bytes c (concat
             (run_writes c x (concat (thread_tasks num_threads)) (replicate l_total (replicate 32 0))))))"

record winternitz =
  w_seed :: "byte list"
  w_public :: "byte list"

definition winternitz_new :: "crypto \<Rightarrow> nat \<Rightarrow> byte list \<Rightarrow> winternitz result" where
  "winternitz_new c hw zPrivateSeed =
     bindE (compute_public_key_parallel c hw (derive_private_chains c zPrivateSeed)) (\<lambda>pub.
     Inr \<lparr>w_seed = zPrivateSeed, w_public = pub\<rparr>)"

text \<open>The digits of a digest in base 256 and the digits of their checksum, low digit first.\<close>

fun checksum_digits :: "nat \<Rightarrow> int \<Rightarrow> int list" where
  "checksum_digits 0 checksum = []"
| "checksum_digits (Suc n) checksum = (checksum mod 256) # checksum_digits n (checksum div 256)"

definition message_digits :: "byte list \<Rightarrow> int list" where
  "message_digits hashed =
     (let msg = map (\<lambda>b. int (unat b)) hashed; checksum = l1 * 2 ^ nat w_param - sum_list msg
      in msg @ checksum_digits (nat l2) checksum)"

definition w_sign :: "crypto \<Rightarrow> winternitz \<Rightarrow> byte list \<Rightarrow> byte list" where
  "w_sign c k zData =
     (let x = derive_private_chains c (w_seed k); msg = message_digits (sha3_256_bytes c zData)
      in concat (map (\<lambda>i. chain_hash_opt c (x ! i) (msg ! i)) [0 ..< l_total]))"

definition w_verify :: "crypto \<Rightarrow> byte list \<Rightarrow> byte list \<Rightarrow> byte list \<Rightarrow> bool" where
  "w_verify c zPublicKey zData zSignature =
     (if length zSignature \<noteq> l_total * n_bytes then False
      else let msg = message_digits (sha3_256_bytes c zData); max_val = 2 ^ nat w_param - 1;
               derived = concat (map (\<lambda>i. chain_hash_opt c (take n_bytes (drop (i * n_bytes) zSignature)) (max_val - msg ! i))
                           [0 ..< l_total])
           in sha3_256_bytes c derived = zPublicKey)"

subsection \<open>Signature proofs\<close>

record sigproof =
  sp_public :: "byte list"
  sp_signature :: "byte list"
  sp_proof :: mmr_proof

definition getRootPublicKey :: "crypto \<Rightarrow> sigproof \<Rightarrow> byte list result" where
  "getRootPublicKey c s =
     bindE (CreateMMRDataLeafNode c (Inr (md_writeDataStream (md (sp_public s)))) mn_ZERO) (\<lambda>pubentry.
     bindE (calculateProof c (sp_proof s) pubentry) (\<lambda>r. Inr (d_hash r)))"

definition sigproof_writeDataStream :: "sigproof \<Rightarrow> byte list result" where
  "sigproof_writeDataStream s =
     bindE (proof_writeDataStream (sp_proof s)) (\<lambda>p.
     Inr (md_writeDataStream (md (sp_public s)) @ md_writeDataStream (md (sp_signature s)) @ p))"

definition sigproof_readDataStream :: "sigproof reader" where
  "sigproof_readDataStream inp =
     bindE (md_readDataStream inp) (\<lambda>(pk, inp). bindE (md_readDataStream inp) (\<lambda>(sig, inp).
     bindE (proof_readDataStream inp) (\<lambda>(p, inp).
     Inr (\<lparr>sp_public = mData pk, sp_signature = mData sig, sp_proof = p\<rparr>, inp))))"

type_synonym signature = "sigproof list"

definition sig_getRootPublicKey :: "crypto \<Rightarrow> signature \<Rightarrow> byte list result" where
  "sig_getRootPublicKey c s = (case s of [] \<Rightarrow> Inl (Throw OutOfRange) | p # ps \<Rightarrow> getRootPublicKey c p)"

definition sig_writeDataStream :: "signature \<Rightarrow> byte list result" where
  "sig_writeDataStream s = write_list sigproof_writeDataStream s"

definition sig_readDataStream :: "signature reader" where
  "sig_readDataStream inp =
     bindE (mn_readDataStream inp) (\<lambda>(n, inp).
       let len = getAsInt n in
       if len < 0 then Inl (Throw RuntimeError) else read_many sigproof_readDataStream (nat len) inp)"

text \<open>A signature that cannot be read is the null pointer.\<close>

definition sig_convertMiniDataVersion :: "byte list \<Rightarrow> signature option result" where
  "sig_convertMiniDataVersion bytes =
     (case sig_readDataStream bytes of
        Inr (s, rest) \<Rightarrow> Inr (Some s)
      | Inl (Throw e) \<Rightarrow> Inr None
      | Inl e \<Rightarrow> Inl e)"
subsection \<open>Tree keys\<close>

datatype tree_node = Tree_Node
  (mSize: int) (mChildSeed: "byte list") (mChildren: "tree_node option list") (mTree: mmr)
  (mKeys: "winternitz list") (mPublicKey: "byte list") (mParentChildSig: "sigproof option")

text \<open>The keys of a node: key \<open>i\<close> comes from the hash of \<open>i\<close> and the seed, and its public key is the
  \<open>i\<close>-th leaf of the tree.\<close>

fun make_keys :: "nat \<Rightarrow> crypto \<Rightarrow> nat \<Rightarrow> byte list \<Rightarrow> int \<Rightarrow> mmr \<Rightarrow> (winternitz list \<times> mmr) result" where
  "make_keys 0 c hw zPrivateSeed i tree = Inr ([], tree)"
| "make_keys (Suc n) c hw zPrivateSeed i tree =
     bindE (mn_of_int i) (\<lambda>idx.
     bindE (hashAllObjects c [Inr (mn_writeDataStream idx), Inr (md_writeDataStream (md zPrivateSeed))]) (\<lambda>seed.
     bindE (winternitz_new c hw seed) (\<lambda>wots.
     bindE (CreateMMRDataLeafNode c (Inr (md_writeDataStream (md (w_public wots)))) mn_ZERO) (\<lambda>pubentry.
     bindE (addEntry c [] pubentry tree) (\<lambda>(e, tree).
     bindE (make_keys n c hw zPrivateSeed (i + 1) tree) (\<lambda>(ks, tree). Inr (wots # ks, tree)))))))"

definition node_new :: "crypto \<Rightarrow> nat \<Rightarrow> byte list \<Rightarrow> int \<Rightarrow> tree_node result" where
  "node_new c hw zPrivateSeed zSize =
     (if zSize \<le> 0 then Inl (Throw InvalidArgument)
      else bindE (hashObject c (Inr (md_writeDataStream (md zPrivateSeed)))) (\<lambda>childseed.
           bindE (make_keys (nat zSize) c hw zPrivateSeed 0 mmr_new) (\<lambda>(ks, tree).
           bindE (getRoot c tree) (\<lambda>r.
           case r of None \<Rightarrow> Inl (Throw RuntimeError)
           | Some rt \<Rightarrow> Inr (Tree_Node zSize childseed (replicate (nat zSize) None) tree ks (d_hash rt) None)))))"

definition getWOTSKey :: "int \<Rightarrow> tree_node \<Rightarrow> winternitz result" where
  "getWOTSKey zKeyNum t =
     (if zKeyNum < 0 \<or> zKeyNum \<ge> mSize t then Inl (Throw OutOfRange) else Inr (mKeys t ! nat zKeyNum))"

definition node_getProof :: "crypto \<Rightarrow> int \<Rightarrow> tree_node \<Rightarrow> mmr_proof result" where
  "node_getProof c zKeyNum t =
     (if zKeyNum < 0 \<or> zKeyNum \<ge> mSize t then Inl (Throw OutOfRange) else getProof c [] (mTree t) (en zKeyNum))"

definition set_child :: "nat \<Rightarrow> tree_node \<Rightarrow> tree_node \<Rightarrow> tree_node" where
  "set_child i ch t = (case t of Tree_Node s cs chs tr ks pub sg \<Rightarrow> Tree_Node s cs (chs[i := Some ch]) tr ks pub sg)"

definition setParentChildSig :: "sigproof \<Rightarrow> tree_node \<Rightarrow> tree_node" where
  "setParentChildSig sp t = (case t of Tree_Node s cs chs tr ks pub sg \<Rightarrow> Tree_Node s cs chs tr ks pub (Some sp))"

text \<open>A child is made at its first use.\<close>

definition getChild :: "crypto \<Rightarrow> nat \<Rightarrow> int \<Rightarrow> tree_node \<Rightarrow> (tree_node \<times> tree_node) result" where
  "getChild c hw zChild t =
     (if zChild < 0 \<or> zChild \<ge> mSize t then Inl (Throw OutOfRange)
      else case mChildren t ! nat zChild of
        Some ch \<Rightarrow> Inr (ch, t)
      | None \<Rightarrow>
          bindE (mn_of_int zChild) (\<lambda>nidx.
          bindE (hashAllObjects c [Inr (mn_writeDataStream nidx), Inr (md_writeDataStream (md (mChildSeed t)))]) (\<lambda>seed.
          bindE (node_new c hw seed (mSize t)) (\<lambda>ch. Inr (ch, set_child (nat zChild) ch t)))))"

text \<open>The walk from the root along the digits of the use counter. The node is returned with its new
  children.\<close>

fun sign_path :: "crypto \<Rightarrow> nat \<Rightarrow> byte list \<Rightarrow> int \<Rightarrow> int \<Rightarrow> int list \<Rightarrow> tree_node \<Rightarrow> (signature \<times> tree_node) result" where
  "sign_path c hw zData levels depth [] current = Inr ([], current)"
| "sign_path c hw zData levels depth (keynum # ks) current =
     bindE (getWOTSKey keynum current) (\<lambda>wots.
     bindE (node_getProof c keynum current) (\<lambda>proof_obj.
     if depth = levels then
       bindE (sign_path c hw zData levels (depth + 1) ks current) (\<lambda>(sigs, current).
       Inr (\<lparr>sp_public = w_public wots, sp_signature = w_sign c wots zData, sp_proof = proof_obj\<rparr> # sigs, current))
     else
       bindE (getChild c hw keynum current) (\<lambda>(child, current).
       let sp = (case mParentChildSig child of
                   Some sp \<Rightarrow> sp
                 | None \<Rightarrow> \<lparr>sp_public = w_public wots, sp_signature = w_sign c wots (mPublicKey child), sp_proof = proof_obj\<rparr>);
           child = (if mParentChildSig child = None then setParentChildSig sp child else child) in
       bindE (sign_path c hw zData levels (depth + 1) ks child) (\<lambda>(sigs, child).
       Inr (sp # sigs, set_child (nat keynum) child current)))))"

record tree_key =
  mLevels :: int
  mKeysPerLevel :: int
  mUses :: int
  mMaxUses :: int
  mPrivateSeed :: "byte list"
  mPubKey :: "byte list"
  mRoot :: tree_node

definition MAX_KEY_LEVELS :: int where "MAX_KEY_LEVELS = 8"
definition DEFAULT_KEYSPERLEVEL :: int where "DEFAULT_KEYSPERLEVEL = 64"
definition DEFAULT_LEVELS :: int where "DEFAULT_LEVELS = 3"

text \<open>The number of uses is a \<open>double\<close> power cast to \<open>int\<close>; the cast is undefined out of range, and a
  power with a negative exponent is cut to its integer part.\<close>

definition max_uses :: "int \<Rightarrow> int \<Rightarrow> int result" where
  "max_uses k l =
     (if l \<ge> 0 then if \<bar>k ^ nat l\<bar> < 2 ^ 31 then Inr (k ^ nat l) else Inl Undef
      else if k = 0 then Inl Undef
      else Inr (if k = 1 then 1 else if k = -1 then (if even l then 1 else -1) else 0))"

definition tree_key_new :: "crypto \<Rightarrow> nat \<Rightarrow> byte list \<Rightarrow> int \<Rightarrow> int \<Rightarrow> tree_key result" where
  "tree_key_new c hw zPrivateSeed zKeyNum zLevels =
     (if zLevels > MAX_KEY_LEVELS then Inl (Throw InvalidArgument)
      else bindE (max_uses zKeyNum zLevels) (\<lambda>mx.
           bindE (node_new c hw zPrivateSeed zKeyNum) (\<lambda>rt.
           Inr \<lparr>mLevels = zLevels, mKeysPerLevel = zKeyNum, mUses = 0, mMaxUses = mx,
             mPrivateSeed = zPrivateSeed, mPubKey = mPublicKey rt, mRoot = rt\<rparr>)))"

definition createDefault :: "crypto \<Rightarrow> nat \<Rightarrow> byte list \<Rightarrow> tree_key result" where
  "createDefault c hw zPrivateSeed = tree_key_new c hw zPrivateSeed DEFAULT_KEYSPERLEVEL DEFAULT_LEVELS"

text \<open>Digits of the use counter, low digit first; with base one the loop does not end. An \<open>int\<close> has at most
  31 digits in any other base.\<close>

fun base_digits :: "nat \<Rightarrow> int \<Rightarrow> int \<Rightarrow> int list result" where
  "base_digits 0 counter zBase = Inl NoFuel"
| "base_digits (Suc n) counter zBase =
     (if counter = 0 then Inr []
      else if zBase = 0 then Inl Undef
      else let d = counter sdiv zBase in
        bindE (base_digits n d zBase) (\<lambda>ds. Inr ((counter - d * zBase) # ds)))"

definition baseConversion :: "int \<Rightarrow> int \<Rightarrow> int \<Rightarrow> int list result" where
  "baseConversion zNum zBase zLevels =
     bindE (base_digits 33 zNum zBase) (\<lambda>ret.
     Inr (rev (ret @ replicate (nat (zLevels - int (length ret))) 0)))"

definition tk_setUses :: "int \<Rightarrow> tree_key \<Rightarrow> tree_key" where
  "tk_setUses zUses k = k\<lparr>mUses := zUses\<rparr>"

definition tk_setPublicKey :: "byte list \<Rightarrow> tree_key \<Rightarrow> tree_key" where
  "tk_setPublicKey zPublicKey k = k\<lparr>mPubKey := zPublicKey\<rparr>"

definition tk_sign :: "crypto \<Rightarrow> nat \<Rightarrow> byte list \<Rightarrow> tree_key \<Rightarrow> (signature \<times> tree_key) result" where
  "tk_sign c hw zData k =
     (let k = (if mUses k \<ge> mMaxUses k then k\<lparr>mUses := 0\<rparr> else k) in
      bindE (baseConversion (mUses k) (mKeysPerLevel k) (mLevels k)) (\<lambda>nodes.
      bindE (sign_path c hw zData (mLevels k) 1 nodes (mRoot k)) (\<lambda>(sigs, rt).
      Inr (sigs, k\<lparr>mRoot := rt, mUses := mUses k + 1\<rparr>))))"

text \<open>Verification of the levels from the top: each signature but the last signs the root of the next.\<close>

fun verify_levels :: "crypto \<Rightarrow> byte list \<Rightarrow> signature \<Rightarrow> bool result" where
  "verify_levels c zData [] = Inr False"
| "verify_levels c zData [s] = Inr (w_verify c (sp_public s) zData (sp_signature s))"
| "verify_levels c zData (s # childsig # ss) =
     bindE (getRootPublicKey c childsig) (\<lambda>r.
     if \<not> w_verify c (sp_public s) r (sp_signature s) then Inr False
     else verify_levels c zData (childsig # ss))"

definition tk_verify :: "crypto \<Rightarrow> byte list \<Rightarrow> signature \<Rightarrow> tree_key \<Rightarrow> bool result" where
  "tk_verify c zData zSignature k =
     (if int (length zSignature) > MAX_KEY_LEVELS then Inr False
      else case zSignature of [] \<Rightarrow> Inr False
      | s # ss \<Rightarrow> bindE (getRootPublicKey c s) (\<lambda>r.
          if r \<noteq> mPubKey k then Inr False else verify_levels c zData zSignature))"

end
