(* ===== verification/Objects.thy ===== *)
theory Objects
  imports Keys
begin

text \<open>
  The objects of a transaction: state variables, tokens, coins, transactions, script proofs and
  addresses, coin proofs and the witness (\<open>src/org/minima/objects\<close>). Hashes, addresses and identifiers
  (\<open>MiniData\<close>) are their bytes; optional members (\<open>unique_ptr\<close>) are options; the coins of a transaction
  and the scripts of a witness are present (the null pointers a failed copy may leave are not
  modelled). Objects that cannot be written or read fail as in the code. JSON output and log lines are
  left out.
\<close>

subsection \<open>State variables\<close>

record state_variable =
  sv_type :: byte
  sv_port :: byte
  sv_data :: string

definition STATETYPE_HEX :: byte where "STATETYPE_HEX = 1"
definition STATETYPE_NUMBER :: byte where "STATETYPE_NUMBER = 2"
definition STATETYPE_STRING :: byte where "STATETYPE_STRING = 4"
definition STATETYPE_BOOL :: byte where "STATETYPE_BOOL = 8"

definition iequals :: "string \<Rightarrow> string \<Rightarrow> bool" where
  "iequals a b = (length a = length b \<and> map to_lower a = map to_lower b)"

definition startsWithIgnoreCase :: "string \<Rightarrow> string \<Rightarrow> bool" where
  "startsWithIgnoreCase s p =
     (length p \<le> length s \<and> map to_lower (take (length p) s) = map to_lower p)"

definition sv_new :: "int \<Rightarrow> string \<Rightarrow> state_variable result" where
  "sv_new zPort zData =
     (if zPort < 0 \<or> zPort > 255 then Inl (Throw InvalidArgument)
      else if trim zData = [] then Inl (Throw InvalidArgument)
      else let sv = (\<lambda>t d. \<lparr>sv_type = t, sv_port = of_int zPort, sv_data = d\<rparr>) in
        if startsWithIgnoreCase zData ''mx'' then Inl (Throw InvalidArgument)
        else if startsWithIgnoreCase zData ''0x'' then Inr (sv STATETYPE_HEX zData)
        else if iequals zData ''true'' then Inr (sv STATETYPE_BOOL ''TRUE'')
        else if iequals zData ''false'' then Inr (sv STATETYPE_BOOL ''FALSE'')
        else if zData \<noteq> [] \<and> hd zData = CHR ''['' \<and> last zData = CHR '']'' then Inr (sv STATETYPE_STRING zData)
        else bindE (mn_of_string zData) (\<lambda>number. Inr (sv STATETYPE_NUMBER (to_plain_string number))))"

definition getPort :: "state_variable \<Rightarrow> int" where
  "getPort sv = uint (sv_port sv)"

definition sv_writeDataStream :: "state_variable \<Rightarrow> byte list result" where
  "sv_writeDataStream sv =
     bindE (if sv_type sv = STATETYPE_BOOL then Inr (mb_writeDataStream (mb_of_bool (sv_data sv = ''TRUE'')))
            else if sv_type sv = STATETYPE_HEX then bindE (md_of_string (sv_data sv)) (\<lambda>d. Inr (md_writeDataStream d))
            else if sv_type sv = STATETYPE_NUMBER then bindE (mn_of_string (sv_data sv)) (\<lambda>n. Inr (mn_writeDataStream n))
            else if sv_type sv = STATETYPE_STRING then Inr (ms_writeDataStream (sv_data sv))
            else Inl (Throw IosFailure)) (\<lambda>bs.
     Inr (mb_writeDataStream (sv_port sv) @ mb_writeDataStream (sv_type sv) @ bs))"

definition sv_readDataStream :: "state_variable reader" where
  "sv_readDataStream inp =
     bindE (mb_readDataStream inp) (\<lambda>(p, inp). bindE (mb_readDataStream inp) (\<lambda>(t, inp).
     bindE (if t = STATETYPE_BOOL then
              bindE (mb_readDataStream inp) (\<lambda>(b, inp). Inr (if mb_isTrue b then ''TRUE'' else ''FALSE'', inp))
            else if t = STATETYPE_HEX then
              bindE (md_readDataStream inp) (\<lambda>(d, inp). Inr (to0xString d, inp))
            else if t = STATETYPE_NUMBER then
              bindE (mn_readDataStream inp) (\<lambda>(n, inp). Inr (to_plain_string n, inp))
            else if t = STATETYPE_STRING then ms_readDataStream inp
            else Inl (Throw IosFailure)) (\<lambda>(d, inp).
     Inr (\<lparr>sv_type = t, sv_port = p, sv_data = d\<rparr>, inp))))"

subsection \<open>Tokens\<close>

definition TOKENID_CREATE :: "byte list" where "TOKENID_CREATE = [255]"
definition TOKENID_MINIMA :: "byte list" where "TOKENID_MINIMA = [0]"

record ktoken =
  t_coinid :: "byte list"
  t_scale :: mininumber
  t_amount :: mininumber
  t_name :: string
  t_script :: string
  t_created :: mininumber
  t_tokenid :: "byte list option"

definition token_writeDataStream :: "ktoken \<Rightarrow> byte list result" where
  "token_writeDataStream t =
     bindE (writeHashToStream (md (t_coinid t))) (\<lambda>h.
     Inr (h @ ms_writeDataStream (t_script t) @ mn_writeDataStream (t_scale t) @ mn_writeDataStream (t_amount t)
       @ ms_writeDataStream (t_name t) @ mn_writeDataStream (t_created t)))"

text \<open>The token id is the hash of the stream form as a \<open>MiniData\<close>, or absent when writing failed.\<close>

definition calculateTokenID :: "crypto \<Rightarrow> ktoken \<Rightarrow> ktoken result" where
  "calculateTokenID c t =
     (case token_writeDataStream t of
        Inr bytes \<Rightarrow> bindE (hashObject c (Inr (md_writeDataStream (md bytes)))) (\<lambda>h. Inr (t\<lparr>t_tokenid := Some h\<rparr>))
      | Inl (Throw e) \<Rightarrow> Inr (t\<lparr>t_tokenid := None\<rparr>)
      | Inl e \<Rightarrow> Inl e)"

definition token_new :: "crypto \<Rightarrow> byte list \<Rightarrow> mininumber \<Rightarrow> mininumber \<Rightarrow> string \<Rightarrow> string \<Rightarrow> mininumber \<Rightarrow> ktoken result" where
  "token_new c zCoinID zScale zMinimaAmount zName zTokenScript zCreated =
     calculateTokenID c \<lparr>t_coinid = zCoinID, t_scale = zScale, t_amount = zMinimaAmount, t_name = zName,
       t_script = zTokenScript, t_created = zCreated, t_tokenid = None\<rparr>"

definition token_readDataStream :: "crypto \<Rightarrow> ktoken reader" where
  "token_readDataStream c inp =
     bindE (readHashFromStream inp) (\<lambda>(cid, inp). bindE (ms_readDataStream inp) (\<lambda>(scr, inp).
     bindE (mn_readDataStream inp) (\<lambda>(sc, inp). bindE (mn_readDataStream inp) (\<lambda>(am, inp).
     bindE (ms_readDataStream inp) (\<lambda>(nm, inp). bindE (mn_readDataStream inp) (\<lambda>(cr, inp).
     bindE (calculateTokenID c \<lparr>t_coinid = mData cid, t_scale = sc, t_amount = am, t_name = nm,
       t_script = scr, t_created = cr, t_tokenid = None\<rparr>) (\<lambda>t. Inr (t, inp))))))))"

fun mult_tens :: "nat \<Rightarrow> mininumber \<Rightarrow> mininumber result" where
  "mult_tens 0 current = Inr current"
| "mult_tens (Suc n) current = bindE (mn_mult current mn_TEN) (mult_tens n)"

fun div_tens :: "nat \<Rightarrow> mininumber \<Rightarrow> mininumber result" where
  "div_tens 0 current = Inr current"
| "div_tens (Suc n) current = bindE (mn_div current mn_TEN) (div_tens n)"

definition getScaledTokenAmount :: "ktoken \<Rightarrow> mininumber \<Rightarrow> mininumber result" where
  "getScaledTokenAmount t zMinimaAmount = mult_tens (nat (getAsInt (t_scale t))) zMinimaAmount"

definition getScaledMinimaAmount :: "ktoken \<Rightarrow> mininumber \<Rightarrow> mininumber result" where
  "getScaledMinimaAmount t zTokenAmount = div_tens (nat (getAsInt (t_scale t))) zTokenAmount"

definition getTotalTokens :: "ktoken \<Rightarrow> mininumber result" where
  "getTotalTokens t = getScaledTokenAmount t (t_amount t)"

definition getDecimalPlaces :: "ktoken \<Rightarrow> mininumber result" where
  "getDecimalPlaces t = mn_of_int (MAX_DECIMAL_PLACES - getAsInt (t_scale t))"

subsection \<open>Coins\<close>

record coin =
  c_coinid :: "byte list"
  c_address :: "byte list"
  c_amount :: mininumber
  c_tokenid :: "byte list"
  c_storestate :: bool
  c_state :: "state_variable list"
  c_entry :: entry_number
  c_spent :: byte
  c_created :: mininumber
  c_token :: "ktoken option"

definition COINID_OUTPUT :: "byte list" where "COINID_OUTPUT = [0]"
definition COINID_ELTOO :: "byte list" where "COINID_ELTOO = [1]"

definition coin_new :: "byte list \<Rightarrow> byte list \<Rightarrow> mininumber \<Rightarrow> byte list \<Rightarrow> bool \<Rightarrow> coin" where
  "coin_new zCoinID zAddress zAmount zTokenID zStoreState =
     \<lparr>c_coinid = zCoinID, c_address = zAddress, c_amount = zAmount, c_tokenid = zTokenID,
      c_storestate = zStoreState, c_state = [], c_entry = en_ZERO, c_spent = mb_of_bool False,
      c_created = mn_ZERO, c_token = None\<rparr>"

definition getTokenAmount :: "coin \<Rightarrow> mininumber result" where
  "getTokenAmount co =
     (case c_token co of None \<Rightarrow> Inr (c_amount co) | Some t \<Rightarrow> getScaledTokenAmount t (c_amount co))"

definition contains :: "string \<Rightarrow> string \<Rightarrow> bool" where
  "contains s t = list_ex (\<lambda>i. take (length t) (drop i s) = t) [0 ..< Suc (length s)]"

definition checkForStateVariable :: "string \<Rightarrow> bool \<Rightarrow> coin \<Rightarrow> bool" where
  "checkForStateVariable zCheckState zWildcard co =
     list_ex (\<lambda>sv. if zWildcard then contains (sv_data sv) zCheckState else sv_data sv = zCheckState) (c_state co)"

definition coin_writeDataStream :: "coin \<Rightarrow> byte list result" where
  "coin_writeDataStream co =
     bindE (writeHashToStream (md (c_coinid co))) (\<lambda>cid.
     bindE (writeHashToStream (md (c_address co))) (\<lambda>adr.
     bindE (writeHashToStream (md (c_tokenid co))) (\<lambda>tid.
     bindE (en_writeDataStream (c_entry co)) (\<lambda>ent.
     bindE (write_list sv_writeDataStream (c_state co)) (\<lambda>sts.
     bindE (case c_token co of
              None \<Rightarrow> Inr (mb_writeDataStream (mb_of_bool False))
            | Some t \<Rightarrow> bindE (token_writeDataStream t) (\<lambda>bs. Inr (mb_writeDataStream (mb_of_bool True) @ bs))) (\<lambda>tok.
     Inr (cid @ adr @ mn_writeDataStream (c_amount co) @ tid @ mb_writeDataStream (mb_of_bool (c_storestate co))
       @ ent @ mb_writeDataStream (c_spent co) @ mn_writeDataStream (c_created co) @ sts @ tok)))))))"

definition coin_readDataStream :: "crypto \<Rightarrow> coin reader" where
  "coin_readDataStream c inp =
     bindE (readHashFromStream inp) (\<lambda>(cid, inp). bindE (readHashFromStream inp) (\<lambda>(adr, inp).
     bindE (mn_readDataStream inp) (\<lambda>(am, inp). bindE (readHashFromStream inp) (\<lambda>(tid, inp).
     bindE (mb_readDataStream inp) (\<lambda>(ss, inp). bindE (en_readDataStream inp) (\<lambda>(ent, inp).
     bindE (mb_readDataStream inp) (\<lambda>(sp, inp). bindE (mn_readDataStream inp) (\<lambda>(cr, inp).
     bindE (read_list sv_readDataStream inp) (\<lambda>(sts, inp).
     bindE (mb_readDataStream inp) (\<lambda>(has, inp).
     bindE (if mb_isTrue has then bindE (token_readDataStream c inp) (\<lambda>(t, inp). Inr (Some t, inp))
            else Inr (None, inp)) (\<lambda>(tok, inp).
     Inr (\<lparr>c_coinid = mData cid, c_address = mData adr, c_amount = am, c_tokenid = mData tid,
       c_storestate = mb_isTrue ss, c_state = sts, c_entry = ent, c_spent = sp, c_created = cr, c_token = tok\<rparr>,
       inp))))))))))))"

text \<open>A copy through the stream form; the null pointer when writing or reading fails.\<close>

definition deepCopy :: "crypto \<Rightarrow> coin \<Rightarrow> coin option result" where
  "deepCopy c co =
     (case bindE (coin_writeDataStream co) (coin_readDataStream c) of
        Inr (x, rest) \<Rightarrow> Inr (Some x)
      | Inl (Throw e) \<Rightarrow> Inr None
      | Inl e \<Rightarrow> Inl e)"

definition getSameCoinWithCoinID :: "crypto \<Rightarrow> byte list \<Rightarrow> coin \<Rightarrow> coin option result" where
  "getSameCoinWithCoinID c zCoinID co = bindE (deepCopy c co) (\<lambda>r. Inr (map_option (\<lambda>x. x\<lparr>c_coinid := zCoinID\<rparr>) r))"

definition coin_convertMiniDataVersion :: "crypto \<Rightarrow> byte list \<Rightarrow> coin option result" where
  "coin_convertMiniDataVersion c zTxpData =
     (case coin_readDataStream c zTxpData of
        Inr (x, rest) \<Rightarrow> Inr (Some x)
      | Inl (Throw e) \<Rightarrow> Inr None
      | Inl e \<Rightarrow> Inl e)"
subsection \<open>Transactions\<close>

record transaction =
  tx_inputs :: "coin list"
  tx_outputs :: "coin list"
  tx_state :: "state_variable list"
  tx_linkhash :: "byte list"
  tx_id :: "byte list"
  mHaveCheckedMonotonic :: bool
  mIsMonotonic :: bool
  mIsValid :: bool

definition ZERO_TXPOWID :: "byte list" where "ZERO_TXPOWID = [0]"

definition tx_new :: transaction where
  "tx_new = \<lparr>tx_inputs = [], tx_outputs = [], tx_state = [], tx_linkhash = ZERO_TXPOWID, tx_id = ZERO_TXPOWID,
     mHaveCheckedMonotonic = False, mIsMonotonic = False, mIsValid = False\<rparr>"

definition addInput :: "coin \<Rightarrow> transaction \<Rightarrow> transaction" where
  "addInput zCoin t = t\<lparr>tx_inputs := tx_inputs t @ [zCoin]\<rparr>"

definition addOutput :: "coin \<Rightarrow> transaction \<Rightarrow> transaction" where
  "addOutput zCoin t = t\<lparr>tx_outputs := tx_outputs t @ [zCoin]\<rparr>"

definition tx_isEmpty :: "transaction \<Rightarrow> bool" where
  "tx_isEmpty t = (tx_inputs t = [] \<and> tx_outputs t = [])"

definition isCheckedMonotonic :: "transaction \<Rightarrow> bool" where
  "isCheckedMonotonic t = (mHaveCheckedMonotonic t \<and> mIsMonotonic t)"

definition clearIsMonotonic :: "transaction \<Rightarrow> transaction" where
  "clearIsMonotonic t = t\<lparr>mHaveCheckedMonotonic := False\<rparr>"

fun sum_from :: "mininumber \<Rightarrow> coin list \<Rightarrow> mininumber result" where
  "sum_from tot [] = Inr tot"
| "sum_from tot (cc # cs) = bindE (mn_add tot (c_amount cc)) (\<lambda>t. sum_from t cs)"

definition sum_coins :: "coin list \<Rightarrow> mininumber result" where
  "sum_coins cs = sum_from mn_ZERO cs"

definition sum_coins_of :: "byte list \<Rightarrow> coin list \<Rightarrow> mininumber result" where
  "sum_coins_of zTokenID cs = sum_coins (filter (\<lambda>cc. c_tokenid cc = zTokenID) cs)"

definition sumInputs :: "transaction \<Rightarrow> mininumber result" where
  "sumInputs t = sum_coins (tx_inputs t)"

definition sumOutputs :: "transaction \<Rightarrow> mininumber result" where
  "sumOutputs t = sum_coins (tx_outputs t)"

definition sumInputs_of :: "byte list \<Rightarrow> transaction \<Rightarrow> mininumber result" where
  "sumInputs_of zTokenID t = sum_coins_of zTokenID (tx_inputs t)"

definition sumOutputs_of :: "byte list \<Rightarrow> transaction \<Rightarrow> mininumber result" where
  "sumOutputs_of zTokenID t = sum_coins_of zTokenID (tx_outputs t)"

text \<open>The tokens of the outputs, each once, as their printed ids; a created token counts as Minima.\<close>

fun output_tokens :: "string list \<Rightarrow> coin list \<Rightarrow> string list" where
  "output_tokens tokens [] = tokens"
| "output_tokens tokens (cc # cs) =
     (let tokenhash = (if c_tokenid cc = TOKENID_CREATE then TOKENID_MINIMA else c_tokenid cc);
          tok = to0xString (md tokenhash)
      in output_tokens (if tok \<in> set tokens then tokens else tokens @ [tok]) cs)"

fun out_amounts :: "transaction \<Rightarrow> string list \<Rightarrow> (string \<times> mininumber) list result" where
  "out_amounts t [] = Inr []"
| "out_amounts t (token # ts) =
     bindE (md_of_string token) (\<lambda>tokmd. bindE (sumOutputs_of (mData tokmd) t) (\<lambda>a.
     bindE (out_amounts t ts) (\<lambda>as. Inr ((token, a) # as))))"

text \<open>The hash map of the amounts is visited in the order in which the tokens were found; another order
  can only change whether an overflowing sum of inputs throws before the first missing amount is
  found.\<close>

fun enough_inputs :: "transaction \<Rightarrow> (string \<times> mininumber) list \<Rightarrow> bool result" where
  "enough_inputs t [] = Inr True"
| "enough_inputs t ((tok, outamt) # as) =
     bindE (md_of_string tok) (\<lambda>tokmd. bindE (sumInputs_of (mData tokmd) t) (\<lambda>inamt.
     if mn_isLess inamt outamt then Inr False else enough_inputs t as))"

fun coinids_unique :: "coin list \<Rightarrow> bool" where
  "coinids_unique [] = True"
| "coinids_unique (cc # cs) = (list_all (\<lambda>x. c_coinid cc \<noteq> c_coinid x) cs \<and> coinids_unique cs)"

definition checkValid :: "transaction \<Rightarrow> bool result" where
  "checkValid t =
     (if length (tx_inputs t) < 1 then Inr False
      else bindE (sum_coins (tx_inputs t)) (\<lambda>totalin.
        bindE (sum_coins (tx_outputs t)) (\<lambda>totalout.
        if mn_isMore totalout totalin then Inr False
        else if \<not> list_all (\<lambda>cc. isValidMinimaValue (c_amount cc)) (tx_inputs t) then Inr False
        else if \<not> list_all (\<lambda>cc. isValidMinimaValue (c_amount cc)) (tx_outputs t) then Inr False
        else bindE (out_amounts t (output_tokens [] (tx_outputs t))) (\<lambda>as.
          bindE (enough_inputs t as) (\<lambda>enough.
          if \<not> enough then Inr False
          else if length (tx_inputs t) > 1 then Inr (coinids_unique (tx_inputs t))
          else Inr True)))))"

definition getBurn :: "transaction \<Rightarrow> mininumber result" where
  "getBurn t = bindE (sum_coins (tx_inputs t)) (\<lambda>totalin. bindE (sum_coins (tx_outputs t)) (\<lambda>totalout.
     mn_sub totalin totalout))"

text \<open>The state is kept sorted by port; variables read from a stream may share a port, and
  \<open>std::sort\<close> leaves their order open.\<close>

definition removeStateVariable :: "int \<Rightarrow> transaction \<Rightarrow> transaction" where
  "removeStateVariable zPort t =
     (if \<not> list_ex (\<lambda>sv. getPort sv = zPort) (tx_state t) then t
      else t\<lparr>tx_state := sort_key getPort (filter (\<lambda>sv. getPort sv \<noteq> zPort) (tx_state t))\<rparr>)"

definition addStateVariable :: "state_variable \<Rightarrow> transaction \<Rightarrow> transaction" where
  "addStateVariable zValue t =
     (let t = removeStateVariable (getPort zValue) t in t\<lparr>tx_state := sort_key getPort (tx_state t @ [zValue])\<rparr>)"

definition getStateValue :: "int \<Rightarrow> transaction \<Rightarrow> state_variable option" where
  "getStateValue zPort t = find (\<lambda>sv. getPort sv = zPort) (tx_state t)"

definition stateExists :: "int \<Rightarrow> transaction \<Rightarrow> bool" where
  "stateExists zStateNum t = (getStateValue zStateNum t \<noteq> None)"

definition clearState :: "transaction \<Rightarrow> transaction" where
  "clearState t = t\<lparr>tx_state := []\<rparr>"

definition setLinkHash :: "byte list \<Rightarrow> transaction \<Rightarrow> transaction" where
  "setLinkHash zLinkHash t = t\<lparr>tx_linkhash := zLinkHash\<rparr>"

definition tx_writeDataStream :: "transaction \<Rightarrow> byte list result" where
  "tx_writeDataStream t =
     bindE (write_list coin_writeDataStream (tx_inputs t)) (\<lambda>ins.
     bindE (write_list coin_writeDataStream (tx_outputs t)) (\<lambda>outs.
     bindE (write_list sv_writeDataStream (tx_state t)) (\<lambda>sts.
     bindE (writeHashToStream (md (tx_linkhash t))) (\<lambda>h. Inr (ins @ outs @ sts @ h)))))"

definition calculateTransactionID :: "crypto \<Rightarrow> transaction \<Rightarrow> transaction result" where
  "calculateTransactionID c t = bindE (hashObject c (tx_writeDataStream t)) (\<lambda>h. Inr (t\<lparr>tx_id := h\<rparr>))"

definition calculateCoinID :: "crypto \<Rightarrow> byte list \<Rightarrow> int \<Rightarrow> byte list result" where
  "calculateCoinID c zBaseCoinID zOutput =
     bindE (mn_of_int zOutput) (\<lambda>outnum.
     hashObjects c (Inr (md_writeDataStream (md zBaseCoinID))) (Inr (mn_writeDataStream outnum)))"

definition tx_readDataStream :: "crypto \<Rightarrow> transaction \<Rightarrow> transaction reader" where
  "tx_readDataStream c t inp =
     bindE (read_list (coin_readDataStream c) inp) (\<lambda>(ins, inp).
     bindE (read_list (coin_readDataStream c) inp) (\<lambda>(outs, inp).
     bindE (read_list sv_readDataStream inp) (\<lambda>(sts, inp).
     bindE (readHashFromStream inp) (\<lambda>(h, inp).
     bindE (calculateTransactionID c (t\<lparr>tx_inputs := ins, tx_outputs := outs, tx_state := sts, tx_linkhash := mData h\<rparr>))
       (\<lambda>t. Inr (t, inp))))))"

definition calculateStateSize :: "transaction \<Rightarrow> int result" where
  "calculateStateSize t =
     (case write_list sv_writeDataStream (tx_state t) of
        Inr bs \<Rightarrow> Inr (int (length bs))
      | Inl (Throw e) \<Rightarrow> Inr 1000000
      | Inl e \<Rightarrow> Inl e)"

subsection \<open>Addresses and scripts\<close>

record address =
  a_script :: string
  a_data :: "byte list"
  a_minima :: string

definition makeMinimaAddress :: "crypto \<Rightarrow> byte list \<Rightarrow> string result" where
  "makeMinimaAddress c d =
     (let hash = hashData c d; len16 = length d mod 65536 in
      if length hash < 4 then Inl (Throw InvalidArgument)
      else Inr (encode32 (1 # of_nat (len16 div 256 mod 256) # of_nat (len16 mod 256) # d @ take 4 hash)))"

definition convertMinimaAddress :: "crypto \<Rightarrow> string \<Rightarrow> byte list result" where
  "convertMinimaAddress c zMinimAddress =
     bindE (decode32 zMinimAddress) (\<lambda>decode.
     if length decode < 1 + 2 + 4 then Inl (Throw InvalidArgument)
     else if hd decode \<noteq> 1 then Inl (Throw InvalidArgument)
     else let datalen = unat (decode ! 1) * 256 + unat (decode ! 2) in
       if length decode < 3 + datalen + 4 then Inl (Throw InvalidArgument)
       else let d = take datalen (drop 3 decode); checksum = take 4 (drop (3 + datalen) decode);
                hash = hashData c d in
         if length hash < 4 then Inl (Throw InvalidArgument)
         else if take 4 hash \<noteq> checksum then Inl (Throw InvalidArgument)
         else Inr d)"

definition address_of_data :: "crypto \<Rightarrow> byte list \<Rightarrow> address result" where
  "address_of_data c zAddressData =
     bindE (makeMinimaAddress c zAddressData) (\<lambda>m. Inr \<lparr>a_script = [], a_data = zAddressData, a_minima = m\<rparr>)"

text \<open>The address of a script is the root of the MMR that holds just the script.\<close>

definition script_leaf :: "crypto \<Rightarrow> string \<Rightarrow> mmrdata result" where
  "script_leaf c s = CreateMMRDataLeafNode c (Inr (ms_writeDataStream s)) mn_ZERO"

definition address_of_script :: "crypto \<Rightarrow> string \<Rightarrow> address result" where
  "address_of_script c zScript =
     bindE (script_leaf c zScript) (\<lambda>scriptdata.
     bindE (addEntry c [] scriptdata mmr_new) (\<lambda>(entry, m).
     bindE (getProof c [] m (mEntryNumber entry)) (\<lambda>p.
     bindE (calculateProof c p scriptdata) (\<lambda>r.
     bindE (makeMinimaAddress c (d_hash r)) (\<lambda>mx.
     Inr \<lparr>a_script = zScript, a_data = d_hash r, a_minima = mx\<rparr>)))))"

definition address_writeDataStream :: "address \<Rightarrow> byte list result" where
  "address_writeDataStream a =
     bindE (writeHashToStream (md (a_data a))) (\<lambda>h. Inr (h @ ms_writeDataStream (a_script a)))"

definition address_readDataStream :: "crypto \<Rightarrow> address reader" where
  "address_readDataStream c inp =
     bindE (readHashFromStream inp) (\<lambda>(d, inp). bindE (ms_readDataStream inp) (\<lambda>(s, inp).
     bindE (makeMinimaAddress c (mData d)) (\<lambda>mx.
     Inr (\<lparr>a_script = s, a_data = mData d, a_minima = mx\<rparr>, inp))))"

record script_proof =
  sc_script :: string
  sc_proof :: mmr_proof
  sc_address :: address

definition calculateAddress :: "crypto \<Rightarrow> string \<Rightarrow> mmr_proof \<Rightarrow> address result" where
  "calculateAddress c s p =
     bindE (script_leaf c s) (\<lambda>scriptdata. bindE (calculateProof c p scriptdata) (\<lambda>r.
     address_of_data c (d_hash r)))"

definition script_proof_new :: "crypto \<Rightarrow> string \<Rightarrow> script_proof result" where
  "script_proof_new c zScript =
     bindE (script_leaf c zScript) (\<lambda>scriptdata.
     bindE (addEntry c [] scriptdata mmr_new) (\<lambda>(entry, m).
     bindE (getProof c [] m (mEntryNumber entry)) (\<lambda>p.
     bindE (calculateAddress c zScript p) (\<lambda>a.
     Inr \<lparr>sc_script = zScript, sc_proof = p, sc_address = a\<rparr>))))"

definition script_proof_with :: "crypto \<Rightarrow> string \<Rightarrow> mmr_proof \<Rightarrow> script_proof result" where
  "script_proof_with c zScript zProof =
     bindE (calculateAddress c zScript zProof) (\<lambda>a.
     Inr \<lparr>sc_script = zScript, sc_proof = zProof, sc_address = a\<rparr>)"

definition script_writeDataStream :: "script_proof \<Rightarrow> byte list result" where
  "script_writeDataStream s =
     bindE (proof_writeDataStream (sc_proof s)) (\<lambda>p. Inr (ms_writeDataStream (sc_script s) @ p))"

definition script_readDataStream :: "crypto \<Rightarrow> script_proof reader" where
  "script_readDataStream c inp =
     bindE (ms_readDataStream inp) (\<lambda>(s, inp). bindE (proof_readDataStream inp) (\<lambda>(p, inp).
     bindE (script_proof_with c s p) (\<lambda>sp. Inr (sp, inp))))"

subsection \<open>Coin proofs and the witness\<close>

record coin_proof =
  cp_coin :: coin
  cp_proof :: mmr_proof

definition coin_leaf :: "crypto \<Rightarrow> coin \<Rightarrow> mmrdata result" where
  "coin_leaf c co = CreateMMRDataLeafNode c (coin_writeDataStream co) (c_amount co)"

definition cp_getMMRData :: "crypto \<Rightarrow> coin_proof \<Rightarrow> mmrdata result" where
  "cp_getMMRData c cp = coin_leaf c (cp_coin cp)"

definition cp_writeDataStream :: "coin_proof \<Rightarrow> byte list result" where
  "cp_writeDataStream cp =
     bindE (coin_writeDataStream (cp_coin cp)) (\<lambda>a. bindE (proof_writeDataStream (cp_proof cp)) (\<lambda>b. Inr (a @ b)))"

text \<open>A coin proof that cannot be read is the null pointer.\<close>

definition cp_readDataStream :: "crypto \<Rightarrow> coin_proof reader" where
  "cp_readDataStream c inp =
     bindE (coin_readDataStream c inp) (\<lambda>(co, inp). bindE (proof_readDataStream inp) (\<lambda>(p, inp).
     Inr (\<lparr>cp_coin = co, cp_proof = p\<rparr>, inp)))"

definition cp_convertMiniDataVersion :: "crypto \<Rightarrow> byte list \<Rightarrow> coin_proof option result" where
  "cp_convertMiniDataVersion c zTxpData =
     (case cp_readDataStream c zTxpData of
        Inr (x, rest) \<Rightarrow> Inr (Some x)
      | Inl (Throw e) \<Rightarrow> Inr None
      | Inl e \<Rightarrow> Inl e)"

record witness =
  wt_signatures :: "signature list"
  wt_coinproofs :: "coin_proof list"
  wt_scripts :: "script_proof list"

fun signature_keys :: "crypto \<Rightarrow> signature list \<Rightarrow> byte list list result" where
  "signature_keys c [] = Inr []"
| "signature_keys c (s # ss) = bindE (sig_getRootPublicKey c s) (\<lambda>k. bindE (signature_keys c ss) (\<lambda>ks. Inr (k # ks)))"

definition getAllSignatureKeys :: "crypto \<Rightarrow> witness \<Rightarrow> byte list list result" where
  "getAllSignatureKeys c w = signature_keys c (wt_signatures w)"

definition isSignedBy :: "crypto \<Rightarrow> string \<Rightarrow> witness \<Rightarrow> bool result" where
  "isSignedBy c zPublicKey w =
     bindE (getAllSignatureKeys c w) (\<lambda>keys. Inr (list_ex (\<lambda>k. to0xString (md k) = zPublicKey) keys))"

definition addSignature :: "crypto \<Rightarrow> signature \<Rightarrow> witness \<Rightarrow> witness result" where
  "addSignature c s w =
     bindE (sig_getRootPublicKey c s) (\<lambda>k. bindE (isSignedBy c (to0xString (md k)) w) (\<lambda>b.
     Inr (if b then w else w\<lparr>wt_signatures := wt_signatures w @ [s]\<rparr>)))"

definition clearSignatures :: "witness \<Rightarrow> witness" where
  "clearSignatures w = w\<lparr>wt_signatures := []\<rparr>"

definition addCoinProof :: "coin_proof \<Rightarrow> witness \<Rightarrow> witness" where
  "addCoinProof cp w = w\<lparr>wt_coinproofs := wt_coinproofs w @ [cp]\<rparr>"

definition clearCoinProofs :: "witness \<Rightarrow> witness" where
  "clearCoinProofs w = w\<lparr>wt_coinproofs := []\<rparr>"

definition getScript :: "byte list \<Rightarrow> witness \<Rightarrow> script_proof option" where
  "getScript zAddress w = find (\<lambda>s. a_data (sc_address s) = zAddress) (wt_scripts w)"

definition scriptExists :: "byte list \<Rightarrow> witness \<Rightarrow> bool" where
  "scriptExists zAddress w = (getScript zAddress w \<noteq> None)"

definition addScript :: "script_proof \<Rightarrow> witness \<Rightarrow> witness" where
  "addScript s w =
     (if scriptExists (a_data (sc_address s)) w then w else w\<lparr>wt_scripts := wt_scripts w @ [s]\<rparr>)"

definition clearScriptProofs :: "witness \<Rightarrow> witness" where
  "clearScriptProofs w = w\<lparr>wt_scripts := []\<rparr>"

definition witness_writeDataStream :: "witness \<Rightarrow> byte list result" where
  "witness_writeDataStream w =
     bindE (write_list sig_writeDataStream (wt_signatures w)) (\<lambda>a.
     bindE (write_list cp_writeDataStream (wt_coinproofs w)) (\<lambda>b.
     bindE (write_list script_writeDataStream (wt_scripts w)) (\<lambda>d. Inr (a @ b @ d))))"

end
