(* ===== verification/KissContract.thy ===== *)
theory KissContract
  imports KissParser Objects
begin

text \<open>
  The state of a running script (\<open>src/org/minima/kissvm/contract.cpp\<close>) and the operations on it. An
  action of the machine takes the contract to a result and the contract after it: an exception leaves
  the changes made before it. The log, the text of the exception and console output are left out; the
  transaction, the witness and the previous state are references the machine reads and never changes.
\<close>

subsection \<open>The contract\<close>

record contract =
  mRamScript :: string
  mTransaction :: transaction
  mWitness :: witness
  mPrevState :: "state_variable list"
  mSignatures :: "byte list list"
  mBlock :: "stmt list"
  mVariables :: "string \<Rightarrow> kvalue option"
  mGlobals :: "string \<Rightarrow> kvalue option"
  mMonotonic :: bool
  mSuccess :: bool
  mSuccessSet :: bool
  mParseOK :: bool
  mException :: bool
  mNumInstructions :: int
  mMaxInstructions :: int
  mStackDepth :: int

text \<open>What the machine takes from libraries outside the sources: the digests, and the decimal text of a
  square root that Boost computes from an unscaled value and a scale.\<close>

record kenv =
  e_crypto :: crypto
  e_sqrt :: "int \<Rightarrow> int \<Rightarrow> string"

subsection \<open>Actions\<close>

type_synonym 'a kvm = "contract \<Rightarrow> 'a result \<times> contract"

definition vret :: "'a \<Rightarrow> 'a kvm" where
  "vret x s = (Inr x, s)"

definition vlift :: "'a result \<Rightarrow> 'a kvm" where
  "vlift r s = (r, s)"

definition vthrow :: "exn \<Rightarrow> 'a kvm" where
  "vthrow e = vlift (Inl (Throw e))"

definition vget :: "(contract \<Rightarrow> 'a) \<Rightarrow> 'a kvm" where
  "vget f s = (Inr (f s), s)"

definition vmod :: "(contract \<Rightarrow> contract) \<Rightarrow> unit kvm" where
  "vmod f s = (Inr (), f s)"

definition vbind :: "'a kvm \<Rightarrow> ('a \<Rightarrow> 'b kvm) \<Rightarrow> 'b kvm" where
  "vbind m f s = (case m s of (Inl e, s') \<Rightarrow> (Inl e, s') | (Inr x, s') \<Rightarrow> f x s')"

definition vguard :: "bool \<Rightarrow> unit kvm" where
  "vguard b = (if b then vret () else vthrow ExecutionException)"

text \<open>A handler for \<open>ExecutionException\<close>, and the handler that turns every other exception into one.\<close>

definition vcatch :: "'a kvm \<Rightarrow> 'a kvm \<Rightarrow> 'a kvm" where
  "vcatch m h s = (case m s of (Inl e, s') \<Rightarrow> (if e = Throw ExecutionException then h s' else (Inl e, s'))
     | (Inr x, s') \<Rightarrow> (Inr x, s'))"

definition vrethrow :: "'a kvm \<Rightarrow> 'a kvm" where
  "vrethrow m s = (case m s of (Inl (Throw e), s') \<Rightarrow> (Inl (Throw ExecutionException), s') | r \<Rightarrow> r)"

lemma vbind_simps [simp]:
  "vbind (vret x) f = f x" "vbind (vlift (Inr x)) f = f x" "vbind (vlift (Inl e)) f = vlift (Inl e)"
  by (rule ext, simp add: vbind_def vret_def vlift_def)+

subsection \<open>Limits\<close>

definition incrementInstructions :: "int \<Rightarrow> unit kvm" where
  "incrementInstructions zNum =
     vbind (vmod (\<lambda>s. s\<lparr>mNumInstructions := mNumInstructions s + zNum\<rparr>)) (\<lambda>_.
     vbind (vget (\<lambda>s. mNumInstructions s > mMaxInstructions s)) (\<lambda>over.
     if over then vthrow ExecutionException else vret ()))"

definition setMaxInstructions :: "int \<Rightarrow> contract \<Rightarrow> contract" where
  "setMaxInstructions zMax s = s\<lparr>mMaxInstructions := zMax\<rparr>"

definition resetStackDepth :: "contract \<Rightarrow> contract" where
  "resetStackDepth s = s\<lparr>mStackDepth := 0\<rparr>"

definition incrementStackDepth :: "unit kvm" where
  "incrementStackDepth =
     vbind (vmod (\<lambda>s. s\<lparr>mStackDepth := mStackDepth s + 1\<rparr>)) (\<lambda>_.
     vbind (vget (\<lambda>s. mStackDepth s > MAX_STACK_DEPTH)) (\<lambda>deep.
     if deep then vthrow ExecutionException else vret ()))"

definition decrementStackDepth :: "unit kvm" where
  "decrementStackDepth = vmod (\<lambda>s. s\<lparr>mStackDepth := (if mStackDepth s - 1 < 0 then 0 else mStackDepth s - 1)\<rparr>)"

subsection \<open>Globals, variables and the verdict\<close>

definition setGlobalVariable :: "string \<Rightarrow> kvalue \<Rightarrow> unit kvm" where
  "setGlobalVariable zGlobal zValue = vmod (\<lambda>s. s\<lparr>mGlobals := (mGlobals s)(zGlobal \<mapsto> zValue)\<rparr>)"

definition getGlobal :: "string \<Rightarrow> kvalue kvm" where
  "getGlobal zGlobal =
     vbind (vget (\<lambda>s. mGlobals s zGlobal)) (\<lambda>g. case g of
       None \<Rightarrow> vthrow ExecutionException
     | Some v \<Rightarrow>
         vbind (if zGlobal = ''@BLOCK'' \<or> zGlobal = ''@BLOCKMILLI'' \<or> zGlobal = ''@COINAGE''
                then vmod (\<lambda>s. s\<lparr>mMonotonic := False\<rparr>) else vret ()) (\<lambda>_. vret v))"

definition set_global :: "string \<Rightarrow> kvalue result \<Rightarrow> unit kvm" where
  "set_global zGlobal r = vbind (vlift r) (setGlobalVariable zGlobal)"

definition setGlobals :: "mininumber \<Rightarrow> mininumber \<Rightarrow> transaction \<Rightarrow> int \<Rightarrow> mininumber \<Rightarrow> string \<Rightarrow> unit kvm" where
  "setGlobals zBlock zBlockTimeMilli zTrx zInput zInputBlkCreate zScript =
     (if zInput < 0 \<or> nat zInput \<ge> length (tx_inputs zTrx) then vthrow InvalidArgument
      else let cc = tx_inputs zTrx ! nat zInput in
        vbind (set_global ''@BLOCK'' (number_value zBlock)) (\<lambda>_.
        vbind (set_global ''@BLOCKMILLI'' (number_value zBlockTimeMilli)) (\<lambda>_.
        vbind (set_global ''@CREATED'' (number_value zInputBlkCreate)) (\<lambda>_.
        vbind (set_global ''@COINAGE'' (bindE (mn_sub zBlock zInputBlkCreate) number_value)) (\<lambda>_.
        vbind (set_global ''@INPUT'' (number_value_of_int zInput)) (\<lambda>_.
        vbind (set_global ''@COINID'' (hex_value (c_coinid cc))) (\<lambda>_.
        vbind (vlift (if c_tokenid cc \<noteq> TOKENID_MINIMA
                      then case c_token cc of None \<Rightarrow> Inr (c_amount cc) | Some t \<Rightarrow> getScaledTokenAmount t (c_amount cc)
                      else Inr (c_amount cc))) (\<lambda>amt.
        vbind (set_global ''@AMOUNT'' (number_value amt)) (\<lambda>_.
        vbind (set_global ''@ADDRESS'' (hex_value (c_address cc))) (\<lambda>_.
        vbind (set_global ''@TOKENID'' (hex_value (c_tokenid cc))) (\<lambda>_.
        vbind (set_global ''@SCRIPT'' (string_value zScript)) (\<lambda>_.
        vbind (set_global ''@TOTIN'' (number_value_of_int (int (length (tx_inputs zTrx))))) (\<lambda>_.
        set_global ''@TOTOUT'' (number_value_of_int (int (length (tx_outputs zTrx)))))))))))))))))"

definition removeVariable :: "string \<Rightarrow> unit kvm" where
  "removeVariable zName = vmod (\<lambda>s. s\<lparr>mVariables := (mVariables s)(zName := None)\<rparr>)"

definition getVariable :: "string \<Rightarrow> kvalue option kvm" where
  "getVariable zName = vget (\<lambda>s. mVariables s zName)"

definition setVariable :: "string \<Rightarrow> kvalue \<Rightarrow> unit kvm" where
  "setVariable zName zValue = vmod (\<lambda>s. s\<lparr>mVariables := (mVariables s)(zName \<mapsto> zValue)\<rparr>)"

definition setRETURNValue :: "bool \<Rightarrow> unit kvm" where
  "setRETURNValue zSUCCESS =
     vmod (\<lambda>s. if \<not> mSuccessSet s then s\<lparr>mSuccess := zSUCCESS, mSuccessSet := True\<rparr> else s)"

definition getState :: "int \<Rightarrow> kvalue kvm" where
  "getState zStateNum =
     vbind (vget (\<lambda>s. getStateValue zStateNum (mTransaction s))) (\<lambda>sv. case sv of
       None \<Rightarrow> vthrow ExecutionException
     | Some sv \<Rightarrow> vlift (value_getValue (sv_data sv)))"

definition getPrevState :: "int \<Rightarrow> kvalue kvm" where
  "getPrevState zPrev =
     vbind (vget (\<lambda>s. find (\<lambda>sv. getPort sv = zPrev) (mPrevState s))) (\<lambda>sv. case sv of
       None \<Rightarrow> vthrow ExecutionException
     | Some sv \<Rightarrow> vlift (value_getValue (sv_data sv)))"

definition checkSignature :: "byte list \<Rightarrow> bool kvm" where
  "checkSignature zPublicKey = vget (\<lambda>s. list_ex (\<lambda>sig. md_isEqual (md sig) (md zPublicKey)) (mSignatures s))"

subsection \<open>Building\<close>

text \<open>A contract over a transaction and a witness, before its script is read.\<close>

definition contract_init :: "witness \<Rightarrow> transaction \<Rightarrow> state_variable list \<Rightarrow> contract" where
  "contract_init zWitness zTransaction zPrevState =
     \<lparr>mRamScript = [], mTransaction = zTransaction, mWitness = zWitness, mPrevState = zPrevState,
      mSignatures = [], mBlock = [], mVariables = (\<lambda>_. None), mGlobals = (\<lambda>_. None), mMonotonic = True,
      mSuccess = False, mSuccessSet = False, mParseOK = False, mException = False, mNumInstructions = 0,
      mMaxInstructions = 1024, mStackDepth = 0\<rparr>"

fun hex_values :: "byte list list \<Rightarrow> byte list list result" where
  "hex_values [] = Inr []"
| "hex_values (sig # sigs) = bindE (hex_value sig) (\<lambda>_. bindE (hex_values sigs) (\<lambda>bs. Inr (sig # bs)))"

text \<open>The parsing depth starts at zero. An exception while parsing is kept in the contract.\<close>

definition parseAndBuild :: "string \<Rightarrow> byte list list \<Rightarrow> contract \<Rightarrow> contract result" where
  "parseAndBuild zRamScript zSignatures s =
     bindE (hex_values zSignatures) (\<lambda>sigs.
     let s = s\<lparr>mRamScript := zRamScript, mSignatures := sigs, mVariables := (\<lambda>_. None), mGlobals := (\<lambda>_. None),
               mBlock := [], mSuccess := False, mSuccessSet := False, mParseOK := False, mException := False,
               mNumInstructions := 0, mMonotonic := True\<rparr>
     in case tokenize zRamScript of
          Inl (Throw e) \<Rightarrow> Inr (s\<lparr>mException := True\<rparr>)
        | Inl e \<Rightarrow> Inl e
        | Inr tokens \<Rightarrow>
            let s = resetStackDepth s in
            (case parseTokens tokens 0 of
               Inr b \<Rightarrow> Inr (s\<lparr>mBlock := b, mParseOK := True\<rparr>)
             | Inl (Throw e) \<Rightarrow> Inr (s\<lparr>mException := True\<rparr>)
             | Inl e \<Rightarrow> Inl e))"

definition contract_new :: "string \<Rightarrow> byte list list \<Rightarrow> witness \<Rightarrow> transaction \<Rightarrow> state_variable list \<Rightarrow> contract result" where
  "contract_new zRamScript zSignatures zWitness zTransaction zPrevState =
     parseAndBuild zRamScript zSignatures (contract_init zWitness zTransaction zPrevState)"

definition contract_new_signed :: "crypto \<Rightarrow> string \<Rightarrow> witness \<Rightarrow> transaction \<Rightarrow> state_variable list \<Rightarrow> contract result" where
  "contract_new_signed c zRamScript zWitness zTransaction zPrevState =
     bindE (getAllSignatureKeys c zWitness) (\<lambda>sigKeys.
     contract_new zRamScript sigKeys zWitness zTransaction zPrevState)"

subsection \<open>Cleaning a script\<close>

definition needs_space_between :: "string \<Rightarrow> string \<Rightarrow> bool" where
  "needs_space_between prev cur =
     (if prev = [] then False
      else let pc = last prev; fc = (if cur = [] then CHR '' '' else hd cur) in
        if fc = CHR '')'' \<or> fc = CHR '']'' \<or> fc = CHR '','' then False
        else if pc = CHR ''('' \<or> pc = CHR ''['' then False
        else True)"

definition clean_hex :: "string \<Rightarrow> string" where
  "clean_hex t =
     (if length t \<ge> 2 \<and> t ! 0 = CHR ''0'' \<and> (t ! 1 = CHR ''x'' \<or> t ! 1 = CHR ''X'')
      then ''0x'' @ map to_upper (drop 2 t) else t)"

fun clean_loop :: "string \<Rightarrow> string \<Rightarrow> token list \<Rightarrow> string" where
  "clean_loop ret prevtok [] = ret"
| "clean_loop ret prevtok (tk # tks) =
     (let t = clean_hex (mToken tk);
          ret = (if ret \<noteq> [] \<and> needs_space_between prevtok t then ret @ '' '' else ret) @ t
      in if mTokenType tk \<in> {TOKEN_COMMAND, TOKEN_TRUE, TOKEN_FALSE} then clean_loop (ret @ '' '') [] tks
         else clean_loop ret t tks)"

definition cleanScript :: "string \<Rightarrow> string result" where
  "cleanScript zScript =
     (case tokenize zScript of
        Inr tks \<Rightarrow> Inr (trim (clean_loop [] [] tks))
      | Inl (Throw e) \<Rightarrow> Inr zScript
      | Inl e \<Rightarrow> Inl e)"

end
