(* ===== verification/KissFunctions.thy ===== *)
theory KissFunctions
  imports KissContract
begin

text \<open>
  The functions of the script language (\<open>src/org/minima/kissvm/functions\<close>). Each takes the evaluator of
  expressions as an argument, so that the parameters are evaluated in the order of the code, with their
  effects; \<open>FUNCTION\<close> also takes the runner of blocks. A parameter that has been checked to be a number
  (or data, or a string) is used as one. Signed overflow, an access before the start of an array, the
  use of a freed object and a null pointer are undefined.
\<close>

subsection \<open>Parameters\<close>

type_synonym evaluator = "expr \<Rightarrow> kvalue kvm"

definition getParameter :: "evaluator \<Rightarrow> expr list \<Rightarrow> nat \<Rightarrow> kvalue kvm" where
  "getParameter ev ps i = (if i \<ge> length ps then vthrow ExecutionException else ev (ps ! i))"

definition checkExactParamNumber :: "expr list \<Rightarrow> func \<Rightarrow> unit kvm" where
  "checkExactParamNumber ps f = vguard (int (length ps) = requiredParams f)"

definition checkMinParamNumber :: "expr list \<Rightarrow> func \<Rightarrow> unit kvm" where
  "checkMinParamNumber ps f = vguard (\<not> int (length ps) < requiredParams f)"

text \<open>A value that must be a number, data, a string or a boolean.\<close>

definition must_number :: "kvalue \<Rightarrow> mininumber kvm" where
  "must_number v = (case v of NumberValue m \<Rightarrow> vret m | _ \<Rightarrow> vthrow ExecutionException)"

definition must_hex :: "kvalue \<Rightarrow> byte list kvm" where
  "must_hex v = (case v of HexValue b \<Rightarrow> vret b | _ \<Rightarrow> vthrow ExecutionException)"

definition must_string :: "kvalue \<Rightarrow> string kvm" where
  "must_string v = (case v of StringValue s \<Rightarrow> vret s | _ \<Rightarrow> vthrow ExecutionException)"

definition must_bool :: "kvalue \<Rightarrow> bool kvm" where
  "must_bool v = (case v of BooleanValue b \<Rightarrow> vret b | _ \<Rightarrow> vthrow ExecutionException)"

definition getNumberParam :: "evaluator \<Rightarrow> expr list \<Rightarrow> nat \<Rightarrow> mininumber kvm" where
  "getNumberParam ev ps i = vbind (getParameter ev ps i) must_number"

definition getHexParam :: "evaluator \<Rightarrow> expr list \<Rightarrow> nat \<Rightarrow> byte list kvm" where
  "getHexParam ev ps i = vbind (getParameter ev ps i) must_hex"

definition getStringParam :: "evaluator \<Rightarrow> expr list \<Rightarrow> nat \<Rightarrow> string kvm" where
  "getStringParam ev ps i = vbind (getParameter ev ps i) must_string"

definition getBoolParam :: "evaluator \<Rightarrow> expr list \<Rightarrow> nat \<Rightarrow> bool kvm" where
  "getBoolParam ev ps i = vbind (getParameter ev ps i) must_bool"

definition getIntParam :: "evaluator \<Rightarrow> expr list \<Rightarrow> nat \<Rightarrow> int kvm" where
  "getIntParam ev ps i = vbind (getNumberParam ev ps i) (\<lambda>m. vret (getAsInt m))"

definition fits_int :: "int \<Rightarrow> bool" where
  "fits_int z = (- (2 ^ 31) \<le> z \<and> z < 2 ^ 31)"

text \<open>A function of one number.\<close>

definition number_function :: "func \<Rightarrow> (mininumber \<Rightarrow> mininumber result) \<Rightarrow> evaluator \<Rightarrow> expr list \<Rightarrow> kvalue kvm" where
  "number_function f g ev ps =
     vbind (checkExactParamNumber ps f) (\<lambda>_. vbind (getNumberParam ev ps 0) (\<lambda>m.
     vlift (bindE (g m) number_value)))"

subsection \<open>Casts\<close>

definition number_of_hex :: "byte list \<Rightarrow> mininumber result" where
  "number_of_hex b = mn_of_string (nat_to_dec (md_getValue (md b)))"

definition run_ASCII :: "evaluator \<Rightarrow> expr list \<Rightarrow> kvalue kvm" where
  "run_ASCII ev ps =
     vbind (checkExactParamNumber ps F_ASCII) (\<lambda>_. vbind (getHexParam ev ps 0) (\<lambda>b.
     vlift (string_value (string_of_bytes (concat (map (\<lambda>x. if x \<le> 0x7F then [x] else [0xEF, 0xBF, 0xBD]) b))))))"

definition run_BOOL :: "evaluator \<Rightarrow> expr list \<Rightarrow> kvalue kvm" where
  "run_BOOL ev ps =
     vbind (checkExactParamNumber ps F_BOOL) (\<lambda>_. vbind (getParameter ev ps 0) (\<lambda>v.
     vlift (case v of
       BooleanValue b \<Rightarrow> Inr (BooleanValue b)
     | HexValue b \<Rightarrow> bindE (number_of_hex b) (\<lambda>num. Inr (BooleanValue (\<not> mn_isEqual num mn_ZERO)))
     | NumberValue m \<Rightarrow> Inr (BooleanValue (\<not> mn_isEqual m mn_ZERO))
     | StringValue s \<Rightarrow> Inr (BooleanValue (s \<noteq> ''FALSE'')))))"

definition run_HEX :: "evaluator \<Rightarrow> expr list \<Rightarrow> kvalue kvm" where
  "run_HEX ev ps =
     vbind (checkExactParamNumber ps F_HEX) (\<lambda>_. vbind (getParameter ev ps 0) (\<lambda>v.
     vlift (case v of
       BooleanValue b \<Rightarrow> hex_value_of_string (if b then ''0x01'' else ''0x00'')
     | HexValue b \<Rightarrow> hex_value b
     | NumberValue m \<Rightarrow> bindE (mn_floor m) (\<lambda>fl.
         if \<not> mn_isEqual fl m \<or> mn_isLess m mn_ZERO then Inl (Throw ExecutionException) else hex_value_of_number m)
     | StringValue s \<Rightarrow> hex_value (bytes_of_string s))))"

definition run_NUMBER :: "evaluator \<Rightarrow> expr list \<Rightarrow> kvalue kvm" where
  "run_NUMBER ev ps =
     vbind (checkExactParamNumber ps F_NUMBER) (\<lambda>_. vbind (getParameter ev ps 0) (\<lambda>v.
     vlift (case v of
       BooleanValue b \<Rightarrow> number_value_of_int (if b then 1 else 0)
     | HexValue b \<Rightarrow> bindE (number_of_hex b) number_value
     | StringValue s \<Rightarrow> number_value_of_string s
     | NumberValue m \<Rightarrow> number_value m)))"

definition run_STRING :: "evaluator \<Rightarrow> expr list \<Rightarrow> kvalue kvm" where
  "run_STRING ev ps =
     vbind (checkExactParamNumber ps F_STRING) (\<lambda>_. vbind (getParameter ev ps 0) (\<lambda>v.
     vlift (string_value (value_toString v))))"

definition run_UTF8 :: "evaluator \<Rightarrow> expr list \<Rightarrow> kvalue kvm" where
  "run_UTF8 ev ps =
     vbind (checkExactParamNumber ps F_UTF8) (\<lambda>_. vbind (getHexParam ev ps 0) (\<lambda>b.
     vlift (string_value (string_of_bytes b))))"

subsection \<open>Variables, addresses and functions\<close>

definition run_ADDRESS :: "kenv \<Rightarrow> evaluator \<Rightarrow> expr list \<Rightarrow> kvalue kvm" where
  "run_ADDRESS env ev ps =
     vbind (checkExactParamNumber ps F_ADDRESS) (\<lambda>_. vbind (getStringParam ev ps 0) (\<lambda>s.
     vlift (bindE (address_of_script (e_crypto env) s) (\<lambda>a. hex_value (a_data a)))))"

text \<open>The name of an array element: its indices, each followed by a comma.\<close>

fun array_key :: "evaluator \<Rightarrow> string \<Rightarrow> expr list \<Rightarrow> string kvm" where
  "array_key ev k [] = vret k"
| "array_key ev k (p # ps) =
     vbind (ev p) (\<lambda>v. vbind (must_number v) (\<lambda>m. array_key ev (k @ trim (to_plain_string m) @ '','') ps))"

definition run_EXISTS :: "evaluator \<Rightarrow> expr list \<Rightarrow> kvalue kvm" where
  "run_EXISTS ev ps =
     vbind (checkMinParamNumber ps F_EXISTS) (\<lambda>_. vbind (array_key ev [] ps) (\<lambda>k.
     vbind (getVariable k) (\<lambda>v. vret (BooleanValue (v \<noteq> None)))))"

definition run_GET :: "evaluator \<Rightarrow> expr list \<Rightarrow> kvalue kvm" where
  "run_GET ev ps =
     vbind (checkMinParamNumber ps F_GET) (\<lambda>_. vbind (array_key ev [] ps) (\<lambda>k.
     vbind (getVariable k) (\<lambda>v. case v of
       None \<Rightarrow> vthrow ExecutionException
     | Some x \<Rightarrow> vlift (value_getValue (value_toString x)))))"

text \<open>The pieces of a text between dollar signs.\<close>

fun count_segments :: "bool \<Rightarrow> string \<Rightarrow> int" where
  "count_segments in_segment [] = 0"
| "count_segments in_segment (c # cs) =
     (if c = CHR ''$'' then count_segments False cs
      else (if in_segment then 0 else 1) + count_segments True cs)"

definition tokenizerCountTokensMinusOne :: "string \<Rightarrow> int" where
  "tokenizerCountTokensMinusOne s =
     (let segments = count_segments False s in if segments > 0 then segments - 1 else -1)"

text \<open>Replacement by the regular expression library of the language: the search text is quoted, so it
  matches literally; the replacement is a format in which \<open>$$\<close> is a dollar sign, \<open>$&\<close> the match,
  \<open>$`\<close> and \<open>$'\<close> the text before and after it, and \<open>$\<close> with one or two digits a group, of which only
  group zero, the match, exists. An empty search text matches at every position.\<close>

fun format_match :: "string \<Rightarrow> string \<Rightarrow> string \<Rightarrow> string \<Rightarrow> string" where
  "format_match pre m suf [] = []"
| "format_match pre m suf [c] = [c]"
| "format_match pre m suf (c # d # ds) =
     (if c \<noteq> CHR ''$'' then c # format_match pre m suf (d # ds)
      else if d = CHR ''$'' then CHR ''$'' # format_match pre m suf ds
      else if d = CHR ''&'' then m @ format_match pre m suf ds
      else if d = CHR ''`'' then pre @ format_match pre m suf ds
      else if d = CHR 0x27 then suf @ format_match pre m suf ds
      else if is_digit d then
        (case ds of
           [] \<Rightarrow> (if d = CHR ''0'' then m else [])
         | e # es \<Rightarrow>
             if is_digit e then (if d = CHR ''0'' \<and> e = CHR ''0'' then m else []) @ format_match pre m suf es
             else (if d = CHR ''0'' then m else []) @ format_match pre m suf ds)
      else CHR ''$'' # format_match pre m suf (d # ds))"

text \<open>\<open>pre\<close> is the text since the last match.\<close>

function replace_loop :: "string \<Rightarrow> string \<Rightarrow> string \<Rightarrow> string \<Rightarrow> string" where
  "replace_loop search repl pre s =
     (if search = [] then
        format_match pre [] s repl @ (case s of [] \<Rightarrow> [] | c # cs \<Rightarrow> c # replace_loop search repl [c] cs)
      else case s of
        [] \<Rightarrow> []
      | c # cs \<Rightarrow>
          if take (length search) s = search then
            let rest = drop (length search) s in format_match pre search rest repl @ replace_loop search repl [] rest
          else c # replace_loop search repl (pre @ [c]) cs)"
  by pat_completeness auto
termination by (relation "measure (\<lambda>(search, repl, pre, s). length s)") auto

declare replace_loop.simps [simp del]

definition safeReplaceAll :: "string \<Rightarrow> string \<Rightarrow> string \<Rightarrow> string result" where
  "safeReplaceAll zStart zSearch zReplace =
     (if zStart = [] then Inr []
      else let r = replace_loop zSearch zReplace [] zStart in
        if int (length r) > MAX_DATA_SIZE then Inl (Throw ExecutionException) else Inr r)"

definition FUNCTION_RETURN :: string where "FUNCTION_RETURN = ''returnvalue''"

fun function_params :: "evaluator \<Rightarrow> nat \<Rightarrow> string \<Rightarrow> expr list \<Rightarrow> string kvm" where
  "function_params ev i finalfunction [] = vret finalfunction"
| "function_params ev i finalfunction (p # ps) =
     vbind (ev p) (\<lambda>v.
     vbind (vlift (safeReplaceAll finalfunction (CHR ''$'' # nat_to_dec i)
              (case v of StringValue s \<Rightarrow> CHR ''['' # s @ '']'' | _ \<Rightarrow> value_toString v))) (\<lambda>finalfunction.
     vbind (vguard (\<not> tokenizerCountTokensMinusOne finalfunction > 64)) (\<lambda>_.
     function_params ev (Suc i) finalfunction ps)))"

text \<open>A script run inside the contract, at its stack depth; every exception becomes an \<open>ExecutionException\<close>.\<close>

definition run_script :: "(stmt list \<Rightarrow> unit kvm) \<Rightarrow> string \<Rightarrow> unit kvm" where
  "run_script runb s =
     vrethrow (vbind (vget mStackDepth) (\<lambda>d. vbind (vlift (parse_script s d)) runb))"

definition run_FUNCTION :: "evaluator \<Rightarrow> (stmt list \<Rightarrow> unit kvm) \<Rightarrow> expr list \<Rightarrow> kvalue kvm" where
  "run_FUNCTION ev runb ps =
     vbind (checkMinParamNumber ps F_FUNCTION) (\<lambda>_.
     vbind (getStringParam ev ps 0) (\<lambda>finalfunction.
     vbind (vguard (\<not> tokenizerCountTokensMinusOne finalfunction > 64)) (\<lambda>_.
     vbind (function_params ev 1 finalfunction (tl ps)) (\<lambda>finalfunction.
     vbind (removeVariable FUNCTION_RETURN) (\<lambda>_.
     vbind (run_script runb finalfunction) (\<lambda>_.
     vbind (getVariable FUNCTION_RETURN) (\<lambda>v. case v of
       None \<Rightarrow> vret (BooleanValue True)
     | Some x \<Rightarrow> vlift (value_getValue (value_toString x)))))))))"

subsection \<open>Data\<close>

fun concat_loop :: "evaluator \<Rightarrow> int \<Rightarrow> byte list \<Rightarrow> expr list \<Rightarrow> byte list kvm" where
  "concat_loop ev totlen res [] = vret res"
| "concat_loop ev totlen res (p # ps) =
     vbind (ev p) (\<lambda>v. vbind (must_hex v) (\<lambda>b.
     vbind (vguard (\<not> totlen + int (length b) > MAX_DATA_SIZE)) (\<lambda>_.
     concat_loop ev (totlen + int (length b)) (res @ b) ps)))"

definition run_CONCAT :: "evaluator \<Rightarrow> expr list \<Rightarrow> kvalue kvm" where
  "run_CONCAT ev ps =
     vbind (checkMinParamNumber ps F_CONCAT) (\<lambda>_. vbind (concat_loop ev 0 [] ps) (\<lambda>b. vlift (hex_value b)))"

definition run_LEN :: "evaluator \<Rightarrow> expr list \<Rightarrow> kvalue kvm" where
  "run_LEN ev ps =
     vbind (checkExactParamNumber ps F_LEN) (\<lambda>_. vbind (getParameter ev ps 0) (\<lambda>v.
     vlift (case v of
       HexValue b \<Rightarrow> number_value_of_int (int (length b))
     | StringValue s \<Rightarrow> number_value_of_int (int (length s))
     | _ \<Rightarrow> Inl (Throw ExecutionException))))"

definition run_REV :: "evaluator \<Rightarrow> expr list \<Rightarrow> kvalue kvm" where
  "run_REV ev ps =
     vbind (checkExactParamNumber ps F_REV) (\<lambda>_. vbind (getHexParam ev ps 0) (\<lambda>b. vlift (hex_value (rev b))))"

definition run_SUBSET :: "evaluator \<Rightarrow> expr list \<Rightarrow> kvalue kvm" where
  "run_SUBSET ev ps =
     vbind (checkExactParamNumber ps F_SUBSET) (\<lambda>_.
     vbind (getIntParam ev ps 0) (\<lambda>start. vbind (getIntParam ev ps 1) (\<lambda>stop.
     let len = stop - start in
     if \<not> fits_int len then vlift (Inl Undef)
     else if len < 0 then vthrow ExecutionException
     else if len > MAX_DATA_SIZE then vthrow ExecutionException
     else vbind (getHexParam ev ps 2) (\<lambda>orig.
       let origlen = int (length orig) in
       if start < 0 \<or> start > origlen then vthrow ExecutionException
       else if stop < 0 \<or> stop > origlen then vthrow ExecutionException
       else vlift (hex_value (take (nat len) (drop (nat start) orig)))))))"

definition run_SETLEN :: "evaluator \<Rightarrow> expr list \<Rightarrow> kvalue kvm" where
  "run_SETLEN ev ps =
     vbind (checkExactParamNumber ps F_SETLEN) (\<lambda>_. vbind (getIntParam ev ps 0) (\<lambda>newlen.
     if newlen < 1 \<or> newlen > MAX_DATA_SIZE then vthrow ExecutionException
     else vbind (getHexParam ev ps 1) (\<lambda>orig.
       let origlen = int (length orig) in
       vlift (hex_value (if newlen = origlen then orig
         else if origlen > newlen then drop (nat (origlen - newlen)) orig
         else replicate (nat (newlen - origlen)) 0 @ orig)))))"

definition run_OVERWRITE :: "evaluator \<Rightarrow> expr list \<Rightarrow> kvalue kvm" where
  "run_OVERWRITE ev ps =
     vbind (checkExactParamNumber ps F_OVERWRITE) (\<lambda>_.
     vbind (getHexParam ev ps 0) (\<lambda>src. vbind (getIntParam ev ps 1) (\<lambda>srcpos.
     vbind (getHexParam ev ps 2) (\<lambda>dest. vbind (getIntParam ev ps 3) (\<lambda>destpos.
     vbind (getIntParam ev ps 4) (\<lambda>len.
     if \<not> fits_int (destpos + len) then vlift (Inl Undef)
     else if destpos + len > int (length dest) then vthrow ExecutionException
     else if \<not> fits_int (srcpos + len) then vlift (Inl Undef)
     else if srcpos + len > int (length src) then vthrow ExecutionException
     else if len < 0 then vthrow ExecutionException
     else if srcpos < 0 \<or> destpos < 0 then vlift (Inl Undef)
     else vlift (hex_value (take (nat destpos) dest @ take (nat len) (drop (nat srcpos) src)
            @ drop (nat destpos + nat len) dest))))))))"

definition BITSPERBYTE :: "int list" where
  "BITSPERBYTE =
    [0,1,1,2,1,2,2,3,1,2,2,3,2,3,3,4,1,2,2,3,2,3,3,4,2,3,3,4,3,4,4,5,
     1,2,2,3,2,3,3,4,2,3,3,4,3,4,4,5,2,3,3,4,3,4,4,5,3,4,4,5,4,5,5,6,
     1,2,2,3,2,3,3,4,2,3,3,4,3,4,4,5,2,3,3,4,3,4,4,5,3,4,4,5,4,5,5,6,
     2,3,3,4,3,4,4,5,3,4,4,5,4,5,5,6,3,4,4,5,4,5,5,6,4,5,5,6,5,6,6,7,
     1,2,2,3,2,3,3,4,2,3,3,4,3,4,4,5,2,3,3,4,3,4,4,5,3,4,4,5,4,5,5,6,
     2,3,3,4,3,4,4,5,3,4,4,5,4,5,5,6,3,4,4,5,4,5,5,6,4,5,5,6,5,6,6,7,
     2,3,3,4,3,4,4,5,3,4,4,5,4,5,5,6,3,4,4,5,4,5,5,6,4,5,5,6,5,6,6,7,
     3,4,4,5,4,5,5,6,4,5,5,6,5,6,6,7,4,5,5,6,5,6,6,7,5,6,6,7,6,7,7,8]"

definition totalBits :: "byte list \<Rightarrow> int" where
  "totalBits zData = sum_list (map (\<lambda>b. BITSPERBYTE ! unat b) zData)"

definition run_BITCOUNT :: "evaluator \<Rightarrow> expr list \<Rightarrow> kvalue kvm" where
  "run_BITCOUNT ev ps =
     vbind (checkExactParamNumber ps F_BITCOUNT) (\<lambda>_. vbind (getHexParam ev ps 0) (\<lambda>b.
     vlift (number_value_of_int (totalBits b))))"

definition run_BITGET :: "evaluator \<Rightarrow> expr list \<Rightarrow> kvalue kvm" where
  "run_BITGET ev ps =
     vbind (checkExactParamNumber ps F_BITGET) (\<lambda>_. vbind (getHexParam ev ps 0) (\<lambda>b.
     vbind (getIntParam ev ps 1) (\<lambda>k.
     if k < 0 \<or> k > int (length b) * 8 - 1 then vthrow ExecutionException
     else vret (BooleanValue ((drop_bit (nat (k mod 8)) (b ! nat (k div 8)) AND 1) \<noteq> 0)))))"

definition strip_trailing_zeros :: "byte list \<Rightarrow> byte list" where
  "strip_trailing_zeros b = rev (dropWhile (\<lambda>x. x = 0) (rev b))"

definition run_BITSET :: "evaluator \<Rightarrow> expr list \<Rightarrow> kvalue kvm" where
  "run_BITSET ev ps =
     vbind (checkExactParamNumber ps F_BITSET) (\<lambda>_. vbind (getHexParam ev ps 0) (\<lambda>b.
     vbind (getIntParam ev ps 1) (\<lambda>k.
     if k < 0 \<or> k > int (length b) * 8 - 1 then vthrow ExecutionException
     else vbind (getBoolParam ev ps 2) (\<lambda>set.
       let i = nat (k div 8); mask = push_bit (nat (k mod 8)) 1;
           x = (if set then b ! i OR mask else b ! i AND NOT mask)
       in vlift (hex_value (strip_trailing_zeros (b[i := x])))))))"

subsection \<open>Numbers\<close>

definition run_ABS :: "evaluator \<Rightarrow> expr list \<Rightarrow> kvalue kvm" where
  "run_ABS ev ps = number_function F_ABS mn_abs ev ps"

definition run_CEIL :: "evaluator \<Rightarrow> expr list \<Rightarrow> kvalue kvm" where
  "run_CEIL ev ps = number_function F_CEIL mn_ceil ev ps"

definition run_FLOOR :: "evaluator \<Rightarrow> expr list \<Rightarrow> kvalue kvm" where
  "run_FLOOR ev ps = number_function F_FLOOR mn_floor ev ps"

definition run_DEC :: "evaluator \<Rightarrow> expr list \<Rightarrow> kvalue kvm" where
  "run_DEC ev ps = number_function F_DEC decrement ev ps"

definition run_INC :: "evaluator \<Rightarrow> expr list \<Rightarrow> kvalue kvm" where
  "run_INC ev ps = number_function F_INC increment ev ps"

text \<open>The root is computed by Boost with a hundred digits and printed; the text is parsed again.\<close>

definition mn_sqrt :: "(int \<Rightarrow> int \<Rightarrow> string) \<Rightarrow> mininumber \<Rightarrow> mininumber result" where
  "mn_sqrt boost_sqrt m =
     (if m_unscaled m < 0 then Inl (Throw RuntimeError)
      else bindE (mn_of_string (boost_sqrt (m_unscaled m) (m_scale m))) mn_copy)"

definition run_SQRT :: "kenv \<Rightarrow> evaluator \<Rightarrow> expr list \<Rightarrow> kvalue kvm" where
  "run_SQRT env ev ps = number_function F_SQRT (mn_sqrt (e_sqrt env)) ev ps"

fun max_loop :: "evaluator \<Rightarrow> mininumber option \<Rightarrow> expr list \<Rightarrow> mininumber option kvm" where
  "max_loop ev mx [] = vret mx"
| "max_loop ev mx (p # ps) =
     vbind (ev p) (\<lambda>v. vbind (must_number v) (\<lambda>current.
     max_loop ev (case mx of None \<Rightarrow> Some current
                  | Some m \<Rightarrow> if mn_isMore current m then Some current else Some m) ps))"

definition run_MAX :: "evaluator \<Rightarrow> expr list \<Rightarrow> kvalue kvm" where
  "run_MAX ev ps =
     vbind (checkMinParamNumber ps F_MAX) (\<lambda>_. vbind (max_loop ev None ps) (\<lambda>mx.
     vlift (number_value (case mx of None \<Rightarrow> mn_ZERO | Some m \<Rightarrow> m))))"

text \<open>\<open>MIN\<close> keeps a pointer into the value of its first parameter, which is freed before the second is
  compared with it: with its two required parameters it is undefined once both are numbers.\<close>

definition run_MIN :: "evaluator \<Rightarrow> expr list \<Rightarrow> kvalue kvm" where
  "run_MIN ev ps =
     vbind (checkMinParamNumber ps F_MIN) (\<lambda>_.
     vbind (getNumberParam ev ps 0) (\<lambda>a. vbind (getNumberParam ev ps 1) (\<lambda>b. vlift (Inl Undef))))"

definition run_POW :: "evaluator \<Rightarrow> expr list \<Rightarrow> kvalue kvm" where
  "run_POW ev ps =
     vbind (checkExactParamNumber ps F_POW) (\<lambda>_.
     vbind (getNumberParam ev ps 0) (\<lambda>actnum. vbind (getNumberParam ev ps 1) (\<lambda>number.
     vbind (vlift (mn_floor actnum)) (\<lambda>fl. vbind (vguard (mn_isEqual fl actnum)) (\<lambda>_.
     vbind (vlift (mn_abs actnum)) (\<lambda>ab. vbind (vguard (\<not> mn_isMoreEqual ab mn_THOUSAND24)) (\<lambda>_.
     vlift (bindE (mn_pow number (getAsInt actnum)) number_value))))))))"

definition run_SIGDIG :: "evaluator \<Rightarrow> expr list \<Rightarrow> kvalue kvm" where
  "run_SIGDIG ev ps =
     vbind (checkExactParamNumber ps F_SIGDIG) (\<lambda>_.
     vbind (getNumberParam ev ps 0) (\<lambda>actnum. vbind (getNumberParam ev ps 1) (\<lambda>number.
     vbind (vlift (mn_floor actnum)) (\<lambda>fl. vbind (vguard (mn_isEqual fl actnum)) (\<lambda>_.
     vbind (vguard (\<not> mn_isLess actnum mn_ZERO)) (\<lambda>_.
     vlift (bindE (setSignificantDigits number (getAsInt actnum)) number_value)))))))"

subsection \<open>Strings\<close>

definition run_REPLACE :: "evaluator \<Rightarrow> expr list \<Rightarrow> kvalue kvm" where
  "run_REPLACE ev ps =
     vbind (checkExactParamNumber ps F_REPLACE) (\<lambda>_.
     vbind (getStringParam ev ps 0) (\<lambda>main. vbind (getStringParam ev ps 1) (\<lambda>search.
     vbind (getStringParam ev ps 2) (\<lambda>repl. vlift (bindE (safeReplaceAll main search repl) string_value)))))"

text \<open>The text around the first occurrence of a text.\<close>

fun find_first :: "string \<Rightarrow> string \<Rightarrow> string \<Rightarrow> (string \<times> string) option" where
  "find_first search pre s =
     (if take (length search) s = search then Some (pre, drop (length search) s)
      else case s of [] \<Rightarrow> None | c # cs \<Rightarrow> find_first search (pre @ [c]) cs)"

definition replace_first :: "string \<Rightarrow> string \<Rightarrow> string \<Rightarrow> string" where
  "replace_first main search repl =
     (if search = [] then repl @ main
      else case find_first search [] main of None \<Rightarrow> main | Some (pre, suf) \<Rightarrow> pre @ repl @ suf)"

definition run_REPLACEFIRST :: "evaluator \<Rightarrow> expr list \<Rightarrow> kvalue kvm" where
  "run_REPLACEFIRST ev ps =
     vbind (checkExactParamNumber ps F_REPLACEFIRST) (\<lambda>_.
     vbind (getStringParam ev ps 0) (\<lambda>main. vbind (getStringParam ev ps 1) (\<lambda>search.
     vbind (getStringParam ev ps 2) (\<lambda>repl. vlift (string_value (replace_first main search repl))))))"

definition run_SUBSTR :: "evaluator \<Rightarrow> expr list \<Rightarrow> kvalue kvm" where
  "run_SUBSTR ev ps =
     vbind (checkExactParamNumber ps F_SUBSTR) (\<lambda>_.
     vbind (getIntParam ev ps 0) (\<lambda>start. vbind (getIntParam ev ps 1) (\<lambda>stop.
     let len = stop - start in
     if \<not> fits_int len then vlift (Inl Undef)
     else if len < 0 then vthrow ExecutionException
     else vbind (getStringParam ev ps 2) (\<lambda>main.
       if start < 0 \<or> stop > int (length main) then vthrow ExecutionException
       else vlift (string_value (take (nat len) (drop (nat start) main)))))))"

subsection \<open>Digests, proofs and signatures\<close>

definition bytes_of_value :: "kvalue \<Rightarrow> byte list kvm" where
  "bytes_of_value v = (case v of HexValue b \<Rightarrow> vret b | StringValue s \<Rightarrow> vret (bytes_of_string s)
     | _ \<Rightarrow> vthrow ExecutionException)"

definition run_SHA2 :: "kenv \<Rightarrow> evaluator \<Rightarrow> expr list \<Rightarrow> kvalue kvm" where
  "run_SHA2 env ev ps =
     vbind (checkExactParamNumber ps F_SHA2) (\<lambda>_. vbind (getParameter ev ps 0) (\<lambda>v.
     vbind (bytes_of_value v) (\<lambda>b. vlift (hex_value (hashSHA2 (e_crypto env) b)))))"

definition run_SHA3 :: "kenv \<Rightarrow> evaluator \<Rightarrow> expr list \<Rightarrow> kvalue kvm" where
  "run_SHA3 env ev ps =
     vbind (checkExactParamNumber ps F_SHA3) (\<lambda>_. vbind (getParameter ev ps 0) (\<lambda>v.
     vbind (bytes_of_value v) (\<lambda>b. vlift (hex_value (hashData (e_crypto env) b)))))"

text \<open>The first parameter of \<open>PROOF\<close> is data or a string: it is evaluated again when taking it as data has
  thrown an \<open>ExecutionException\<close>.\<close>

definition run_PROOF :: "kenv \<Rightarrow> evaluator \<Rightarrow> expr list \<Rightarrow> kvalue kvm" where
  "run_PROOF env ev ps =
     vbind (checkExactParamNumber ps F_PROOF) (\<lambda>_.
     vbind (getNumberParam ev ps 1) (\<lambda>sumval.
     vbind (vcatch
       (vbind (getHexParam ev ps 0) (\<lambda>b.
          vlift (CreateMMRDataLeafNode (e_crypto env) (Inr (md_writeDataStream (md b))) sumval)))
       (vbind (getStringParam ev ps 0) (\<lambda>s.
          vlift (CreateMMRDataLeafNode (e_crypto env) (Inr (ms_writeDataStream s)) sumval)))) (\<lambda>mmrdata.
     vbind (getHexParam ev ps 2) (\<lambda>roothex. vbind (getNumberParam ev ps 3) (\<lambda>rootsum.
     vbind (getHexParam ev ps 4) (\<lambda>chain.
     vbind (vrethrow (vlift (proof_convertMiniDataVersion chain))) (\<lambda>proof.
     vlift (bindE (calculateProof (e_crypto env) proof mmrdata) (\<lambda>rt.
       Inr (BooleanValue (d_isEqual rt (mmr_data roothex rootsum)))))))))))) "

text \<open>A verifier is a tree key that has only a public key.\<close>

definition checker_verify :: "crypto \<Rightarrow> byte list \<Rightarrow> byte list \<Rightarrow> signature \<Rightarrow> bool result" where
  "checker_verify c zPublicKey zData zSignature =
     (if int (length zSignature) > MAX_KEY_LEVELS then Inr False
      else case zSignature of [] \<Rightarrow> Inr False
      | s # ss \<Rightarrow> bindE (getRootPublicKey c s) (\<lambda>r.
          if r \<noteq> zPublicKey then Inr False else verify_levels c zData zSignature))"

definition run_CHECKSIG :: "kenv \<Rightarrow> evaluator \<Rightarrow> expr list \<Rightarrow> kvalue kvm" where
  "run_CHECKSIG env ev ps =
     vbind (checkExactParamNumber ps F_CHECKSIG) (\<lambda>_.
     vbind (incrementInstructions 31) (\<lambda>_.
     vbind (getHexParam ev ps 0) (\<lambda>pubk. vbind (getHexParam ev ps 1) (\<lambda>sigdata.
     vbind (getHexParam ev ps 2) (\<lambda>sig.
     vbind (vguard (\<not> (length pubk = 0 \<or> length sig = 0))) (\<lambda>_.
     vbind (vlift (sig_convertMiniDataVersion sig)) (\<lambda>signature.
     vlift (case signature of
       None \<Rightarrow> Inr (BooleanValue False)
     | Some s \<Rightarrow> bindE (checker_verify (e_crypto env) pubk sigdata s) (\<lambda>ok. Inr (BooleanValue ok))))))))))"

fun multisig_loop :: "evaluator \<Rightarrow> int \<Rightarrow> int \<Rightarrow> expr list \<Rightarrow> int kvm" where
  "multisig_loop ev num found [] = vret found"
| "multisig_loop ev num found (p # ps) =
     vbind (ev p) (\<lambda>v. vbind (must_hex v) (\<lambda>sig. vbind (checkSignature sig) (\<lambda>b.
     let found = (if b then found + 1 else found) in
     if found \<ge> num then vret found else multisig_loop ev num found ps)))"

definition run_MULTISIG :: "evaluator \<Rightarrow> expr list \<Rightarrow> kvalue kvm" where
  "run_MULTISIG ev ps =
     vbind (checkMinParamNumber ps F_MULTISIG) (\<lambda>_. vbind (getIntParam ev ps 0) (\<lambda>num.
     if num < 0 then vthrow ExecutionException
     else vbind (multisig_loop ev num 0 (tl ps)) (\<lambda>found. vret (BooleanValue (found \<ge> num)))))"

definition run_SIGNEDBY :: "evaluator \<Rightarrow> expr list \<Rightarrow> kvalue kvm" where
  "run_SIGNEDBY ev ps =
     vbind (checkExactParamNumber ps F_SIGNEDBY) (\<lambda>_. vbind (getHexParam ev ps 0) (\<lambda>pubkey.
     vbind (checkSignature pubkey) (\<lambda>valid. vret (BooleanValue valid))))"

subsection \<open>State\<close>

definition run_STATE :: "evaluator \<Rightarrow> expr list \<Rightarrow> kvalue kvm" where
  "run_STATE ev ps =
     vbind (checkExactParamNumber ps F_STATE) (\<lambda>_. vbind (getIntParam ev ps 0) getState)"

definition run_PREVSTATE :: "evaluator \<Rightarrow> expr list \<Rightarrow> kvalue kvm" where
  "run_PREVSTATE ev ps =
     vbind (checkExactParamNumber ps F_PREVSTATE) (\<lambda>_. vbind (getIntParam ev ps 0) getPrevState)"

function samestate_loop :: "int \<Rightarrow> int \<Rightarrow> kvalue kvm" where
  "samestate_loop i stop =
     (if i > stop then vret (BooleanValue True)
      else vbind (getPrevState i) (\<lambda>oldv. vbind (getState i) (\<lambda>newv.
        if value_toString oldv \<noteq> value_toString newv then vret (BooleanValue False)
        else samestate_loop (i + 1) stop)))"
  by pat_completeness auto
termination by (relation "measure (\<lambda>(i, stop). nat (stop + 1 - i))") auto

declare samestate_loop.simps [simp del]

definition run_SAMESTATE :: "evaluator \<Rightarrow> expr list \<Rightarrow> kvalue kvm" where
  "run_SAMESTATE ev ps =
     vbind (checkExactParamNumber ps F_SAMESTATE) (\<lambda>_.
     vbind (getIntParam ev ps 0) (\<lambda>start. vbind (getIntParam ev ps 1) (\<lambda>stop.
     if start < 0 \<or> stop < start then vthrow ExecutionException else samestate_loop start stop)))"

subsection \<open>Inputs and outputs\<close>

definition coin_at :: "(transaction \<Rightarrow> coin list) \<Rightarrow> int \<Rightarrow> coin kvm" where
  "coin_at coins i =
     vbind (vget (\<lambda>s. coins (mTransaction s))) (\<lambda>cs.
     if i < 0 \<or> nat i \<ge> length cs then vthrow ExecutionException else vret (cs ! nat i))"

text \<open>The amount of a coin in units of its token, which must be there.\<close>

definition scaled_amount :: "coin \<Rightarrow> mininumber result" where
  "scaled_amount cc =
     (if c_tokenid cc \<noteq> TOKENID_MINIMA then
        (case c_token cc of None \<Rightarrow> Inl (Throw ExecutionException) | Some td \<Rightarrow> getScaledTokenAmount td (c_amount cc))
      else Inr (c_amount cc))"

definition coin_function :: "func \<Rightarrow> (transaction \<Rightarrow> coin list) \<Rightarrow> (coin \<Rightarrow> kvalue result) \<Rightarrow> evaluator \<Rightarrow> expr list \<Rightarrow> kvalue kvm" where
  "coin_function f coins g ev ps =
     vbind (checkExactParamNumber ps f) (\<lambda>_. vbind (getIntParam ev ps 0) (\<lambda>i.
     vbind (coin_at coins i) (\<lambda>cc. vlift (g cc))))"

definition run_GETINADDR :: "evaluator \<Rightarrow> expr list \<Rightarrow> kvalue kvm" where
  "run_GETINADDR ev ps = coin_function F_GETINADDR tx_inputs (\<lambda>cc. hex_value (c_address cc)) ev ps"

definition run_GETINTOK :: "evaluator \<Rightarrow> expr list \<Rightarrow> kvalue kvm" where
  "run_GETINTOK ev ps = coin_function F_GETINTOK tx_inputs (\<lambda>cc. hex_value (c_tokenid cc)) ev ps"

definition run_GETINAMT :: "evaluator \<Rightarrow> expr list \<Rightarrow> kvalue kvm" where
  "run_GETINAMT ev ps = coin_function F_GETINAMT tx_inputs (\<lambda>cc. bindE (scaled_amount cc) number_value) ev ps"

definition run_GETINID :: "evaluator \<Rightarrow> expr list \<Rightarrow> kvalue kvm" where
  "run_GETINID ev ps =
     vbind (checkExactParamNumber ps F_GETINID) (\<lambda>_. vbind (getIntParam ev ps 0) (\<lambda>i.
     vbind (coin_at tx_inputs i) (\<lambda>cc. vbind (vget (\<lambda>s. wt_coinproofs (mWitness s))) (\<lambda>proofs.
     if nat i \<ge> length proofs then vthrow OutOfRange
     else vlift (hex_value (c_coinid (cp_coin (proofs ! nat i))))))))"

definition run_GETOUTTOK :: "evaluator \<Rightarrow> expr list \<Rightarrow> kvalue kvm" where
  "run_GETOUTTOK ev ps = coin_function F_GETOUTTOK tx_outputs (\<lambda>cc. hex_value (c_tokenid cc)) ev ps"

definition run_GETOUTAMT :: "evaluator \<Rightarrow> expr list \<Rightarrow> kvalue kvm" where
  "run_GETOUTAMT ev ps = coin_function F_GETOUTAMT tx_outputs (\<lambda>cc. bindE (scaled_amount cc) number_value) ev ps"

definition run_GETOUTKEEPSTATE :: "evaluator \<Rightarrow> expr list \<Rightarrow> kvalue kvm" where
  "run_GETOUTKEEPSTATE ev ps =
     coin_function F_GETOUTKEEPSTATE tx_outputs (\<lambda>cc. Inr (BooleanValue (c_storestate cc))) ev ps"

text \<open>\<open>std::stoll\<close>: an optional sign and the digits that follow.\<close>

definition stoll :: "string \<Rightarrow> int result" where
  "stoll s =
     (let s = dropWhile is_space s; neg = (s \<noteq> [] \<and> hd s = CHR ''-'');
          s = (if s \<noteq> [] \<and> (hd s = CHR ''-'' \<or> hd s = CHR ''+'') then tl s else s);
          digits = takeWhile is_digit s; v = (if neg then - int (dec_val digits) else int (dec_val digits))
      in if digits = [] then Inl (Throw InvalidArgument)
         else if v < - (2 ^ 63) \<or> v \<ge> 2 ^ 63 then Inl (Throw OutOfRange)
         else Inr v)"

definition run_GETOUTADDR :: "evaluator \<Rightarrow> expr list \<Rightarrow> kvalue kvm" where
  "run_GETOUTADDR ev ps =
     vbind (checkExactParamNumber ps F_GETOUTADDR) (\<lambda>_. vbind (getNumberParam ev ps 0) (\<lambda>m.
     vbind (vrethrow (vlift (stoll (to_plain_string m)))) (\<lambda>i.
     vbind (vguard (fits_int i)) (\<lambda>_.
     vbind (coin_at tx_outputs i) (\<lambda>cc. vlift (hex_value (c_address cc)))))))"

text \<open>The sum skips an input that has no token; an output that has none is a null pointer.\<close>

fun sum_scaled :: "bool \<Rightarrow> byte list \<Rightarrow> mininumber \<Rightarrow> coin list \<Rightarrow> mininumber result" where
  "sum_scaled skip tokenid tot [] = Inr tot"
| "sum_scaled skip tokenid tot (cc # cs) =
     (if c_tokenid cc = tokenid then
        (if tokenid = TOKENID_MINIMA then bindE (mn_add tot (c_amount cc)) (\<lambda>t. sum_scaled skip tokenid t cs)
         else case c_token cc of
           None \<Rightarrow> if skip then sum_scaled skip tokenid tot cs else Inl Undef
         | Some td \<Rightarrow> bindE (getScaledTokenAmount td (c_amount cc)) (\<lambda>scaled.
             bindE (mn_add tot scaled) (\<lambda>t. sum_scaled skip tokenid t cs)))
      else sum_scaled skip tokenid tot cs)"

definition run_SUMINPUTS :: "evaluator \<Rightarrow> expr list \<Rightarrow> kvalue kvm" where
  "run_SUMINPUTS ev ps =
     vbind (checkExactParamNumber ps F_SUMINPUTS) (\<lambda>_. vbind (getHexParam ev ps 0) (\<lambda>tokenid.
     vbind (vget (\<lambda>s. tx_inputs (mTransaction s))) (\<lambda>cs.
     vlift (bindE (sum_scaled True tokenid mn_ZERO cs) number_value))))"

definition run_SUMOUTPUTS :: "evaluator \<Rightarrow> expr list \<Rightarrow> kvalue kvm" where
  "run_SUMOUTPUTS ev ps =
     vbind (checkExactParamNumber ps F_SUMOUTPUTS) (\<lambda>_. vbind (getHexParam ev ps 0) (\<lambda>tokenid.
     vbind (vget (\<lambda>s. tx_outputs (mTransaction s))) (\<lambda>cs.
     vlift (bindE (sum_scaled False tokenid mn_ZERO cs) number_value))))"

definition run_VERIFYIN :: "evaluator \<Rightarrow> expr list \<Rightarrow> kvalue kvm" where
  "run_VERIFYIN ev ps =
     vbind (checkExactParamNumber ps F_VERIFYIN) (\<lambda>_.
     vbind (getIntParam ev ps 0) (\<lambda>i. vbind (getHexParam ev ps 1) (\<lambda>addr.
     vbind (getNumberParam ev ps 2) (\<lambda>amount. vbind (getHexParam ev ps 3) (\<lambda>tokenid.
     vbind (coin_at tx_inputs i) (\<lambda>cc. vbind (vlift (scaled_amount cc)) (\<lambda>inamt.
     vret (BooleanValue (addr = c_address cc \<and> mn_isEqual inamt amount \<and> tokenid = c_tokenid cc)))))))))"

definition run_VERIFYOUT :: "evaluator \<Rightarrow> expr list \<Rightarrow> kvalue kvm" where
  "run_VERIFYOUT ev ps =
     vbind (vguard (\<not> (length ps < 4 \<or> length ps > 5))) (\<lambda>_.
     vbind (getIntParam ev ps 0) (\<lambda>i. vbind (getHexParam ev ps 1) (\<lambda>addr.
     vbind (getNumberParam ev ps 2) (\<lambda>amount. vbind (getHexParam ev ps 3) (\<lambda>tokenid.
     vbind (if length ps = 5 then vbind (getBoolParam ev ps 4) (\<lambda>b. vret (Some b)) else vret None) (\<lambda>keepstate.
     vbind (coin_at tx_outputs i) (\<lambda>cc. vbind (vlift (scaled_amount cc)) (\<lambda>outamt.
     vret (BooleanValue (addr = c_address cc \<and> mn_isEqual outamt amount \<and> tokenid = c_tokenid cc
       \<and> (case keepstate of None \<Rightarrow> True | Some b \<Rightarrow> c_storestate cc = b)))))))))))"

subsection \<open>Running a function\<close>

fun runFunction :: "kenv \<Rightarrow> evaluator \<Rightarrow> (stmt list \<Rightarrow> unit kvm) \<Rightarrow> func \<Rightarrow> expr list \<Rightarrow> kvalue kvm" where
  "runFunction env ev runb F_CONCAT ps = run_CONCAT ev ps"
| "runFunction env ev runb F_LEN ps = run_LEN ev ps"
| "runFunction env ev runb F_REV ps = run_REV ev ps"
| "runFunction env ev runb F_SUBSET ps = run_SUBSET ev ps"
| "runFunction env ev runb F_GET ps = run_GET ev ps"
| "runFunction env ev runb F_EXISTS ps = run_EXISTS ev ps"
| "runFunction env ev runb F_ADDRESS ps = run_ADDRESS env ev ps"
| "runFunction env ev runb F_BOOL ps = run_BOOL ev ps"
| "runFunction env ev runb F_HEX ps = run_HEX ev ps"
| "runFunction env ev runb F_NUMBER ps = run_NUMBER ev ps"
| "runFunction env ev runb F_STRING ps = run_STRING ev ps"
| "runFunction env ev runb F_ASCII ps = run_ASCII ev ps"
| "runFunction env ev runb F_UTF8 ps = run_UTF8 ev ps"
| "runFunction env ev runb F_ABS ps = run_ABS ev ps"
| "runFunction env ev runb F_CEIL ps = run_CEIL ev ps"
| "runFunction env ev runb F_FLOOR ps = run_FLOOR ev ps"
| "runFunction env ev runb F_MAX ps = run_MAX ev ps"
| "runFunction env ev runb F_MIN ps = run_MIN ev ps"
| "runFunction env ev runb F_DEC ps = run_DEC ev ps"
| "runFunction env ev runb F_INC ps = run_INC ev ps"
| "runFunction env ev runb F_SIGDIG ps = run_SIGDIG ev ps"
| "runFunction env ev runb F_POW ps = run_POW ev ps"
| "runFunction env ev runb F_SQRT ps = run_SQRT env ev ps"
| "runFunction env ev runb F_FUNCTION ps = run_FUNCTION ev runb ps"
| "runFunction env ev runb F_SUMINPUTS ps = run_SUMINPUTS ev ps"
| "runFunction env ev runb F_SUMOUTPUTS ps = run_SUMOUTPUTS ev ps"
| "runFunction env ev runb F_SETLEN ps = run_SETLEN ev ps"
| "runFunction env ev runb F_REPLACE ps = run_REPLACE ev ps"
| "runFunction env ev runb F_REPLACEFIRST ps = run_REPLACEFIRST ev ps"
| "runFunction env ev runb F_SUBSTR ps = run_SUBSTR ev ps"
| "runFunction env ev runb F_OVERWRITE ps = run_OVERWRITE ev ps"
| "runFunction env ev runb F_SHA2 ps = run_SHA2 env ev ps"
| "runFunction env ev runb F_SHA3 ps = run_SHA3 env ev ps"
| "runFunction env ev runb F_PROOF ps = run_PROOF env ev ps"
| "runFunction env ev runb F_BITSET ps = run_BITSET ev ps"
| "runFunction env ev runb F_BITGET ps = run_BITGET ev ps"
| "runFunction env ev runb F_BITCOUNT ps = run_BITCOUNT ev ps"
| "runFunction env ev runb F_SIGNEDBY ps = run_SIGNEDBY ev ps"
| "runFunction env ev runb F_MULTISIG ps = run_MULTISIG ev ps"
| "runFunction env ev runb F_CHECKSIG ps = run_CHECKSIG env ev ps"
| "runFunction env ev runb F_GETINADDR ps = run_GETINADDR ev ps"
| "runFunction env ev runb F_GETINAMT ps = run_GETINAMT ev ps"
| "runFunction env ev runb F_GETINID ps = run_GETINID ev ps"
| "runFunction env ev runb F_GETINTOK ps = run_GETINTOK ev ps"
| "runFunction env ev runb F_VERIFYIN ps = run_VERIFYIN ev ps"
| "runFunction env ev runb F_GETOUTADDR ps = run_GETOUTADDR ev ps"
| "runFunction env ev runb F_GETOUTAMT ps = run_GETOUTAMT ev ps"
| "runFunction env ev runb F_GETOUTTOK ps = run_GETOUTTOK ev ps"
| "runFunction env ev runb F_GETOUTKEEPSTATE ps = run_GETOUTKEEPSTATE ev ps"
| "runFunction env ev runb F_VERIFYOUT ps = run_VERIFYOUT ev ps"
| "runFunction env ev runb F_STATE ps = run_STATE ev ps"
| "runFunction env ev runb F_PREVSTATE ps = run_PREVSTATE ev ps"
| "runFunction env ev runb F_SAMESTATE ps = run_SAMESTATE ev ps"

end
