(* ===== verification/KissEval.thy ===== *)
theory KissEval
  imports KissFunctions
begin

text \<open>
  Expressions, statements and the running of a contract (\<open>expressions\<close>, \<open>statements\<close> and \<open>Contract::run\<close>
  under \<open>src/org/minima/kissvm\<close>). Evaluation is recursive through functions and scripts run inside
  scripts; its fuel bounds the depth, and every level of it and every round of a loop takes an
  instruction, so one more than the instructions left is always enough (see \<open>KissLaws\<close>).
\<close>

subsection \<open>Boolean expressions\<close>

text \<open>The casts after a type check.\<close>

fun isTrue :: "kvalue \<Rightarrow> bool" where
  "isTrue (BooleanValue b) = b"
| "isTrue _ = False"

fun getNumber :: "kvalue \<Rightarrow> mininumber" where
  "getNumber (NumberValue m) = m"
| "getNumber _ = mn_ZERO"

fun getMiniData :: "kvalue \<Rightarrow> byte list" where
  "getMiniData (HexValue b) = b"
| "getMiniData _ = []"

definition boolean_result :: "bool_op \<Rightarrow> kvalue \<Rightarrow> kvalue \<Rightarrow> kvalue result" where
  "boolean_result mBooleanType lval rval =
     bindE (if mBooleanType \<noteq> BOOLEAN_NOT then checkSameType lval rval else Inr ()) (\<lambda>_.
     let bools = (\<lambda>b. bindE (verifyType lval VALUE_BOOLEAN) (\<lambda>_. Inr (BooleanValue b)));
         nums = (\<lambda>b. bindE (verifyType lval VALUE_NUMBER) (\<lambda>_. Inr (BooleanValue b)))
     in case mBooleanType of
       BOOLEAN_AND \<Rightarrow> bools (isTrue lval \<and> isTrue rval)
     | BOOLEAN_NAND \<Rightarrow> bools (\<not> (isTrue lval \<and> isTrue rval))
     | BOOLEAN_OR \<Rightarrow> bools (isTrue lval \<or> isTrue rval)
     | BOOLEAN_NOR \<Rightarrow> bools (\<not> (isTrue lval \<or> isTrue rval))
     | BOOLEAN_XOR \<Rightarrow> bools (isTrue lval \<noteq> isTrue rval)
     | BOOLEAN_NXOR \<Rightarrow> bools (\<not> (isTrue lval \<noteq> isTrue rval))
     | BOOLEAN_NOT \<Rightarrow> bools (\<not> isTrue lval)
     | BOOLEAN_EQ \<Rightarrow> Inr (BooleanValue (value_isEqual lval rval))
     | BOOLEAN_NEQ \<Rightarrow> Inr (BooleanValue (\<not> value_isEqual lval rval))
     | BOOLEAN_LT \<Rightarrow> nums (mn_isLess (getNumber lval) (getNumber rval))
     | BOOLEAN_LTE \<Rightarrow> nums (mn_isLessEqual (getNumber lval) (getNumber rval))
     | BOOLEAN_GT \<Rightarrow> nums (mn_isMore (getNumber lval) (getNumber rval))
     | BOOLEAN_GTE \<Rightarrow> nums (mn_isMoreEqual (getNumber lval) (getNumber rval)))"

subsection \<open>Operators\<close>

definition strip_zero_bytes :: "byte list \<Rightarrow> byte list" where
  "strip_zero_bytes bs = (let r = dropWhile (\<lambda>b. b = 0) bs in if r = [] then [0] else r)"

definition last_bytes :: "nat \<Rightarrow> byte list \<Rightarrow> byte list" where
  "last_bytes n bs = drop (length bs - n) bs"

definition pad_left :: "nat \<Rightarrow> byte list \<Rightarrow> byte list" where
  "pad_left n bs = replicate (n - length bs) 0 @ bs"

definition andFastHEX :: "byte list \<Rightarrow> byte list \<Rightarrow> byte list" where
  "andFastHEX h1 h2 =
     (let minlen = min (length h1) (length h2)
      in strip_zero_bytes (map2 (AND) (last_bytes minlen h1) (last_bytes minlen h2)))"

definition orFastHEX :: "byte list \<Rightarrow> byte list \<Rightarrow> nat \<Rightarrow> byte list" where
  "orFastHEX h1 h2 zType =
     (let maxlen = max (length h1) (length h2)
      in strip_zero_bytes (map2 (if zType = 0 then (OR) else (XOR)) (pad_left maxlen h1) (pad_left maxlen h2)))"

definition notFastHEX :: "byte list \<Rightarrow> byte list" where
  "notFastHEX h1 = strip_zero_bytes (map NOT h1)"

definition shift_result :: "(minidata \<Rightarrow> int \<Rightarrow> minidata result) \<Rightarrow> kvalue \<Rightarrow> kvalue \<Rightarrow> kvalue result" where
  "shift_result sh lval rval =
     bindE (verifyType lval VALUE_HEX) (\<lambda>_. bindE (verifyType rval VALUE_NUMBER) (\<lambda>_.
     bindE (mn_abs (getNumber rval)) (\<lambda>ab.
     if mn_isMore ab mn_TWOFIVESIX then Inl (Throw ExecutionException)
     else bindE (sh (md (getMiniData lval)) (getAsInt (getNumber rval))) (\<lambda>d. hex_value (mData d)))))"

definition number_result :: "(mininumber \<Rightarrow> mininumber \<Rightarrow> mininumber result) \<Rightarrow> kvalue \<Rightarrow> kvalue \<Rightarrow> kvalue result" where
  "number_result f lval rval =
     bindE (checkSameTypeOf lval rval VALUE_NUMBER) (\<lambda>_.
     bindE (f (getNumber lval) (getNumber rval)) number_value)"

definition hex_result :: "(byte list \<Rightarrow> byte list \<Rightarrow> byte list) \<Rightarrow> kvalue \<Rightarrow> kvalue \<Rightarrow> kvalue result" where
  "hex_result f lval rval =
     bindE (checkSameTypeOf lval rval VALUE_HEX) (\<lambda>_. hex_value (f (getMiniData lval) (getMiniData rval)))"

definition add_result :: "kvalue \<Rightarrow> kvalue \<Rightarrow> kvalue result" where
  "add_result lval rval =
     bindE (checkSameType lval rval) (\<lambda>_. case (lval, rval) of
       (NumberValue a, NumberValue b) \<Rightarrow> bindE (mn_add a b) number_value
     | (StringValue a, StringValue b) \<Rightarrow> string_value (a @ b)
     | _ \<Rightarrow> Inl (Throw ExecutionException))"

text \<open>\<open>div\<close> with the check for a zero divisor.\<close>

definition div_checked :: "mininumber \<Rightarrow> mininumber \<Rightarrow> mininumber result" where
  "div_checked a b = (if mn_isEqual b mn_ZERO then Inl (Throw ExecutionException) else mn_div a b)"

definition operator_result :: "operator \<Rightarrow> kvalue \<Rightarrow> kvalue \<Rightarrow> kvalue result" where
  "operator_result oper lval rval =
     (case oper of
        OPERATOR_ADD \<Rightarrow> add_result lval rval
      | OPERATOR_SUB \<Rightarrow> number_result mn_sub lval rval
      | OPERATOR_MUL \<Rightarrow> number_result mn_mult lval rval
      | OPERATOR_DIV \<Rightarrow> number_result div_checked lval rval
      | OPERATOR_MODULO \<Rightarrow> number_result mn_modulo lval rval
      | OPERATOR_SHIFTL \<Rightarrow> shift_result md_shiftl lval rval
      | OPERATOR_SHIFTR \<Rightarrow> shift_result md_shiftr lval rval
      | OPERATOR_AND \<Rightarrow> hex_result andFastHEX lval rval
      | OPERATOR_OR \<Rightarrow> hex_result (\<lambda>a b. orFastHEX a b 0) lval rval
      | OPERATOR_XOR \<Rightarrow> hex_result (\<lambda>a b. orFastHEX a b 1) lval rval
      | _ \<Rightarrow> Inl (Throw ExecutionException))"

definition unary_result :: "operator \<Rightarrow> kvalue \<Rightarrow> kvalue result" where
  "unary_result oper lval =
     (case oper of
        OPERATOR_NEG \<Rightarrow> bindE (verifyType lval VALUE_NUMBER) (\<lambda>_.
          bindE (mn_mult (getNumber lval) mn_MINUSONE) number_value)
      | OPERATOR_NOT \<Rightarrow> bindE (verifyType lval VALUE_HEX) (\<lambda>_. hex_value (notFastHEX (getMiniData lval)))
      | _ \<Rightarrow> Inl (Throw ExecutionException))"

subsection \<open>Expressions\<close>

text \<open>One level of evaluation over the evaluator of the level below. The unary operators ignore a right
  operand; without one they take a second instruction.\<close>

definition is_unary :: "operator \<Rightarrow> bool" where
  "is_unary oper = (oper = OPERATOR_NEG \<or> oper = OPERATOR_NOT)"

fun getValue :: "kenv \<Rightarrow> evaluator \<Rightarrow> (stmt list \<Rightarrow> unit kvm) \<Rightarrow> evaluator" where
  "getValue env ev runb (ConstantExpression mValue) = vbind (incrementInstructions 1) (\<lambda>_. vret mValue)"
| "getValue env ev runb (GlobalExpression mGlobalType) =
     vbind (incrementInstructions 1) (\<lambda>_. getGlobal mGlobalType)"
| "getValue env ev runb (VariableExpression mVariableName) =
     vbind (incrementInstructions 1) (\<lambda>_. vbind (getVariable mVariableName) (\<lambda>val. case val of
       None \<Rightarrow> vthrow ExecutionException | Some v \<Rightarrow> vret v))"
| "getValue env ev runb (BooleanExpression mLeft mRight mBooleanType) =
     vbind (incrementInstructions 1) (\<lambda>_. vbind (ev mLeft) (\<lambda>lval. vbind (ev mRight) (\<lambda>rval.
     vlift (boolean_result mBooleanType lval rval))))"
| "getValue env ev runb (OperatorExpression mLeft mRight mOperatorType) =
     vbind (incrementInstructions 1) (\<lambda>_. vbind (ev mLeft) (\<lambda>lval.
     if is_unary mOperatorType then
       vbind (if mRight = None then incrementInstructions 1 else vret ()) (\<lambda>_. vlift (unary_result mOperatorType lval))
     else case mRight of
       None \<Rightarrow> vthrow ExecutionException
     | Some r \<Rightarrow> vbind (ev r) (\<lambda>rval. vlift (operator_result mOperatorType lval rval))))"
| "getValue env ev runb (FunctionExpression mFunction ps) =
     vbind (incrementInstructions 1) (\<lambda>_. vbind incrementStackDepth (\<lambda>_.
     vbind (runFunction env ev runb mFunction ps) (\<lambda>val. vbind decrementStackDepth (\<lambda>_. vret val))))"

subsection \<open>Statements\<close>

fun run_if :: "evaluator \<Rightarrow> (stmt list \<Rightarrow> unit kvm) \<Rightarrow> (expr \<times> stmt list) list \<Rightarrow> unit kvm" where
  "run_if ev runb [] = vret ()"
| "run_if ev runb ((cond, block) # cs) =
     vbind (ev cond) (\<lambda>v. vbind (must_bool v) (\<lambda>b. if b then runb block else run_if ev runb cs))"

fun run_while :: "nat \<Rightarrow> evaluator \<Rightarrow> (stmt list \<Rightarrow> unit kvm) \<Rightarrow> expr \<Rightarrow> stmt list \<Rightarrow> unit kvm" where
  "run_while 0 ev runb mWhileCheck mWhileBlock = vlift (Inl NoFuel)"
| "run_while (Suc n) ev runb mWhileCheck mWhileBlock =
     vbind (ev mWhileCheck) (\<lambda>v. vbind (must_bool v) (\<lambda>b.
     if b then
       vbind (runb mWhileBlock) (\<lambda>_. vbind (vget mSuccessSet) (\<lambda>done.
       if done then vret () else run_while n ev runb mWhileCheck mWhileBlock))
     else vret ()))"

text \<open>The statements; \<open>n\<close> bounds the rounds of a loop.\<close>

fun execute_stmt :: "nat \<Rightarrow> evaluator \<Rightarrow> (stmt list \<Rightarrow> unit kvm) \<Rightarrow> stmt \<Rightarrow> unit kvm" where
  "execute_stmt n ev runb (LETvariable mName mValue) = vbind (ev mValue) (setVariable mName)"
| "execute_stmt n ev runb (LETarray mArrayPos mValue) =
     vbind (array_key ev [] mArrayPos) (\<lambda>pos. vbind (ev mValue) (setVariable pos))"
| "execute_stmt n ev runb (EXECstatement mScript) =
     vbind (vrethrow (vbind (ev mScript) must_string)) (run_script runb)"
| "execute_stmt n ev runb (MASTstatement mMASTScript) =
     vbind (ev mMASTScript) (\<lambda>v. vbind (must_hex v) (\<lambda>hv.
     vbind (vget (\<lambda>s. getScript hv (mWitness s))) (\<lambda>scrpr. case scrpr of
       None \<Rightarrow> vthrow ExecutionException
     | Some sp \<Rightarrow> run_script runb (sc_script sp))))"
| "execute_stmt n ev runb (IFstatement cs) = run_if ev runb cs"
| "execute_stmt n ev runb (WHILEstatement mWhileCheck mWhileBlock) = run_while n ev runb mWhileCheck mWhileBlock"
| "execute_stmt n ev runb (ASSERTstatement mAssertValue) =
     vbind (ev mAssertValue) (\<lambda>v. vbind (must_bool v) (\<lambda>success.
     if \<not> success then setRETURNValue False else vret ()))"
| "execute_stmt n ev runb (RETURNstatement mReturnValue) =
     vbind (ev mReturnValue) (\<lambda>v. vbind (must_bool v) setRETURNValue)"

text \<open>A block stops as soon as the verdict is set; then the stack depth stays raised.\<close>

fun run_statements :: "(stmt \<Rightarrow> unit kvm) \<Rightarrow> stmt list \<Rightarrow> unit kvm" where
  "run_statements exec [] = decrementStackDepth"
| "run_statements exec (stat # stats) =
     vbind (vget mSuccessSet) (\<lambda>set. if set then vret ()
     else vbind (incrementInstructions 1) (\<lambda>_. vbind (exec stat) (\<lambda>_. run_statements exec stats)))"

definition run_block :: "(stmt \<Rightarrow> unit kvm) \<Rightarrow> stmt list \<Rightarrow> unit kvm" where
  "run_block exec mStatements = vbind incrementStackDepth (\<lambda>_. run_statements exec mStatements)"

subsection \<open>Evaluation\<close>

fun eval :: "nat \<Rightarrow> kenv \<Rightarrow> expr \<Rightarrow> kvalue kvm"
  and run :: "nat \<Rightarrow> kenv \<Rightarrow> stmt list \<Rightarrow> unit kvm" where
  "eval 0 env e = vlift (Inl NoFuel)"
| "eval (Suc n) env e = getValue env (\<lambda>x. eval n env x) (\<lambda>b. run n env b) e"
| "run 0 env b = vlift (Inl NoFuel)"
| "run (Suc n) env b =
     run_block (\<lambda>st. execute_stmt (Suc n) (\<lambda>x. eval n env x) (\<lambda>c. run n env c) st) b"

text \<open>\<open>Contract::run\<close>. The fuel covers the instructions that are left.\<close>

definition instruction_fuel :: "contract \<Rightarrow> nat" where
  "instruction_fuel s = nat (mMaxInstructions s + 1 - mNumInstructions s) + 1"

definition contract_run :: "kenv \<Rightarrow> contract \<Rightarrow> contract result" where
  "contract_run env s =
     (if \<not> mParseOK s then Inr s
      else let s = resetStackDepth s in
        case run (instruction_fuel s) env (mBlock s) s of
          (Inr u, s') \<Rightarrow> Inr s'
        | (Inl (Throw e), s') \<Rightarrow> Inr (s'\<lparr>mException := True, mSuccess := False, mSuccessSet := True\<rparr>)
        | (Inl e, s') \<Rightarrow> Inl e)"

text \<open>A script from its text to its verdict.\<close>

definition isSuccess :: "kenv \<Rightarrow> string \<Rightarrow> byte list list \<Rightarrow> witness \<Rightarrow> transaction \<Rightarrow> state_variable list \<Rightarrow> bool result" where
  "isSuccess env zRamScript zSignatures zWitness zTransaction zPrevState =
     bindE (contract_new zRamScript zSignatures zWitness zTransaction zPrevState) (\<lambda>s.
     bindE (contract_run env s) (\<lambda>s. Inr (mSuccess s)))"

end
