(* ===== verification/KeysLaws.thy ===== *)
theory KeysLaws
  imports Keys "HOL-Library.Multiset"
begin

text \<open>
  Laws of the signature scheme: the threads compute what one thread would, whatever their number and
  interleaving; a Winternitz signature verifies; its checksum stops moving every chain forward; the
  signatures of a tree key verify, for every use of the key.
\<close>

subsection \<open>Chains and threads\<close>

lemma l1_val [simp]: "l1 = 32"
  by (simp add: l1_def n_bytes_def w_param_def)

lemma getLog_8193: "getLog 8193 = 14"
  by (simp add: getLog_def getLog_loop.simps)

lemma l2_val [simp]: "l2 = 2"
  by (simp add: l2_def checksumsize_def w_param_def getLog_8193)

lemma l_total_val [simp]: "l_total = 34"
  by (simp add: l_total_def)

lemma to_hash256_length [simp]: "length (to_hash256 v) = 32"
  by (simp add: to_hash256_def)

lemma to_hash256_id [simp]: "length v = 32 \<Longrightarrow> to_hash256 v = v"
  by (simp add: to_hash256_def)

lemma sha3_length [simp]: "length (sha3_256_array c x) = 32" "length (sha3_256_bytes c x) = 32"
  by (simp_all add: sha3_256_array_def sha3_256_bytes_def)

lemma length_derive_loop [simp]: "length (derive_loop n c s) = n"
  by (induction n arbitrary: s) simp_all

lemma derive_loop_32: "x \<in> set (derive_loop n c s) \<Longrightarrow> length x = 32"
  by (induction n arbitrary: s) auto

lemma length_chain_hash [simp]: "length x = 32 \<Longrightarrow> length (chain_hash c n x) = 32"
  by (induction n arbitrary: x) simp_all

lemma chain_hash_add: "chain_hash c (m + n) x = chain_hash c n (chain_hash c m x)"
  by (induction m arbitrary: x) simp_all

lemma chain_rest: "0 \<le> m \<Longrightarrow> m \<le> 255 \<Longrightarrow> chain_hash_opt c (chain_hash_opt c x m) (255 - m) = chain_hash_opt c x 255"
  using chain_hash_add [of c "nat m" "nat (255 - m)" x] by (simp add: chain_hash_opt_def flip: nat_add_distrib)

lemma run_writes_nth:
  "length (run_writes c x ws res) = length res"
  "i < length res \<Longrightarrow> run_writes c x ws res ! i = (if i \<in> set ws then chain_hash_opt c (x ! i) 255 else res ! i)"
  by (induction ws arbitrary: res) (auto simp: nth_list_update w_param_def)

lemma takeWhile_upt_down:
  assumes "\<And>s t. P t \<Longrightarrow> s \<le> t \<Longrightarrow> P s"
  shows "set (takeWhile P [0 ..< n]) = {t. t < n \<and> P t}" "distinct (takeWhile P [0 ..< n])"
proof -
  show "set (takeWhile P [0 ..< n]) = {t. t < n \<and> P t}"
  proof (induction n)
    case (Suc n)
    show ?case
    proof (cases "\<forall>t < n. P t")
      case True
      then have "takeWhile P [0 ..< Suc n] = [0 ..< n] @ takeWhile P [n]"
        using takeWhile_append2 [of "[0 ..< n]" P "[n]"] by simp
      then show ?thesis using True by (auto simp: less_Suc_eq)
    next
      case False
      then obtain t where "t < n" "\<not> P t" by blast
      then have "takeWhile P [0 ..< Suc n] = takeWhile P [0 ..< n]"
        by (simp add: takeWhile_append1 [of t])
      moreover have "\<not> P n" using assms [of n t] \<open>t < n\<close> \<open>\<not> P t\<close> by auto
      ultimately show ?thesis using Suc by (auto simp: less_Suc_eq)
    qed
  qed simp
  show "distinct (takeWhile P [0 ..< n])" by (simp add: distinct_takeWhile)
qed

lemma ceiling_div: "0 < n \<Longrightarrow> (a::nat) \<le> n * ((a + n - 1) div n)"
proof -
  assume n: "0 < n"
  have "(a + n - 1) div n * n + (a + n - 1) mod n = a + n - 1" by (rule div_mult_mod_eq)
  moreover have "(a + n - 1) mod n < n" using n by (rule mod_less_divisor)
  ultimately show ?thesis using n unfolding mult.commute [of n] by linarith
qed

lemma thread_ranges_cover:
  assumes "0 < n"
  shows "set (concat (thread_tasks n)) = {..< l_total}"
proof (rule set_eqI)
  fix i
  let ?per = "(l_total + n - 1) div n"
  note per = ceiling_div [OF assms, of l_total]
  then have p: "0 < ?per" by (cases "?per = 0") (simp_all only: mult_0_right, simp_all)
  have in_range: "i \<in> set (thread_range ?per t) \<longleftrightarrow> i < l_total \<and> i div ?per = t" for t
  proof -
    have "i div ?per = t \<longleftrightarrow> t * ?per \<le> i \<and> i < t * ?per + ?per"
      using less_eq_div_iff_mult_less_eq [OF p, of t i] div_less_iff_less_mult [OF p, of i "Suc t"]
      by (auto simp: le_less_Suc_eq less_Suc_eq_le simp del: l_total_val)
    then show ?thesis by (auto simp: thread_range_def simp del: l_total_val)
  qed
  have P: "t * ?per < l_total \<Longrightarrow> s \<le> t \<Longrightarrow> s * ?per < l_total" for s t
    by (meson le_less_trans mult_le_mono1)
  have "i < l_total \<Longrightarrow> i div ?per < n"
    using per p less_le_trans by (simp add: div_less_iff_less_mult del: l_total_val)
  moreover have "i < l_total \<Longrightarrow> (i div ?per) * ?per < l_total"
    by (meson div_times_less_eq_dividend le_less_trans)
  moreover have "set (takeWhile (\<lambda>t. t * ?per < l_total) [0 ..< n]) = {t. t < n \<and> t * ?per < l_total}"
    by (rule takeWhile_upt_down(1)) (rule P)
  ultimately show "i \<in> set (concat (thread_tasks n)) \<longleftrightarrow> i \<in> {..< l_total}"
    using in_range
    by (auto simp: thread_tasks_def Let_def simp del: l_total_val)
qed

text \<open>Whatever the number of threads and the interleaving of their writes, the result is that of one
  loop over the chains.\<close>

lemma run_writes_all:
  assumes "set ws = {..< length x}" "length res = length x"
  shows "run_writes c x ws res = map (\<lambda>y. chain_hash_opt c y 255) x"
  using assms by (intro nth_equalityI) (simp_all add: run_writes_nth)

lemma compute_public_key_sequential:
  assumes "0 < hw" "length x = l_total"
  shows "compute_public_key_parallel c hw x = Inr (sha3_256_bytes c (concat (map (\<lambda>y. chain_hash_opt c y 255) x)))"
proof -
  have n: "0 < min hw l_total" using assms by simp
  have "run_writes c x (concat (thread_tasks (min hw l_total))) (replicate l_total (replicate 32 0))
      = map (\<lambda>y. chain_hash_opt c y 255) x"
    using thread_ranges_cover [OF n] assms(2) by (intro run_writes_all) simp_all
  then show ?thesis using n by (simp add: compute_public_key_parallel_def Let_def del: l_total_val)
qed

subsection \<open>One-time signatures\<close>

lemma checksum_digits_range: "d \<in> set (checksum_digits n x) \<Longrightarrow> 0 \<le> d \<and> d \<le> 255"
  by (induction n arbitrary: x) auto

lemma length_checksum_digits [simp]: "length (checksum_digits n x) = n"
  by (induction n arbitrary: x) simp_all

lemma byte_le_255: "int (unat (b :: byte)) \<le> 255" "uint b \<le> 255"
proof -
  show "int (unat b) \<le> 255" using unat_byte_lt [of b] by linarith
  then show "uint b \<le> 255" by simp
qed

lemma message_digits_range:
  "d \<in> set (message_digits h) \<Longrightarrow> 0 \<le> d \<and> d \<le> 255"
  by (auto simp: message_digits_def Let_def byte_le_255 dest: checksum_digits_range)

lemma length_message_digits [simp]: "length h = 32 \<Longrightarrow> length (message_digits h) = 34"
  by (simp add: message_digits_def Let_def numeral_2_eq_2)

lemma length_concat_blocks: "\<forall>y \<in> set ys. length y = n \<Longrightarrow> length (concat ys) = length ys * n"
  by (induction ys) simp_all

lemma concat_blocks:
  assumes "\<forall>y \<in> set ys. length y = n" "i < length ys"
  shows "take n (drop (i * n) (concat ys)) = ys ! i"
  using assms
proof (induction ys arbitrary: i)
  case (Cons y ys i)
  then show ?case by (cases i) simp_all
qed simp

lemma w_verify_sign:
  assumes "0 < hw" "winternitz_new c hw seed = Inr k"
  shows "w_verify c (w_public k) zData (w_sign c k zData)"
proof -
  define x where "x = derive_private_chains c seed"
  define msg where "msg = message_digits (sha3_256_bytes c zData)"
  have lx: "length x = 34" and x32: "\<forall>y \<in> set x. length y = 32"
    by (auto simp: x_def derive_private_chains_def dest: derive_loop_32)
  have k: "w_seed k = seed" "w_public k = sha3_256_bytes c (concat (map (\<lambda>y. chain_hash_opt c y 255) x))"
    using assms compute_public_key_sequential [OF assms(1), of x c] lx
    by (auto simp: winternitz_new_def x_def)
  let ?parts = "map (\<lambda>i. chain_hash_opt c (x ! i) (msg ! i)) [0 ..< 34]"
  have sig: "w_sign c k zData = concat ?parts"
    by (simp add: w_sign_def k Let_def flip: x_def msg_def)
  have parts: "\<forall>y \<in> set ?parts. length y = 32" using lx x32 by (auto simp: chain_hash_opt_def)
  then have len: "length (concat ?parts) = 34 * 32"
    by (simp only: length_concat_blocks length_map length_upt)
  have range: "i < 34 \<Longrightarrow> 0 \<le> msg ! i \<and> msg ! i \<le> 255" for i
    using message_digits_range [of "msg ! i" "sha3_256_bytes c zData"] by (simp add: msg_def)
  have "map (\<lambda>i. chain_hash_opt c (take n_bytes (drop (i * n_bytes) (concat ?parts))) (255 - msg ! i)) [0 ..< 34]
      = map (\<lambda>y. chain_hash_opt c y 255) x"
    using concat_blocks [OF parts] range lx
    by (intro nth_equalityI) (simp_all add: n_bytes_def chain_rest)
  then show ?thesis
    using len by (simp add: w_verify_def sig Let_def k n_bytes_def w_param_def flip: msg_def)
qed

text \<open>The checksum: no digest has digits that are all at least those of another one.\<close>

lemma checksum_value: "0 \<le> x \<Longrightarrow> x < 65536 \<Longrightarrow> checksum_digits 2 x = [x mod 256, x div 256]"
  by (simp add: numeral_2_eq_2)

lemma sum_list_strict:
  assumes "length xs = length ys" "\<forall>i < length xs. (xs ! i :: int) \<le> ys ! i" "xs \<noteq> ys"
  shows "sum_list xs < sum_list ys"
  using assms
proof (induction xs ys rule: list_induct2)
  case (Cons x xs y ys)
  have le: "x \<le> y" "\<forall>i < length xs. xs ! i \<le> ys ! i" using Cons.prems(1) by (auto dest: spec [of _ "Suc _"])
  show ?case
  proof (cases "xs = ys")
    case False
    then show ?thesis using Cons.IH le by simp
  qed (use Cons.prems(2) le in simp)
qed simp

lemma sum_digits: "length h = 32 \<Longrightarrow> 0 \<le> sum_list (map (\<lambda>b. int (unat (b::byte))) h)
    \<and> sum_list (map (\<lambda>b. int (unat b)) h) \<le> 8160"
  using sum_list_mono [of h "\<lambda>b. int (unat b)" "\<lambda>b. 255"] sum_list_nonneg [of "map (\<lambda>b. int (unat b)) h"]
  by (auto simp: byte_le_255 sum_list_triv)

lemma checksum_no_dominance:
  assumes "length h = 32" "length h' = 32" "h \<noteq> h'"
  shows "\<exists>i < 34. message_digits h' ! i < message_digits h ! i"
proof (rule ccontr)
  assume "\<not> (\<exists>i < 34. message_digits h' ! i < message_digits h ! i)"
  then have le: "i < 34 \<Longrightarrow> message_digits h ! i \<le> message_digits h' ! i" for i by (meson not_less)
  let ?m = "\<lambda>h. map (\<lambda>b. int (unat (b::byte))) h"
  let ?c = "\<lambda>h. 8192 - sum_list (?m h)"
  have md: "message_digits g = ?m g @ [?c g mod 256, ?c g div 256]" if "length g = 32" for g
    using sum_digits [OF that] by (simp add: message_digits_def Let_def checksum_value w_param_def del: of_nat_unat)
  have "i < 32 \<Longrightarrow> ?m h ! i \<le> ?m h' ! i" for i
    using le [of i] assms(1,2) by (simp add: md nth_append del: of_nat_unat)
  moreover have "inj (\<lambda>b. int (unat (b::byte)))" by (rule injI) (metis of_nat_eq_iff word_unat_eq_iff)
  then have "?m h \<noteq> ?m h'" using assms(3) inj_map_eq_map by blast
  ultimately have s: "sum_list (?m h) < sum_list (?m h')"
    using assms(1,2) by (intro sum_list_strict) simp_all
  have "?c h mod 256 \<le> ?c h' mod 256" "?c h div 256 \<le> ?c h' div 256"
    using le [of 32] le [of 33] assms(1,2) by (simp_all add: md nth_append del: of_nat_unat)
  then have "?c h \<le> ?c h'"
    using div_mult_mod_eq [of "?c h" 256] div_mult_mod_eq [of "?c h'" 256] by linarith
  then show False using s by simp
qed
subsection \<open>Nodes of a tree of keys\<close>

lemma mn_of_int_small: "\<bar>i\<bar> < 2 ^ 32 \<Longrightarrow> \<exists>x. mn_of_int i = Inr x"
  using finish_short [of i 0]
  by (simp add: mn_of_int_def small_def big_def MAX_DECIMAL_PLACES_def MAX_DIGITS_def in_range_def get_max_value_def)

text \<open>The leaf of a public key.\<close>

definition key_leaf :: "crypto \<Rightarrow> byte list \<Rightarrow> mmrdata" where
  "key_leaf c pub = mmr_data (hashData c (concat [mn_writeDataStream mn_ZERO, md_writeDataStream (md pub), mn_writeDataStream mn_ZERO])) mn_ZERO"

lemma CreateMMRDataLeafNode_key:
  "CreateMMRDataLeafNode c (Inr (md_writeDataStream (md pub))) mn_ZERO = Inr (key_leaf c pub)"
  by (simp add: CreateMMRDataLeafNode_def hashAllObjects_def key_leaf_def)

lemma key_leaf_clone: "d_Clone (key_leaf c pub) = key_leaf c pub"
  by (simp add: key_leaf_def d_Clone_def mmr_data_def)

definition leaves :: "crypto \<Rightarrow> winternitz list \<Rightarrow> mmrdata list" where
  "leaves c ks = map (\<lambda>k. key_leaf c (w_public k)) ks"

lemma zeros_leaves: "zeros (leaves c ks)"
  by (simp add: zeros_def leaves_def key_leaf_def mmr_data_def)

definition key_ok :: "crypto \<Rightarrow> winternitz \<Rightarrow> bool" where
  "key_ok c k = (\<forall>d. w_verify c (w_public k) d (w_sign c k d))"

lemma winternitz_new_ok: "0 < hw \<Longrightarrow> \<exists>k. winternitz_new c hw seed = Inr k \<and> key_ok c k"
proof -
  assume hw: "0 < hw"
  then obtain k where k: "winternitz_new c hw seed = Inr k"
    using compute_public_key_sequential [OF hw, of "derive_private_chains c seed" c]
    by (auto simp: winternitz_new_def derive_private_chains_def)
  then show ?thesis using w_verify_sign [OF hw k] by (auto simp: key_ok_def)
qed

lemma hash_bytes: "hashAllObjects c [Inr a, Inr b] = Inr (hashData c (a @ b))"
  "hashObject c (Inr a) = Inr (hashData c a)"
  by (simp_all add: hashAllObjects_def hashObject_def)

lemma make_keys_ok:
  assumes "0 < hw" "0 \<le> i" "i + int n < 2 ^ 31" "mmr_inv c ds tree" "zeros ds" "length ds + n < 2 ^ 31"
  shows "\<exists>ks tree'. make_keys n c hw zPrivateSeed i tree = Inr (ks, tree') \<and> length ks = n
    \<and> (\<forall>k \<in> set ks. key_ok c k) \<and> add_list c (leaves c ks) tree = Inr tree'"
  using assms(2-)
proof (induction n arbitrary: i ds tree)
  case (Suc n i ds tree)
  obtain idx where idx: "mn_of_int i = Inr idx" using mn_of_int_small [of i] Suc.prems(1,2) by auto
  obtain k where k: "winternitz_new c hw (hashData c (mn_writeDataStream idx @ md_writeDataStream (md zPrivateSeed))) = Inr k"
      "key_ok c k" using winternitz_new_ok [OF assms(1)] by blast
  let ?l = "key_leaf c (w_public k)"
  have z: "zeros (ds @ [?l])" using Suc.prems(4) by (simp add: zeros_def key_leaf_def mmr_data_def)
  have "(2::nat) ^ 31 < 2 ^ MAXROWS" by (simp add: MAXROWS_def)
  then have "outcome {} (\<lambda>(e, m'). mmr_inv c (ds @ [?l]) m') (addEntry c [] ?l tree)"
    using addEntry_outcome [OF Suc.prems(3), of ?l] zeros_sums [OF z, of c] Suc.prems(5) by simp
  then obtain e t1 where a: "addEntry c [] ?l tree = Inr (e, t1)" "mmr_inv c (ds @ [?l]) t1"
    by (cases "addEntry c [] ?l tree") auto
  from Suc.IH [OF _ _ a(2) z, of "i + 1"] Suc.prems obtain ks t2 where r:
      "make_keys n c hw zPrivateSeed (i + 1) t1 = Inr (ks, t2)" "length ks = n" "\<forall>k \<in> set ks. key_ok c k"
      "add_list c (leaves c ks) t1 = Inr t2" by auto
  show ?case
    using idx k a(1) r by (simp add: hash_bytes CreateMMRDataLeafNode_key leaves_def)
qed (simp add: leaves_def)

text \<open>A signature proof links a parent root to what it signs.\<close>

definition links :: "crypto \<Rightarrow> sigproof \<Rightarrow> byte list \<Rightarrow> byte list \<Rightarrow> bool" where
  "links c sp pub dat = (getRootPublicKey c sp = Inr pub \<and> w_verify c (sp_public sp) dat (sp_signature sp))"

definition node_base :: "crypto \<Rightarrow> int \<Rightarrow> mmr \<Rightarrow> winternitz list \<Rightarrow> byte list \<Rightarrow> bool" where
  "node_base c sz tree ks pub = (0 < sz \<and> sz < 2 ^ 30 \<and> int (length ks) = sz \<and> (\<forall>k \<in> set ks. key_ok c k)
     \<and> add_list c (leaves c ks) mmr_new = Inr tree \<and> (\<exists>d. getRoot c tree = Inr (Some d) \<and> d_hash d = pub))"

inductive node_ok :: "crypto \<Rightarrow> int \<Rightarrow> tree_node \<Rightarrow> bool" for c sz where
  "node_base c sz tree ks pub \<Longrightarrow> int (length chs) = sz
   \<Longrightarrow> (\<And>i ch. i < length chs \<Longrightarrow> chs ! i = Some ch \<Longrightarrow> node_ok c sz ch)
   \<Longrightarrow> (\<And>i ch sp. i < length chs \<Longrightarrow> chs ! i = Some ch \<Longrightarrow> mParentChildSig ch = Some sp
          \<Longrightarrow> links c sp pub (mPublicKey ch))
   \<Longrightarrow> node_ok c sz (Tree_Node sz seed chs tree ks pub sg)"

inductive_cases node_okE: "node_ok c sz (Tree_Node s seed chs tree ks pub sg)"

lemma node_new_ok:
  assumes "0 < hw" "0 < sz" "sz < 2 ^ 30"
  shows "\<exists>t. node_new c hw seed sz = Inr t \<and> node_ok c sz t \<and> mSize t = sz \<and> mParentChildSig t = None"
proof -
  have "nat sz < 2 ^ 31" using assms by (simp add: nat_less_iff)
  then obtain ks tree where k: "make_keys (nat sz) c hw seed 0 mmr_new = Inr (ks, tree)" "length ks = nat sz"
      "\<forall>k \<in> set ks. key_ok c k" "add_list c (leaves c ks) mmr_new = Inr tree"
    using make_keys_ok [OF assms(1) _ _ mmr_new_inv, of 0 "nat sz" c seed] assms by (simp add: zeros_def) blast
  have inv: "mmr_inv c (leaves c ks) tree" using add_list_inv [OF mmr_new_inv k(4)] by simp
  have ne: "leaves c ks \<noteq> []" using k(2) assms(2) by (auto simp: leaves_def)
  have "outcome {} (\<lambda>r. r \<noteq> None) (getRoot c tree)"
    using getRoot_outcome [OF inv _ ne] zeros_sums [OF zeros_leaves, of c c ks] zeros_leaves [of c ks]
    by (simp add: bag_errors_def)
  then obtain d where d: "getRoot c tree = Inr (Some d)" by (cases "getRoot c tree") auto
  let ?t = "Tree_Node sz (hashData c (md_writeDataStream (md seed))) (replicate (nat sz) None) tree ks (d_hash d) None"
  have "node_new c hw seed sz = Inr ?t"
    using assms(2) k(1) d by (simp add: node_new_def hash_bytes)
  moreover have "node_ok c sz ?t"
    using k d assms by (intro node_ok.intros) (auto simp: node_base_def)
  ultimately show ?thesis by auto
qed

subsection \<open>Signing along the tree\<close>

lemma bag_ok_zeros: "full ps \<Longrightarrow> zeros (datas ps) \<Longrightarrow> bag_ok n c ps"
proof (induction n arbitrary: ps)
  case (Suc n ps)
  have c: "d_Clone x = x" "d_value x = mn_ZERO" if "x \<in> set (datas ps)" for x
    using Suc.prems that by (auto simp: full_def datas_def zeros_def)
  then have "d_hash x = d_hash y \<Longrightarrow> x = y" if "x \<in> set (datas ps)" "y \<in> set (datas ps)" for x y
    using that by (metis d_Clone_def)
  then have "hash_functional (datas ps)" by (simp add: hash_functional_def list_all_iff)
  moreover have "bag_ok n c (getPeaks m)" if "add_peaks c ps mmr_new = Inr m" for m
  proof -
    have "mmr_inv c (datas ps) m"
      using add_list_inv [OF mmr_new_inv] that add_peaks_list [OF Suc.prems(1)] by simp
    then show ?thesis using Suc.IH full_getPeaks zeros_peaks Suc.prems(2) by blast
  qed
  ultimately show ?case by (simp split: sum.split)
qed simp

lemma node_getProof_ok:
  assumes b: "node_base c sz tree ks pub" and k: "0 \<le> k" "k < sz" and t: "mTree t = tree" "mSize t = sz"
  shows "\<exists>p. node_getProof c k t = Inr p
    \<and> getRootPublicKey c \<lparr>sp_public = w_public (ks ! nat k), sp_signature = sig, sp_proof = p\<rparr> = Inr pub"
proof -
  obtain d where a: "add_list c (leaves c ks) mmr_new = Inr tree" and r: "getRoot c tree = Inr (Some d)"
      "d_hash d = pub" and l: "int (length ks) = sz" using b by (auto simp: node_base_def)
  have inv: "mmr_inv c (leaves c ks) tree" using add_list_inv [OF mmr_new_inv a] by simp
  have "bag_ok (Suc (length (getPeaks tree))) c (getPeaks tree)"
    using full_getPeaks [OF inv] zeros_peaks [OF inv zeros_leaves] by (rule bag_ok_zeros)
  moreover have i: "nat k < length ks" using k l by simp
  ultimately obtain p where p: "getProof c [] tree (en k) = Inr p" "calculateProof c p (leaves c ks ! nat k) = Inr d"
    using getProof_reaches_root [OF a _ r(1), of "nat k"] k by (auto simp: leaves_def)
  then show ?thesis using k t r(2) i
    by (simp add: node_getProof_def getRootPublicKey_def CreateMMRDataLeafNode_key leaves_def)
qed

lemma node_okD:
  assumes "node_ok c sz t"
  shows "mSize t = sz" "node_base c sz (mTree t) (mKeys t) (mPublicKey t)" "int (length (mChildren t)) = sz"
    "i < length (mChildren t) \<Longrightarrow> mChildren t ! i = Some ch \<Longrightarrow> node_ok c sz ch"
    "i < length (mChildren t) \<Longrightarrow> mChildren t ! i = Some ch \<Longrightarrow> mParentChildSig ch = Some sp
      \<Longrightarrow> links c sp (mPublicKey t) (mPublicKey ch)"
  using assms by (cases; auto)+

lemma set_child_sel [simp]:
  "mSize (set_child i ch t) = mSize t" "mTree (set_child i ch t) = mTree t" "mKeys (set_child i ch t) = mKeys t"
  "mPublicKey (set_child i ch t) = mPublicKey t" "mParentChildSig (set_child i ch t) = mParentChildSig t"
  "mChildren (set_child i ch t) = (mChildren t)[i := Some ch]" "mChildSeed (set_child i ch t) = mChildSeed t"
  by (cases t; simp add: set_child_def)+

lemma setParentChildSig_sel [simp]:
  "mParentChildSig (setParentChildSig sp t) = Some sp" "mPublicKey (setParentChildSig sp t) = mPublicKey t"
  by (cases t; simp add: setParentChildSig_def)+

lemma node_ok_sel:
  assumes "node_base c sz (mTree t) (mKeys t) (mPublicKey t)" "int (length (mChildren t)) = sz" "mSize t = sz"
    "\<And>i ch. i < length (mChildren t) \<Longrightarrow> mChildren t ! i = Some ch \<Longrightarrow> node_ok c sz ch"
    "\<And>i ch sp. i < length (mChildren t) \<Longrightarrow> mChildren t ! i = Some ch \<Longrightarrow> mParentChildSig ch = Some sp
      \<Longrightarrow> links c sp (mPublicKey t) (mPublicKey ch)"
  shows "node_ok c sz t"
  using assms by (cases t) (auto intro: node_ok.intros)

lemma node_ok_set_child:
  assumes "node_ok c sz t" "node_ok c sz ch"
    "\<And>sp. mParentChildSig ch = Some sp \<Longrightarrow> links c sp (mPublicKey t) (mPublicKey ch)"
  shows "node_ok c sz (set_child i ch t)"
proof (rule node_ok_sel)
  fix j ch' assume j: "j < length (mChildren (set_child i ch t))" "mChildren (set_child i ch t) ! j = Some ch'"
  then have "ch' = ch \<or> mChildren t ! j = Some ch'" by (cases "i = j") auto
  then show "node_ok c sz ch'" using node_okD(4) [OF assms(1)] assms(2) j(1) by auto
  fix sp assume sp: "mParentChildSig ch' = Some sp"
  show "links c sp (mPublicKey (set_child i ch t)) (mPublicKey ch')"
    using \<open>ch' = ch \<or> mChildren t ! j = Some ch'\<close> node_okD(5) [OF assms(1)] assms(3) j(1) sp by auto
qed (use node_okD(1-3) [OF assms(1)] in auto)

lemma node_ok_parent_sig: "node_ok c sz t \<Longrightarrow> node_ok c sz (setParentChildSig sp t)"
  by (erule node_ok.cases) (auto simp: setParentChildSig_def intro: node_ok.intros)

lemma getChild_ok:
  assumes hw: "0 < hw" and n: "node_ok c sz t" and k: "0 \<le> k" "k < sz"
  obtains ch t' where "getChild c hw k t = Inr (ch, t')" "node_ok c sz ch" "node_ok c sz t'"
    "\<And>sp. mParentChildSig ch = Some sp \<Longrightarrow> links c sp (mPublicKey t) (mPublicKey ch)"
    "mPublicKey t' = mPublicKey t" "mParentChildSig t' = mParentChildSig t"
proof (cases "mChildren t ! nat k")
  case (Some ch)
  then show thesis
    using node_okD(4,5) [OF n, of "nat k" ch] node_okD(1,3) [OF n] n k
    by (intro that [of ch t]) (auto simp: getChild_def)
next
  case None
  have sz: "0 < sz" "sz < 2 ^ 30" using node_okD(2) [OF n] by (simp_all add: node_base_def)
  obtain idx where idx: "mn_of_int k = Inr idx" using mn_of_int_small [of k] k sz by auto
  obtain ch where ch: "node_new c hw (hashData c (mn_writeDataStream idx @ md_writeDataStream (md (mChildSeed t)))) sz = Inr ch"
      "node_ok c sz ch" "mParentChildSig ch = None"
    using node_new_ok [OF hw sz] by blast
  have "node_ok c sz (set_child (nat k) ch t)" using ch(3) by (intro node_ok_set_child [OF n ch(2)]) simp
  then show thesis
    using None k idx ch node_okD(1) [OF n]
    by (intro that [of ch "set_child (nat k) ch t"]) (auto simp: getChild_def hash_bytes)
qed

lemma sign_path_ok:
  assumes hw: "0 < hw"
  shows "node_ok c sz t \<Longrightarrow> ks \<noteq> [] \<Longrightarrow> \<forall>k \<in> set ks. 0 \<le> k \<and> k < sz \<Longrightarrow> depth + int (length ks) = levels + 1
    \<Longrightarrow> \<exists>s ss t'. sign_path c hw d levels depth ks t = Inr (s # ss, t') \<and> node_ok c sz t'
      \<and> mPublicKey t' = mPublicKey t \<and> mParentChildSig t' = mParentChildSig t \<and> length (s # ss) = length ks
      \<and> getRootPublicKey c s = Inr (mPublicKey t) \<and> verify_levels c d (s # ss) = Inr True"
proof (induction ks arbitrary: depth t)
  case (Cons k ks depth t)
  note N = node_okD [OF Cons.prems(1)]
  have k: "0 \<le> k" "k < sz" using Cons.prems(3) by auto
  let ?w = "mKeys t ! nat k"
  have w: "getWOTSKey k t = Inr ?w" "key_ok c ?w"
    using N(1,2) k by (auto simp: getWOTSKey_def node_base_def)
  obtain p where p: "node_getProof c k t = Inr p"
      "\<And>sig. getRootPublicKey c \<lparr>sp_public = w_public ?w, sp_signature = sig, sp_proof = p\<rparr> = Inr (mPublicKey t)"
    using node_getProof_ok [OF N(2) k refl N(1)] by (metis sum.inject(2))
  show ?case
  proof (cases "ks = []")
    case True
    then show ?thesis using w p Cons.prems(1,4) by (simp add: key_ok_def)
  next
    case False
    obtain ch t1 where ch: "getChild c hw k t = Inr (ch, t1)" "node_ok c sz ch" "node_ok c sz t1"
        "\<And>sp. mParentChildSig ch = Some sp \<Longrightarrow> links c sp (mPublicKey t) (mPublicKey ch)"
        "mPublicKey t1 = mPublicKey t" "mParentChildSig t1 = mParentChildSig t"
      using getChild_ok [OF hw Cons.prems(1) k] by blast
    have ne: "depth \<noteq> levels" using False Cons.prems(4) by (cases ks) auto
    define sp where "sp = (case mParentChildSig ch of Some sp \<Rightarrow> sp
      | None \<Rightarrow> \<lparr>sp_public = w_public ?w, sp_signature = w_sign c ?w (mPublicKey ch), sp_proof = p\<rparr>)"
    define ch1 where "ch1 = (if mParentChildSig ch = None then setParentChildSig sp ch else ch)"
    have ok1: "node_ok c sz ch1" "mPublicKey ch1 = mPublicKey ch" "mParentChildSig ch1 = Some sp"
      using ch(2) node_ok_parent_sig by (auto simp: ch1_def sp_def)
    have l: "links c sp (mPublicKey t) (mPublicKey ch)"
      using ch(4) w(2) p(2) by (auto simp: sp_def links_def key_ok_def split: option.splits)
    obtain s ss ch2 where r: "sign_path c hw d levels (depth + 1) ks ch1 = Inr (s # ss, ch2)" "node_ok c sz ch2"
        "mPublicKey ch2 = mPublicKey ch" "mParentChildSig ch2 = Some sp" "length (s # ss) = length ks"
        "getRootPublicKey c s = Inr (mPublicKey ch)" "verify_levels c d (s # ss) = Inr True"
      using Cons.IH [OF ok1(1) False, of "depth + 1"] Cons.prems(3,4) ok1(2,3) by auto
    have "node_ok c sz (set_child (nat k) ch2 t1)"
      using r(3,4) ch(5) l by (intro node_ok_set_child [OF ch(3) r(2)]) simp
    moreover have "verify_levels c d (sp # s # ss) = Inr True"
      using l r(6,7) by (simp add: links_def)
    moreover have "sign_path c hw d levels depth (k # ks) t = Inr (sp # s # ss, set_child (nat k) ch2 t1)"
      unfolding sign_path.simps w(1) p(1) ch(1) bindE_simps if_not_P [OF ne] Let_def split
      unfolding sp_def [symmetric] unfolding ch1_def [symmetric] r(1) by simp
    ultimately show ?thesis using l r(5) ch(5,6)
      by (intro exI [of _ sp] exI [of _ "s # ss"] exI [of _ "set_child (nat k) ch2 t1"])
        (simp add: links_def del: sign_path.simps verify_levels.simps)
  qed
qed simp

lemma base_digits_ok:
  assumes b: "2 \<le> b"
  shows "0 \<le> u \<Longrightarrow> u < 2 ^ m \<Longrightarrow> u < b ^ l \<Longrightarrow> m < n
    \<Longrightarrow> \<exists>ds. base_digits n u b = Inr ds \<and> length ds \<le> l \<and> (\<forall>d \<in> set ds. 0 \<le> d \<and> d < b)"
proof (induction n arbitrary: u m l)
  case (Suc n u m l)
  show ?case
  proof (cases "u = 0")
    case False
    then have u: "0 < u" using Suc.prems(1) by simp
    then obtain m' where m: "m = Suc m'" using Suc.prems(2) by (cases m) auto
    obtain l' where l: "l = Suc l'" using Suc.prems(3) u by (cases l) auto
    have "u div b \<le> u div 2" using u b by (intro zdiv_mono2) simp_all
    moreover have "u div 2 < 2 ^ m'" using Suc.prems(2) m by (simp add: zdiv_less_iff mult.commute)
    moreover have "u div b < b ^ l'" using Suc.prems(3) b l by (simp add: zdiv_less_iff mult.commute)
    moreover have "0 \<le> u div b" using u b by (simp add: pos_imp_zdiv_nonneg_iff)
    ultimately obtain ds where ds: "base_digits n (u div b) b = Inr ds" "length ds \<le> l'"
        "\<forall>d \<in> set ds. 0 \<le> d \<and> d < b"
      using Suc.IH [of "u div b" m' l'] Suc.prems(4) m by auto
    have "u sdiv b = u div b" "u - u div b * b = u mod b"
      using u b by (simp_all add: sdiv_pos minus_div_mult_eq_mod)
    then show ?thesis using ds u b l False by (auto simp: Let_def)
  qed simp
qed simp

lemma baseConversion_ok:
  assumes "1 \<le> b" "0 \<le> u" "u < b ^ l" "u < 2 ^ 31"
  shows "\<exists>ds. baseConversion u b (int l) = Inr ds \<and> length ds = l \<and> (\<forall>d \<in> set ds. 0 \<le> d \<and> d < b)"
proof -
  have "\<exists>ds. base_digits 33 u b = Inr ds \<and> length ds \<le> l \<and> (\<forall>d \<in> set ds. 0 \<le> d \<and> d < b)"
  proof (cases "b = 1")
    case True
    then have "u = 0" using assms by simp
    then show ?thesis by (simp add: eval_nat_numeral)
  qed (use base_digits_ok [of b u 31 l 33] assms in auto)
  then show ?thesis using assms(1) by (auto simp: baseConversion_def)
qed

text \<open>A tree key with its public key, between two uses.\<close>

definition tk_ok :: "crypto \<Rightarrow> tree_key \<Rightarrow> bool" where
  "tk_ok c k = (node_ok c (mKeysPerLevel k) (mRoot k) \<and> mPubKey k = mPublicKey (mRoot k)
     \<and> 1 \<le> mLevels k \<and> mLevels k \<le> MAX_KEY_LEVELS \<and> mMaxUses k = mKeysPerLevel k ^ nat (mLevels k)
     \<and> mMaxUses k < 2 ^ 31 \<and> 0 \<le> mUses k)"

lemma tree_key_new_ok:
  assumes "0 < hw" "0 < n" "n < 2 ^ 30" "1 \<le> l" "l \<le> MAX_KEY_LEVELS" "n ^ nat l < 2 ^ 31"
  shows "\<exists>k. tree_key_new c hw seed n l = Inr k \<and> tk_ok c k"
  using node_new_ok [OF assms(1-3), of c seed] assms by (auto simp: tree_key_new_def max_uses_def tk_ok_def)

lemma tk_sign_ok:
  assumes hw: "0 < hw" and k: "tk_ok c k"
  shows "\<exists>sigs k'. tk_sign c hw d k = Inr (sigs, k') \<and> tk_ok c k' \<and> mPubKey k' = mPubKey k
    \<and> int (length sigs) = mLevels k \<and> tk_verify c d sigs k = Inr True
    \<and> mUses k' = (if mUses k \<ge> mMaxUses k then 1 else mUses k + 1)"
proof -
  define u where "u = (if mUses k \<ge> mMaxUses k then 0 else mUses k)"
  define k1 where "k1 = k\<lparr>mUses := u\<rparr>"
  have sz: "0 < mKeysPerLevel k" using node_okD(2) [of c _ "mRoot k"] k by (auto simp: tk_ok_def node_base_def)
  have u: "0 \<le> u" "u < mKeysPerLevel k ^ nat (mLevels k)" "u < 2 ^ 31"
    using k sz by (auto simp: u_def tk_ok_def)
  obtain ds where ds: "baseConversion u (mKeysPerLevel k) (mLevels k) = Inr ds" "length ds = nat (mLevels k)"
      "\<forall>x \<in> set ds. 0 \<le> x \<and> x < mKeysPerLevel k"
    using baseConversion_ok [of "mKeysPerLevel k" u "nat (mLevels k)"] sz u k by (auto simp: tk_ok_def)
  have ne: "ds \<noteq> []" using ds(2) k by (auto simp: tk_ok_def)
  have ok: "node_ok c (mKeysPerLevel k) (mRoot k)" using k by (simp add: tk_ok_def)
  obtain s ss t' where p: "sign_path c hw d (mLevels k) 1 ds (mRoot k) = Inr (s # ss, t')"
      "node_ok c (mKeysPerLevel k) t'" "mPublicKey t' = mPublicKey (mRoot k)" "length (s # ss) = length ds"
      "getRootPublicKey c s = Inr (mPublicKey (mRoot k))" "verify_levels c d (s # ss) = Inr True"
    using sign_path_ok [OF hw ok ne ds(3), of 1 "mLevels k" d] ds(2) k by (auto simp: tk_ok_def)
  have "tk_sign c hw d k = Inr (s # ss, k1\<lparr>mRoot := t', mUses := u + 1\<rparr>)"
    using ds(1) p(1) by (cases "mUses k \<ge> mMaxUses k") (simp_all add: tk_sign_def Let_def u_def k1_def)
  then show ?thesis
    using k p ds(2) u by (auto simp: tk_ok_def tk_verify_def k1_def u_def)
qed

subsection \<open>Properties\<close>

text \<open>C14 The public key does not depend on the threads: for any number of them the ranges they are given
  are disjoint and cover every chain, and any interleaving of their writes leaves the end of every chain
  in its slot.\<close>

theorem threads_equal_sequential:
  assumes "0 < n" "length x = l_total" "mset ws = mset (concat (thread_tasks n))"
  shows "run_writes c x ws (replicate l_total zero) = map (\<lambda>y. chain_hash_opt c y 255) x
    \<and> distinct (concat (thread_tasks n)) \<and> set (concat (thread_tasks n)) = {..< l_total}"
proof (intro conjI)
  show cover: "set (concat (thread_tasks n)) = {..< l_total}" by (rule thread_ranges_cover [OF assms(1)])
  then have "set ws = {..< length x}" using assms(2,3) by (metis mset_eq_setD)
  then show "run_writes c x ws (replicate l_total zero) = map (\<lambda>y. chain_hash_opt c y 255) x"
    using assms(2) by (intro run_writes_all) simp_all
  let ?per = "(l_total + n - 1) div n"
  have "distinct (concat (map (thread_range ?per) ts))" if "distinct ts" for ts
    using that
  proof (induction ts)
    case (Cons t ts)
    have "set (thread_range ?per t) \<inter> set (thread_range ?per s) = {}" if "s \<noteq> t" for s
    proof -
      have "(s + 1) * ?per \<le> t * ?per \<or> (t + 1) * ?per \<le> s * ?per"
        using that by (metis Suc_eq_plus1 Suc_leI linorder_neqE_nat mult_le_mono1)
      then show ?thesis by (auto simp: thread_range_def)
    qed
    then have "set (thread_range ?per t) \<inter> set (concat (map (thread_range ?per) ts)) = {}"
      using Cons.prems by (fastforce simp del: l_total_val)
    moreover have "distinct (thread_range ?per t)" by (simp add: thread_range_def)
    ultimately show ?case using Cons by (simp del: l_total_val)
  qed simp
  then show "distinct (concat (thread_tasks n))"
    by (simp only: thread_tasks_def Let_def distinct_takeWhile distinct_upt)
qed

theorem threads_equal_sequential_witness:
  "run_writes sample_crypto (replicate l_total [7]) (rev (concat (thread_tasks 8))) (replicate l_total [])
    = map (\<lambda>y. chain_hash_opt sample_crypto y 255) (replicate l_total [7])"
  using threads_equal_sequential [of 8 "replicate l_total [7]" "rev (concat (thread_tasks 8))", where c = sample_crypto and zero = "[]"]
  by simp

text \<open>A Winternitz signature verifies: for every seed, number of threads and data, the signature made
  with the one-time key is accepted under its public key.\<close>

theorem one_time_signature_verifies:
  assumes "0 < hw" "winternitz_new c hw seed = Inr k"
  shows "w_verify c (w_public k) zData (w_sign c k zData)"
  using assms by (rule w_verify_sign)

theorem one_time_signature_verifies_witness:
  "\<exists>k. winternitz_new sample_crypto 4 [1, 2] = Inr k \<and> w_verify sample_crypto (w_public k) [9] (w_sign sample_crypto k [9])"
proof -
  obtain k where k: "winternitz_new sample_crypto 4 [1, 2] = Inr k" using winternitz_new_ok [of 4] by auto
  with one_time_signature_verifies [of 4 sample_crypto "[1, 2]" k "[9]"] show ?thesis by simp
qed

text \<open>C13 The checksum protects a one-time signature: of two different digests neither has all its 34 digits
  at least as large as those of the other, so nobody can turn a signature of one into a signature of the
  other by hashing its chains forward.\<close>

theorem checksum_blocks_forward_hashing:
  assumes "length h = 32" "length h' = 32" "h \<noteq> h'"
  shows "\<exists>i < 34. message_digits h' ! i < message_digits h ! i"
  using assms by (rule checksum_no_dominance)

theorem checksum_blocks_forward_hashing_witness:
  "\<exists>i < 34. message_digits (replicate 32 5) ! i < message_digits (replicate 32 4) ! i"
  using checksum_blocks_forward_hashing [of "replicate 32 4" "replicate 32 5"] by simp

fun sign_all :: "crypto \<Rightarrow> nat \<Rightarrow> byte list list \<Rightarrow> tree_key \<Rightarrow> (signature list \<times> tree_key) result" where
  "sign_all c hw [] k = Inr ([], k)"
| "sign_all c hw (d # ds) k =
     bindE (tk_sign c hw d k) (\<lambda>(s, k). bindE (sign_all c hw ds k) (\<lambda>(ss, k). Inr (s # ss, k)))"

lemma sign_all_ok:
  assumes hw: "0 < hw"
  shows "tk_ok c k \<Longrightarrow> \<exists>ss k'. sign_all c hw ds k = Inr (ss, k') \<and> tk_ok c k'
    \<and> list_all2 (\<lambda>d s. tk_verify c d s k = Inr True) ds ss"
proof (induction ds arbitrary: k)
  case (Cons d ds k)
  obtain s k1 where s: "tk_sign c hw d k = Inr (s, k1)" "tk_ok c k1" "mPubKey k1 = mPubKey k" "tk_verify c d s k = Inr True"
    using tk_sign_ok [OF hw Cons.prems, of d] by blast
  obtain ss k2 where r: "sign_all c hw ds k1 = Inr (ss, k2)" "tk_ok c k2"
      "list_all2 (\<lambda>d s. tk_verify c d s k1 = Inr True) ds ss"
    using Cons.IH [OF s(2)] by blast
  have "tk_verify c d s k1 = tk_verify c d s k" for d s
    unfolding tk_verify_def s(3) by (rule refl)
  then show ?case using s r by simp
qed simp

text \<open>C12 A tree key can sign as often as one likes: key generation succeeds for every admissible size, and
  every signature of a series, also across the moments at which new child nodes are made and at which the
  use counter wraps, is accepted by \<open>verify\<close> under the public key fixed at generation.\<close>

theorem tree_key_signatures_verify:
  assumes "0 < hw" "0 < n" "n < 2 ^ 30" "1 \<le> l" "l \<le> MAX_KEY_LEVELS" "n ^ nat l < 2 ^ 31"
  shows "\<exists>k. tree_key_new c hw seed n l = Inr k
    \<and> (\<forall>ds. \<exists>ss k'. sign_all c hw ds k = Inr (ss, k') \<and> list_all2 (\<lambda>d s. tk_verify c d s k = Inr True) ds ss)"
proof -
  obtain k where k: "tree_key_new c hw seed n l = Inr k" "tk_ok c k" using tree_key_new_ok [OF assms] by blast
  have "\<exists>ss k'. sign_all c hw ds k = Inr (ss, k') \<and> list_all2 (\<lambda>d s. tk_verify c d s k = Inr True) ds ss" for ds
    using sign_all_ok [OF assms(1) k(2), of ds] by blast
  then show ?thesis using k(1) by blast
qed

theorem tree_key_signatures_verify_witness:
  "\<exists>k. tree_key_new sample_crypto 4 [1] 64 3 = Inr k
    \<and> (\<exists>ss k'. sign_all sample_crypto 4 [[1], [2]] k = Inr (ss, k')
         \<and> list_all2 (\<lambda>d s. tk_verify sample_crypto d s k = Inr True) [[1], [2]] ss)"
  using tree_key_signatures_verify [of 4 64 3 sample_crypto "[1]"] by (fastforce simp: MAX_KEY_LEVELS_def simp del: sign_all.simps)

end
