(* ===== verification/ObjectStreams.thy ===== *)
theory ObjectStreams
  imports Objects KeysLaws
begin

text \<open>
  The stream forms of composite objects. Their writers can fail (an over-long hash, a state variable of
  unknown type), so their contract is a variant of \<open>streamable\<close>: on admissible objects writing succeeds
  and reading gives the object back, consuming exactly its bytes. Lists of such objects satisfy it
  again, and a writer that cannot fail gives one that satisfies it.
\<close>

definition carried :: "byte list result \<Rightarrow> 'a reader \<Rightarrow> 'a \<Rightarrow> bool" where
  "carried w rd x = (\<exists>bs. w = Inr bs \<and> (\<forall>rest. rd (bs @ rest) = Inr (x, rest)))"

lemma carriedI: "w = Inr bs \<Longrightarrow> (\<And>rest. rd (bs @ rest) = Inr (x, rest)) \<Longrightarrow> carried w rd x"
  by (simp add: carried_def)

lemma carriedE: "carried w rd x \<Longrightarrow> (\<And>bs. w = Inr bs \<Longrightarrow> (\<And>rest. rd (bs @ rest) = Inr (x, rest)) \<Longrightarrow> P) \<Longrightarrow> P"
  by (auto simp: carried_def)

lemma carried_fun: "carried w rd x \<Longrightarrow> carried w rd y \<Longrightarrow> x = y"
  unfolding carried_def by (metis prod.inject sum.inject(1,2))

lemma carried_Inr [simp]: "carried (Inr bs) rd x \<longleftrightarrow> (\<forall>rest. rd (bs @ rest) = Inr (x, rest))"
  by (simp add: carried_def)

lemma getAsInt_small:
  assumes "0 \<le> i" "i < 2 ^ 31"
  shows "\<exists>x. mn_of_int i = Inr x \<and> mn_wf x \<and> getAsInt x = i"
proof -
  obtain x where x: "mn_of_int i = Inr x" "mn_wf x" "mval x = of_int i"
    using int_in_max [of i] assms by (auto simp: mn_of_int_def exactly_iff)
  then have "getAsBigInteger x = i" by (simp add: getAsBigInteger_val)
  then show ?thesis using x assms by (auto simp: getAsInt_def)
qed

locale fallible_stream =
  fixes wr :: "'a \<Rightarrow> byte list result"
    and rd :: "'a reader"
    and ok :: "'a \<Rightarrow> bool"
  assumes carried: "ok x \<Longrightarrow> carried (wr x) rd x"
begin

lemma roundtrip: "ok x \<Longrightarrow> wr x = Inr bs \<Longrightarrow> rd (bs @ rest) = Inr (x, rest)"
  using carried [of x] by (auto simp: carried_def)

lemma injective: "ok x \<Longrightarrow> ok y \<Longrightarrow> wr x = wr y \<longleftrightarrow> x = y"
  using carried_fun [of "wr x" rd x y] carried [of x] carried [of y] by auto

lemma prefix_free: "ok x \<Longrightarrow> ok y \<Longrightarrow> wr x = Inr a \<Longrightarrow> wr y = Inr b \<Longrightarrow> a @ r = b @ s \<Longrightarrow> x = y \<and> r = s"
  by (metis Pair_inject roundtrip sum.inject(2))

lemma carried_many: "list_all ok xs \<Longrightarrow> carried (write_all (map wr xs)) (read_many rd (length xs)) xs"
proof (induction xs)
  case (Cons x xs)
  have "carried (wr x) rd x" "carried (write_all (map wr xs)) (read_many rd (length xs)) xs"
    using Cons carried by simp_all
  then show ?case by (auto simp: carried_def)
qed (simp add: carried_def)

lemma list_stream: "fallible_stream (write_list wr) (read_list rd) (\<lambda>xs. list_all ok xs \<and> int (length xs) < 2 ^ 31)"
proof
  fix xs assume xs: "list_all ok xs \<and> int (length xs) < 2 ^ 31"
  obtain n where n: "mn_of_int (int (length xs)) = Inr n" "mn_wf n" "getAsInt n = int (length xs)"
    using getAsInt_small [of "int (length xs)"] xs by auto
  obtain bs where bs: "write_all (map wr xs) = Inr bs" "\<And>rest. read_many rd (length xs) (bs @ rest) = Inr (xs, rest)"
    using carried_many [of xs] xs by (auto elim: carriedE)
  show "carried (write_list wr xs) (read_list rd) xs"
    using bs mn_stream.roundtrip [OF n(2)] n(1,3) by (intro carriedI [of _ "mn_writeDataStream n @ bs"]) (simp_all add: write_list_def read_list_def)
qed

end

sublocale streamable \<subseteq> fallible: fallible_stream "\<lambda>x. Inr (wr x)" rd ok
  by unfold_locales (simp add: roundtrip)

subsection \<open>Hashes, entry numbers, nodes and proofs\<close>

abbreviation hash_fits :: "byte list \<Rightarrow> bool" where
  "hash_fits b \<equiv> length b \<le> 64"

abbreviation data_fits :: "'a list \<Rightarrow> bool" where
  "data_fits b \<equiv> int (length b) \<le> MINIMA_MAX_MINIDATA_LENGTH"

abbreviation list_fits :: "'a list \<Rightarrow> bool" where
  "list_fits xs \<equiv> int (length xs) < 2 ^ 31"

lemma carried_hash: "hash_fits b \<Longrightarrow> carried (writeHashToStream (md b)) readHashFromStream (md b)"
proof -
  assume b: "hash_fits b"
  have h: "\<exists>out. writeHashToStream (md b) = Inr out \<and> readHashFromStream (out @ rest) = Inr (md b, rest)" for rest
    using hash_stream_roundtrip [of b rest] b by (simp add: MINIMA_MAX_HASH_LENGTH_def)
  then show ?thesis unfolding carried_def by (metis sum.inject(2))
qed

lemma read_data [simp]: "data_fits b \<Longrightarrow> md_readDataStream (md_writeDataStream (md b) @ rest) = Inr (md b, rest)"
  by (simp add: md_stream.roundtrip)

definition en_fits :: "entry_number \<Rightarrow> bool" where
  "en_fits x = (\<bar>en_unscaled x\<bar> < 256 ^ 1000 \<and> 0 \<le> en_scale x \<and> en_scale x < 2 ^ 31)"

interpretation en_stream: fallible_stream en_writeDataStream en_readDataStream en_fits
proof
  fix x assume x: "en_fits x"
  obtain n where n: "mn_of_int (en_scale x) = Inr n" "mn_wf n" "getAsInt n = en_scale x"
    using getAsInt_small [of "en_scale x"] x by (auto simp: en_fits_def)
  have "length (to_twos_complement_bytes (en_unscaled x)) \<le> 1000 + 1"
    using x by (intro to_twos_complement_length) (simp_all add: en_fits_def)
  then have "data_fits (to_twos_complement_bytes (en_unscaled x))"
    by (simp add: MINIMA_MAX_MINIDATA_LENGTH_def)
  then show "carried (en_writeDataStream x) en_readDataStream x"
    using n mn_stream.roundtrip [OF n(2)]
    by (simp add: en_writeDataStream_def en_readDataStream_def from_to_twos_complement)
qed

definition d_fits :: "mmrdata \<Rightarrow> bool" where
  "d_fits d = (hash_fits (d_hash d) \<and> mn_wf (d_value d) \<and> \<not> d_unspendable d)"

interpretation d_stream: fallible_stream d_writeDataStream d_readDataStream d_fits
proof
  fix d assume d: "d_fits d"
  have "carried (writeHashToStream (md (d_hash d))) readHashFromStream (md (d_hash d))"
    using d by (intro carried_hash) (simp add: d_fits_def)
  then show "carried (d_writeDataStream d) d_readDataStream d"
    using d mn_stream.roundtrip [of "d_value d"]
    by (auto simp: d_writeDataStream_def d_readDataStream_def d_fits_def mmr_data_def elim!: carriedE)
qed

interpretation chunk_stream: fallible_stream chunk_writeDataStream chunk_readDataStream "\<lambda>ch. d_fits (snd ch)"
proof
  fix ch :: "bool \<times> mmrdata" assume "d_fits (snd ch)"
  then have "carried (d_writeDataStream (snd ch)) d_readDataStream (snd ch)" by (rule d_stream.carried)
  then show "carried (chunk_writeDataStream ch) chunk_readDataStream ch"
    using mb_stream.roundtrip [OF TrueI]
    by (cases ch) (auto simp: chunk_writeDataStream_def chunk_readDataStream_def mb_of_bool_def mb_isTrue_def elim!: carriedE)
qed

interpretation chain_stream: fallible_stream "write_list chunk_writeDataStream" "read_list chunk_readDataStream"
    "\<lambda>xs. list_all (\<lambda>ch. d_fits (snd ch)) xs \<and> list_fits xs"
  by (rule chunk_stream.list_stream)

definition proof_fits :: "mmr_proof \<Rightarrow> bool" where
  "proof_fits p = (mn_wf (p_blocktime p) \<and> list_all (\<lambda>ch. d_fits (snd ch)) (p_chain p) \<and> list_fits (p_chain p))"

lemma d_Clone_fits: "d_fits d \<Longrightarrow> d_Clone d = d"
  by (simp add: d_fits_def d_Clone_def mmr_data_def)

interpretation proof_stream: fallible_stream proof_writeDataStream proof_readDataStream proof_fits
proof
  fix p assume p: "proof_fits p"
  have "map (\<lambda>ch. (fst ch, d_Clone (snd ch))) (p_chain p) = p_chain p"
    using p by (auto simp: proof_fits_def list_all_iff d_Clone_fits intro!: map_idI)
  moreover have "carried (write_list chunk_writeDataStream (p_chain p)) (read_list chunk_readDataStream) (p_chain p)"
    using p by (intro chain_stream.carried) (simp add: proof_fits_def)
  ultimately show "carried (proof_writeDataStream p) proof_readDataStream p"
    using p mn_stream.roundtrip [of "p_blocktime p"]
    by (auto simp: proof_writeDataStream_def proof_readDataStream_def proof_fits_def elim!: carriedE)
qed

subsection \<open>State variables, tokens and coins\<close>

text \<open>The texts a state variable can carry through its stream form: the canonical ones.\<close>

definition sv_fits :: "state_variable \<Rightarrow> bool" where
  "sv_fits sv =
     (if sv_type sv = STATETYPE_BOOL then sv_data sv = ''TRUE'' \<or> sv_data sv = ''FALSE''
      else if sv_type sv = STATETYPE_HEX then
        (case md_of_string (sv_data sv) of Inr d \<Rightarrow> to0xString d = sv_data sv \<and> data_fits (mData d) | Inl e \<Rightarrow> False)
      else if sv_type sv = STATETYPE_NUMBER then
        (case mn_of_string (sv_data sv) of Inr n \<Rightarrow> mn_wf n \<and> to_plain_string n = sv_data sv | Inl e \<Rightarrow> False)
      else if sv_type sv = STATETYPE_STRING then data_fits (sv_data sv)
      else False)"

lemma read_byte [simp]: "mb_readDataStream (mb_writeDataStream b @ rest) = Inr (b, rest)"
  by (simp add: mb_stream.roundtrip)

lemma read_text [simp]: "data_fits s \<Longrightarrow> ms_readDataStream (ms_writeDataStream s @ rest) = Inr (s, rest)"
  by (rule ms_stream.roundtrip)

lemma read_number [simp]: "mn_wf n \<Longrightarrow> mn_readDataStream (mn_writeDataStream n @ rest) = Inr (n, rest)"
  by (rule mn_stream.roundtrip)

lemma isTrue_of_bool [simp]: "mb_isTrue (mb_of_bool b) = b"
  by (simp add: mb_isTrue_def mb_of_bool_def)

lemma md_of_string_md: "md_of_string s = Inr d \<Longrightarrow> md (mData d) = d"
  by (auto simp: md_of_string_def)

interpretation sv_stream: fallible_stream sv_writeDataStream sv_readDataStream sv_fits
proof
  fix sv assume sv: "sv_fits sv"
  consider "sv_type sv = STATETYPE_BOOL" | "sv_type sv = STATETYPE_HEX" | "sv_type sv = STATETYPE_NUMBER"
    | "sv_type sv = STATETYPE_STRING"
    using sv by (auto simp: sv_fits_def split: if_splits)
  then show "carried (sv_writeDataStream sv) sv_readDataStream sv"
  proof cases
    case 2
    then obtain d where d: "md_of_string (sv_data sv) = Inr d" "to0xString d = sv_data sv" "data_fits (mData d)"
      using sv by (auto simp: sv_fits_def STATETYPE_HEX_def STATETYPE_BOOL_def split: sum.splits)
    then have "md_readDataStream (md_writeDataStream d @ rest) = Inr (d, rest)" for rest
      using read_data [of "mData d" rest] md_of_string_md [OF d(1)] by simp
    then show ?thesis
      using 2 d by (simp add: sv_writeDataStream_def sv_readDataStream_def STATETYPE_HEX_def STATETYPE_BOOL_def)
  qed (use sv in \<open>auto simp: sv_fits_def sv_writeDataStream_def sv_readDataStream_def STATETYPE_NUMBER_def
      STATETYPE_HEX_def STATETYPE_BOOL_def STATETYPE_STRING_def split: sum.splits\<close>)
qed

interpretation state_stream: fallible_stream "write_list sv_writeDataStream" "read_list sv_readDataStream"
    "\<lambda>xs. list_all sv_fits xs \<and> list_fits xs"
  by (rule sv_stream.list_stream)

definition token_fits :: "crypto \<Rightarrow> ktoken \<Rightarrow> bool" where
  "token_fits c t = (hash_fits (t_coinid t) \<and> data_fits (t_script t) \<and> mn_wf (t_scale t) \<and> mn_wf (t_amount t)
     \<and> data_fits (t_name t) \<and> mn_wf (t_created t) \<and> calculateTokenID c t = Inr t)"

lemma calculateTokenID_again: "calculateTokenID c (t\<lparr>t_tokenid := x\<rparr>) = calculateTokenID c t"
proof -
  have "token_writeDataStream (t\<lparr>t_tokenid := x\<rparr>) = token_writeDataStream t" by (simp add: token_writeDataStream_def)
  then show ?thesis
    by (cases "token_writeDataStream t") (simp_all add: calculateTokenID_def split: error.split)
qed

interpretation token_stream: fallible_stream token_writeDataStream "token_readDataStream c" "token_fits c" for c
proof
  fix t assume t: "token_fits c t"
  have "carried (writeHashToStream (md (t_coinid t))) readHashFromStream (md (t_coinid t))"
    using t by (intro carried_hash) (simp add: token_fits_def)
  moreover have "calculateTokenID c (t\<lparr>t_tokenid := None\<rparr>) = Inr t"
    using t by (simp add: calculateTokenID_again token_fits_def)
  ultimately show "carried (token_writeDataStream t) (token_readDataStream c) t"
    using t by (cases t) (auto simp: token_writeDataStream_def token_readDataStream_def token_fits_def elim!: carriedE)
qed

definition coin_fits :: "crypto \<Rightarrow> coin \<Rightarrow> bool" where
  "coin_fits c co = (hash_fits (c_coinid co) \<and> hash_fits (c_address co) \<and> hash_fits (c_tokenid co)
     \<and> mn_wf (c_amount co) \<and> en_fits (c_entry co) \<and> mn_wf (c_created co)
     \<and> list_all sv_fits (c_state co) \<and> list_fits (c_state co)
     \<and> (case c_token co of None \<Rightarrow> True | Some t \<Rightarrow> token_fits c t))"

definition opt_write :: "('a \<Rightarrow> byte list result) \<Rightarrow> 'a option \<Rightarrow> byte list result" where
  "opt_write wr x = (case x of None \<Rightarrow> Inr (mb_writeDataStream (mb_of_bool False))
     | Some t \<Rightarrow> bindE (wr t) (\<lambda>bs. Inr (mb_writeDataStream (mb_of_bool True) @ bs)))"

definition opt_read :: "'a reader \<Rightarrow> 'a option reader" where
  "opt_read rd inp = bindE (mb_readDataStream inp) (\<lambda>(has, inp).
     if mb_isTrue has then bindE (rd inp) (\<lambda>(t, inp). Inr (Some t, inp)) else Inr (None, inp))"

lemma carried_opt: "(\<And>t. x = Some t \<Longrightarrow> carried (wr t) rd t) \<Longrightarrow> carried (opt_write wr x) (opt_read rd) x"
  by (cases x) (auto simp: opt_write_def opt_read_def elim!: carriedE)

lemma coin_writeDataStream_opt:
  "coin_writeDataStream co =
     bindE (writeHashToStream (md (c_coinid co))) (\<lambda>cid. bindE (writeHashToStream (md (c_address co))) (\<lambda>adr.
     bindE (writeHashToStream (md (c_tokenid co))) (\<lambda>tid. bindE (en_writeDataStream (c_entry co)) (\<lambda>ent.
     bindE (write_list sv_writeDataStream (c_state co)) (\<lambda>sts. bindE (opt_write token_writeDataStream (c_token co)) (\<lambda>tok.
     Inr (cid @ adr @ mn_writeDataStream (c_amount co) @ tid @ mb_writeDataStream (mb_of_bool (c_storestate co))
       @ ent @ mb_writeDataStream (c_spent co) @ mn_writeDataStream (c_created co) @ sts @ tok)))))))"
  by (simp add: coin_writeDataStream_def opt_write_def)

lemma coin_readDataStream_opt:
  "coin_readDataStream c inp =
     bindE (readHashFromStream inp) (\<lambda>(cid, inp). bindE (readHashFromStream inp) (\<lambda>(adr, inp).
     bindE (mn_readDataStream inp) (\<lambda>(am, inp). bindE (readHashFromStream inp) (\<lambda>(tid, inp).
     bindE (mb_readDataStream inp) (\<lambda>(ss, inp). bindE (en_readDataStream inp) (\<lambda>(ent, inp).
     bindE (mb_readDataStream inp) (\<lambda>(sp, inp). bindE (mn_readDataStream inp) (\<lambda>(cr, inp).
     bindE (read_list sv_readDataStream inp) (\<lambda>(sts, inp). bindE (opt_read (token_readDataStream c) inp) (\<lambda>(tok, inp).
     Inr (\<lparr>c_coinid = mData cid, c_address = mData adr, c_amount = am, c_tokenid = mData tid,
       c_storestate = mb_isTrue ss, c_state = sts, c_entry = ent, c_spent = sp, c_created = cr, c_token = tok\<rparr>,
       inp)))))))))))"
  by (simp add: coin_readDataStream_def opt_read_def bindE_assoc split_def)

interpretation coin_stream: fallible_stream coin_writeDataStream "coin_readDataStream c" "coin_fits c" for c
proof
  fix co assume co: "coin_fits c co"
  have h: "carried (writeHashToStream (md b)) readHashFromStream (md b)" if "b \<in> {c_coinid co, c_address co, c_tokenid co}" for b
    using co that by (intro carried_hash) (auto simp: coin_fits_def)
  have e: "carried (en_writeDataStream (c_entry co)) en_readDataStream (c_entry co)"
    using co by (intro en_stream.carried) (simp add: coin_fits_def)
  have s: "carried (write_list sv_writeDataStream (c_state co)) (read_list sv_readDataStream) (c_state co)"
    using co by (intro state_stream.carried) (simp add: coin_fits_def)
  have t: "carried (opt_write token_writeDataStream (c_token co)) (opt_read (token_readDataStream c)) (c_token co)"
    using co by (intro carried_opt token_stream.carried) (simp add: coin_fits_def)
  show "carried (coin_writeDataStream co) (coin_readDataStream c) co"
    using h [of "c_coinid co"] h [of "c_address co"] h [of "c_tokenid co"] e s t co
    by (cases co) (simp add: carried_def coin_writeDataStream_opt coin_readDataStream_opt coin_fits_def, fastforce)
qed

subsection \<open>Transactions, signatures, scripts and coin proofs\<close>

text \<open>A transaction as it is read: its identifier is the hash of its stream form, nothing is cached.\<close>

definition tx_fits :: "crypto \<Rightarrow> transaction \<Rightarrow> bool" where
  "tx_fits c t = (list_all (coin_fits c) (tx_inputs t) \<and> list_fits (tx_inputs t)
     \<and> list_all (coin_fits c) (tx_outputs t) \<and> list_fits (tx_outputs t)
     \<and> list_all sv_fits (tx_state t) \<and> list_fits (tx_state t) \<and> hash_fits (tx_linkhash t)
     \<and> \<not> mHaveCheckedMonotonic t \<and> \<not> mIsMonotonic t \<and> \<not> mIsValid t
     \<and> calculateTransactionID c t = Inr t)"

interpretation coins_stream: fallible_stream "write_list coin_writeDataStream" "read_list (coin_readDataStream c)"
    "\<lambda>xs. list_all (coin_fits c) xs \<and> list_fits xs" for c
  by (rule coin_stream.list_stream)

lemma calculateTransactionID_again: "calculateTransactionID c (t\<lparr>tx_id := x\<rparr>) = calculateTransactionID c t"
proof -
  have "tx_writeDataStream (t\<lparr>tx_id := x\<rparr>) = tx_writeDataStream t" by (simp add: tx_writeDataStream_def)
  then show ?thesis by (simp add: calculateTransactionID_def)
qed

interpretation tx_stream: fallible_stream tx_writeDataStream "tx_readDataStream c tx_new" "tx_fits c" for c
proof
  fix t assume t: "tx_fits c t"
  have i: "carried (write_list coin_writeDataStream cs) (read_list (coin_readDataStream c)) cs"
    if "cs \<in> {tx_inputs t, tx_outputs t}" for cs
    using t that by (intro coins_stream.carried) (auto simp: tx_fits_def)
  have s: "carried (write_list sv_writeDataStream (tx_state t)) (read_list sv_readDataStream) (tx_state t)"
    using t by (intro state_stream.carried) (simp add: tx_fits_def)
  have h: "carried (writeHashToStream (md (tx_linkhash t))) readHashFromStream (md (tx_linkhash t))"
    using t by (intro carried_hash) (simp add: tx_fits_def)
  have id: "calculateTransactionID c (t\<lparr>tx_id := ZERO_TXPOWID\<rparr>) = Inr t"
    using t by (simp add: calculateTransactionID_again tx_fits_def)
  have e: "tx_new\<lparr>tx_inputs := tx_inputs t, tx_outputs := tx_outputs t, tx_state := tx_state t, tx_linkhash := tx_linkhash t\<rparr>
      = t\<lparr>tx_id := ZERO_TXPOWID\<rparr>"
    using t by (cases t) (simp add: tx_new_def tx_fits_def)
  show "carried (tx_writeDataStream t) (tx_readDataStream c tx_new) t"
    using i [of "tx_inputs t"] i [of "tx_outputs t"] s h id
    by (simp add: carried_def tx_writeDataStream_def tx_readDataStream_def, fastforce simp: e)
qed

definition sigproof_fits :: "sigproof \<Rightarrow> bool" where
  "sigproof_fits s = (data_fits (sp_public s) \<and> data_fits (sp_signature s) \<and> proof_fits (sp_proof s))"

interpretation sigproof_stream: fallible_stream sigproof_writeDataStream sigproof_readDataStream sigproof_fits
proof
  fix s assume s: "sigproof_fits s"
  then have "carried (proof_writeDataStream (sp_proof s)) proof_readDataStream (sp_proof s)"
    by (intro proof_stream.carried) (simp add: sigproof_fits_def)
  then show "carried (sigproof_writeDataStream s) sigproof_readDataStream s"
    using s by (auto simp: sigproof_writeDataStream_def sigproof_readDataStream_def sigproof_fits_def elim!: carriedE)
qed

definition sig_fits :: "signature \<Rightarrow> bool" where
  "sig_fits s = (list_all sigproof_fits s \<and> list_fits s)"

text \<open>A signature is read like a list, with another exception for a negative length.\<close>

lemma sig_readDataStream_list: "read_list sigproof_readDataStream inp = Inr r \<Longrightarrow> sig_readDataStream inp = Inr r"
  by (cases r) (auto simp: read_list_def sig_readDataStream_def Let_def split: if_splits)

interpretation sig_stream: fallible_stream sig_writeDataStream sig_readDataStream sig_fits
proof
  fix s assume "sig_fits s"
  then have "carried (write_list sigproof_writeDataStream s) (read_list sigproof_readDataStream) s"
    using fallible_stream.carried [OF sigproof_stream.list_stream] by (simp add: sig_fits_def)
  then show "carried (sig_writeDataStream s) sig_readDataStream s"
    by (auto simp: sig_writeDataStream_def sig_readDataStream_list elim!: carriedE)
qed

definition script_fits :: "crypto \<Rightarrow> script_proof \<Rightarrow> bool" where
  "script_fits c s = (data_fits (sc_script s) \<and> proof_fits (sc_proof s)
     \<and> script_proof_with c (sc_script s) (sc_proof s) = Inr s)"

interpretation script_stream: fallible_stream script_writeDataStream "script_readDataStream c" "script_fits c" for c
proof
  fix s assume s: "script_fits c s"
  then have "carried (proof_writeDataStream (sc_proof s)) proof_readDataStream (sc_proof s)"
    by (intro proof_stream.carried) (simp add: script_fits_def)
  then show "carried (script_writeDataStream s) (script_readDataStream c) s"
    using s by (auto simp: script_writeDataStream_def script_readDataStream_def script_fits_def elim!: carriedE)
qed

definition cp_fits :: "crypto \<Rightarrow> coin_proof \<Rightarrow> bool" where
  "cp_fits c cp = (coin_fits c (cp_coin cp) \<and> proof_fits (cp_proof cp))"

interpretation cp_stream: fallible_stream cp_writeDataStream "cp_readDataStream c" "cp_fits c" for c
proof
  fix cp assume cp: "cp_fits c cp"
  have "carried (coin_writeDataStream (cp_coin cp)) (coin_readDataStream c) (cp_coin cp)"
    "carried (proof_writeDataStream (cp_proof cp)) proof_readDataStream (cp_proof cp)"
    using cp by (auto intro: coin_stream.carried proof_stream.carried simp: cp_fits_def)
  then show "carried (cp_writeDataStream cp) (cp_readDataStream c) cp"
    by (auto simp: cp_writeDataStream_def cp_readDataStream_def elim!: carriedE)
qed

lemma calculateTransactionID_idem: "calculateTransactionID c t = Inr t' \<Longrightarrow> calculateTransactionID c t' = Inr t'"
proof -
  assume t: "calculateTransactionID c t = Inr t'"
  then obtain h where "t' = t\<lparr>tx_id := h\<rparr>" by (auto simp: calculateTransactionID_def)
  then show ?thesis using t by (simp add: calculateTransactionID_again)
qed

subsection \<open>Properties\<close>

text \<open>A coin with hashes of at most 64 bytes, canonical state variables and a token carrying its own
  identifier is written to a stream from which exactly the same coin is read back, with the following
  bytes untouched; \<open>deepCopy\<close>, which goes through the stream, gives the same coin, and two different
  coins have different stream forms.\<close>

theorem coin_stream_roundtrip:
  assumes "coin_fits c co" "coin_fits c co'"
  shows "(\<exists>bs. coin_writeDataStream co = Inr bs \<and> (\<forall>rest. coin_readDataStream c (bs @ rest) = Inr (co, rest)))
    \<and> deepCopy c co = Inr (Some co) \<and> (coin_writeDataStream co = coin_writeDataStream co' \<longleftrightarrow> co = co')"
proof -
  obtain bs where bs: "coin_writeDataStream co = Inr bs" "\<And>rest. coin_readDataStream c (bs @ rest) = Inr (co, rest)"
    using coin_stream.carried [OF assms(1)] by (auto elim: carriedE)
  then have "deepCopy c co = Inr (Some co)" using bs(2) [of "[]"] by (simp add: deepCopy_def)
  then show ?thesis using bs coin_stream.injective [OF assms] by simp
qed

theorem coin_stream_roundtrip_witness:
  "deepCopy sample_crypto (coin_new [5] [7] mn_ONE TOKENID_MINIMA False) = Inr (Some (coin_new [5] [7] mn_ONE TOKENID_MINIMA False))"
proof -
  have "coin_fits sample_crypto (coin_new [5] [7] mn_ONE TOKENID_MINIMA False)" by code_simp
  from coin_stream_roundtrip [OF this this] show ?thesis by blast
qed

end
