(* ===== verification/ObjectsLaws.thy ===== *)
theory ObjectsLaws
  imports ObjectStreams
begin

text \<open>
  What the checks of a transaction promise, the forms of addresses and scripts, the transaction's
  state, and the stream forms of the objects.
\<close>

subsection \<open>Sums of coins\<close>

definition coin_value :: "coin \<Rightarrow> rat" where
  "coin_value co = mval (c_amount co)"

definition value_of :: "coin list \<Rightarrow> rat" where
  "value_of cs = (\<Sum>co\<leftarrow>cs. coin_value co)"

abbreviation of_token :: "byte list \<Rightarrow> coin list \<Rightarrow> coin list" where
  "of_token tok cs \<equiv> filter (\<lambda>cc. c_tokenid cc = tok) cs"

lemma value_of_simps [simp]: "value_of [] = 0" "value_of (co # cs) = coin_value co + value_of cs"
  by (simp_all add: value_of_def)

definition amounts_ok :: "coin list \<Rightarrow> bool" where
  "amounts_ok cs = (\<forall>co \<in> set cs. mn_wf (c_amount co) \<and> 0 < coin_value co \<and> coin_value co \<le> 10 ^ 9)"

lemma amounts_ok_filter: "amounts_ok cs \<Longrightarrow> amounts_ok (filter P cs)"
  by (simp add: amounts_ok_def)

lemma value_of_bounds:
  assumes "amounts_ok cs"
  shows "0 \<le> value_of cs" "value_of cs \<le> of_nat (length cs) * 10 ^ 9"
  using assms by (induction cs) (force simp: amounts_ok_def algebra_simps)+

lemma sum_from_mn_sum: "sum_from tot cs = mn_sum tot (map c_amount cs)"
  by (induction cs arbitrary: tot) simp_all

lemma sum_coins_exact:
  assumes "amounts_ok cs" "list_fits cs"
  shows "exactly (value_of cs) (sum_coins cs)"
proof -
  have "value_of cs \<le> of_nat (length cs) * 10 ^ 9" using value_of_bounds(2) [OF assms(1)] .
  also have "\<dots> \<le> of_nat (2 ^ 31) * 10 ^ 9"
    using assms(2) by (intro mult_right_mono, unfold of_nat_le_iff) simp_all
  finally have b: "value_of cs < 10 ^ 20" by simp
  have "value_of cs = (\<Sum>x\<leftarrow>map c_amount cs. mval x)" by (simp add: value_of_def coin_value_def comp_def)
  then show ?thesis
    using mn_sum_exact [of mn_ZERO "map c_amount cs"] assms(1) b
    by (simp add: sum_coins_def sum_from_mn_sum amounts_ok_def coin_value_def order.strict_implies_order)
qed

lemma sum_coins_of_exact: "amounts_ok cs \<Longrightarrow> list_fits cs \<Longrightarrow> exactly (value_of (of_token tok cs)) (sum_coins_of tok cs)"
  unfolding sum_coins_of_def
  using length_filter_le [of "\<lambda>cc. c_tokenid cc = tok" cs] by (intro sum_coins_exact amounts_ok_filter) linarith+

subsection \<open>Valid transactions\<close>

text \<open>What a valid transaction is meant to be: it has inputs, all amounts are between zero and a billion,
  it does not give out more than it takes in, in all and for every token but the marker of created
  tokens, and no coin is spent twice.\<close>

definition balanced :: "transaction \<Rightarrow> bool" where
  "balanced t = (value_of (tx_outputs t) \<le> value_of (tx_inputs t)
     \<and> (\<forall>tok. tok \<noteq> TOKENID_CREATE \<longrightarrow> value_of (of_token tok (tx_outputs t)) \<le> value_of (of_token tok (tx_inputs t))))"

definition tx_sound :: "transaction \<Rightarrow> bool" where
  "tx_sound t = (tx_inputs t \<noteq> [] \<and> amounts_ok (tx_inputs t) \<and> amounts_ok (tx_outputs t) \<and> balanced t
     \<and> distinct (map c_coinid (tx_inputs t)))"

abbreviation tx_typed :: "transaction \<Rightarrow> bool" where
  "tx_typed t \<equiv> list_all (\<lambda>co. mn_wf (c_amount co)) (tx_inputs t @ tx_outputs t)
     \<and> list_fits (tx_inputs t) \<and> list_fits (tx_outputs t)"

lemma coinids_unique_distinct: "coinids_unique cs \<longleftrightarrow> distinct (map c_coinid cs)"
  by (induction cs) (auto simp: list_all_iff)

lemma distinct_short: "\<not> 1 < length cs \<Longrightarrow> distinct (map f cs)"
  by (cases cs; cases "tl cs") simp_all

lemma output_tokens_set:
  "set (output_tokens ts cs) = set ts \<union>
     (\<lambda>cc. to0xString (md (if c_tokenid cc = TOKENID_CREATE then TOKENID_MINIMA else c_tokenid cc))) ` set cs"
  by (induction cs arbitrary: ts) (auto simp: Let_def)

text \<open>The output tokens as data: printing and reading an identifier gives it back.\<close>

definition out_tokens :: "coin list \<Rightarrow> byte list set" where
  "out_tokens cs = (\<lambda>cc. if c_tokenid cc = TOKENID_CREATE then TOKENID_MINIMA else c_tokenid cc) ` set cs"

lemma output_tokens_printed: "set (output_tokens [] cs) = (\<lambda>tok. to0xString (md tok)) ` out_tokens cs"
  by (auto simp: output_tokens_set out_tokens_def)

lemma printed_inj: "inj (\<lambda>tok. to0xString (md tok))"
  by (rule injI) (metis to0xString_def md_sel(1) decode16_encode16 sum.inject(2))

lemma printed_list:
  assumes "set ss = (\<lambda>tok. to0xString (md tok)) ` T"
  shows "\<exists>toks. ss = map (\<lambda>tok. to0xString (md tok)) toks \<and> set toks = T"
proof -
  obtain toks where t: "ss = map (\<lambda>tok. to0xString (md tok)) toks"
    using assms ex_map_conv [of ss "\<lambda>tok. to0xString (md tok)"] by (metis imageE)
  then have "(\<lambda>tok. to0xString (md tok)) ` set toks = (\<lambda>tok. to0xString (md tok)) ` T" using assms by simp
  then show ?thesis using t inj_image_eq_iff [OF printed_inj] by blast
qed

lemma md_of_printed [simp]: "md_of_string (to0xString (md tok)) = Inr (md tok)"
  by (simp add: md_of_string_def to0xString_def decode16_encode16)

lemma out_amounts_eq:
  assumes "amounts_ok (tx_outputs t)" "list_fits (tx_outputs t)" "ts = map (\<lambda>tok. to0xString (md tok)) toks"
  shows "\<exists>as. out_amounts t ts = Inr as
    \<and> list_all2 (\<lambda>tok (s, a). s = to0xString (md tok) \<and> mn_wf a \<and> mval a = value_of (of_token tok (tx_outputs t))) toks as"
  using assms(3)
proof (induction toks arbitrary: ts)
  case (Cons tok toks)
  obtain a where "sumOutputs_of tok t = Inr a" "mn_wf a" "mval a = value_of (of_token tok (tx_outputs t))"
    using sum_coins_of_exact [OF assms(1,2)] by (auto simp: sumOutputs_of_def exactly_iff)
  then show ?case using Cons by fastforce
qed simp

lemma enough_inputs_eq:
  assumes "amounts_ok (tx_inputs t)" "list_fits (tx_inputs t)"
    "list_all2 (\<lambda>tok (s, a). s = to0xString (md tok) \<and> mn_wf a \<and> mval a = v tok) toks as"
  shows "enough_inputs t as = Inr (\<forall>tok \<in> set toks. v tok \<le> value_of (of_token tok (tx_inputs t)))"
  using assms(3)
proof (induction toks as rule: list_all2_induct)
  case (Cons tok toks p as)
  obtain a where "sumInputs_of tok t = Inr a" "mn_wf a" "mval a = value_of (of_token tok (tx_inputs t))"
    using sum_coins_of_exact [OF assms(1,2)] by (auto simp: sumInputs_of_def exactly_iff)
  then show ?case using Cons by (cases p) (auto simp: mn_compare_val)
qed simp

lemma value_of_absent: "tok \<notin> c_tokenid ` set cs \<Longrightarrow> value_of (of_token tok cs) = 0"
  by (induction cs) auto

text \<open>The per-token check looks at the tokens of the outputs only; the others give out nothing.\<close>

lemma balanced_iff:
  assumes "amounts_ok (tx_inputs t)"
  shows "balanced t \<longleftrightarrow> value_of (tx_outputs t) \<le> value_of (tx_inputs t)
    \<and> (\<forall>tok \<in> out_tokens (tx_outputs t). value_of (of_token tok (tx_outputs t)) \<le> value_of (of_token tok (tx_inputs t)))"
proof -
  have m: "TOKENID_MINIMA \<noteq> TOKENID_CREATE" by (simp add: TOKENID_MINIMA_def TOKENID_CREATE_def)
  have z: "value_of (of_token tok (tx_outputs t)) \<le> value_of (of_token tok (tx_inputs t))"
    if "tok \<notin> out_tokens (tx_outputs t)" "tok \<noteq> TOKENID_CREATE" for tok
  proof -
    have "tok \<notin> c_tokenid ` set (tx_outputs t)" using that by (auto simp: out_tokens_def)
    then show ?thesis using value_of_bounds(1) [OF amounts_ok_filter [OF assms]] by (simp add: value_of_absent)
  qed
  have "tok \<in> out_tokens (tx_outputs t) \<Longrightarrow> tok \<noteq> TOKENID_CREATE" for tok
    using m by (auto simp: out_tokens_def split: if_splits)
  then show ?thesis using z unfolding balanced_def by blast
qed

lemma checkValid_amounts:
  assumes ok: "tx_inputs t \<noteq> []" "amounts_ok (tx_inputs t)" "amounts_ok (tx_outputs t)"
    and fits: "list_fits (tx_inputs t)" "list_fits (tx_outputs t)"
  shows "checkValid t = Inr (balanced t \<and> distinct (map c_coinid (tx_inputs t)))"
proof -
  obtain i where i: "sum_coins (tx_inputs t) = Inr i" "mn_wf i" "mval i = value_of (tx_inputs t)"
    using sum_coins_exact [OF ok(2) fits(1)] by (auto simp: exactly_iff)
  obtain u where u: "sum_coins (tx_outputs t) = Inr u" "mn_wf u" "mval u = value_of (tx_outputs t)"
    using sum_coins_exact [OF ok(3) fits(2)] by (auto simp: exactly_iff)
  have v: "list_all (\<lambda>cc. isValidMinimaValue (c_amount cc)) (tx_inputs t)"
    "list_all (\<lambda>cc. isValidMinimaValue (c_amount cc)) (tx_outputs t)"
    using ok(2,3) by (auto simp: amounts_ok_def list_all_iff isValidMinimaValue_val coin_value_def)
  obtain toks where toks: "output_tokens [] (tx_outputs t) = map (\<lambda>tok. to0xString (md tok)) toks"
      "set toks = out_tokens (tx_outputs t)"
    using printed_list [OF output_tokens_printed] by blast
  obtain as where as: "out_amounts t (output_tokens [] (tx_outputs t)) = Inr as"
      "list_all2 (\<lambda>tok (s, a). s = to0xString (md tok) \<and> mn_wf a \<and> mval a = value_of (of_token tok (tx_outputs t))) toks as"
    using out_amounts_eq [OF ok(3) fits(2) toks(1)] by blast
  have n: "\<not> length (tx_inputs t) < 1" using ok(1) by (cases "tx_inputs t") simp_all
  show ?thesis
    using enough_inputs_eq [OF ok(2) fits(1) as(2)] i u v as(1) toks(2) n distinct_short [of "tx_inputs t" c_coinid]
    by (auto simp: checkValid_def mn_compare_val balanced_iff [OF ok(2)] coinids_unique_distinct)
qed

text \<open>C15 For a transaction of well-formed amounts, \<open>checkValid\<close> answers true exactly when the transaction has
  inputs, every amount is positive and at most a billion, the exact rational sums of the outputs, in
  all and for each token but the marker of created tokens, do not exceed those of the inputs, and no
  coin is spent twice: rounding in the sums never lets value appear or be refused.\<close>

theorem checkValid_sound_and_complete:
  assumes "tx_typed t"
  shows "checkValid t = Inr True \<longleftrightarrow> tx_sound t"
proof (cases "tx_inputs t \<noteq> [] \<and> amounts_ok (tx_inputs t) \<and> amounts_ok (tx_outputs t)")
  case False
  have "amounts_ok cs \<longleftrightarrow> list_all (\<lambda>cc. isValidMinimaValue (c_amount cc)) cs" if "list_all (\<lambda>co. mn_wf (c_amount co)) cs" for cs
    using that by (auto simp: amounts_ok_def list_all_iff isValidMinimaValue_val coin_value_def)
  then have "amounts_ok (tx_inputs t) \<longleftrightarrow> list_all (\<lambda>cc. isValidMinimaValue (c_amount cc)) (tx_inputs t)"
    "amounts_ok (tx_outputs t) \<longleftrightarrow> list_all (\<lambda>cc. isValidMinimaValue (c_amount cc)) (tx_outputs t)"
    using assms by simp_all
  then have "checkValid t \<noteq> Inr True" using False by (auto simp: checkValid_def split: if_splits)
  then show ?thesis using False by (auto simp: tx_sound_def)
next
  case True
  note ok = True [THEN conjunct2, THEN conjunct1] True [THEN conjunct2, THEN conjunct2]
  have fits: "list_fits (tx_inputs t)" "list_fits (tx_outputs t)" using assms by simp_all
  show ?thesis using checkValid_amounts [OF _ ok fits] True by (auto simp: tx_sound_def)
qed
subsection \<open>Created tokens\<close>

definition sample_coin :: "byte list \<Rightarrow> byte list \<Rightarrow> mininumber \<Rightarrow> coin" where
  "sample_coin zCoinID zTokenID zAmount = coin_new zCoinID [7] zAmount zTokenID False"

definition sample_payment :: transaction where
  "sample_payment = addOutput (sample_coin COINID_OUTPUT TOKENID_MINIMA mn_ONE)
     (addInput (sample_coin [5] TOKENID_MINIMA mn_TEN) tx_new)"

theorem checkValid_sound_and_complete_witness: "tx_sound sample_payment"
proof -
  have "tx_typed sample_payment" "checkValid sample_payment = Inr True" by code_simp+
  then show ?thesis using checkValid_sound_and_complete [of sample_payment] by blast
qed

definition sample_creation :: transaction where
  "sample_creation = addOutput (sample_coin COINID_OUTPUT TOKENID_CREATE mn_TEN)
     (addOutput (sample_coin COINID_OUTPUT TOKENID_MINIMA mn_ONE)
     (addInput (sample_coin [6] [1, 2, 3] mn_TEN)
     (addInput (sample_coin [5] TOKENID_MINIMA mn_ONE) tx_new)))"

text \<open>Created tokens escape the per-token check: this transaction takes in one Minima and ten coloured by
  a token, gives out one Minima and ten for a created token, and is valid, although Minima and created
  tokens together take eleven Minima. The marker is renamed to Minima in the list of tokens, but the
  sums are taken over coins whose identifier equals Minima exactly.\<close>

theorem created_tokens_unchecked:
  "checkValid sample_creation = Inr True
    \<and> value_of (of_token TOKENID_MINIMA (tx_inputs sample_creation))
      < value_of (of_token TOKENID_MINIMA (tx_outputs sample_creation)) + value_of (of_token TOKENID_CREATE (tx_outputs sample_creation))"
proof
  show "checkValid sample_creation = Inr True" by code_simp
qed (simp add: sample_creation_def sample_coin_def addOutput_def addInput_def tx_new_def coin_new_def coin_value_def
    TOKENID_MINIMA_def TOKENID_CREATE_def)

subsection \<open>The state of a transaction\<close>

definition state_ok :: "transaction \<Rightarrow> bool" where
  "state_ok t = (sorted (map getPort (tx_state t)) \<and> distinct (map getPort (tx_state t)))"

lemma find_unique: "distinct (map f xs) \<Longrightarrow> find (\<lambda>x. f x = p) xs = Some y \<longleftrightarrow> y \<in> set xs \<and> f y = p"
  by (induction xs) (auto simp: image_iff)

lemma option_ext: "(\<And>y. a = Some y \<longleftrightarrow> b = Some y) \<Longrightarrow> a = b"
  by (cases a; cases b) auto

lemma getStateValue_iff:
  "state_ok t \<Longrightarrow> getStateValue p t = Some sv \<longleftrightarrow> sv \<in> set (tx_state t) \<and> getPort sv = p"
  by (simp add: state_ok_def getStateValue_def find_unique)

lemma removeStateVariable_state:
  assumes "state_ok t"
  shows "state_ok (removeStateVariable p t) \<and> set (tx_state (removeStateVariable p t)) = {sv \<in> set (tx_state t). getPort sv \<noteq> p}"
  using assms
  by (auto simp: state_ok_def removeStateVariable_def list_ex_iff distinct_map inj_on_def sorted_sort_id)

text \<open>C16 The state of a transaction stays sorted by port with one variable per port: starting from a new
  transaction, adding and removing variables keeps it so; adding replaces the variable of its port and
  leaves the others, removing removes that of its port and no other.\<close>

theorem state_variables_as_map:
  assumes "state_ok t"
  shows "state_ok tx_new \<and> state_ok (addStateVariable sv t) \<and> state_ok (removeStateVariable p t)
    \<and> getStateValue q (addStateVariable sv t) = (if q = getPort sv then Some sv else getStateValue q t)
    \<and> getStateValue q (removeStateVariable p t) = (if q = p then None else getStateValue q t)"
proof -
  let ?r = "removeStateVariable (getPort sv) t" and ?a = "addStateVariable sv t"
  note r = removeStateVariable_state [OF assms]
  have a: "set (tx_state ?a) = insert sv (set (tx_state ?r))" "state_ok ?a"
    using r [of "getPort sv"] by (auto simp: addStateVariable_def Let_def state_ok_def distinct_map inj_on_def)
  have "getStateValue q ?a = (if q = getPort sv then Some sv else getStateValue q t)"
    using a r [of "getPort sv"] assms by (intro option_ext) (auto simp: getStateValue_iff)
  moreover have "getStateValue q (removeStateVariable p t) = (if q = p then None else getStateValue q t)"
    using r [of p] assms by (intro option_ext) (auto simp: getStateValue_iff)
  ultimately show ?thesis using a(2) r [of p] by (simp add: state_ok_def tx_new_def)
qed

definition sample_sv :: "byte \<Rightarrow> string \<Rightarrow> state_variable" where
  "sample_sv port s = \<lparr>sv_type = STATETYPE_STRING, sv_port = port, sv_data = s\<rparr>"

theorem state_variables_as_map_witness:
  "getStateValue 3 (addStateVariable (sample_sv 3 ''[b]'') (addStateVariable (sample_sv 3 ''[a]'') tx_new)) = Some (sample_sv 3 ''[b]'')"
proof -
  have "state_ok (addStateVariable (sample_sv 3 ''[a]'') tx_new)" by code_simp
  from state_variables_as_map [OF this, of "sample_sv 3 ''[b]''" _ 3] show ?thesis
    by (simp add: sample_sv_def getPort_def)
qed

subsection \<open>Addresses\<close>

definition address_payload :: "crypto \<Rightarrow> byte list \<Rightarrow> byte list" where
  "address_payload c d = 1 # of_nat (length d div 256) # of_nat (length d mod 256) # d @ take 4 (hashData c d)"

lemma address_length: "n < 65536 \<Longrightarrow> unat (of_nat (n div 256) :: byte) * 256 + unat (of_nat (n mod 256) :: byte) = n"
  by (simp add: unat_of_nat)

lemma unat_byte: "unat (b :: byte) < 256"
  using byte_le_255(1) [of b] by linarith

lemma drop_header: "drop (3 + n) (x # y # z # r) = drop n r" "take n (drop 3 (x # y # z # r)) = take n r"
  by (simp_all add: numeral_3_eq_3)

lemma convert_payload:
  assumes "decode32 s = Inr (address_payload c d @ extra)" "length d < 65536" "4 \<le> length (hashData c d)"
  shows "convertMinimaAddress c s = Inr d"
proof -
  let ?h = "take 4 (hashData c d)"
  have "length ?h = 4" using assms(3) by simp
  then have "take 4 (?h @ extra) = ?h" by simp
  then show ?thesis
    using assms address_length [of "length d"]
    by (simp add: convertMinimaAddress_def address_payload_def Let_def drop_header)
qed

lemma convert_accepts:
  assumes "convertMinimaAddress c s = Inr d"
  shows "length d < 65536 \<and> 4 \<le> length (hashData c d) \<and> (\<exists>extra. decode32 s = Inr (address_payload c d @ extra))"
proof -
  obtain x where x: "decode32 s = Inr x" using assms by (auto simp: convertMinimaAddress_def)
  then have len: "7 \<le> length x" using assms by (auto simp: convertMinimaAddress_def split: if_splits)
  then obtain v a b r where r: "x = v # a # b # r" by (auto simp: numeral_eq_Suc Suc_le_length_iff)
  define n where "n = unat a * 256 + unat b"
  have d: "d = take n r" "n + 4 \<le> length r" "take 4 (drop n r) = take 4 (hashData c d)" "4 \<le> length (hashData c d)" "v = 1"
    using assms x len by (auto simp: convertMinimaAddress_def r n_def [symmetric] Let_def not_less drop_header split: if_splits)
  have n: "n < 65536" unfolding n_def using unat_byte [of a] unat_byte [of b] by linarith
  have "length d = n" using d(1,2) by simp
  moreover have "n div 256 = unat a" "n mod 256 = unat b" using byte_le_255(1) [of b] by (simp_all add: n_def)
  moreover have "r = d @ take 4 (hashData c d) @ drop (n + 4) r"
    by (metis d(1,3) append_take_drop_id drop_drop add.commute)
  ultimately have "x = address_payload c d @ drop (n + 4) r"
    by (simp add: address_payload_def r d(5))
  then show ?thesis using x n d(4) \<open>length d = n\<close> by auto
qed

text \<open>C17 A printed address is read back: for up to 65535 bytes of data, when the digest has the four bytes
  of the checksum, the address of the data is made and converts back to exactly that data. And the
  conversion accepts nothing else: it gives data for a string iff the decoded string starts with the
  version byte, the length, the data and its checksum; bytes after the checksum are ignored.\<close>

theorem address_roundtrip:
  shows "(length d < 65536 \<and> 4 \<le> length (hashData c d)
      \<longrightarrow> (\<exists>s. makeMinimaAddress c d = Inr s \<and> convertMinimaAddress c s = Inr d))
    \<and> (convertMinimaAddress c t = Inr d \<longleftrightarrow> length d < 65536 \<and> 4 \<le> length (hashData c d)
      \<and> (\<exists>extra. decode32 t = Inr (address_payload c d @ extra)))"
proof -
  have "\<exists>s. makeMinimaAddress c d = Inr s \<and> convertMinimaAddress c s = Inr d"
    if l: "length d < 65536" "4 \<le> length (hashData c d)"
  proof -
    let ?s = "encode32 (address_payload c d)"
    have "length d div 256 mod 256 = length d div 256" using l(1) by simp
    then have "makeMinimaAddress c d = Inr ?s"
      using l by (simp add: makeMinimaAddress_def Let_def address_payload_def)
    moreover have "decode32 ?s = Inr (address_payload c d @ [])"
      by (simp add: decode32_encode32 address_payload_def trim_leading_zeros_def)
    ultimately show ?thesis using convert_payload l by blast
  qed
  then show ?thesis using convert_accepts convert_payload by metis
qed

theorem address_roundtrip_witness:
  "\<exists>s. makeMinimaAddress sample_crypto [1, 2, 3] = Inr s \<and> convertMinimaAddress sample_crypto s = Inr [1, 2, 3]"
proof -
  have "length [1 :: byte, 2, 3] < 65536 \<and> 4 \<le> length (hashData sample_crypto [1, 2, 3])"
    by (simp add: hashData_def sample_crypto_def)
  then show ?thesis using conjunct1 [OF address_roundtrip, of "[1, 2, 3]" sample_crypto] by (rule rev_mp)
qed

text \<open>The MMR of one leaf without value: its root is the leaf.\<close>

lemma single_leaf_proof:
  assumes "d_value d = mn_ZERO" "d_Clone d = d"
  shows "\<exists>m p. addEntry c [] d mmr_new = Inr (node 0 0 d, m) \<and> getProof c [] m (en 0) = Inr p \<and> calculateProof c p d = Inr d"
proof -
  have z: "zeros [d]" using assms by (simp add: zeros_def)
  have "outcome {} (\<lambda>(e, m'). mmr_inv c [d] m') (addEntry c [] d mmr_new)"
    using addEntry_outcome [OF mmr_new_inv, of d c] zeros_sums [OF z, of c] by (simp add: MAXROWS_def)
  then obtain e m where a: "addEntry c [] d mmr_new = Inr (e, m)" "mmr_inv c [d] m"
    by (cases "addEntry c [] d mmr_new") auto
  have e: "e = node 0 0 d" using addEntry_inv [OF mmr_new_inv a(1)] by simp
  have "outcome {} (\<lambda>r. r \<noteq> None) (getRoot c m)"
    using getRoot_outcome [OF a(2)] zeros_sums [OF z, of c] z by (simp add: bag_errors_def)
  then obtain r where r: "getRoot c m = Inr (Some r)" by (cases "getRoot c m") auto
  have "length (getPeaks m) \<le> 1" using fewer_peaks(1) [OF a(2)] by simp
  moreover have "node 0 0 d \<in> set (getPeaks m)"
    using assms(2) by (intro set_getPeaks [OF a(2)]) (simp_all add: peak_def)
  ultimately have ps: "getPeaks m = [node 0 0 d]" by (cases "getPeaks m") auto
  have "\<not> mFinalized m" using a(2) by (simp add: mmr_inv_def rows_def)
  then have "r = d" using r ps assms(2) by (simp add: getRoot_def getRootInternal_def deref_def)
  then show ?thesis
    using getProof_reaches_root [of c "[d]" m 0 r] a r e
      bag_ok_zeros [OF full_getPeaks [OF a(2)] zeros_peaks [OF a(2) z], of "Suc (length (getPeaks m))" c] by fastforce
qed

text \<open>The address of a script is the same wherever it is computed: \<open>Address\<close> and \<open>ScriptProof\<close> both
  succeed and both give the hash of the leaf that holds the script, when the digest is long enough for
  a checksum. So a script that a transaction shows hashes to the address its coin was sent to.\<close>

theorem script_address_is_leaf_hash:
  assumes "\<forall>x. 4 \<le> length (hashData c x)"
  shows "\<exists>mx p. let leaf = hashData c (mn_writeDataStream mn_ZERO @ ms_writeDataStream s @ mn_writeDataStream mn_ZERO) in
    address_of_script c s = Inr \<lparr>a_script = s, a_data = leaf, a_minima = mx\<rparr>
    \<and> script_proof_new c s = Inr \<lparr>sc_script = s, sc_proof = p, sc_address = \<lparr>a_script = [], a_data = leaf, a_minima = mx\<rparr>\<rparr>"
proof -
  let ?h = "hashData c (mn_writeDataStream mn_ZERO @ ms_writeDataStream s @ mn_writeDataStream mn_ZERO)"
  let ?l = "mmr_data ?h mn_ZERO"
  have leaf: "script_leaf c s = Inr ?l"
    by (simp add: script_leaf_def CreateMMRDataLeafNode_def hashAllObjects_def hash_stream_def)
  obtain m p where m: "addEntry c [] ?l mmr_new = Inr (node 0 0 ?l, m)" "getProof c [] m (en 0) = Inr p"
      "calculateProof c p ?l = Inr ?l"
    using single_leaf_proof [of ?l c] by (auto simp: mmr_data_def d_Clone_def)
  obtain mx where mx: "makeMinimaAddress c ?h = Inr mx"
    using assms by (auto simp: makeMinimaAddress_def Let_def not_less)
  show ?thesis
    using leaf m mx
    by (auto simp: address_of_script_def script_proof_new_def calculateAddress_def address_of_data_def Let_def mmr_data_def)
qed

theorem script_address_is_leaf_hash_witness:
  "\<exists>a. address_of_script sample_crypto ''RETURN TRUE'' = Inr a"
proof -
  have "4 \<le> length (hashData sample_crypto x)" for x by (simp add: hashData_def sample_crypto_def)
  then have "\<forall>x. 4 \<le> length (hashData sample_crypto x)" by blast
  from script_address_is_leaf_hash [OF this, of "''RETURN TRUE''"] show ?thesis by (auto simp: Let_def)
qed

subsection \<open>What the streams keep\<close>

text \<open>The text a hexadecimal variable comes back with.\<close>

definition sv_canonical :: "state_variable \<Rightarrow> state_variable result" where
  "sv_canonical sv =
     (if sv_type sv = STATETYPE_HEX then bindE (md_of_string (sv_data sv)) (\<lambda>d. Inr (sv\<lparr>sv_data := to0xString d\<rparr>))
      else Inr sv)"

lemma sv_new_cases:
  assumes "sv_new zPort zData = Inr sv"
  obtains "sv_type sv = STATETYPE_HEX" "sv_data sv = zData"
  | "sv_type sv = STATETYPE_BOOL" "sv_data sv = ''TRUE'' \<or> sv_data sv = ''FALSE''"
  | "sv_type sv = STATETYPE_STRING" "sv_data sv = zData"
  | n where "sv_type sv = STATETYPE_NUMBER" "mn_wf n" "sv_data sv = to_plain_string n"
  using assms mn_of_string_outcome [of zData]
  by (cases "mn_of_string zData") (auto simp: sv_new_def Let_def split: if_splits)

lemma length_hex_pairs: "length (hex_pairs s) \<le> length s"
  by (induction s rule: hex_pairs.induct) simp_all

lemma length_decode16: "decode16 s = Inr bs \<Longrightarrow> length bs \<le> Suc (length s)"
  using length_hex_pairs [of "map to_upper s"] length_hex_pairs [of "CHR ''0'' # map to_upper s"]
    length_hex_pairs [of "map to_upper (drop 2 s)"] length_hex_pairs [of "CHR ''0'' # map to_upper (drop 2 s)"]
  by (auto simp: decode16_def Let_def split: if_splits)

text \<open>A state variable made from a script's text goes through its stream form unchanged, except that
  hexadecimal data comes back in upper case. A variable that starts with \<open>0x\<close> but is no hexadecimal
  data is accepted when it is made and can never be written.\<close>

theorem state_variable_stream:
  assumes "sv_new zPort zData = Inr sv" "length zData < 2 ^ 28"
  shows "(\<forall>sv'. sv_canonical sv = Inr sv' \<longrightarrow>
      (\<exists>bs. sv_writeDataStream sv = Inr bs \<and> (\<forall>rest. sv_readDataStream (bs @ rest) = Inr (sv', rest))))
    \<and> (\<forall>e. sv_canonical sv = Inl e \<longrightarrow> sv_writeDataStream sv = Inl e)"
  using assms(1)
proof (cases rule: sv_new_cases)
  case 1
  note t = STATETYPE_HEX_def STATETYPE_BOOL_def
  show ?thesis
  proof (cases "md_of_string (sv_data sv)")
    case (Inr d)
    have "data_fits (mData d)" using length_decode16 [of zData "mData d"] Inr 1 assms(2) by (auto simp: md_of_string_def MINIMA_MAX_MINIDATA_LENGTH_def)
    then show ?thesis
      using Inr 1 read_data [of "mData d"] md_of_string_md [OF Inr]
      by (auto simp: sv_canonical_def sv_writeDataStream_def sv_readDataStream_def t)
  qed (use 1 in \<open>simp add: sv_canonical_def sv_writeDataStream_def t\<close>)
next
  case (4 n)
  note t = STATETYPE_HEX_def STATETYPE_BOOL_def STATETYPE_NUMBER_def
  obtain k where k: "mn_of_string (to_plain_string n) = Inr k" "mn_wf k" "mval k = mval n"
    using mn_of_string_to_plain [OF 4(2)] by (auto simp: exactly_iff)
  then have "to_plain_string k = to_plain_string n" using to_plain_string_eq_iff 4(2) by simp
  then show ?thesis
    using 4 k by (auto simp: sv_canonical_def sv_writeDataStream_def sv_readDataStream_def t)
qed (use assms in \<open>auto simp: sv_canonical_def sv_writeDataStream_def sv_readDataStream_def STATETYPE_HEX_def
    STATETYPE_BOOL_def STATETYPE_NUMBER_def STATETYPE_STRING_def MINIMA_MAX_MINIDATA_LENGTH_def\<close>)

theorem state_variable_stream_witness:
  "\<exists>sv sv' bs. sv_new 3 ''0xab'' = Inr sv \<and> sv_data sv = ''0xab'' \<and> sv_writeDataStream sv = Inr bs
    \<and> sv_readDataStream bs = Inr (sv', []) \<and> sv_data sv' = ''0xAB''"
proof -
  let ?sv = "\<lparr>sv_type = STATETYPE_HEX, sv_port = 3, sv_data = ''0xab''\<rparr>"
  have n: "sv_new 3 ''0xab'' = Inr ?sv" by code_simp
  have c: "sv_canonical ?sv = Inr (?sv\<lparr>sv_data := ''0xAB''\<rparr>)" by code_simp
  obtain bs where "sv_writeDataStream ?sv = Inr bs" "sv_readDataStream (bs @ []) = Inr (?sv\<lparr>sv_data := ''0xAB''\<rparr>, [])"
    using conjunct1 [OF state_variable_stream [OF n], rule_format, OF _ c] by (auto simp del: append_Nil2)
  then show ?thesis using n by (intro exI conjI) (assumption | simp)+
qed


definition sample_signed :: "mininumber \<Rightarrow> transaction" where
  "sample_signed a = (case calculateTransactionID sample_crypto (addInput (sample_coin [5] TOKENID_MINIMA a) tx_new) of
     Inr t \<Rightarrow> t | Inl e \<Rightarrow> tx_new)"


end
