(* ===== verification/KissLaws.thy ===== *)
theory KissLaws
  imports KissEval ObjectsLaws
begin

text \<open>
  What every run of the script machine keeps, for all functions and statements at once: \<open>vm n Q m\<close> says
  that the action \<open>m\<close>, started with fewer than \<open>n\<close> instructions left, does not run out of fuel, keeps
  values and the environment, counts instructions and gives a result with \<open>Q\<close>. The rules take an action
  apart along \<open>vbind\<close>; the evaluator of the level below enters as a locale, which evaluation itself
  provides at the end.
\<close>

subsection \<open>The invariant and the order of states\<close>

definition vals_ok :: "(string \<Rightarrow> kvalue option) \<Rightarrow> bool" where
  "vals_ok f = (\<forall>k v. f k = Some v \<longrightarrow> value_wf v)"

definition numbers_ok :: "transaction \<Rightarrow> bool" where
  "numbers_ok t = list_all (\<lambda>co. mn_wf (c_amount co)) (tx_inputs t @ tx_outputs t)"

definition contract_ok :: "contract \<Rightarrow> bool" where
  "contract_ok s = (vals_ok (mVariables s) \<and> vals_ok (mGlobals s) \<and> numbers_ok (mTransaction s))"

definition environment :: "contract \<Rightarrow> string \<times> transaction \<times> witness \<times> state_variable list \<times> byte list list \<times> stmt list
    \<times> (string \<Rightarrow> kvalue option) \<times> bool \<times> bool \<times> int" where
  "environment s = (mRamScript s, mTransaction s, mWitness s, mPrevState s, mSignatures s, mBlock s, mGlobals s,
     mParseOK s, mException s, mMaxInstructions s)"

definition verdict_kept :: "contract \<Rightarrow> contract \<Rightarrow> bool" where
  "verdict_kept s s' = ((mMonotonic s' \<longrightarrow> mMonotonic s)
     \<and> (mSuccessSet s \<longrightarrow> mSuccessSet s' \<and> mSuccess s' = mSuccess s))"

definition evolves :: "contract \<Rightarrow> contract \<Rightarrow> bool" where
  "evolves s s' = (environment s' = environment s \<and> verdict_kept s s' \<and> mNumInstructions s \<le> mNumInstructions s')"

definition budget :: "contract \<Rightarrow> int" where
  "budget s = max 0 (mMaxInstructions s + 1 - mNumInstructions s)"

definition within_limit :: "contract \<Rightarrow> bool" where
  "within_limit s = (mNumInstructions s \<le> mMaxInstructions s)"

lemma evolves_refl [simp]: "evolves s s"
  by (simp add: evolves_def verdict_kept_def)

lemma evolves_trans [trans]: "evolves a b \<Longrightarrow> evolves b c \<Longrightarrow> evolves a c"
  by (auto simp: evolves_def verdict_kept_def)

lemma evolves_max: "evolves s s' \<Longrightarrow> mMaxInstructions s' = mMaxInstructions s"
  by (simp add: evolves_def environment_def)

lemma evolves_budget: "evolves s s' \<Longrightarrow> budget s' \<le> budget s"
  using evolves_max [of s s'] by (auto simp: budget_def evolves_def)

definition vm :: "nat \<Rightarrow> ('a \<Rightarrow> bool) \<Rightarrow> 'a kvm \<Rightarrow> bool" where
  "vm n Q m = (\<forall>s. contract_ok s \<and> budget s < int n \<longrightarrow> (case m s of (r, s') \<Rightarrow>
     contract_ok s' \<and> evolves s s' \<and> outcome proper (\<lambda>x. Q x \<and> (within_limit s \<longrightarrow> within_limit s')) r))"

text \<open>An action that throws when no instruction is left.\<close>

definition strict :: "'a kvm \<Rightarrow> bool" where
  "strict m = (\<forall>s. \<not> mNumInstructions s < mMaxInstructions s \<longrightarrow> (\<exists>e s'. m s = (Inl e, s')))"

subsection \<open>Rules\<close>

lemma vm_mono: "vm n P m \<Longrightarrow> (\<And>x. P x \<Longrightarrow> Q x) \<Longrightarrow> vm n Q m"
  by (fastforce simp: vm_def elim: outcome_mono)

lemma vm_True: "vm n P m \<Longrightarrow> vm n (\<lambda>_. True) m"
  by (erule vm_mono) simp

lemma vm_ret [kvm_rules]: "Q x \<Longrightarrow> vm n Q (vret x)"
  by (simp add: vm_def vret_def)

lemma vm_lift [kvm_rules]: "outcome proper Q r \<Longrightarrow> vm n Q (vlift r)"
  by (auto simp: vm_def vlift_def elim: outcome_mono)

lemma vm_throw [kvm_rules]: "vm n Q (vthrow e)"
  by (simp add: vm_def vthrow_def vlift_def)

lemma vm_undef [kvm_rules]: "vm n Q (vlift (Inl Undef))"
  by (simp add: vm_def vlift_def)

lemma vm_get: "(\<And>s. contract_ok s \<Longrightarrow> Q (f s)) \<Longrightarrow> vm n Q (vget f)"
  by (simp add: vm_def vget_def)

lemma vm_get_any [kvm_rules]: "vm n (\<lambda>_. True) (vget f)"
  by (rule vm_get) simp

lemma vm_guard [kvm_rules]: "vm n (\<lambda>_. b) (vguard b)"
  by (simp add: vguard_def vm_ret vm_throw)

lemma vm_bind:
  assumes "vm n P m" "\<And>x. P x \<Longrightarrow> vm n Q (f x)"
  shows "vm n Q (vbind m f)"
  unfolding vm_def
proof (intro allI impI, elim conjE)
  fix s assume s: "contract_ok s" "budget s < int n"
  obtain r s1 where m: "m s = (r, s1)" by (cases "m s")
  have a: "contract_ok s1" "evolves s s1" "outcome proper (\<lambda>x. P x \<and> (within_limit s \<longrightarrow> within_limit s1)) r"
    using assms(1) s m by (auto simp: vm_def)
  show "case vbind m f s of (r, s') \<Rightarrow> contract_ok s' \<and> evolves s s' \<and> outcome proper (\<lambda>x. Q x \<and> (within_limit s \<longrightarrow> within_limit s')) r"
  proof (cases r)
    case (Inr x)
    obtain r2 s2 where f: "f x s1 = (r2, s2)" by (cases "f x s1")
    have "budget s1 < int n" using evolves_budget [OF a(2)] s(2) by simp
    then have b: "contract_ok s2" "evolves s1 s2" "outcome proper (\<lambda>x. Q x \<and> (within_limit s1 \<longrightarrow> within_limit s2)) r2"
      using assms(2) [of x] a(1,3) f Inr by (auto simp: vm_def)
    then have "outcome proper (\<lambda>x. Q x \<and> (within_limit s \<longrightarrow> within_limit s2)) r2"
      using a(3) Inr by (auto elim: outcome_mono)
    then show ?thesis using b(1) evolves_trans [OF a(2) b(2)] m Inr f by (simp add: vbind_def)
  qed (use a m in \<open>simp add: vbind_def\<close>)
qed

text \<open>An instruction taken leaves one less for what follows.\<close>

lemma vm_tick:
  assumes "0 < k" "\<And>x. vm n Q (f x)"
  shows "vm (Suc n) Q (vbind (incrementInstructions k) f)"
  unfolding vm_def
proof (intro allI impI, elim conjE)
  fix s assume s: "contract_ok s" "budget s < int (Suc n)"
  let ?t = "s\<lparr>mNumInstructions := mNumInstructions s + k\<rparr>"
  have t: "contract_ok ?t" "evolves s ?t"
    using s(1) assms(1) by (simp_all add: contract_ok_def evolves_def environment_def verdict_kept_def)
  have i: "incrementInstructions k s = (if mNumInstructions ?t > mMaxInstructions ?t then (Inl (Throw ExecutionException), ?t) else (Inr (), ?t))"
    by (simp add: incrementInstructions_def vbind_def vmod_def vget_def vthrow_def vlift_def vret_def)
  obtain r s2 where f: "f () ?t = (r, s2)" by (cases "f () ?t")
  show "case vbind (incrementInstructions k) f s of (r, s') \<Rightarrow>
      contract_ok s' \<and> evolves s s' \<and> outcome proper (\<lambda>x. Q x \<and> (within_limit s \<longrightarrow> within_limit s')) r"
  proof (cases "mNumInstructions ?t > mMaxInstructions ?t")
    case False
    then have "budget ?t < int n" using s(2) assms(1) by (simp add: budget_def)
    then have b: "contract_ok s2" "evolves ?t s2" "outcome proper (\<lambda>x. Q x \<and> (within_limit ?t \<longrightarrow> within_limit s2)) r"
      using assms(2) [of "()"] t(1) f by (auto simp: vm_def)
    have "within_limit ?t" using False by (simp add: within_limit_def)
    then have "outcome proper (\<lambda>x. Q x \<and> (within_limit s \<longrightarrow> within_limit s2)) r" using b(3) by (auto elim: outcome_mono)
    then show ?thesis using b(1) evolves_trans [OF t(2) b(2)] False f by (simp add: vbind_def i)
  qed (use t i in \<open>simp add: vbind_def\<close>)
qed

lemma vm_tick_same [kvm_rules]: "0 \<le> k \<Longrightarrow> vm n (\<lambda>_. True) (incrementInstructions k)"
  by (auto simp: vm_def incrementInstructions_def vbind_def vmod_def vget_def vthrow_def vlift_def vret_def
      contract_ok_def evolves_def environment_def verdict_kept_def within_limit_def)

lemma vm_zero: "vm 0 Q m"
  by (simp add: vm_def budget_def)

lemma vm_catch:
  assumes "vm n Q m" "vm n Q h" "strict h"
  shows "vm n Q (vcatch m h)"
  unfolding vm_def
proof (intro allI impI, elim conjE)
  fix s assume s: "contract_ok s" "budget s < int n"
  obtain r s1 where m: "m s = (r, s1)" by (cases "m s")
  have a: "contract_ok s1" "evolves s s1" "outcome proper (\<lambda>x. Q x \<and> (within_limit s \<longrightarrow> within_limit s1)) r"
    using assms(1) s m by (auto simp: vm_def)
  show "case vcatch m h s of (r, s') \<Rightarrow> contract_ok s' \<and> evolves s s' \<and> outcome proper (\<lambda>x. Q x \<and> (within_limit s \<longrightarrow> within_limit s')) r"
  proof (cases "r = Inl (Throw ExecutionException)")
    case True
    obtain r2 s2 where f: "h s1 = (r2, s2)" by (cases "h s1")
    have "budget s1 < int n" using evolves_budget [OF a(2)] s(2) by simp
    then have b: "contract_ok s2" "evolves s1 s2" "outcome proper (\<lambda>x. Q x \<and> (within_limit s1 \<longrightarrow> within_limit s2)) r2"
      using assms(2) a(1) f by (auto simp: vm_def)
    have "within_limit s1" if "r2 = Inr x" for x
      using assms(3) f that by (cases "mNumInstructions s1 < mMaxInstructions s1") (auto simp: strict_def within_limit_def)
    then have "outcome proper (\<lambda>x. Q x \<and> (within_limit s \<longrightarrow> within_limit s2)) r2"
      using b(3) by (cases r2) auto
    then show ?thesis using b(1) evolves_trans [OF a(2) b(2)] m True f by (simp add: vcatch_def)
  qed (use a m in \<open>auto simp: vcatch_def split: sum.splits\<close>)
qed

lemma vm_rethrow: "vm n Q m \<Longrightarrow> vm n Q (vrethrow m)"
  by (fastforce simp: vm_def vrethrow_def split: prod.splits sum.splits error.splits)

lemma strict_tick: "0 < k \<Longrightarrow> strict (vbind (incrementInstructions k) f)"
  by (auto simp: strict_def incrementInstructions_def vbind_def vmod_def vget_def vthrow_def vlift_def vret_def)

lemma strict_bind: "strict m \<Longrightarrow> strict (vbind m f)"
  by (fastforce simp: strict_def vbind_def)

text \<open>Updates of the state.\<close>

lemma vm_mod: "(\<And>s. contract_ok s \<Longrightarrow> contract_ok (f s) \<and> evolves s (f s) \<and> mNumInstructions (f s) = mNumInstructions s)
    \<Longrightarrow> vm n (\<lambda>_. True) (vmod f)"
  unfolding vm_def vmod_def within_limit_def by simp (metis evolves_max)

lemma vals_ok_upd: "vals_ok f \<Longrightarrow> value_wf v \<Longrightarrow> vals_ok (f(k \<mapsto> v))" "vals_ok f \<Longrightarrow> vals_ok (f(k := None))"
  by (auto simp: vals_ok_def)

lemmas state_defs = contract_ok_def evolves_def environment_def verdict_kept_def

lemma vm_state [kvm_rules]:
  "value_wf v \<Longrightarrow> vm n (\<lambda>_. True) (setVariable k v)" "vm n (\<lambda>_. True) (removeVariable k)"
  "vm n (\<lambda>_. True) (setRETURNValue b)" "vm n (\<lambda>_. True) decrementStackDepth"
  unfolding setVariable_def removeVariable_def setRETURNValue_def decrementStackDepth_def
  by (rule vm_mod; simp add: state_defs vals_ok_upd)+

lemma vm_incrementStackDepth [kvm_rules]: "vm n (\<lambda>_. True) incrementStackDepth"
  unfolding incrementStackDepth_def
  by (rule vm_bind [OF vm_mod]) (auto simp: state_defs vthrow_def [symmetric] intro!: vm_bind [OF vm_get_any] vm_throw vm_ret)

lemma vm_getVariable [kvm_rules]: "vm n (\<lambda>v. \<forall>x. v = Some x \<longrightarrow> value_wf x) (getVariable k)"
  unfolding getVariable_def by (rule vm_get) (auto simp: contract_ok_def vals_ok_def)

lemma vm_getGlobal [kvm_rules]: "vm n value_wf (getGlobal k)"
  unfolding getGlobal_def
proof (rule vm_bind)
  show "vm n (\<lambda>v. \<forall>x. v = Some x \<longrightarrow> value_wf x) (vget (\<lambda>s. mGlobals s k))"
    by (rule vm_get) (auto simp: contract_ok_def vals_ok_def)
next
  fix g :: "kvalue option" assume "\<forall>x. g = Some x \<longrightarrow> value_wf x"
  moreover have "vm n (\<lambda>_. True) (vmod (\<lambda>s. s\<lparr>mMonotonic := False\<rparr>))" by (rule vm_mod) (simp add: state_defs)
  ultimately show "vm n value_wf (case g of None \<Rightarrow> vthrow ExecutionException | Some v \<Rightarrow>
      vbind (if k = ''@BLOCK'' \<or> k = ''@BLOCKMILLI'' \<or> k = ''@COINAGE'' then vmod (\<lambda>s. s\<lparr>mMonotonic := False\<rparr>) else vret ())
        (\<lambda>_. vret v))"
    by (auto intro!: vm_bind [where P = "\<lambda>_. True"] kvm_rules split: option.splits)
qed

lemma vm_coin_at [kvm_rules]:
  assumes "coins = tx_inputs \<or> coins = tx_outputs"
  shows "vm n (\<lambda>co. mn_wf (c_amount co)) (coin_at coins i)"
  unfolding coin_at_def
proof (rule vm_bind)
  show "vm n (list_all (\<lambda>co. mn_wf (c_amount co))) (vget (\<lambda>s. coins (mTransaction s)))"
    using assms by (intro vm_get) (auto simp: contract_ok_def numbers_ok_def)
qed (auto simp: list_all_length intro!: kvm_rules)

lemma vm_if: "(b \<Longrightarrow> vm n Q x) \<Longrightarrow> (\<not> b \<Longrightarrow> vm n Q y) \<Longrightarrow> vm n Q (if b then x else y)"
  by simp

lemma vm_case_option: "(x = None \<Longrightarrow> vm n Q a) \<Longrightarrow> (\<And>y. x = Some y \<Longrightarrow> vm n Q (f y))
    \<Longrightarrow> vm n Q (case x of None \<Rightarrow> a | Some y \<Rightarrow> f y)"
  by (cases x) simp_all

subsection \<open>Sequences\<close>

lemma bind_any: "vm n P m \<Longrightarrow> (\<And>x. vm n Q (f x)) \<Longrightarrow> vm n Q (vbind m f)"
  by (rule vm_bind)

lemma bind_guard: "(b \<Longrightarrow> vm n Q (f ())) \<Longrightarrow> vm n Q (vbind (vguard b) f)"
  by (rule vm_bind [OF vm_guard]) simp

lemma bind_lift: "outcome proper P r \<Longrightarrow> (\<And>x. P x \<Longrightarrow> vm n Q (f x)) \<Longrightarrow> vm n Q (vbind (vlift r) f)"
  by (rule vm_bind [OF vm_lift])

subsection \<open>Operations outside the machine\<close>

text \<open>Neither the numbers, nor the readers of data, nor the checks of proofs and signatures have fuel to run
  out of.\<close>

lemma proper_outcome: "outcome value_errors P r \<Longrightarrow> outcome proper P r"
  by (erule outcome_mono [OF _ value_errors_proper])

lemma proper_safe: "safe r \<Longrightarrow> outcome proper mn_wf r"
  by (cases r) simp_all

lemmas value_outcomes =
  proper_outcome [OF hex_value_outcome] proper_outcome [OF string_value_outcome] proper_outcome [OF mn_of_string_value]
  proper_outcome [OF hex_value_of_string_outcome] proper_outcome [OF value_getValue_outcome]

lemma mn_of_string_proper: "outcome proper mn_wf (mn_of_string s)"
  by (rule outcome_mono [OF mn_of_string_outcome]) (auto simp: proper_def)

lemma number_value_proper: "outcome proper mn_wf r \<Longrightarrow> outcome proper value_wf (bindE r number_value)"
  by (cases r) simp_all

lemma mn_sqrt_proper: "outcome proper mn_wf (mn_sqrt g m)"
  unfolding mn_sqrt_def
  by (intro outcome_if outcome_bind [OF mn_of_string_proper]) (auto intro!: proper_safe)

lemma mult_tens_safe: "mn_wf m \<Longrightarrow> safe (mult_tens k m)"
  by (induction k arbitrary: m) (auto intro!: safe_bind)

lemma scaled_amount_proper: "mn_wf (c_amount cc) \<Longrightarrow> outcome proper mn_wf (scaled_amount cc)"
  by (auto simp: scaled_amount_def getScaledTokenAmount_def intro!: proper_safe mult_tens_safe split: option.split)

lemma sum_scaled_proper:
  "list_all (\<lambda>co. mn_wf (c_amount co)) cs \<Longrightarrow> mn_wf tot \<Longrightarrow> outcome proper mn_wf (sum_scaled skip tk tot cs)"
  by (induction skip tk tot cs rule: sum_scaled.induct)
    (auto simp: getScaledTokenAmount_def intro!: outcome_bind [OF proper_safe] mult_tens_safe split: option.split)


lemma digits_le: "0 < k \<Longrightarrow> \<bar>u\<bar> < 10 ^ k \<Longrightarrow> count_decimal_digits u \<le> int k"
  by (rule count_decimal_digits_le)

lemma limits_outcome:
  assumes "\<bar>m_unscaled m\<bar> < 10 ^ 64" "\<bar>m_scale m\<bar> < 2 ^ 32" "m_unscaled m = 0 \<longrightarrow> m_scale m = 0"
  shows "outcome proper mn_wf (checkLimits m)"
proof -
  let ?e = "enforce_max_decimal_places m"
  have s: "m_scale ?e \<le> MAX_DECIMAL_PLACES" "\<bar>m_scale ?e\<bar> < 2 ^ 32"
    using assms(2)
    by (simp_all add: enforce_max_decimal_places_def Let_def normalize_zero_sel MAX_DECIMAL_PLACES_def MAX_DIGITS_def)
  have "\<bar>m_unscaled ?e\<bar> \<le> \<bar>m_unscaled m\<bar>"
    by (simp add: enforce_max_decimal_places_def Let_def normalize_zero_sel abs_sdiv_le)
  then have u: "\<bar>m_unscaled ?e\<bar> < 10 ^ 64" using assms(1) by (rule le_less_trans)
  have z: "m_unscaled ?e = 0 \<longrightarrow> m_scale ?e = 0"
    using assms(3) by (simp add: enforce_max_decimal_places_def Let_def normalize_zero_sel)
  note c = checkLimits_eq [OF s(2)]
  show ?thesis unfolding c mn_wf_def using u s(1) z by (cases "in_range ?e") simp_all
qed

text \<open>The context takes any number of fewer than \<open>2 ^ 32 + 64\<close> digits to 64 digits.\<close>

lemma precision_outcome:
  assumes "0 < p" "p \<le> 64" "count_decimal_digits u < 2 ^ 32 + p" "s < 2 ^ 32" "- (2 ^ 32) < s - max 0 (count_decimal_digits u - p)"
  shows "outcome proper mn_wf (checkLimits (apply_precision_down p (mk u s)))"
proof (rule limits_outcome)
  let ?n = "count_decimal_digits u" let ?k = "?n - p"
  have hi: "\<bar>u\<bar> < 10 ^ nat ?n"
    using nat_to_dec_lt [of "nat \<bar>u\<bar>"] by (simp add: count_decimal_digits_def nat_less_iff)
  have lt: "\<bar>u\<bar> < 10 ^ nat p" if "\<not> p < ?n"
  proof -
    have "(10 :: int) ^ nat ?n \<le> 10 ^ nat p" using that by (intro power_increasing) simp_all
    then show ?thesis using hi by linarith
  qed
  have cut: "\<bar>u sdiv pow10 ?k\<bar> < 10 ^ nat p" if "p < ?n"
  proof -
    have "pow10 ?k = 10 ^ nat ?k" using that assms by (intro pow10_eq) simp_all
    moreover have "nat ?n = nat p + nat ?k" using that assms by simp
    then have "\<bar>u\<bar> < 10 ^ nat p * 10 ^ nat ?k" using hi by (simp only: power_add)
    ultimately show ?thesis by (simp add: abs_sdiv_pos zdiv_less_iff)
  qed
  have "(10 :: int) ^ nat p \<le> 10 ^ 64" using assms by (intro power_increasing) simp_all
  then show "\<bar>m_unscaled (apply_precision_down p (mk u s))\<bar> < 10 ^ 64"
    using assms(1) lt cut by (cases "p < ?n") (force simp: apply_precision_down_def Let_def normalize_zero_sel)+
  show "\<bar>m_scale (apply_precision_down p (mk u s))\<bar> < 2 ^ 32"
    using assms by (auto simp: apply_precision_down_def Let_def normalize_zero_sel)
  show "m_unscaled (apply_precision_down p (mk u s)) = 0 \<longrightarrow> m_scale (apply_precision_down p (mk u s)) = 0"
    by (simp add: apply_precision_down_def Let_def normalize_zero_sel)
qed

lemma digits_bound: "\<bar>u\<bar> < 10 ^ k \<Longrightarrow> count_decimal_digits u \<le> max 1 (int k)"
  using digits_gt_iff [of "max 1 k" u] power_increasing [of k "max 1 k" "10 :: int"] by (cases "0 < k") fastforce+

lemma wf_digits: "mn_wf m \<Longrightarrow> count_decimal_digits (m_unscaled m) \<le> 64"
  using digits_bound [of "m_unscaled m" 64] by (simp add: mn_wf_def)

lemma wf_digits_scale:
  assumes "mn_wf m"
  shows "count_decimal_digits (m_unscaled m) - m_scale m \<le> 78"
proof (cases "m_scale m < 0")
  case True
  define k where "k = nat (- m_scale m)"
  have k: "0 < k" "m_scale m = - int k" "k \<le> 77" using True mn_wf_scale_lower [OF assms] by (simp_all add: k_def)
  have "\<bar>m_unscaled m\<bar> * 10 ^ k \<le> get_max_value" using assms k by (simp add: mn_wf_def in_range_def)
  also have "\<dots> < 10 ^ (78 - k) * 10 ^ k" using k by (simp flip: power_add add: get_max_value_def)
  finally have "\<bar>m_unscaled m\<bar> < 10 ^ (78 - k)" by simp
  from digits_bound [OF this] show ?thesis using k by simp
next
  case False
  then show ?thesis using wf_digits [OF assms] by simp
qed

lemma abs_sdiv_any: "\<bar>(a :: int) sdiv b\<bar> \<le> \<bar>a\<bar>"
  using zdiv_mono2 [of "\<bar>a\<bar>" 1 "\<bar>b\<bar>"] by (cases "a = 0 \<or> b = 0") (auto simp: signed_divide_int_def abs_mult pos_imp_zdiv_nonneg_iff)

lemma digits_pos: "\<bar>u\<bar> < 10 ^ nat (count_decimal_digits u)" "1 \<le> count_decimal_digits u"
  using nat_to_dec_lt [of "nat \<bar>u\<bar>"] digits_gt_iff [of 1 u]
  by (simp_all add: count_decimal_digits_def nat_less_iff Suc_le_eq nat_to_dec_nonempty)

lemma digits_scaled: "\<bar>v\<bar> \<le> \<bar>u * 10 ^ e\<bar> \<Longrightarrow> count_decimal_digits v \<le> count_decimal_digits u + int e"
proof -
  assume v: "\<bar>v\<bar> \<le> \<bar>u * 10 ^ e\<bar>"
  have "\<bar>u * 10 ^ e\<bar> < 10 ^ (nat (count_decimal_digits u) + e)"
    using digits_pos(1) [of u] by (simp add: abs_mult power_add)
  with v have "\<bar>v\<bar> < 10 ^ (nat (count_decimal_digits u) + e)" by (rule le_less_trans)
  from digits_bound [OF this] show ?thesis using digits_pos(2) [of u] by simp
qed

text \<open>A divisor above \<open>10 ^ 66\<close> makes the scale negative, which the code takes as an unsigned exponent; the
  quotient then has up to \<open>2 ^ 32\<close> digits, and the range check refuses it.\<close>

lemma mn_div_proper:
  assumes "mn_wf a" "mn_wf b"
  shows "outcome proper mn_wf (mn_div a b)"
proof (cases "m_unscaled b = 0")
  case False
  define e where "e = nat ((m_scale b + 66) mod 2 ^ 32)"
  let ?Q = "m_unscaled a * 10 ^ e sdiv m_unscaled b"
  have b: "-77 \<le> m_scale b" "m_scale b \<le> 77" "-77 \<le> m_scale a" "m_scale a \<le> 77"
    using mn_wf_scale [OF assms(2)] mn_wf_scale [OF assms(1)] by simp_all
  have m: "(m_scale b + 66) mod 2 ^ 32 = (if m_scale b < -66 then 2 ^ 32 + m_scale b + 66 else m_scale b + 66)"
    using b mod_add_self1 [of "2 ^ 32" "m_scale b + 66"] mod_pos_pos_trivial [of "2 ^ 32 + (m_scale b + 66)" "2 ^ 32"] by auto
  have d: "count_decimal_digits ?Q \<le> count_decimal_digits (m_unscaled a) + int e"
    by (rule digits_scaled [OF abs_sdiv_any])
  have "outcome proper mn_wf (checkLimits (apply_precision_down 64 (mk ?Q (m_scale a + 66))))"
    using d wf_digits [OF assms(1)] wf_digits_scale [OF assms(1)] b m
    by (intro precision_outcome) (auto simp: e_def split: if_splits)
  then show ?thesis
    using False by (simp add: mn_div_def divide_with_context_def MAX_DIGITS_def apply_math_context_default_def pow10_def e_def Let_def)
qed (simp add: mn_div_def divide_with_context_def)

lemma mn_pow_proper: "mn_wf m \<Longrightarrow> outcome proper mn_wf (mn_pow m z)"
proof -
  assume m: "mn_wf m"
  have pos: "outcome proper mn_wf (bindE (mn_copy m) (\<lambda>base. bindE (pow_loop k base mn_ONE) mn_copy))" for k
    using m by (intro proper_safe safe_bind [where r = "mn_copy m"]) (auto intro!: safe_bind pow_loop_safe)
  show ?thesis
    unfolding mn_pow_def Let_def
    by (intro outcome_if outcome_bind [OF pos] mn_div_proper pos) (auto intro!: proper_safe)
qed

lemma setSignificantDigits_proper: "mn_wf m \<Longrightarrow> outcome proper mn_wf (setSignificantDigits m n)"
proof -
  assume m: "mn_wf m"
  have "outcome proper mn_wf (checkLimits (apply_precision_down n c))" if c: "mn_wf c" "0 \<le> n" "n \<le> 64" for c
  proof (cases "n = 0")
    case False
    then show ?thesis using c wf_digits [OF c(1)] wf_digits_scale [OF c(1)] mn_wf_scale [OF c(1)]
      precision_outcome [of n "m_unscaled c" "m_scale c"] by (cases c) (simp add: mk_def)
  qed (auto simp: apply_precision_down_def intro!: limits_outcome)
  then show ?thesis using m
    by (auto simp: setSignificantDigits_def MAX_DIGITS_def intro!: outcome_bind [OF proper_safe] proper_safe)
qed

subsection \<open>Proofs, signatures and scripts\<close>

lemma no_fuel [simp]: "fails_in proper (Inl (Throw e))" "fails_in proper (Inr x)" "fails_in proper (Inl Undef)"
  by (simp_all add: fails_in_def)

lemma read_n_proper: "fails_in proper (read_n n inp)"
  by (simp add: read_n_def)

lemma readers_proper:
  "fails_in proper (mn_readDataStream inp)" "fails_in proper (md_readDataStream inp)" "fails_in proper (mb_readDataStream inp)"
  "fails_in proper (readHashFromStream inp)"
  unfolding mn_readDataStream_def md_readDataStream_def md_readDataStream_size_def mb_readDataStream_def readHashFromStream_def
    readInt32BE_def Let_def
  by (intro fails_rules read_n_proper; simp)+

lemma read_many_proper: "(\<And>inp. fails_in proper (rd inp)) \<Longrightarrow> fails_in proper (read_many rd n inp)"
  by (induction n arbitrary: inp) (auto intro!: fails_rules)

lemma proof_readers_proper:
  "fails_in proper (d_readDataStream inp)" "fails_in proper (chunk_readDataStream inp)"
  "fails_in proper (proof_readDataStream inp)" "fails_in proper (sigproof_readDataStream inp)"
  "fails_in proper (proof_convertMiniDataVersion inp)" "fails_in proper (sig_readDataStream inp)"
proof -
  show d: "fails_in proper (d_readDataStream inp)" for inp
    unfolding d_readDataStream_def by (intro fails_rules readers_proper)
  show c: "fails_in proper (chunk_readDataStream inp)" for inp
    unfolding chunk_readDataStream_def by (intro fails_rules readers_proper d)
  show p: "fails_in proper (proof_readDataStream inp)" for inp
    unfolding proof_readDataStream_def read_list_def Let_def
    by (intro fails_rules readers_proper read_many_proper c) simp
  show s: "fails_in proper (sigproof_readDataStream inp)" for inp
    unfolding sigproof_readDataStream_def by (intro fails_rules readers_proper p)
  show "fails_in proper (proof_convertMiniDataVersion inp)"
    unfolding proof_convertMiniDataVersion_def by (intro fails_rules p)
  show "fails_in proper (sig_readDataStream inp)"
    unfolding sig_readDataStream_def Let_def by (intro fails_rules readers_proper read_many_proper s) simp
qed

lemma sig_convert_proper: "fails_in proper (sig_convertMiniDataVersion b)"
  using proof_readers_proper(6) [of b]
  by (auto simp: sig_convertMiniDataVersion_def fails_in_def split: sum.splits error.splits)

lemma leaf_proper: "fails_in proper (CreateMMRDataLeafNode c (Inr bs) v)"
  unfolding CreateMMRDataLeafNode_def hashAllObjects_def
  by (simp add: hash_stream_def)

lemma calculateProof_proper: "fails_in proper (calculateProof c p d)"
proof -
  have add: "fails_in proper (mn_add a b)" for a b
    by (simp add: mn_add_def checkLimits_def Let_def fails_in_def split: prod.splits)
  have "fails_in proper (proof_step c ch d)" for ch d
    unfolding proof_step_def CreateMMRDataParentNode_def by (intro fails_rules add)
  then have "fails_in proper (calculate_chain c d chs)" for d chs
    by (induction c d chs rule: calculate_chain.induct) (auto intro!: fails_rules)
  then show ?thesis by (simp add: calculateProof_def)
qed

lemma getRootPublicKey_proper: "fails_in proper (getRootPublicKey c s)"
  unfolding getRootPublicKey_def by (intro fails_rules leaf_proper calculateProof_proper)

lemma checker_verify_proper: "fails_in proper (checker_verify c pk d s)"
proof -
  have "fails_in proper (verify_levels c d s)" for s
    by (induction c d s rule: verify_levels.induct) (auto intro!: fails_rules getRootPublicKey_proper)
  then show ?thesis
    by (auto simp: checker_verify_def intro!: fails_rules getRootPublicKey_proper split: list.split)
qed

lemma address_of_script_proper: "fails_in proper (address_of_script c s)"
proof -
  obtain l where l: "script_leaf c s = Inr l" "d_value l = mn_ZERO" "d_Clone l = l"
    by (auto simp: script_leaf_def CreateMMRDataLeafNode_def hashAllObjects_def mmr_data_def d_Clone_def)
  obtain m p where m: "addEntry c [] l mmr_new = Inr (node 0 0 l, m)" "getProof c [] m (en 0) = Inr p" "calculateProof c p l = Inr l"
    using single_leaf_proof [OF l(2,3), of c] by blast
  show ?thesis
    using m l(1) by (simp add: address_of_script_def makeMinimaAddress_def Let_def)
qed

end
