(* ===== verification/KissSafety.thy ===== *)
theory KissSafety
  imports KissLaws
begin

text \<open>
  The machine as a whole: over an evaluator and a block runner that keep the invariant, every function,
  expression and statement keeps it; evaluation with fuel is such an evaluator at every level, by
  induction on the fuel. So a contract always ends with a verdict within the instructions it has.
\<close>

subsection \<open>Steps that take an instruction\<close>

text \<open>An action that takes an instruction before anything else: what follows it has one less.\<close>

definition ticks :: "nat \<Rightarrow> ('a \<Rightarrow> bool) \<Rightarrow> 'a kvm \<Rightarrow> bool" where
  "ticks n Q m = (\<forall>j. n = Suc j \<longrightarrow> (\<exists>g. m = vbind (incrementInstructions 1) (\<lambda>_. g) \<and> vm j Q g))"

lemma vm_fewer: "vm n Q m \<Longrightarrow> k \<le> n \<Longrightarrow> vm k Q m"
  by (simp add: vm_def)

lemma vbind_assoc: "vbind (vbind m f) g = vbind m (\<lambda>x. vbind (f x) g)"
  by (rule ext) (simp add: vbind_def split: prod.splits sum.splits)

lemma ticks_vm: "ticks n Q m \<Longrightarrow> vm n Q m"
  by (cases n) (auto simp: ticks_def vm_zero intro: vm_tick)

lemma ticks_tick: "vm n Q g \<Longrightarrow> ticks (Suc n) Q (vbind (incrementInstructions 1) (\<lambda>_. g))"
  by (auto simp: ticks_def)

lemma ticks_fewer: "ticks n Q m \<Longrightarrow> k \<le> n \<Longrightarrow> ticks k Q m"
  unfolding ticks_def by (cases n) (auto intro: vm_fewer)

lemma ticks_bind:
  assumes "ticks (Suc j) Q m" "\<And>x. Q x \<Longrightarrow> vm j R (f x)"
  shows "vm (Suc j) R (vbind m f)"
proof -
  obtain g where "m = vbind (incrementInstructions 1) (\<lambda>_. g)" "vm j Q g" using assms(1) by (auto simp: ticks_def)
  then show ?thesis using assms(2) by (auto simp: vbind_assoc intro!: vm_tick vm_bind [of j Q g])
qed

subsection \<open>One level of the machine\<close>

locale machine =
  fixes env :: kenv and ev :: evaluator and runb :: "stmt list \<Rightarrow> unit kvm" and n :: nat
  assumes ev_ticks: "expr_wf e \<Longrightarrow> ticks n value_wf (ev e)"
    and ev_strict: "strict (ev e)"
    and run_vm: "block_wf b \<Longrightarrow> vm n (\<lambda>_. True) (runb b)"
begin

lemma ev_vm: "expr_wf e \<Longrightarrow> vm n value_wf (ev e)"
  by (rule ticks_vm [OF ev_ticks])

lemma bind_ev: "expr_wf e \<Longrightarrow> (\<And>v. value_wf v \<Longrightarrow> vm n Q (f v)) \<Longrightarrow> vm n Q (vbind (ev e) f)"
  by (rule vm_bind [OF ev_vm])

lemma bind_must:
  "value_wf v \<Longrightarrow> (\<And>m. mn_wf m \<Longrightarrow> vm n Q (f m)) \<Longrightarrow> vm n Q (vbind (must_number v) f)"
  "value_wf v \<Longrightarrow> (\<And>b. int (length b) \<le> MAX_DATA_SIZE \<Longrightarrow> vm n Q (g b)) \<Longrightarrow> vm n Q (vbind (must_hex v) g)"
  "value_wf v \<Longrightarrow> (\<And>s. int (length s) \<le> MAX_DATA_SIZE \<Longrightarrow> vm n Q (h s)) \<Longrightarrow> vm n Q (vbind (must_string v) h)"
  "(\<And>b. vm n Q (k b)) \<Longrightarrow> vm n Q (vbind (must_bool v) k)"
  by (cases v; simp add: must_number_def must_hex_def must_string_def must_bool_def vthrow_def vm_lift)+

lemma vm_must:
  "value_wf v \<Longrightarrow> vm n mn_wf (must_number v)"
  "value_wf v \<Longrightarrow> vm n (\<lambda>b. int (length b) \<le> MAX_DATA_SIZE) (must_hex v)"
  "value_wf v \<Longrightarrow> vm n (\<lambda>s. int (length s) \<le> MAX_DATA_SIZE) (must_string v)"
  "vm n (\<lambda>_. True) (must_bool v)"
  by (cases v; simp add: must_number_def must_hex_def must_string_def must_bool_def vm_throw vm_ret)+

lemma vm_param: "\<forall>p \<in> set ps. expr_wf p \<Longrightarrow> vm n value_wf (getParameter ev ps i)"
  unfolding getParameter_def by (intro vm_if vm_throw ev_vm) simp

lemma vm_params:
  assumes "\<forall>p \<in> set ps. expr_wf p"
  shows "vm n mn_wf (getNumberParam ev ps i)" "vm n (\<lambda>b. int (length b) \<le> MAX_DATA_SIZE) (getHexParam ev ps i)"
    "vm n (\<lambda>s. int (length s) \<le> MAX_DATA_SIZE) (getStringParam ev ps i)" "vm n (\<lambda>_. True) (getBoolParam ev ps i)"
    "vm n (\<lambda>_. True) (getIntParam ev ps i)"
proof -
  note p = vm_bind [OF vm_param [OF assms]]
  show m: "vm n mn_wf (getNumberParam ev ps i)" unfolding getNumberParam_def by (rule p) (rule vm_must)
  show "vm n (\<lambda>b. int (length b) \<le> MAX_DATA_SIZE) (getHexParam ev ps i)" unfolding getHexParam_def by (rule p) (rule vm_must)
  show "vm n (\<lambda>s. int (length s) \<le> MAX_DATA_SIZE) (getStringParam ev ps i)"
    unfolding getStringParam_def by (rule p) (rule vm_must)
  show "vm n (\<lambda>_. True) (getBoolParam ev ps i)" unfolding getBoolParam_def by (rule p) (rule vm_must)
  show "vm n (\<lambda>_. True) (getIntParam ev ps i)" unfolding getIntParam_def by (rule vm_bind [OF m]) (simp add: vm_ret)
qed

lemmas binds = vm_bind [OF vm_param] vm_bind [OF vm_params(1)] vm_bind [OF vm_params(2)] vm_bind [OF vm_params(3)]
  vm_bind [OF vm_params(4)] vm_bind [OF vm_params(5)] bind_ev bind_must bind_guard
  vm_if vm_throw vm_undef

lemmas arities = checkExactParamNumber_def checkMinParamNumber_def

lemma vm_hex: "vm n value_wf (vlift (hex_value bs))"
  and vm_string: "vm n value_wf (vlift (string_value s))"
  and vm_number: "outcome proper mn_wf r \<Longrightarrow> vm n value_wf (vlift (bindE r number_value))"
  and vm_int: "vm n value_wf (vlift (number_value_of_int k))"
  and vm_reparse: "vm n value_wf (vlift (value_getValue s))"
  and vm_bool: "vm n value_wf (vret (BooleanValue x))"
  by (auto simp: number_value_of_int_def intro!: vm_lift vm_ret value_outcomes number_value_proper mn_of_string_proper)

lemmas results = vm_hex vm_string vm_number vm_int vm_reparse vm_bool

lemma hex_of_number_proper: "mn_wf m \<Longrightarrow> outcome proper value_wf (hex_value_of_number m)"
  by (auto simp: hex_value_of_number_def cpp_int_to_java_positive_twos_bytes_def Let_def
      intro!: value_outcomes outcome_bind [OF proper_safe [OF mn_ops_safe(5)]])

lemma casts:
  assumes "\<forall>p \<in> set ps. expr_wf p"
  shows "vm n value_wf (run_ASCII ev ps)" "vm n value_wf (run_BOOL ev ps)" "vm n value_wf (run_HEX ev ps)"
    "vm n value_wf (run_NUMBER ev ps)" "vm n value_wf (run_STRING ev ps)" "vm n value_wf (run_UTF8 ev ps)"
  using assms unfolding run_ASCII_def run_BOOL_def run_HEX_def run_NUMBER_def run_STRING_def run_UTF8_def arities
  by (auto intro!: binds results vm_lift value_outcomes number_value_proper mn_of_string_proper
      outcome_bind [OF mn_of_string_proper] outcome_bind [OF proper_safe [OF mn_ops_safe(5)]] hex_of_number_proper split: kvalue.split
      simp: number_of_hex_def number_value_of_int_def)

lemma strings:
  assumes "\<forall>p \<in> set ps. expr_wf p"
  shows "vm n value_wf (run_REPLACE ev ps)" "vm n value_wf (run_REPLACEFIRST ev ps)" "vm n value_wf (run_SUBSTR ev ps)"
  using assms unfolding run_REPLACE_def run_REPLACEFIRST_def run_SUBSTR_def arities Let_def
  by (auto intro!: binds results vm_lift value_outcomes simp: safeReplaceAll_def Let_def)

lemma data:
  assumes "\<forall>p \<in> set ps. expr_wf p"
  shows "vm n value_wf (run_LEN ev ps)" "vm n value_wf (run_REV ev ps)" "vm n value_wf (run_SUBSET ev ps)"
    "vm n value_wf (run_SETLEN ev ps)" "vm n value_wf (run_OVERWRITE ev ps)" "vm n value_wf (run_BITCOUNT ev ps)"
    "vm n value_wf (run_BITGET ev ps)" "vm n value_wf (run_BITSET ev ps)"
  using assms unfolding run_LEN_def run_REV_def run_SUBSET_def run_SETLEN_def run_OVERWRITE_def run_BITCOUNT_def
    run_BITGET_def run_BITSET_def arities Let_def
  by (auto intro!: binds results vm_lift value_outcomes mn_of_string_proper number_value_proper split: kvalue.split
      simp: number_value_of_int_def)

lemma numbers:
  assumes "\<forall>p \<in> set ps. expr_wf p"
  shows "vm n value_wf (run_ABS ev ps)" "vm n value_wf (run_CEIL ev ps)" "vm n value_wf (run_FLOOR ev ps)"
    "vm n value_wf (run_DEC ev ps)" "vm n value_wf (run_INC ev ps)" "vm n value_wf (run_SQRT env ev ps)"
    "vm n value_wf (run_POW ev ps)" "vm n value_wf (run_SIGDIG ev ps)" "vm n value_wf (run_MIN ev ps)"
  using assms unfolding run_ABS_def run_CEIL_def run_FLOOR_def run_DEC_def run_INC_def run_SQRT_def run_POW_def
    run_SIGDIG_def run_MIN_def number_function_def arities
  by (auto intro!: binds results bind_lift [OF proper_safe] proper_safe mn_sqrt_proper mn_pow_proper setSignificantDigits_proper
      simp: increment_def decrement_def)

lemma max_loop: "\<forall>p \<in> set ps. expr_wf p \<Longrightarrow> (\<forall>m. mx = Some m \<longrightarrow> mn_wf m)
    \<Longrightarrow> vm n (\<lambda>mx. \<forall>m. mx = Some m \<longrightarrow> mn_wf m) (max_loop ev mx ps)"
  by (induction ps arbitrary: mx) (auto intro!: binds vm_ret split: option.split)

lemma array_key: "\<forall>p \<in> set ps. expr_wf p \<Longrightarrow> vm n (\<lambda>_. True) (array_key ev k ps)"
  by (induction ps arbitrary: k) (auto intro!: binds vm_ret)

lemma concat_loop: "\<forall>p \<in> set ps. expr_wf p \<Longrightarrow> vm n (\<lambda>_. True) (concat_loop ev totlen res ps)"
  by (induction ps arbitrary: totlen res) (auto intro!: binds vm_ret)

lemma multisig_loop: "\<forall>p \<in> set ps. expr_wf p \<Longrightarrow> vm n (\<lambda>_. True) (multisig_loop ev num found ps)"
  unfolding checkSignature_def
  by (induction ps arbitrary: found) (auto intro!: binds vm_ret bind_any [OF vm_get_any] simp: Let_def checkSignature_def)

lemma vm_getState: "vm n value_wf (getState k)" "vm n value_wf (getPrevState k)"
  unfolding getState_def getPrevState_def
  by (auto intro!: bind_any [OF vm_get_any] vm_throw results split: option.split)

lemma samestate_loop: "vm n value_wf (samestate_loop i stop)"
proof (induction i stop rule: samestate_loop.induct)
  case (1 i stop)
  show ?case
    by (subst samestate_loop.simps) (auto intro!: vm_bind [OF vm_getState(1)] vm_bind [OF vm_getState(2)] results 1)
qed

lemma states:
  assumes "\<forall>p \<in> set ps. expr_wf p"
  shows "vm n value_wf (run_STATE ev ps)" "vm n value_wf (run_PREVSTATE ev ps)" "vm n value_wf (run_SAMESTATE ev ps)"
  using assms unfolding run_STATE_def run_PREVSTATE_def run_SAMESTATE_def arities
  by (auto intro!: binds vm_getState samestate_loop)

lemma collecting:
  assumes "\<forall>p \<in> set ps. expr_wf p"
  shows "vm n value_wf (run_MAX ev ps)" "vm n value_wf (run_CONCAT ev ps)" "vm n value_wf (run_EXISTS ev ps)"
    "vm n value_wf (run_GET ev ps)" "vm n value_wf (run_MULTISIG ev ps)" "vm n value_wf (run_SIGNEDBY ev ps)"
proof -
  have t: "\<forall>p \<in> set (tl ps). expr_wf p" using assms by (cases ps) simp_all
  show "vm n value_wf (run_MAX ev ps)"
    using assms unfolding run_MAX_def arities
    by (auto intro!: binds vm_bind [OF max_loop] vm_lift split: option.split)
qed (use assms in \<open>auto simp: run_CONCAT_def run_EXISTS_def run_GET_def run_MULTISIG_def run_SIGNEDBY_def arities checkSignature_def
    intro!: binds results bind_any [OF concat_loop] bind_any [OF array_key] bind_any [OF multisig_loop] bind_any [OF vm_getVariable]
    bind_any [OF vm_get_any] list.set_sel(2) split: option.split\<close>)

lemma vm_coin_function:
  assumes "\<forall>p \<in> set ps. expr_wf p" "coins = tx_inputs \<or> coins = tx_outputs"
    and "\<And>cc. mn_wf (c_amount cc) \<Longrightarrow> outcome proper value_wf (g cc)"
  shows "vm n value_wf (coin_function f coins g ev ps)"
  using assms(1) unfolding coin_function_def arities
  by (auto intro!: binds vm_bind [OF vm_coin_at [OF assms(2)]] vm_lift assms(3))

lemma coins:
  assumes "\<forall>p \<in> set ps. expr_wf p"
  shows "vm n value_wf (run_GETINADDR ev ps)" "vm n value_wf (run_GETINTOK ev ps)" "vm n value_wf (run_GETINAMT ev ps)"
    "vm n value_wf (run_GETOUTTOK ev ps)" "vm n value_wf (run_GETOUTAMT ev ps)" "vm n value_wf (run_GETOUTKEEPSTATE ev ps)"
  unfolding run_GETINADDR_def run_GETINTOK_def run_GETINAMT_def run_GETOUTTOK_def run_GETOUTAMT_def run_GETOUTKEEPSTATE_def
  by (rule vm_coin_function [OF assms]; simp add: value_outcomes number_value_proper scaled_amount_proper)+

lemmas coin_binds = vm_bind [OF vm_coin_at [OF disjI1 [OF refl]]] vm_bind [OF vm_coin_at [OF disjI2 [OF refl]]]

lemma vm_coins: "vm n (list_all (\<lambda>co. mn_wf (c_amount co))) (vget (\<lambda>s. tx_inputs (mTransaction s)))"
  "vm n (list_all (\<lambda>co. mn_wf (c_amount co))) (vget (\<lambda>s. tx_outputs (mTransaction s)))"
  by (auto intro!: vm_get simp: contract_ok_def numbers_ok_def)

lemma fails_proper: "fails_in proper r \<Longrightarrow> (\<And>x. vm n Q (f x)) \<Longrightarrow> vm n Q (vbind (vlift r) f)"
  by (rule bind_lift) (simp_all add: fails_in_outcome)

lemma stoll_proper: "fails_in proper (stoll s)"
  by (simp add: stoll_def Let_def)

lemma vm_try: "fails_in proper r \<Longrightarrow> (\<And>x. vm n Q (f x)) \<Longrightarrow> vm n Q (vbind (vrethrow (vlift r)) f)"
  by (rule bind_any [OF vm_rethrow [OF vm_lift]]) (simp_all add: fails_in_outcome)

lemma vm_keepstate: "\<forall>p \<in> set ps. expr_wf p \<Longrightarrow> vm n (\<lambda>_. True) (vbind (getBoolParam ev ps i) (\<lambda>b. vret (Some b)))"
  by (rule vm_bind [OF vm_params(4)]) (simp_all add: vm_ret)

lemma transactions:
  assumes "\<forall>p \<in> set ps. expr_wf p"
  shows "vm n value_wf (run_GETINID ev ps)" "vm n value_wf (run_GETOUTADDR ev ps)" "vm n value_wf (run_SUMINPUTS ev ps)"
    "vm n value_wf (run_SUMOUTPUTS ev ps)" "vm n value_wf (run_VERIFYIN ev ps)" "vm n value_wf (run_VERIFYOUT ev ps)"
  using assms
  unfolding run_GETINID_def run_GETOUTADDR_def run_SUMINPUTS_def run_SUMOUTPUTS_def run_VERIFYIN_def run_VERIFYOUT_def arities
  by (auto intro!: binds results coin_binds bind_any [OF vm_get_any] vm_bind [OF vm_coins(1)] vm_bind [OF vm_coins(2)]
      vm_try stoll_proper bind_lift [OF scaled_amount_proper] sum_scaled_proper
      bind_any [OF vm_keepstate])

lemma hashes:
  assumes "\<forall>p \<in> set ps. expr_wf p"
  shows "vm n value_wf (run_SHA2 env ev ps)" "vm n value_wf (run_SHA3 env ev ps)" "vm n value_wf (run_ADDRESS env ev ps)"
    "vm n value_wf (run_CHECKSIG env ev ps)"
proof -
  have b: "vm n (\<lambda>_. True) (bytes_of_value v)" for v by (cases v) (simp_all add: bytes_of_value_def vm_ret vm_throw)
  show "vm n value_wf (run_SHA2 env ev ps)" "vm n value_wf (run_SHA3 env ev ps)"
    using assms unfolding run_SHA2_def run_SHA3_def arities by (auto intro!: binds results bind_any [OF b])
  show "vm n value_wf (run_ADDRESS env ev ps)"
    using assms unfolding run_ADDRESS_def arities
    by (auto intro!: binds vm_lift outcome_bind [OF address_of_script_proper [unfolded fails_in_outcome]] value_outcomes)
  show "vm n value_wf (run_CHECKSIG env ev ps)"
    using assms unfolding run_CHECKSIG_def arities
    by (auto intro!: binds vm_lift bind_any [OF vm_tick_same] fails_proper sig_convert_proper
        outcome_bind [OF checker_verify_proper [unfolded fails_in_outcome]] split: option.split)
qed

lemma vm_PROOF:
  assumes "\<forall>p \<in> set ps. expr_wf p"
  shows "vm n value_wf (run_PROOF env ev ps)"
proof -
  have st: "strict (getParameter ev ps i)" for i
    by (auto simp: getParameter_def ev_strict) (simp add: strict_def vthrow_def vlift_def)
  have c: "vm n (\<lambda>_. True) (vcatch (vbind (getHexParam ev ps 0) (\<lambda>b.
          vlift (CreateMMRDataLeafNode (e_crypto env) (Inr (md_writeDataStream (md b))) v)))
       (vbind (getStringParam ev ps 0) (\<lambda>s.
          vlift (CreateMMRDataLeafNode (e_crypto env) (Inr (ms_writeDataStream s)) v))))" for v
    using assms
    by (intro vm_catch binds vm_lift leaf_proper [unfolded fails_in_outcome])
      (simp_all add: getStringParam_def strict_bind st)
  show ?thesis
    using assms unfolding run_PROOF_def arities
    by (auto intro!: binds bind_any [OF c] vm_try proof_readers_proper vm_lift
        outcome_bind [OF calculateProof_proper [unfolded fails_in_outcome]])
qed

subsection \<open>Scripts inside scripts\<close>

lemma vm_run_script: "vm n (\<lambda>_. True) (run_script runb s)"
  unfolding run_script_def
  by (intro vm_rethrow bind_any [OF vm_get_any] bind_lift [OF parse_script_outcome] run_vm)

lemma safeReplaceAll_proper: "fails_in proper (safeReplaceAll a b c)"
  by (simp add: safeReplaceAll_def Let_def)

lemma function_params: "\<forall>p \<in> set ps. expr_wf p \<Longrightarrow> vm n (\<lambda>_. True) (function_params ev i fn ps)"
  by (induction ps arbitrary: i fn) (auto intro!: binds fails_proper safeReplaceAll_proper vm_ret)

lemma vm_FUNCTION:
  assumes "\<forall>p \<in> set ps. expr_wf p"
  shows "vm n value_wf (run_FUNCTION ev runb ps)"
proof -
  have "\<forall>p \<in> set (tl ps). expr_wf p" using assms by (cases ps) simp_all
  then show ?thesis
    using assms unfolding run_FUNCTION_def arities
    by (auto intro!: binds results bind_any [OF function_params] bind_any [OF vm_state(2)] bind_any [OF vm_run_script]
        bind_any [OF vm_getVariable] split: option.split)
qed

lemma vm_runFunction: "\<forall>p \<in> set ps. expr_wf p \<Longrightarrow> vm n value_wf (runFunction env ev runb f ps)"
  by (cases f) (simp_all add: casts strings data numbers collecting states coins transactions hashes vm_PROOF vm_FUNCTION)

subsection \<open>Expressions\<close>

lemma boolean_proper: "outcome proper value_wf (boolean_result b l r)"
  by (cases b) (auto simp: boolean_result_def checkSameType_def verifyType_def guardE_def)

lemma getNumber_wf: "value_wf v \<Longrightarrow> mn_wf (getNumber v)"
  by (cases v) simp_all

lemma shift_proper:
  assumes "\<And>d k. fails_in proper (sh d k)" "value_wf r"
  shows "outcome proper value_wf (shift_result sh l r)"
proof -
  have "mn_wf (getNumber r)" using assms(2) by (rule getNumber_wf)
  then show ?thesis
    using assms(1)
    by (auto simp: shift_result_def verifyType_def guardE_def fails_in_outcome intro!: outcome_bind [OF proper_safe [OF mn_ops_safe(7)]]
        outcome_bind [OF assms(1) [unfolded fails_in_outcome]] value_outcomes)
qed

lemma number_proper:
  assumes "\<And>a b. mn_wf a \<Longrightarrow> mn_wf b \<Longrightarrow> outcome proper mn_wf (f a b)" "value_wf l" "value_wf r"
  shows "outcome proper value_wf (number_result f l r)"
  using assms by (auto simp: number_result_def checkSameTypeOf_def guardE_def getNumber_wf intro!: number_value_proper)

lemma md_of_int_proper: "fails_in proper (md_of_int z)"
  by (simp add: md_of_int_def Let_def)

lemma operator_proper:
  assumes "value_wf l" "value_wf r"
  shows "outcome proper value_wf (operator_result oper l r)"
proof -
  have sh: "fails_in proper (md_shiftl d k)" "fails_in proper (md_shiftr d k)" for d k
    by (simp_all add: md_shiftl_def md_shiftr_def md_of_int_proper)
  have h: "outcome proper value_wf (hex_result f l r)" for f
    by (auto simp: hex_result_def checkSameTypeOf_def guardE_def intro!: value_outcomes)
  have add: "outcome proper value_wf (add_result l r)"
    using assms by (cases l; cases r)
      (auto simp: add_result_def checkSameType_def guardE_def intro!: value_outcomes number_value_proper proper_safe mn_ops_safe)
  have d: "outcome proper mn_wf (div_checked a b)" if "mn_wf a" "mn_wf b" for a b
    using that by (simp add: div_checked_def mn_div_proper)
  show ?thesis
    by (cases oper)
      (use assms in \<open>simp_all add: operator_result_def add h number_proper shift_proper sh d proper_safe mn_ops_safe mn_modulo_safe\<close>)
qed

lemma unary_proper: "value_wf l \<Longrightarrow> outcome proper value_wf (unary_result oper l)"
  by (cases oper) (auto simp: unary_result_def verifyType_def guardE_def getNumber_wf
      intro!: value_outcomes number_value_proper proper_safe mn_ops_safe)

text \<open>What an expression does after its first instruction.\<close>

lemma getValue_ticks:
  assumes "expr_wf e"
  shows "ticks (Suc n) value_wf (getValue env ev runb e)"
proof (cases e)
  case (OperatorExpression l r oper)
  then show ?thesis
    using assms unfolding OperatorExpression getValue.simps is_unary_def
    by (intro ticks_tick bind_ev)
      (auto split: option.splits intro!: bind_ev vm_lift operator_proper unary_proper vm_throw bind_any [OF vm_tick_same])
next
  case (FunctionExpression f ps)
  then show ?thesis
    using assms by (auto intro!: ticks_tick bind_any [OF vm_incrementStackDepth] vm_bind [OF vm_runFunction] vm_ret
        bind_any [OF vm_state(4)])
qed (use assms in \<open>auto intro!: ticks_tick bind_ev vm_lift boolean_proper vm_getGlobal vm_ret vm_throw vm_bind [OF vm_getVariable]
    split: option.split\<close>)

lemma getValue_strict: "strict (getValue env ev runb e)"
  by (cases e) (simp_all add: strict_tick)

subsection \<open>Statements\<close>

lemma vm_run_if: "\<forall>c \<in> set cs. expr_wf (fst c) \<and> block_wf (snd c) \<Longrightarrow> vm n (\<lambda>_. True) (run_if ev runb cs)"
  by (induction cs) (auto intro!: binds vm_ret run_vm simp del: block_wf_iff)

lemma vm_run_while:
  "expr_wf c \<Longrightarrow> block_wf b \<Longrightarrow> i \<le> n \<Longrightarrow> i \<le> k \<Longrightarrow> vm i (\<lambda>_. True) (run_while k ev runb c b)"
proof (induction k arbitrary: i)
  case (Suc k)
  show ?case
  proof (cases i)
    case (Suc j)
    have "ticks (Suc j) value_wf (ev c)" using Suc.prems \<open>i = Suc j\<close> by (intro ticks_fewer [OF ev_ticks]) simp_all
    moreover have "vm j (\<lambda>_. True) (must_bool v)" for v using vm_fewer [OF vm_must(4)] Suc.prems \<open>i = Suc j\<close> by simp
    moreover have "vm j (\<lambda>_. True) (runb b)" using vm_fewer [OF run_vm] Suc.prems \<open>i = Suc j\<close> by simp
    moreover have "vm j (\<lambda>_. True) (run_while k ev runb c b)" using Suc.IH Suc.prems \<open>i = Suc j\<close> by simp
    ultimately show ?thesis
      unfolding \<open>i = Suc j\<close> run_while.simps
      by (intro ticks_bind [where Q = value_wf]) (auto intro!: bind_any [of j "\<lambda>_. True"] vm_ret vm_get_any)
  qed (simp add: vm_zero)
qed (simp add: vm_zero)

lemma vm_execute:
  assumes "stmt_wf st" "n \<le> k"
  shows "vm n (\<lambda>_. True) (execute_stmt k ev runb st)"
proof (cases st)
  case (EXECstatement e)
  then show ?thesis
    using assms by (auto intro!: vm_bind [OF vm_rethrow] bind_ev vm_must vm_run_script)
next
  case (MASTstatement e)
  then show ?thesis
    using assms by (auto intro!: binds bind_any [OF vm_get_any] vm_run_script split: option.split)
qed (use assms in \<open>auto intro!: binds vm_state vm_bind [OF array_key] vm_run_if vm_run_while vm_ret simp del: block_wf_iff simp: block_wf_def\<close>)

lemma vm_statements:
  "(\<And>st. st \<in> set b \<Longrightarrow> vm n (\<lambda>_. True) (exec st)) \<Longrightarrow> vm (Suc n) (\<lambda>_. True) (run_statements exec b)"
proof (induction b)
  case (Cons st b)
  have "vm n (\<lambda>_. True) (run_statements exec b)" by (rule vm_fewer [OF Cons.IH]) (simp_all add: Cons.prems)
  then show ?case
    using Cons.prems by (auto intro!: bind_any [OF vm_get_any] vm_ret vm_tick vm_bind [of n "\<lambda>_. True"])
qed (simp add: vm_state)

lemma vm_block: "block_wf b \<Longrightarrow> n \<le> k \<Longrightarrow> vm (Suc n) (\<lambda>_. True) (run_block (execute_stmt k ev runb) b)"
  unfolding run_block_def by (intro bind_any [OF vm_incrementStackDepth] vm_statements vm_execute) auto

end

subsection \<open>Every level of the machine\<close>

lemma run_level:
  assumes "machine (\<lambda>x. eval n env x) (\<lambda>b. run n env b) n" "block_wf b"
  shows "vm (Suc n) (\<lambda>_. True) (run (Suc n) env b)"
  using machine.vm_block [OF assms, of "Suc n"] by simp

lemma eval_machine: "machine (\<lambda>x. eval n env x) (\<lambda>b. run n env b) n"
proof (induction n)
  case 0
  show ?case
    by unfold_locales (simp_all add: ticks_def vm_zero, simp add: strict_def vlift_def)
next
  case (Suc n)
  show ?case
  proof
    fix e show "expr_wf e \<Longrightarrow> ticks (Suc n) value_wf (eval (Suc n) env e)"
      using machine.getValue_ticks [OF Suc.IH, of e env] by simp
    show "strict (eval (Suc n) env e)" using machine.getValue_strict [OF Suc.IH] by simp
  next
    fix b show "block_wf b \<Longrightarrow> vm (Suc n) (\<lambda>_. True) (run (Suc n) env b)" by (rule run_level [OF Suc.IH])
  qed
qed

interpretation kvm: machine env "\<lambda>x. eval n env x" "\<lambda>b. run n env b" n for env n
  by (rule eval_machine)

subsection \<open>Contracts\<close>

definition fresh_contract :: "transaction \<Rightarrow> contract \<Rightarrow> bool" where
  "fresh_contract t s = (contract_ok s \<and> block_wf (mBlock s) \<and> mTransaction s = t \<and> mNumInstructions s = 0
     \<and> mMaxInstructions s = 1024 \<and> \<not> mSuccessSet s \<and> \<not> mSuccess s \<and> mMonotonic s
     \<and> (mParseOK s \<longrightarrow> \<not> mException s))"

lemma contract_new_fresh:
  assumes "contract_new zRamScript zSignatures w t prev = Inr s" "numbers_ok t"
  shows "fresh_contract t s"
proof -
  obtain sigs where h: "hex_values zSignatures = Inr sigs"
    using assms(1) by (cases "hex_values zSignatures") (simp_all add: contract_new_def parseAndBuild_def)
  note d = contract_new_def parseAndBuild_def contract_init_def Let_def resetStackDepth_def fresh_contract_def contract_ok_def
    vals_ok_def h
  show ?thesis
  proof (cases "tokenize zRamScript")
    case (Inl e)
    then show ?thesis using assms by (cases e) (auto simp: d)
  next
    case tokens: (Inr ts)
    show ?thesis
    proof (cases "parseTokens ts 0")
      case (Inl e)
      then show ?thesis using assms tokens by (cases e) (auto simp: d)
    next
      case (Inr b)
      then show ?thesis using assms tokens parseTokens_outcome [of ts 0] by (auto simp: d)
    qed
  qed
qed

text \<open>Setting the globals changes nothing else.\<close>

definition but_globals :: "contract \<Rightarrow> contract" where
  "but_globals s = s\<lparr>mGlobals := (\<lambda>_. None)\<rparr>"

definition sets_globals :: "'a kvm \<Rightarrow> bool" where
  "sets_globals m = (\<forall>s. contract_ok s \<longrightarrow> (case m s of (r, s') \<Rightarrow> contract_ok s' \<and> but_globals s' = but_globals s))"

lemma sets_globals_bind:
  "sets_globals m \<Longrightarrow> (\<And>x. sets_globals (f x)) \<Longrightarrow> sets_globals (vbind m f)"
  unfolding sets_globals_def
proof (intro allI impI)
  fix s assume *: "\<forall>s. contract_ok s \<longrightarrow> (case m s of (r, s') \<Rightarrow> contract_ok s' \<and> but_globals s' = but_globals s)"
    "\<And>x. \<forall>s. contract_ok s \<longrightarrow> (case f x s of (r, s') \<Rightarrow> contract_ok s' \<and> but_globals s' = but_globals s)" "contract_ok s"
  obtain r s1 where m: "m s = (r, s1)" by (cases "m s")
  then have "contract_ok s1" "but_globals s1 = but_globals s" using *(1,3) by auto
  then show "case vbind m f s of (r, s') \<Rightarrow> contract_ok s' \<and> but_globals s' = but_globals s"
    using m *(2) [THEN spec [of _ s1]] by (cases r) (auto simp: vbind_def)
qed

lemma sets_globals_lift:
  "outcome E P r \<Longrightarrow> (\<And>x. P x \<Longrightarrow> sets_globals (f x)) \<Longrightarrow> sets_globals (vbind (vlift r) f)"
  by (cases r) (auto simp: sets_globals_def vlift_def)

lemma sets_globals_throw: "sets_globals (vthrow e)"
  by (auto simp: sets_globals_def vlift_def vthrow_def)

lemma sets_globals_set: "outcome proper value_wf r \<Longrightarrow> sets_globals (set_global k r)"
  by (cases r) (auto simp: sets_globals_def set_global_def setGlobalVariable_def vmod_def vlift_def vbind_def contract_ok_def
      vals_ok_def but_globals_def)

lemma setGlobals_sets:
  assumes "mn_wf b" "mn_wf ms" "mn_wf cr" "numbers_ok t"
  shows "sets_globals (setGlobals b ms t i cr script)"
proof (cases "i < 0 \<or> nat i \<ge> length (tx_inputs t)")
  case False
  let ?cc = "tx_inputs t ! nat i"
  have a: "mn_wf (c_amount ?cc)" using assms(4) False by (simp add: numbers_ok_def list_all_iff)
  then have sc: "outcome proper mn_wf (if c_tokenid ?cc \<noteq> TOKENID_MINIMA
      then case c_token ?cc of None \<Rightarrow> Inr (c_amount ?cc) | Some t \<Rightarrow> getScaledTokenAmount t (c_amount ?cc)
      else Inr (c_amount ?cc))"
    by (auto simp: getScaledTokenAmount_def intro!: proper_safe mult_tens_safe split: option.split)
  show ?thesis
    unfolding setGlobals_def Let_def if_not_P [OF False]
    by (intro sets_globals_lift [OF sc] sets_globals_bind sets_globals_set)
      (simp_all add: assms a value_outcomes number_value_proper proper_safe mn_ops_safe mn_of_string_proper
        number_value_of_int_def number_value_of_string_def)
qed (simp add: setGlobals_def sets_globals_throw)

text \<open>The state of a contract that \<open>setGlobals\<close> has prepared.\<close>

lemma prepared_contract:
  assumes "contract_new zRamScript zSignatures w t prev = Inr s" "numbers_ok t" "mn_wf b" "mn_wf ms" "mn_wf cr"
    and "setGlobals b ms t i cr script s = (r, s1)"
  shows "fresh_contract t s1"
proof -
  have f: "fresh_contract t s" by (rule contract_new_fresh [OF assms(1,2)])
  then have "contract_ok s1 \<and> but_globals s1 = but_globals s"
    using setGlobals_sets [OF assms(3-5,2), of i script] assms(6) by (auto simp: sets_globals_def fresh_contract_def)
  then show ?thesis using f by (cases s; cases s1) (auto simp: fresh_contract_def but_globals_def)
qed

lemma run_state:
  assumes "contract_ok s" "block_wf b" "run (instruction_fuel s) env b s = (r, s')"
  shows "contract_ok s'" "evolves s s'" "outcome proper (\<lambda>_. within_limit s \<longrightarrow> within_limit s') r"
proof -
  have "vm (instruction_fuel s) (\<lambda>_. True) (run (instruction_fuel s) env b)" by (rule kvm.run_vm [OF assms(2)])
  moreover have "budget s < int (instruction_fuel s)" by (simp add: budget_def instruction_fuel_def)
  ultimately show "contract_ok s'" "evolves s s'" "outcome proper (\<lambda>_. within_limit s \<longrightarrow> within_limit s') r"
    using assms(1,3) by (auto simp: vm_def)
qed

lemma contract_run_cases:
  assumes "contract_ok s" "block_wf (mBlock s)" "mParseOK s"
  obtains (ends) s' where "contract_run env s = Inr s'" "contract_ok s'" "evolves (resetStackDepth s) s'" "within_limit s \<longrightarrow> within_limit s'"
  | (throws) s' where "contract_run env s = Inr (s'\<lparr>mException := True, mSuccess := False, mSuccessSet := True\<rparr>)"
      "contract_ok s'" "evolves (resetStackDepth s) s'"
  | (undefined) "contract_run env s = Inl Undef"
proof -
  let ?s = "resetStackDepth s"
  obtain r s' where m: "run (instruction_fuel ?s) env (mBlock ?s) ?s = (r, s')" by (cases "run (instruction_fuel ?s) env (mBlock ?s) ?s")
  have k: "contract_ok ?s" "block_wf (mBlock ?s)" "within_limit ?s = within_limit s"
    using assms by (simp_all add: resetStackDepth_def contract_ok_def within_limit_def)
  note st = run_state [OF k(1,2) m]
  show ?thesis
  proof (cases r)
    case (Inl e)
    then show ?thesis using st m assms(3) throws undefined by (cases e) (auto simp: contract_run_def Let_def)
  next
    case (Inr u)
    then show ?thesis using st m assms(3) k(3) ends by (auto simp: contract_run_def Let_def)
  qed
qed

text \<open>C19 A script always ends: a contract made from any script, whose globals have been set for an input of its
  transaction, runs to a verdict or to undefined behaviour. Without an exception it has used at most the
  1024 instructions it has, and with one its verdict is failure; the interpreter never runs out of the
  rounds it is given, so no script loops for ever.\<close>

theorem contract_always_ends:
  assumes "contract_new zRamScript zSignatures w t prev = Inr s" "numbers_ok t" "mn_wf b" "mn_wf ms" "mn_wf cr"
    and "setGlobals b ms t i cr script s = (r, s1)"
  shows "outcome {Undef} (\<lambda>s'. if mException s' then \<not> mSuccess s' else 0 \<le> mNumInstructions s' \<and> mNumInstructions s' \<le> 1024)
    (contract_run env s1)"
proof -
  have f: "fresh_contract t s1" by (rule prepared_contract [OF assms])
  show ?thesis
  proof (cases "mParseOK s1")
    case True
    have "contract_ok s1" "block_wf (mBlock s1)" using f by (simp_all add: fresh_contract_def)
    from contract_run_cases [OF this True, of env] show ?thesis
      by cases (use f True in \<open>auto simp: fresh_contract_def within_limit_def evolves_def environment_def resetStackDepth_def verdict_kept_def\<close>)
  qed (use f in \<open>simp add: contract_run_def fresh_contract_def\<close>)
qed

text \<open>C20 What a run keeps: the transaction, the witness, the previous state, the signatures, the globals and the
  program are those it started with; every variable holds a legal value; the count of instructions never goes
  down; once the verdict is set no later statement changes it, and once the monotonic flag is cleared it stays
  cleared.\<close>

theorem run_keeps_environment:
  assumes "contract_ok s" "block_wf b" "run (instruction_fuel s) env b s = (r, s')"
  shows "environment s' = environment s \<and> (\<forall>k v. mVariables s' k = Some v \<longrightarrow> value_wf v) \<and> mNumInstructions s \<le> mNumInstructions s'
    \<and> (mSuccessSet s \<longrightarrow> mSuccessSet s' \<and> mSuccess s' = mSuccess s) \<and> (mMonotonic s' \<longrightarrow> mMonotonic s)"
  using run_state [OF assms] by (auto simp: evolves_def verdict_kept_def contract_ok_def vals_ok_def)

definition sample_env :: kenv where
  "sample_env = \<lparr>e_crypto = sample_crypto, e_sqrt = (\<lambda>u s. ''0'')\<rparr>"

definition sample_witness :: witness where
  "sample_witness = \<lparr>wt_signatures = [], wt_coinproofs = [], wt_scripts = []\<rparr>"

definition sample_script :: string where
  "sample_script = ''WHILE TRUE DO LET x = TRUE ENDWHILE''"

lemma sample_contract:
  "\<exists>s. contract_new sample_script [] sample_witness sample_payment [] = Inr s"
proof -
  have "\<exists>b. parse_script sample_script 0 = Inr b"
    by (rule exI [of _ "case parse_script sample_script 0 of Inr b \<Rightarrow> b"]) code_simp
  then show ?thesis
    by (auto simp: parse_script_def bindE_eq_Inr contract_new_def parseAndBuild_def Let_def)
qed

theorem contract_always_ends_witness:
  "\<exists>s r s1. contract_new sample_script [] sample_witness sample_payment [] = Inr s
    \<and> setGlobals mn_TEN mn_TEN sample_payment 0 mn_ONE sample_script s = (r, s1)
    \<and> outcome {Undef} (\<lambda>s'. if mException s' then \<not> mSuccess s' else 0 \<le> mNumInstructions s' \<and> mNumInstructions s' \<le> 1024)
        (contract_run sample_env s1)"
proof -
  obtain s where s: "contract_new sample_script [] sample_witness sample_payment [] = Inr s" using sample_contract by blast
  obtain r s1 where g: "setGlobals mn_TEN mn_TEN sample_payment 0 mn_ONE sample_script s = (r, s1)" by fastforce
  have n: "numbers_ok sample_payment" by code_simp
  show ?thesis
    by (intro exI conjI, rule s, rule g) (rule contract_always_ends [OF s n _ _ _ g]; simp)
qed

definition sample_block :: "stmt list" where
  "sample_block = [LETvariable ''x'' (ConstantExpression (BooleanValue True)), RETURNstatement (VariableExpression ''x'')]"

definition sample_state :: contract where
  "sample_state = contract_init sample_witness sample_payment []"

theorem run_keeps_environment_witness:
  "case run (instruction_fuel sample_state) sample_env sample_block sample_state of (r, s') \<Rightarrow>
     environment s' = environment sample_state \<and> (mSuccessSet sample_state \<longrightarrow> mSuccess s' = mSuccess sample_state)"
proof -
  have "numbers_ok sample_payment" by code_simp
  then have "contract_ok sample_state" by (simp add: sample_state_def contract_init_def contract_ok_def vals_ok_def)
  moreover have "block_wf sample_block" by (simp add: sample_block_def)
  moreover obtain r s' where "run (instruction_fuel sample_state) sample_env sample_block sample_state = (r, s')" by fastforce
  ultimately show ?thesis using run_keeps_environment by simp
qed

end
