(* ===== verification/KissMonotone.thy ===== *)
theory KissMonotone
  imports KissSafety
begin

text \<open>
  The monotonic flag: a contract clears it when it reads the block, its time or the age of the coin. The
  node checks a script whose flag is still set only once and keeps the verdict, so a run that ends with the
  flag set must not depend on those three globals. \<open>quiet m\<close> says so of an action; the rules follow its
  structure, as for \<open>vm\<close>.
\<close>

definition timed :: "string set" where
  "timed = {''@BLOCK'', ''@BLOCKMILLI'', ''@COINAGE''}"

definition retime :: "(string \<Rightarrow> kvalue option) \<Rightarrow> contract \<Rightarrow> contract" where
  "retime g s = s\<lparr>mGlobals := g\<rparr>"

text \<open>Globals that agree outside the three, and have the three exactly when the others do.\<close>

definition same_untimed :: "(string \<Rightarrow> kvalue option) \<Rightarrow> (string \<Rightarrow> kvalue option) \<Rightarrow> bool" where
  "same_untimed f g = (\<forall>k. k \<notin> timed \<longrightarrow> f k = g k)"

definition has_timed :: "(string \<Rightarrow> kvalue option) \<Rightarrow> bool" where
  "has_timed g = (\<forall>k \<in> timed. g k \<noteq> None)"

definition quiet :: "'a kvm \<Rightarrow> bool" where
  "quiet m = (\<forall>s. has_timed (mGlobals s) \<longrightarrow> (case m s of (r, s') \<Rightarrow>
     mGlobals s' = mGlobals s \<and> (mMonotonic s' \<longrightarrow> mMonotonic s
       \<and> (\<forall>g. has_timed g \<and> same_untimed (mGlobals s) g \<longrightarrow> m (retime g s) = (r, retime g s')))))"

lemma quiet_pure:
  "(\<And>s. case m s of (r, s') \<Rightarrow> mGlobals s' = mGlobals s \<and> (mMonotonic s' \<longrightarrow> mMonotonic s) \<and> (\<forall>g. m (retime g s) = (r, retime g s')))
    \<Longrightarrow> quiet m"
  unfolding quiet_def by (fastforce split: prod.splits)

lemma quietD:
  assumes "quiet m" "has_timed (mGlobals s)" "m s = (r, s')"
  shows "mGlobals s' = mGlobals s" "mMonotonic s' \<Longrightarrow> mMonotonic s"
    "mMonotonic s' \<Longrightarrow> has_timed g \<Longrightarrow> same_untimed (mGlobals s) g \<Longrightarrow> m (retime g s) = (r, retime g s')"
  using assms(1) [unfolded quiet_def, THEN spec [of _ s]] assms(2,3) by simp_all

lemma quietI:
  assumes "\<And>s r s'. has_timed (mGlobals s) \<Longrightarrow> m s = (r, s') \<Longrightarrow> mGlobals s' = mGlobals s"
    "\<And>s r s'. has_timed (mGlobals s) \<Longrightarrow> m s = (r, s') \<Longrightarrow> mMonotonic s' \<Longrightarrow> mMonotonic s"
    "\<And>s r s' g. has_timed (mGlobals s) \<Longrightarrow> m s = (r, s') \<Longrightarrow> mMonotonic s' \<Longrightarrow> has_timed g \<Longrightarrow> same_untimed (mGlobals s) g
      \<Longrightarrow> m (retime g s) = (r, retime g s')"
  shows "quiet m"
  unfolding quiet_def
proof (intro allI impI)
  fix s :: contract assume "has_timed (mGlobals s)"
  moreover obtain r s' where "m s = (r, s')" by (cases "m s")
  ultimately show "case m s of (r, s') \<Rightarrow> mGlobals s' = mGlobals s \<and> (mMonotonic s' \<longrightarrow> mMonotonic s
       \<and> (\<forall>g. has_timed g \<and> same_untimed (mGlobals s) g \<longrightarrow> m (retime g s) = (r, retime g s')))"
    using assms(1) [of s r s'] assms(2) [of s r s'] assms(3) [of s r s'] by simp
qed

lemma retime_sel [simp]:
  "mRamScript (retime g s) = mRamScript s" "mTransaction (retime g s) = mTransaction s" "mWitness (retime g s) = mWitness s"
  "mPrevState (retime g s) = mPrevState s" "mSignatures (retime g s) = mSignatures s" "mBlock (retime g s) = mBlock s"
  "mVariables (retime g s) = mVariables s" "mGlobals (retime g s) = g" "mMonotonic (retime g s) = mMonotonic s"
  "mSuccess (retime g s) = mSuccess s" "mSuccessSet (retime g s) = mSuccessSet s" "mNumInstructions (retime g s) = mNumInstructions s"
  "mMaxInstructions (retime g s) = mMaxInstructions s" "mStackDepth (retime g s) = mStackDepth s"
  by (simp_all add: retime_def)

lemma quiet_ret: "quiet (vret x)" and quiet_lift: "quiet (vlift r)" and quiet_throw: "quiet (vthrow e)"
  and quiet_guard: "quiet (vguard b)"
  by (rule quiet_pure; simp add: vret_def vlift_def vthrow_def vguard_def)+

lemma quiet_get: "(\<And>s g. f (retime g s) = f s) \<Longrightarrow> quiet (vget f)"
  by (rule quiet_pure) (simp add: vget_def)

lemma quiet_mod: "(\<And>s. mGlobals (f s) = mGlobals s \<and> (mMonotonic (f s) \<longrightarrow> mMonotonic s)) \<Longrightarrow> (\<And>s g. f (retime g s) = retime g (f s))
    \<Longrightarrow> quiet (vmod f)"
  by (rule quiet_pure) (simp add: vmod_def)

lemma quiet_bind:
  assumes "quiet m" "\<And>x. quiet (f x)"
  shows "quiet (vbind m f)"
proof (rule quietI)
  fix s s' :: contract and r assume s: "has_timed (mGlobals s)" "vbind m f s = (r, s')"
  obtain r1 s1 where m: "m s = (r1, s1)" by (cases "m s")
  note a = quietD [OF assms(1) s(1) m]
  have t: "has_timed (mGlobals s1)" using a(1) s(1) by simp
  have b: "r1 = Inr x \<Longrightarrow> f x s1 = (r, s')" "r1 = Inl e \<Longrightarrow> r = Inl e \<and> s' = s1" for x e
    using s(2) m by (auto simp: vbind_def)
  note c = quietD [OF assms(2) t b(1)]
  show "mGlobals s' = mGlobals s" using a(1) b c(1) by (cases r1) auto
  show "mMonotonic s" if "mMonotonic s'" using that a(2) b c(2) by (cases r1) auto
  show "vbind m f (retime g s) = (r, retime g s')" if "mMonotonic s'" "has_timed g" "same_untimed (mGlobals s) g" for g
    using that a(1,3) b c(2,3) by (cases r1) (auto simp: vbind_def)
qed

lemma quiet_catch:
  assumes "quiet m" "quiet h"
  shows "quiet (vcatch m h)"
proof (rule quietI)
  fix s s' :: contract and r assume s: "has_timed (mGlobals s)" "vcatch m h s = (r, s')"
  obtain r1 s1 where m: "m s = (r1, s1)" by (cases "m s")
  note a = quietD [OF assms(1) s(1) m]
  have t: "has_timed (mGlobals s1)" using a(1) s(1) by simp
  have b: "r1 = Inl (Throw ExecutionException) \<Longrightarrow> h s1 = (r, s')"
    "r1 \<noteq> Inl (Throw ExecutionException) \<Longrightarrow> r = r1 \<and> s' = s1"
    using s(2) m by (auto simp: vcatch_def split: sum.splits if_splits)
  note c = quietD [OF assms(2) t b(1)]
  show "mGlobals s' = mGlobals s" using a(1) b c(1) by (cases "r1 = Inl (Throw ExecutionException)") auto
  show "mMonotonic s" if "mMonotonic s'" using that a(2) b c(2) by (cases "r1 = Inl (Throw ExecutionException)") auto
  show "vcatch m h (retime g s) = (r, retime g s')" if "mMonotonic s'" "has_timed g" "same_untimed (mGlobals s) g" for g
    using that a(1,3) b c(2,3)
    by (cases "r1 = Inl (Throw ExecutionException)") (auto simp: vcatch_def split: sum.splits)
qed

lemma quiet_rethrow:
  assumes "quiet m"
  shows "quiet (vrethrow m)"
proof (rule quietI)
  fix s s' :: contract and r assume s: "has_timed (mGlobals s)" "vrethrow m s = (r, s')"
  obtain r1 s1 where m: "m s = (r1, s1)" by (cases "m s")
  note a = quietD [OF assms s(1) m]
  have b: "s' = s1" using s(2) m by (auto simp: vrethrow_def split: sum.splits error.splits)
  show "mGlobals s' = mGlobals s" "mMonotonic s' \<Longrightarrow> mMonotonic s" using a b by simp_all
  show "vrethrow m (retime g s) = (r, retime g s')" if "mMonotonic s'" "has_timed g" "same_untimed (mGlobals s) g" for g
    using a(3) b that s(2) m by (auto simp: vrethrow_def split: sum.splits error.splits)
qed

lemma quiet_state:
  "quiet (setVariable k v)" "quiet (removeVariable k)" "quiet (setRETURNValue b)" "quiet decrementStackDepth"
  "quiet incrementStackDepth" "quiet (incrementInstructions n)" "quiet (getVariable k)" "quiet (checkSignature p)"
  "quiet (coin_at coins i)" "quiet (getState j)" "quiet (getPrevState j)"
  unfolding setVariable_def removeVariable_def setRETURNValue_def decrementStackDepth_def incrementStackDepth_def
    incrementInstructions_def getVariable_def checkSignature_def coin_at_def getState_def getPrevState_def
  by (auto intro!: quiet_bind quiet_mod quiet_get quiet_ret quiet_throw quiet_lift split: option.split if_splits simp: retime_def)

lemma quiet_getGlobal: "quiet (getGlobal k)"
proof (rule quietI)
  have g: "getGlobal k s = (case mGlobals s k of None \<Rightarrow> (Inl (Throw ExecutionException), s)
      | Some v \<Rightarrow> (Inr v, if k \<in> timed then s\<lparr>mMonotonic := False\<rparr> else s))" for s
    by (simp add: getGlobal_def vbind_def vget_def vmod_def vret_def vthrow_def vlift_def timed_def split: option.split)
  fix s s' :: contract and r assume s: "has_timed (mGlobals s)" "getGlobal k s = (r, s')"
  show "mGlobals s' = mGlobals s" "mMonotonic s' \<Longrightarrow> mMonotonic s"
    using s by (auto simp: g split: option.splits if_splits)
  show "getGlobal k (retime h s) = (r, retime h s')" if "mMonotonic s'" "has_timed h" "same_untimed (mGlobals s) h" for h
  proof (cases "k \<in> timed")
    case True
    then obtain v where "mGlobals s k = Some v" using s(1) by (auto simp: has_timed_def)
    then show ?thesis using s(2) that(1) True by (auto simp: g)
  next
    case False
    then show ?thesis using s that by (auto simp: g same_untimed_def split: option.splits)
  qed
qed

subsection \<open>One level of the machine\<close>

locale quiet_machine =
  fixes env :: kenv and ev :: evaluator and runb :: "stmt list \<Rightarrow> unit kvm"
  assumes ev_quiet: "quiet (ev e)"
    and run_quiet: "quiet (runb b)"
begin

lemma quiet_if: "(b \<Longrightarrow> quiet m) \<Longrightarrow> (\<not> b \<Longrightarrow> quiet k) \<Longrightarrow> quiet (if b then m else k)"
  by simp

lemma quiet_must: "quiet (must_number v)" "quiet (must_hex v)" "quiet (must_string v)" "quiet (must_bool v)" "quiet (bytes_of_value v)"
  by (cases v; simp add: must_number_def must_hex_def must_string_def must_bool_def bytes_of_value_def quiet_ret quiet_throw)+

lemma quiet_param: "quiet (getParameter ev ps i)"
  unfolding getParameter_def by (intro quiet_if quiet_throw ev_quiet)

lemma quiet_params: "quiet (getNumberParam ev ps i)" "quiet (getHexParam ev ps i)" "quiet (getStringParam ev ps i)"
    "quiet (getBoolParam ev ps i)" "quiet (getIntParam ev ps i)"
  unfolding getNumberParam_def getHexParam_def getStringParam_def getBoolParam_def getIntParam_def
  by (intro quiet_bind quiet_param quiet_must quiet_ret)+

lemmas rules = quiet_bind quiet_ret quiet_lift quiet_throw quiet_guard quiet_state quiet_must quiet_param quiet_params ev_quiet run_quiet
  quiet_if quiet_get

lemmas bounds = checkExactParamNumber_def checkMinParamNumber_def

lemma quiet_casts: "quiet (run_ASCII ev ps)" "quiet (run_BOOL ev ps)" "quiet (run_HEX ev ps)" "quiet (run_NUMBER ev ps)"
  "quiet (run_STRING ev ps)" "quiet (run_UTF8 ev ps)"
  unfolding run_ASCII_def run_BOOL_def run_HEX_def run_NUMBER_def run_STRING_def run_UTF8_def bounds
  by (intro rules)+

lemma quiet_strings: "quiet (run_REPLACE ev ps)" "quiet (run_REPLACEFIRST ev ps)" "quiet (run_SUBSTR ev ps)"
  unfolding run_REPLACE_def run_REPLACEFIRST_def run_SUBSTR_def bounds Let_def
  by (intro rules)+

lemma quiet_data: "quiet (run_LEN ev ps)" "quiet (run_REV ev ps)" "quiet (run_SUBSET ev ps)"
    "quiet (run_SETLEN ev ps)" "quiet (run_OVERWRITE ev ps)" "quiet (run_BITCOUNT ev ps)"
    "quiet (run_BITGET ev ps)" "quiet (run_BITSET ev ps)"
  unfolding run_LEN_def run_REV_def run_SUBSET_def run_SETLEN_def run_OVERWRITE_def run_BITCOUNT_def
    run_BITGET_def run_BITSET_def bounds Let_def
  by (intro rules)+

lemma quiet_numbers: "quiet (run_ABS ev ps)" "quiet (run_CEIL ev ps)" "quiet (run_FLOOR ev ps)" "quiet (run_DEC ev ps)"
    "quiet (run_INC ev ps)" "quiet (run_SQRT env ev ps)" "quiet (run_POW ev ps)" "quiet (run_SIGDIG ev ps)" "quiet (run_MIN ev ps)"
  unfolding run_ABS_def run_CEIL_def run_FLOOR_def run_DEC_def run_INC_def run_SQRT_def run_POW_def
    run_SIGDIG_def run_MIN_def number_function_def bounds
  by (intro rules)+

lemma quiet_loops: "quiet (max_loop ev mx ps)" "quiet (array_key ev k ps)" "quiet (concat_loop ev totlen res ps)"
    "quiet (multisig_loop ev num found ps)" "quiet (function_params ev i fn ps)"
  by (induction ps arbitrary: mx k totlen res found i fn) (simp_all add: Let_def; intro rules; simp)+

lemma quiet_samestate: "quiet (samestate_loop i stop)"
proof (induction i stop rule: samestate_loop.induct)
  case (1 i stop)
  then show ?case by (subst samestate_loop.simps) (intro rules; simp)
qed

lemma quiet_option: "quiet a \<Longrightarrow> (\<And>y. quiet (f y)) \<Longrightarrow> quiet (case x of None \<Rightarrow> a | Some y \<Rightarrow> f y)"
  by (cases x) simp_all

lemma quiet_collecting: "quiet (run_MAX ev ps)" "quiet (run_CONCAT ev ps)" "quiet (run_EXISTS ev ps)"
    "quiet (run_GET ev ps)" "quiet (run_MULTISIG ev ps)" "quiet (run_SIGNEDBY ev ps)"
    "quiet (run_STATE ev ps)" "quiet (run_PREVSTATE ev ps)" "quiet (run_SAMESTATE ev ps)"
  unfolding run_MAX_def run_CONCAT_def run_EXISTS_def run_GET_def run_MULTISIG_def run_SIGNEDBY_def run_STATE_def
    run_PREVSTATE_def run_SAMESTATE_def bounds
  by (intro rules quiet_loops quiet_samestate quiet_option)+

lemma quiet_transactions: "quiet (coin_function f cs g ev ps)" "quiet (run_GETINID ev ps)" "quiet (run_GETOUTADDR ev ps)"
    "quiet (run_SUMINPUTS ev ps)" "quiet (run_SUMOUTPUTS ev ps)" "quiet (run_VERIFYIN ev ps)" "quiet (run_VERIFYOUT ev ps)"
  unfolding coin_function_def run_GETINID_def run_GETOUTADDR_def run_SUMINPUTS_def run_SUMOUTPUTS_def run_VERIFYIN_def
    run_VERIFYOUT_def bounds
  by (intro rules quiet_rethrow; simp)+

lemma quiet_coins: "quiet (run_GETINADDR ev ps)" "quiet (run_GETINTOK ev ps)" "quiet (run_GETINAMT ev ps)"
    "quiet (run_GETOUTTOK ev ps)" "quiet (run_GETOUTAMT ev ps)" "quiet (run_GETOUTKEEPSTATE ev ps)"
  unfolding run_GETINADDR_def run_GETINTOK_def run_GETINAMT_def run_GETOUTTOK_def run_GETOUTAMT_def run_GETOUTKEEPSTATE_def
  by (rule quiet_transactions)+

lemma quiet_hashes: "quiet (run_SHA2 env ev ps)" "quiet (run_SHA3 env ev ps)" "quiet (run_ADDRESS env ev ps)"
    "quiet (run_CHECKSIG env ev ps)" "quiet (run_PROOF env ev ps)"
  unfolding run_SHA2_def run_SHA3_def run_ADDRESS_def run_CHECKSIG_def run_PROOF_def bounds
  by (intro rules quiet_catch quiet_rethrow)+

lemma quiet_run_script: "quiet (run_script runb s)"
  unfolding run_script_def by (intro rules quiet_rethrow) simp

lemma quiet_FUNCTION: "quiet (run_FUNCTION ev runb ps)"
  unfolding run_FUNCTION_def bounds by (intro rules quiet_loops quiet_run_script quiet_option)

lemma quiet_runFunction: "quiet (runFunction env ev runb f ps)"
  by (cases f) (simp_all add: quiet_casts quiet_strings quiet_data quiet_numbers quiet_collecting quiet_coins quiet_transactions
      quiet_hashes quiet_FUNCTION)

lemma quiet_getValue: "quiet (getValue env ev runb e)"
  by (cases e; hypsubst; unfold getValue.simps; intro rules quiet_getGlobal quiet_option quiet_runFunction)

lemma quiet_statements: "(\<And>st. quiet (exec st)) \<Longrightarrow> quiet (run_statements exec b)"
  by (induction b) (simp_all, (intro rules; simp)+)

lemma quiet_run_if: "quiet (run_if ev runb cs)"
  by (induction cs) (auto intro!: rules)

lemma quiet_run_while: "quiet (run_while k ev runb c b)"
  by (induction k) (simp_all, (intro rules; simp)+)

lemma quiet_execute: "quiet (execute_stmt k ev runb st)"
  by (cases st) (simp_all, (intro rules quiet_loops quiet_option quiet_run_script quiet_rethrow quiet_run_if quiet_run_while; simp)+)

end

subsection \<open>Every level of the machine\<close>

lemma eval_quiet: "quiet_machine (\<lambda>x. eval n env x) (\<lambda>b. run n env b)"
proof (induction n)
  case 0
  show ?case by unfold_locales (simp_all add: quiet_lift)
next
  case (Suc n)
  show ?case
    by unfold_locales (simp_all add: quiet_machine.quiet_getValue [OF Suc] run_block_def quiet_bind quiet_state
        quiet_machine.quiet_statements [OF Suc] quiet_machine.quiet_execute [OF Suc])
qed

interpretation quiet_kvm: quiet_machine env "\<lambda>x. eval n env x" "\<lambda>b. run n env b" for env n
  by (rule eval_quiet)

lemma contract_run_retime:
  assumes "has_timed (mGlobals s)" "has_timed g" "same_untimed (mGlobals s) g" "contract_run env s = Inr s'" "mMonotonic s'"
  shows "contract_run env (retime g s) = Inr (retime g s')"
proof (cases "mParseOK s")
  case True
  let ?s = "resetStackDepth s"
  obtain r s1 where m: "run (instruction_fuel ?s) env (mBlock ?s) ?s = (r, s1)"
    by (cases "run (instruction_fuel ?s) env (mBlock ?s) ?s")
  have f: "resetStackDepth (retime g s) = retime g ?s" "instruction_fuel (retime g ?s) = instruction_fuel ?s"
    "mGlobals ?s = mGlobals s" "mParseOK (retime g s)" "mBlock (resetStackDepth s) = mBlock s"
    using True by (simp_all add: resetStackDepth_def retime_def instruction_fuel_def)
  have mono: "mMonotonic s1"
    using assms(4,5) m True by (auto simp: contract_run_def Let_def split: sum.splits error.splits)
  have "run (instruction_fuel ?s) env (mBlock ?s) (retime g ?s) = (r, retime g s1)"
    by (rule quietD(3) [OF quiet_kvm.run_quiet _ m mono]) (simp_all add: f assms)
  moreover have "retime g (s1\<lparr>mException := True, mSuccess := False, mSuccessSet := True\<rparr>)
      = (retime g s1)\<lparr>mException := True, mSuccess := False, mSuccessSet := True\<rparr>" by (simp add: retime_def)
  ultimately show ?thesis
    using assms(4) m True by (auto simp: contract_run_def Let_def f split: sum.splits error.splits)
qed (use assms in \<open>auto simp: contract_run_def retime_def\<close>)

text \<open>C21 A verdict marked monotonic does not depend on time: when a run ends with the monotonic flag still set, the
  same contract run with any other block number, block time and coin age, the other globals being the same, ends
  with the same verdict, variables and counts. This is what lets the node check a monotonic script only once.\<close>

theorem monotonic_verdict_ignores_time:
  assumes "has_timed (mGlobals s)" "has_timed g" "same_untimed (mGlobals s) g"
    and "contract_run env s = Inr s'" "mMonotonic s'"
  shows "contract_run env (s\<lparr>mGlobals := g\<rparr>) = Inr (s'\<lparr>mGlobals := g\<rparr>)"
  using contract_run_retime [OF assms] by (simp only: retime_def)

definition sample_timed :: "kvalue \<Rightarrow> contract" where
  "sample_timed v = sample_state\<lparr>mParseOK := True, mBlock := sample_block, mGlobals := (\<lambda>k. if k \<in> {''@BLOCK'', ''@BLOCKMILLI'', ''@COINAGE''} then Some v else None)\<rparr>"

theorem monotonic_verdict_ignores_time_witness:
  "\<exists>s'. contract_run sample_env (sample_timed (NumberValue mn_TEN)) = Inr s' \<and> mSuccess s'"
proof -
  let ?s = "sample_timed (NumberValue mn_ONE)" let ?g = "mGlobals (sample_timed (NumberValue mn_TEN))"
  obtain k where k: "instruction_fuel (resetStackDepth ?s) = Suc (Suc k)"
    by (simp add: instruction_fuel_def resetStackDepth_def sample_timed_def sample_state_def contract_init_def)
  have "\<exists>s'. contract_run sample_env ?s = Inr s' \<and> mSuccess s' \<and> mMonotonic s'"
    by (simp add: contract_run_def Let_def k) (simp add: sample_timed_def sample_state_def contract_init_def resetStackDepth_def
        sample_block_def run_block_def vbind_def vget_def vmod_def vret_def incrementStackDepth_def incrementInstructions_def
        decrementStackDepth_def MAX_STACK_DEPTH_def setVariable_def getVariable_def must_bool_def setRETURNValue_def)
  then obtain s' where r: "contract_run sample_env ?s = Inr s'" "mSuccess s'" "mMonotonic s'" by blast
  have "has_timed (mGlobals ?s)" "has_timed ?g" "same_untimed (mGlobals ?s) ?g"
    by (simp_all add: has_timed_def same_untimed_def timed_def sample_timed_def)
  from monotonic_verdict_ignores_time [OF this r(1,3)] show ?thesis
    using r(2) by (simp add: sample_timed_def)
qed

end
