(* ===== verification/KissBits.thy ===== *)
theory KissBits
  imports KissMonotone
begin

unbundle bit_operations_syntax

text \<open>
  The bitwise operators of scripts (\<open>expressions/operator_expression.cpp\<close>) against the numbers their
  operands stand for, the table of bit counts of \<open>BITCOUNT\<close>, and what is undefined in \<open>MIN\<close>.
\<close>

subsection \<open>Bytes and bits\<close>

lemma bit_concat: "(a :: nat) < 2 ^ n \<Longrightarrow> bit (x * 2 ^ n + a) i = (if i < n then bit a i else bit x (i - n))"
proof (cases "i < n")
  case True
  assume a: "a < 2 ^ n"
  have "bit (x * 2 ^ n + a) i = bit (take_bit n (x * 2 ^ n + a)) i" using True by (simp add: bit_take_bit_iff)
  also have "take_bit n (x * 2 ^ n + a) = a" using a by (simp add: take_bit_eq_mod)
  finally show ?thesis using True by simp
next
  case False
  assume a: "a < 2 ^ n"
  have "bit (x * 2 ^ n + a) i = bit (drop_bit n (x * 2 ^ n + a)) (i - n)" using False by (simp add: bit_drop_bit_eq)
  also have "drop_bit n (x * 2 ^ n + a) = x" using a by (simp add: drop_bit_eq_div)
  finally show ?thesis using False by simp
qed

lemma bits_below: "(a :: nat) < 2 ^ n \<Longrightarrow> b < 2 ^ n \<Longrightarrow> a AND b < 2 ^ n \<and> a OR b < 2 ^ n \<and> a XOR b < 2 ^ n"
  by (simp add: take_bit_nat_eq_self_iff [symmetric])

lemma bits_append:
  fixes a b x y :: nat
  assumes "a < 2 ^ n" "b < 2 ^ n"
  shows "(x * 2 ^ n + a) AND (y * 2 ^ n + b) = (x AND y) * 2 ^ n + (a AND b)"
    "(x * 2 ^ n + a) OR (y * 2 ^ n + b) = (x OR y) * 2 ^ n + (a OR b)"
    "(x * 2 ^ n + a) XOR (y * 2 ^ n + b) = (x XOR y) * 2 ^ n + (a XOR b)"
  using assms bits_below [OF assms]
  by (auto intro!: bit_eqI simp: bit_concat bit_and_iff bit_or_iff bit_xor_iff)

subsection \<open>Byte strings as numbers\<close>

definition hex_number :: "nat \<Rightarrow> byte list" where
  "hex_number n = (if n = 0 then [0] else be_bytes n)"

lemma strip_zero_bytes_number: "strip_zero_bytes bs = hex_number (be_val bs)"
  using trim_leading_zeros_eq [of bs]
  by (simp add: strip_zero_bytes_def hex_number_def trim_leading_zeros_def Let_def)

lemma be_val_zeros [simp]: "be_val (replicate n 0) = 0"
  by (induction n) (simp_all add: be_val_Cons)

lemma pad_left_val [simp]: "be_val (pad_left n bs) = be_val bs"
  by (simp add: pad_left_def be_val_append)

lemma pad_left_length: "length bs \<le> n \<Longrightarrow> length (pad_left n bs) = n"
  by (simp add: pad_left_def)

lemma last_bytes_length: "n \<le> length bs \<Longrightarrow> length (last_bytes n bs) = n"
  by (simp add: last_bytes_def)

lemma last_bytes_val: "n \<le> length bs \<Longrightarrow> be_val (last_bytes n bs) = be_val bs mod 256 ^ n"
proof -
  assume n: "n \<le> length bs"
  have "be_val bs = be_val (take (length bs - n) bs) * 256 ^ n + be_val (last_bytes n bs)"
    using be_val_append [of "take (length bs - n) bs" "drop (length bs - n) bs"] n by (simp add: last_bytes_def)
  moreover have "be_val (last_bytes n bs) < 256 ^ n" using be_val_lt [of "last_bytes n bs"] n by (simp add: last_bytes_length)
  ultimately show ?thesis by simp
qed

lemma byte_power: "(256 :: nat) ^ k = 2 ^ (8 * k)"
  by (simp add: power_mult)

lemma be_val_bits: "be_val bs < 2 ^ (8 * length bs)"
  using be_val_lt [of bs] by (simp add: byte_power)

lemma be_val_bit_Cons: "be_val (b # bs) = unat b * 2 ^ (8 * length bs) + be_val bs"
  by (simp add: be_val_Cons byte_power)

lemma bytewise:
  assumes "length a = length b"
  shows "be_val (map2 (AND) a b) = be_val a AND be_val b" "be_val (map2 (OR) a b) = be_val a OR be_val b"
    "be_val (map2 (XOR) a b) = be_val a XOR be_val b"
  using assms
proof (induction a b rule: list_induct2)
  case (Cons x xs y ys)
  have l: "be_val xs < 2 ^ (8 * length xs)" "be_val ys < 2 ^ (8 * length xs)"
    using be_val_bits [of xs] be_val_bits [of ys] Cons.hyps by simp_all
  { case 1 show ?case using Cons.IH(1) bits_append(1) [OF l] Cons.hyps by (simp add: be_val_bit_Cons unsigned_and_eq) }
  { case 2 show ?case using Cons.IH(2) bits_append(2) [OF l] Cons.hyps by (simp add: be_val_bit_Cons unsigned_or_eq) }
  { case 3 show ?case using Cons.IH(3) bits_append(3) [OF l] Cons.hyps by (simp add: be_val_bit_Cons unsigned_xor_eq) }
qed simp_all

lemma be_val_not: "be_val (map NOT bs) = 256 ^ length bs - 1 - be_val bs"
proof (induction bs)
  case (Cons b bs)
  have "unat (- 1 - b) = unat (- 1 :: byte) - unat b" by (rule unat_sub) simp
  moreover have "NOT b = - 1 - b" by (simp add: not_eq_complement)
  ultimately have "unat (NOT b) = 255 - unat b" by (simp add: unsigned_minus_1_eq_mask mask_eq_exp_minus_1)
  moreover have "unat b \<le> 255" using unat_byte_lt [of b] by linarith
  moreover have "be_val bs < 256 ^ length bs" by (rule be_val_lt)
  ultimately show ?case using Cons by (simp add: be_val_Cons algebra_simps diff_mult_distrib)
qed simp

lemma and_truncate: "(b :: nat) < 2 ^ n \<Longrightarrow> a mod 2 ^ n AND b = a AND b"
  by (rule bit_eqI) (metis bit_and_iff bit_take_bit_iff take_bit_eq_mod take_bit_nat_eq_self)

lemma andFastHEX_number: "andFastHEX a b = hex_number (be_val a AND be_val b)"
proof -
  define k where "k = min (length a) (length b)"
  have k: "k \<le> length a" "k \<le> length b" by (simp_all add: k_def)
  have "be_val (map2 (AND) (last_bytes k a) (last_bytes k b)) = be_val a mod 2 ^ (8 * k) AND be_val b mod 2 ^ (8 * k)"
    using bytewise(1) [of "last_bytes k a" "last_bytes k b"] k by (simp add: last_bytes_length last_bytes_val byte_power)
  moreover have "be_val a mod 2 ^ (8 * k) AND be_val b mod 2 ^ (8 * k) = be_val a AND be_val b"
  proof (cases "length a \<le> length b")
    case True
    then have "be_val a < 2 ^ (8 * k)" using be_val_bits [of a] by (simp add: k_def)
    then show ?thesis using and_truncate [of "be_val a" "8 * k" "be_val b"] by (simp add: and.commute)
  next
    case False
    then have "be_val b < 2 ^ (8 * k)" using be_val_bits [of b] by (simp add: k_def)
    then show ?thesis using and_truncate [of "be_val b" "8 * k" "be_val a"] by simp
  qed
  ultimately show ?thesis by (simp add: andFastHEX_def Let_def strip_zero_bytes_number flip: k_def)
qed

text \<open>C22 The bitwise operators of scripts compute on the numbers their byte strings stand for, whatever the
  lengths of the operands: the conjunction, disjunction and exclusive disjunction of the numbers, the
  complement within the length of the operand; results have no leading zero byte, and zero is one byte.\<close>

theorem hex_operators_numeric:
  "andFastHEX a b = hex_number (be_val a AND be_val b)
   \<and> orFastHEX a b 0 = hex_number (be_val a OR be_val b)
   \<and> orFastHEX a b 1 = hex_number (be_val a XOR be_val b)
   \<and> notFastHEX a = hex_number (256 ^ length a - 1 - be_val a)"
  using bytewise(2,3) [of "pad_left (max (length a) (length b)) a" "pad_left (max (length a) (length b)) b"]
  by (simp add: andFastHEX_number orFastHEX_def notFastHEX_def strip_zero_bytes_number pad_left_length be_val_not Let_def)

end
