(* ===== verification/Magic.thy ===== *)
theory Magic
  imports ObjectStreams
begin

text \<open>
  The parameters blocks vote on: \<open>src/org/minima/objects/magic.cpp\<close>. A block carries the limits in force and
  the limits its miner wishes for; the limits in force after it move towards the wish by a 16384th of the
  distance, within a factor of two and never past the fixed floor. The value a work threshold caches when it
  is read as a number is left out: it changes comparisons of zero values only.
\<close>

subsection \<open>The code\<close>

record magic =
  mCurrentMaxTxPoWSize :: mininumber
  mCurrentMaxKISSVMOps :: mininumber
  mCurrentMaxTxnPerBlock :: mininumber
  mCurrentMinTxPoWWork :: minidata
  mDesiredMaxTxPoWSize :: mininumber
  mDesiredMaxKISSVMOps :: mininumber
  mDesiredMaxTxnPerBlock :: mininumber
  mDesiredMinTxPoWWork :: minidata

definition MAX_VALDEC :: nat where
  "MAX_VALDEC = 115792089237316195423570985008687907853269984665640564039457584007913129639935"

definition MAX_HASH :: minidata where
  "MAX_HASH = md (replicate 32 255)"

definition mn_TWO :: mininumber where "mn_TWO = mk 2 0"
definition MIN_HASHES :: mininumber where "MIN_HASHES = mk 10000 0"
definition DEFAULT_TXPOW_SIZE :: mininumber where "DEFAULT_TXPOW_SIZE = mk (64 * 1024) 0"
definition DEFAULT_KISSVM_OPERATIONS :: mininumber where "DEFAULT_KISSVM_OPERATIONS = mk 1024 0"
definition DEFAULT_TXPOW_TXNS :: mininumber where "DEFAULT_TXPOW_TXNS = mk 256 0"
definition CALC_WEIGHTED :: mininumber where "CALC_WEIGHTED = mk 16383 0"
definition CALC_TOTAL :: mininumber where "CALC_TOTAL = mk 16384 0"
definition MINMAX_TXPOW_SIZE :: mininumber where "MINMAX_TXPOW_SIZE = mk (64 * 1024) 0"
definition MINMAX_KISSVM_OPERATIONS :: mininumber where "MINMAX_KISSVM_OPERATIONS = mk 1024 0"
definition MINMAX_TXPOW_TXNS :: mininumber where "MINMAX_TXPOW_TXNS = mk 256 0"

definition MIN_TXPOW_VAL :: nat where
  "MIN_TXPOW_VAL = MAX_VALDEC div nat (getAsBigInteger MIN_HASHES)"

definition cpp_int_to_big_endian :: "nat \<Rightarrow> byte list" where
  "cpp_int_to_big_endian v = (if v = 0 then [0] else be_bytes v)"

definition MIN_TXPOW_WORK :: minidata where
  "MIN_TXPOW_WORK = md (cpp_int_to_big_endian MIN_TXPOW_VAL)"

definition magic_new :: magic where
  "magic_new = \<lparr>mCurrentMaxTxPoWSize = DEFAULT_TXPOW_SIZE, mCurrentMaxKISSVMOps = DEFAULT_KISSVM_OPERATIONS,
     mCurrentMaxTxnPerBlock = DEFAULT_TXPOW_TXNS, mCurrentMinTxPoWWork = MIN_TXPOW_WORK,
     mDesiredMaxTxPoWSize = DEFAULT_TXPOW_SIZE, mDesiredMaxKISSVMOps = DEFAULT_KISSVM_OPERATIONS,
     mDesiredMaxTxnPerBlock = DEFAULT_TXPOW_TXNS, mDesiredMinTxPoWWork = MIN_TXPOW_WORK\<rparr>"

definition checkSame :: "magic \<Rightarrow> magic \<Rightarrow> bool" where
  "checkSame a b =
     (mn_isEqual (mCurrentMaxTxPoWSize a) (mCurrentMaxTxPoWSize b)
      \<and> mn_isEqual (mCurrentMaxKISSVMOps a) (mCurrentMaxKISSVMOps b)
      \<and> mn_isEqual (mCurrentMaxTxnPerBlock a) (mCurrentMaxTxnPerBlock b)
      \<and> md_isEqual (mCurrentMinTxPoWWork a) (mCurrentMinTxPoWWork b))"

text \<open>One of the three numeric limits of \<open>calculateNewCurrent\<close>, which repeats the steps for each.\<close>

definition new_current :: "mininumber \<Rightarrow> mininumber \<Rightarrow> mininumber \<Rightarrow> mininumber result" where
  "new_current current desired minmax =
     bindE (mn_div current mn_TWO) (\<lambda>mn. bindE (mn_mult current mn_TWO) (\<lambda>mx.
       let desired = (if mn_isLess desired mn then mn else if mn_isMore desired mx then mx else desired);
           desired = (if mn_isLess desired minmax then minmax else desired)
       in bindE (mn_mult current CALC_WEIGHTED) (\<lambda>a. bindE (mn_add a desired) (\<lambda>b. mn_div b CALC_TOTAL))))"

definition new_work :: "nat \<Rightarrow> nat \<Rightarrow> nat" where
  "new_work oldval desired =
     (let minval = oldval div 2; maxval = oldval * 2;
          newval = (if desired < minval then minval else if desired > maxval then maxval else desired);
          newval = (if newval > MIN_TXPOW_VAL then MIN_TXPOW_VAL else newval)
      in (oldval * nat (getAsBigInteger CALC_WEIGHTED) + newval) div nat (getAsBigInteger CALC_TOTAL))"

definition calculateNewCurrent :: "magic \<Rightarrow> magic result" where
  "calculateNewCurrent m =
     bindE (new_current (mCurrentMaxTxPoWSize m) (mDesiredMaxTxPoWSize m) MINMAX_TXPOW_SIZE) (\<lambda>sz.
     bindE (new_current (mCurrentMaxKISSVMOps m) (mDesiredMaxKISSVMOps m) MINMAX_KISSVM_OPERATIONS) (\<lambda>ops.
     bindE (new_current (mCurrentMaxTxnPerBlock m) (mDesiredMaxTxnPerBlock m) MINMAX_TXPOW_TXNS) (\<lambda>txns.
     Inr (magic_new\<lparr>mCurrentMaxTxPoWSize := sz, mCurrentMaxKISSVMOps := ops, mCurrentMaxTxnPerBlock := txns,
       mCurrentMinTxPoWWork := md (cpp_int_to_big_endian
         (new_work (md_getValue (mCurrentMinTxPoWWork m)) (md_getValue (mDesiredMinTxPoWWork m))))\<rparr>))))"

definition magic_writeDataStream :: "magic \<Rightarrow> byte list" where
  "magic_writeDataStream m =
     mn_writeDataStream (mCurrentMaxTxPoWSize m) @ mn_writeDataStream (mCurrentMaxKISSVMOps m)
     @ mn_writeDataStream (mCurrentMaxTxnPerBlock m) @ md_writeDataStream (mCurrentMinTxPoWWork m)
     @ mn_writeDataStream (mDesiredMaxTxPoWSize m) @ mn_writeDataStream (mDesiredMaxKISSVMOps m)
     @ mn_writeDataStream (mDesiredMaxTxnPerBlock m) @ md_writeDataStream (mDesiredMinTxPoWWork m)"

definition magic_readDataStream :: "magic reader" where
  "magic_readDataStream inp =
     bindE (mn_readDataStream inp) (\<lambda>(a, inp). bindE (mn_readDataStream inp) (\<lambda>(b, inp).
     bindE (mn_readDataStream inp) (\<lambda>(c, inp). bindE (md_readDataStream inp) (\<lambda>(d, inp).
     bindE (mn_readDataStream inp) (\<lambda>(e, inp). bindE (mn_readDataStream inp) (\<lambda>(f, inp).
     bindE (mn_readDataStream inp) (\<lambda>(g, inp). bindE (md_readDataStream inp) (\<lambda>(h, inp).
     Inr (\<lparr>mCurrentMaxTxPoWSize = a, mCurrentMaxKISSVMOps = b, mCurrentMaxTxnPerBlock = c, mCurrentMinTxPoWWork = d,
       mDesiredMaxTxPoWSize = e, mDesiredMaxKISSVMOps = f, mDesiredMaxTxnPerBlock = g, mDesiredMinTxPoWWork = h\<rparr>,
       inp)))))))))"

subsection \<open>The stream form\<close>

definition work_fits :: "minidata \<Rightarrow> bool" where
  "work_fits d = (d = md (mData d) \<and> data_fits (mData d))"

lemma work_stream: "work_fits d \<Longrightarrow> md_readDataStream (md_writeDataStream d @ rest) = Inr (d, rest)"
  using read_data [of "mData d" rest] by (simp add: work_fits_def)

definition magic_fits :: "magic \<Rightarrow> bool" where
  "magic_fits m = (mn_wf (mCurrentMaxTxPoWSize m) \<and> mn_wf (mCurrentMaxKISSVMOps m) \<and> mn_wf (mCurrentMaxTxnPerBlock m)
     \<and> mn_wf (mDesiredMaxTxPoWSize m) \<and> mn_wf (mDesiredMaxKISSVMOps m) \<and> mn_wf (mDesiredMaxTxnPerBlock m)
     \<and> work_fits (mCurrentMinTxPoWWork m) \<and> work_fits (mDesiredMinTxPoWWork m))"

interpretation magic_stream: streamable magic_writeDataStream magic_readDataStream magic_fits
  by unfold_locales (simp add: magic_fits_def magic_writeDataStream_def magic_readDataStream_def work_stream)

subsection \<open>One limit\<close>

lemma p10_neg44: "(10::rat) powi - 44 = 1 / 10 ^ 44" by (simp add: power_int_def field_simps)

text \<open>Rounding towards zero does not pass an integer of less than twenty digits.\<close>

lemma rounded_ge_integer:
  assumes "rounded x (Inr r)" "of_int N \<le> x" "0 \<le> N" "N < 10 ^ 19"
  shows "of_int N \<le> mval r"
proof (rule ccontr)
  assume "\<not> of_int N \<le> mval r"
  then have lt: "mval r < of_int N" by simp
  have r: "mn_wf r" "rounds_down x r" using assms(1) by (simp_all add: rounded_def)
  have s: "m_scale r \<le> 44" using r(1) by (rule mn_wf_scale44)
  have "(of_int N :: rat) < of_int (10 ^ 19)" using assms(4) by (simp only: of_int_less_iff)
  then have N: "(0::rat) \<le> of_int N" "of_int N < (10::rat) ^ 19" using assms(3) by simp_all
  have r0: "0 \<le> mval r"
    using r(2) assms(2) N(1) by (auto simp: rounds_down_def not_less)
  have "(10::rat) ^ nat (44 - m_scale r) = 10 powi (44 + - m_scale r)" using s by (simp add: p10_nonneg)
  also have "\<dots> = 10 ^ 44 * 10 powi (- m_scale r)" unfolding p10_add by (simp add: p10_nonneg)
  finally have "mval r * 10 ^ 44 = of_int (m_unscaled r * 10 ^ nat (44 - m_scale r))"
    by (simp add: mval_def mult_ac)
  then obtain k where k: "mval r * 10 ^ 44 = of_int k" by blast
  have "of_int k < (of_int (N * 10 ^ 44) :: rat)" using lt by (simp flip: k)
  then have "k + 1 \<le> N * 10 ^ 44" by (simp only: of_int_less_iff)
  then have "(of_int (k + 1) :: rat) \<le> of_int (N * 10 ^ 44)" by (simp only: of_int_le_iff)
  then have gap: "1 / 10 ^ 44 \<le> of_int N - mval r" by (simp flip: k add: field_simps)
  have "mval r * 10 powi - 63 \<le> 10 ^ 19 * 10 powi - 63" using lt N by (intro mult_right_mono) simp_all
  also have "10 ^ 19 * 10 powi - 63 = (1 / 10 ^ 44 :: rat)" by (simp add: power_int_def field_simps)
  finally have "x - mval r < 1 / 10 ^ 44"
    using r(2) r0 assms(2) N(1) lt by (auto simp: rounds_down_def p10_neg44)
  then show False using gap assms(2) by linarith
qed

lemma rounded_ok:
  assumes "rounded x r" "0 \<le> x" "x \<le> 10 ^ 70"
  obtains m where "r = Inr m" "mn_wf m" "rounded x (Inr m)" "mval m \<le> x"
proof (cases r)
  case (Inl e)
  have "(10::rat) ^ 70 \<le> of_int get_max_value" by (simp add: get_max_value_def)
  then show ?thesis using assms Inl by (simp add: rounded_def)
next
  case (Inr m)
  then show ?thesis using assms that [of m] by (auto simp: rounded_def rounds_down_def)
qed

lemma scale_of_size:
  assumes "0 < mval m" "mval m < 10 ^ 22"
  shows "- 22 \<le> m_scale m"
proof (rule ccontr)
  assume "\<not> - 22 \<le> m_scale m"
  then have "(10::rat) powi 22 \<le> 10 powi (- m_scale m)" by (intro p10_mono) simp
  moreover have "1 \<le> m_unscaled m" using assms(1) by (simp add: mval_def zero_less_mult_iff)
  then have "(1::rat) \<le> of_int (m_unscaled m)" by simp
  then have "1 * 10 powi (- m_scale m) \<le> mval m" unfolding mval_def by (intro mult_right_mono) simp_all
  ultimately have "(10::rat) powi 22 \<le> mval m" by simp
  then show False using assms(2) by simp
qed

lemma constant_val: "mval (mk n 0) = of_int n"
  by (simp add: mval_def)

lemma constant_wf: "\<bar>n\<bar> < 10 ^ 60 \<Longrightarrow> mn_wf (mk n 0)"
  by (auto simp: mn_wf_def in_range_def get_max_value_def MAX_DECIMAL_PLACES_def MAX_DIGITS_def)

lemma new_current_bounds:
  assumes cur: "mn_wf cur" "of_int N \<le> mval cur" "mval cur \<le> 10 ^ 17"
    and des: "mn_wf des" and N: "0 < N" "N \<le> 10 ^ 6"
  obtains r where "new_current cur des (mk N 0) = Inr r" "mn_wf r" "of_int N \<le> mval r"
    "mval r \<le> mval cur * 16385 / 16384"
proof -
  have Nr: "(0::rat) < of_int N" "(of_int N :: rat) \<le> of_int (10 ^ 6)"
    using N(1) N(2) by (simp, simp only: of_int_le_iff)
  have c0: "0 < mval cur" using cur(2) Nr(1) by linarith
  have cs: "- 22 \<le> m_scale cur" using scale_of_size [of cur] c0 cur(3) by simp
  have two: "mn_wf mn_TWO" "mval mn_TWO = 2" "mn_wf CALC_WEIGHTED" "mval CALC_WEIGHTED = 16383"
    "mn_wf CALC_TOTAL" "mval CALC_TOTAL = 16384" "m_scale mn_TWO = 0" "m_scale CALC_TOTAL = 0" "mn_wf (mk N 0)"
    using N by (simp_all add: mn_TWO_def CALC_WEIGHTED_def CALC_TOTAL_def constant_val constant_wf)
  have "rounded (mval cur / 2) (mn_div cur mn_TWO)"
    using mn_div_rounded [of cur mn_TWO] cur(1) two cs by simp
  moreover have "0 \<le> mval cur / 2" "mval cur / 2 \<le> 10 ^ 70" using c0 cur(3) by simp_all
  ultimately obtain mn where mn: "mn_div cur mn_TWO = Inr mn" "mn_wf mn" "mval mn \<le> mval cur / 2"
    by (rule rounded_ok)
  have "rounded (mval cur * 2) (mn_mult cur mn_TWO)"
    using mn_mult_rounded [of cur mn_TWO] cur(1) two by simp
  moreover have "0 \<le> mval cur * 2" "mval cur * 2 \<le> 10 ^ 70" using c0 cur(3) by simp_all
  ultimately obtain mx where mx: "mn_mult cur mn_TWO = Inr mx" "mn_wf mx" "mval mx \<le> mval cur * 2"
    by (rule rounded_ok)
  define d1 where "d1 = (if mn_isLess des mn then mn else if mn_isMore des mx then mx else des)"
  define d2 where "d2 = (if mn_isLess d1 (mk N 0) then mk N 0 else d1)"
  have d1: "mn_wf d1" "mval d1 \<le> mval cur * 2"
    using mn mx des c0 by (auto simp: d1_def mn_compare_val)
  have d2: "mn_wf d2" "of_int N \<le> mval d2" "mval d2 \<le> mval cur * 2"
    using d1 two(9) cur(2) c0 by (auto simp: d2_def mn_compare_val constant_val)
  have "rounded (mval cur * 16383) (mn_mult cur CALC_WEIGHTED)"
    using mn_mult_rounded [of cur CALC_WEIGHTED] cur(1) two by simp
  moreover have "0 \<le> mval cur * 16383" "mval cur * 16383 \<le> 10 ^ 70" using c0 cur(3) by simp_all
  ultimately obtain a where a: "mn_mult cur CALC_WEIGHTED = Inr a" "mn_wf a" "rounded (mval cur * 16383) (Inr a)"
    "mval a \<le> mval cur * 16383"
    by (rule rounded_ok)
  have a1: "of_int (N * 16383) \<le> mval cur * 16383" using cur(2) by (simp only: of_int_mult of_int_numeral mult_right_mono)
  have a2: "of_int (N * 16383) \<le> mval a" using N by (intro rounded_ge_integer [OF a(3) a1]) simp_all
  have "rounded (mval a + mval d2) (mn_add a d2)" using mn_add_rounded [of a d2] a(2) d2(1) by simp
  moreover have "0 \<le> mval a + mval d2" using a2 d2(2) Nr(1) by simp
  moreover have "mval a + mval d2 \<le> 10 ^ 70" using a(4) d2(3) cur(3) by simp
  ultimately obtain b where b: "mn_add a d2 = Inr b" "mn_wf b" "rounded (mval a + mval d2) (Inr b)"
    "mval b \<le> mval a + mval d2"
    by (rule rounded_ok)
  have b1: "of_int (N * 16384) \<le> mval a + mval d2" using a2 d2(2) by (simp only: of_int_mult of_int_numeral)
  have b2: "of_int (N * 16384) \<le> mval b" using N by (intro rounded_ge_integer [OF b(3) b1]) simp_all
  have b3: "mval b \<le> mval cur * 16385" using b(4) a(4) d2(3) by simp
  have b0: "0 < mval b" using b2 Nr(1) by simp
  have "- 22 \<le> m_scale b" using scale_of_size [of b] b0 b3 cur(3) by simp
  then have "rounded (mval b / 16384) (mn_div b CALC_TOTAL)"
    using mn_div_rounded [of b CALC_TOTAL] b(2) two by simp
  moreover have "0 \<le> mval b / 16384" "mval b / 16384 \<le> 10 ^ 70" using b0 b3 cur(3) by simp_all
  ultimately obtain r where r: "mn_div b CALC_TOTAL = Inr r" "mn_wf r" "rounded (mval b / 16384) (Inr r)"
    "mval r \<le> mval b / 16384"
    by (rule rounded_ok)
  show ?thesis
  proof (rule that [of r])
    show "new_current cur des (mk N 0) = Inr r"
      using mn(1) mx(1) a(1) b(1) r(1) unfolding d2_def d1_def by (simp add: new_current_def Let_def)
    have "of_int N \<le> mval b / 16384" using b2 by simp
    then show "of_int N \<le> mval r" using N by (intro rounded_ge_integer [OF r(3)]) simp_all
    show "mval r \<le> mval cur * 16385 / 16384" using r(4) b3 by simp
  qed (fact r(2))
qed

subsection \<open>All limits\<close>

lemma big_endian_val [simp]: "md_getValue (md (cpp_int_to_big_endian v)) = v"
  by (simp add: md_getValue_def md_def cpp_int_to_big_endian_def be_val_Cons)

lemma calc_constants [simp]: "nat (getAsBigInteger CALC_WEIGHTED) = 16383" "nat (getAsBigInteger CALC_TOTAL) = 16384"
  by (simp_all add: getAsBigInteger_def CALC_WEIGHTED_def CALC_TOTAL_def pow10_def)

lemma new_work_bounds:
  assumes "oldval \<le> MIN_TXPOW_VAL"
  shows "new_work oldval desired \<le> MIN_TXPOW_VAL" "oldval * 32767 \<le> 32768 * (new_work oldval desired + 1)"
    "new_work oldval desired * 16384 \<le> oldval * 16385"
proof -
  define nv where "nv = (let newval = (if desired < oldval div 2 then oldval div 2 else if desired > oldval * 2 then oldval * 2 else desired)
    in if newval > MIN_TXPOW_VAL then MIN_TXPOW_VAL else newval)"
  have n: "new_work oldval desired = (oldval * 16383 + nv) div 16384"
    by (simp add: new_work_def nv_def Let_def)
  have nv: "nv \<le> MIN_TXPOW_VAL" "oldval div 2 \<le> nv" "nv \<le> oldval * 2"
    using assms by (auto simp: nv_def Let_def)
  show "new_work oldval desired \<le> MIN_TXPOW_VAL" using nv assms unfolding n by linarith
  have "oldval * 16383 + nv < 16384 * ((oldval * 16383 + nv) div 16384 + 1)" by (simp add: div_less_iff_less_mult [symmetric] mult.commute)
  moreover have "oldval < 2 * (oldval div 2) + 2" by simp
  ultimately show "oldval * 32767 \<le> 32768 * (new_work oldval desired + 1)" using nv(2) unfolding n by linarith
  show "new_work oldval desired * 16384 \<le> oldval * 16385" using nv unfolding n by linarith
qed

definition moderate :: "int \<Rightarrow> mininumber \<Rightarrow> bool" where
  "moderate N m = (mn_wf m \<and> of_int N \<le> mval m \<and> mval m \<le> 10 ^ 17)"

lemma moderate_step:
  assumes "moderate N cur" "mn_wf des" "0 < N" "N \<le> 10 ^ 6"
  shows "\<exists>r. new_current cur des (mk N 0) = Inr r \<and> of_int N \<le> mval r \<and> mval r \<le> mval cur * 16385 / 16384"
  using new_current_bounds [of cur N des] assms unfolding moderate_def by metis

definition limits_ok :: "magic \<Rightarrow> bool" where
  "limits_ok m = (moderate 65536 (mCurrentMaxTxPoWSize m) \<and> moderate 1024 (mCurrentMaxKISSVMOps m)
     \<and> moderate 256 (mCurrentMaxTxnPerBlock m) \<and> md_getValue (mCurrentMinTxPoWWork m) \<le> MIN_TXPOW_VAL
     \<and> mn_wf (mDesiredMaxTxPoWSize m) \<and> mn_wf (mDesiredMaxKISSVMOps m) \<and> mn_wf (mDesiredMaxTxnPerBlock m))"

text \<open>C23 The limits of the network cannot be voted below their floor nor moved quickly: from limits in force at
  or above the floors (64 KB, 1024 instructions, 256 transactions, and a work threshold at most the easiest
  one), whatever the miner of the block wishes for, the limits of the next block can be computed, are
  again at or above the floors, and have grown by at most a 16384th; the work threshold stays at most the
  easiest one and has moved by at most a 16384th up and a 32768th (and one) down.\<close>

theorem magic_limits:
  assumes "limits_ok m"
  shows "\<exists>m'. calculateNewCurrent m = Inr m'
    \<and> 65536 \<le> mval (mCurrentMaxTxPoWSize m') \<and> mval (mCurrentMaxTxPoWSize m') \<le> mval (mCurrentMaxTxPoWSize m) * 16385 / 16384
    \<and> 1024 \<le> mval (mCurrentMaxKISSVMOps m') \<and> mval (mCurrentMaxKISSVMOps m') \<le> mval (mCurrentMaxKISSVMOps m) * 16385 / 16384
    \<and> 256 \<le> mval (mCurrentMaxTxnPerBlock m') \<and> mval (mCurrentMaxTxnPerBlock m') \<le> mval (mCurrentMaxTxnPerBlock m) * 16385 / 16384
    \<and> md_getValue (mCurrentMinTxPoWWork m') \<le> MIN_TXPOW_VAL
    \<and> md_getValue (mCurrentMinTxPoWWork m) * 32767 \<le> 32768 * (md_getValue (mCurrentMinTxPoWWork m') + 1)
    \<and> md_getValue (mCurrentMinTxPoWWork m') * 16384 \<le> md_getValue (mCurrentMinTxPoWWork m) * 16385"
proof -
  note l = assms [unfolded limits_ok_def]
  obtain sz where sz: "new_current (mCurrentMaxTxPoWSize m) (mDesiredMaxTxPoWSize m) (mk 65536 0) = Inr sz"
    "of_int 65536 \<le> mval sz" "mval sz \<le> mval (mCurrentMaxTxPoWSize m) * 16385 / 16384"
    using moderate_step [of 65536 "mCurrentMaxTxPoWSize m" "mDesiredMaxTxPoWSize m"] l by auto
  obtain ops where ops: "new_current (mCurrentMaxKISSVMOps m) (mDesiredMaxKISSVMOps m) (mk 1024 0) = Inr ops"
    "of_int 1024 \<le> mval ops" "mval ops \<le> mval (mCurrentMaxKISSVMOps m) * 16385 / 16384"
    using moderate_step [of 1024 "mCurrentMaxKISSVMOps m" "mDesiredMaxKISSVMOps m"] l by auto
  obtain txns where txns: "new_current (mCurrentMaxTxnPerBlock m) (mDesiredMaxTxnPerBlock m) (mk 256 0) = Inr txns"
    "of_int 256 \<le> mval txns" "mval txns \<le> mval (mCurrentMaxTxnPerBlock m) * 16385 / 16384"
    using moderate_step [of 256 "mCurrentMaxTxnPerBlock m" "mDesiredMaxTxnPerBlock m"] l by auto
  show ?thesis
    using sz ops txns l new_work_bounds [of "md_getValue (mCurrentMinTxPoWWork m)" "md_getValue (mDesiredMinTxPoWWork m)"]
    by (simp add: calculateNewCurrent_def MINMAX_TXPOW_SIZE_def MINMAX_KISSVM_OPERATIONS_def MINMAX_TXPOW_TXNS_def)
qed

lemma default_limits: "limits_ok (magic_new\<lparr>mDesiredMaxTxPoWSize := mn_ONE\<rparr>)"
proof -
  have "moderate N (mk n 0)" if "N \<le> n" "n \<le> 10 ^ 6" "0 \<le> n" for N n
  proof -
    have "(of_int n :: rat) \<le> of_int (10 ^ 6)" "(of_int N :: rat) \<le> of_int n" using that by (simp_all only: of_int_le_iff)
    then show ?thesis using that by (simp add: moderate_def constant_val constant_wf)
  qed
  then show ?thesis
    by (simp add: limits_ok_def magic_new_def DEFAULT_TXPOW_SIZE_def DEFAULT_KISSVM_OPERATIONS_def DEFAULT_TXPOW_TXNS_def
        MIN_TXPOW_WORK_def constant_wf)
qed

theorem magic_limits_witness:
  "\<exists>m'. calculateNewCurrent (magic_new\<lparr>mDesiredMaxTxPoWSize := mn_ONE\<rparr>) = Inr m' \<and> 65536 \<le> mval (mCurrentMaxTxPoWSize m')"
  using magic_limits [OF default_limits] by blast

end
