(* ===== verification/TxPoW.thy ===== *)
theory TxPoW
  imports Magic KissValue
begin

text \<open>
  Blocks and transactions on the wire, which are the same object: \<open>tx_header.cpp\<close>, \<open>tx_body.cpp\<close> and
  \<open>tx_po_w.cpp\<close> under \<open>src/org/minima/objects\<close>, with the reader of witnesses (\<open>witness.cpp\<close>). The weight of a
  block is the text of a quotient computed by Boost's decimal floats, an argument of the model; the test mode
  of the class and its JSON are left out.
\<close>

subsection \<open>Reading a witness\<close>

text \<open>
  A coin proof that cannot be read is a null pointer in the witness, and reading goes on where it stopped. The
  first use of the witness follows that pointer, in the computation of the size below at the latest: here it is
  undefined at once.
\<close>

definition cp_ReadFromStream :: "crypto \<Rightarrow> coin_proof reader" where
  "cp_ReadFromStream c inp = (case cp_readDataStream c inp of Inl (Throw e) \<Rightarrow> Inl Undef | r \<Rightarrow> r)"

definition witness_readDataStream :: "crypto \<Rightarrow> witness reader" where
  "witness_readDataStream c inp =
     bindE (read_list sig_readDataStream inp) (\<lambda>(a, inp). bindE (read_list (cp_ReadFromStream c) inp) (\<lambda>(b, inp).
     bindE (read_list (script_readDataStream c) inp) (\<lambda>(d, inp).
     Inr (\<lparr>wt_signatures = a, wt_coinproofs = b, wt_scripts = d\<rparr>, inp))))"

definition witness_new :: witness where
  "witness_new = \<lparr>wt_signatures = [], wt_coinproofs = [], wt_scripts = []\<rparr>"

subsection \<open>The header\<close>

definition MINIMA_CASCADE_LEVELS :: nat where "MINIMA_CASCADE_LEVELS = 32"
definition MAIN_NET :: "byte list" where "MAIN_NET = [0]"

record tx_header =
  h_nonce :: mininumber
  h_chainid :: "byte list"
  h_timemilli :: mininumber
  h_blocknumber :: mininumber
  h_difficulty :: minidata
  h_superparents :: "byte list list"
  h_magic :: magic
  h_mmrroot :: "byte list"
  h_mmrtotal :: mininumber
  h_customhash :: "byte list"
  h_bodyhash :: "byte list"

definition header_new :: "mininumber \<Rightarrow> tx_header" where
  "header_new now = \<lparr>h_nonce = mn_ZERO, h_chainid = MAIN_NET, h_timemilli = now, h_blocknumber = mn_ZERO,
     h_difficulty = MAX_HASH, h_superparents = replicate MINIMA_CASCADE_LEVELS [], h_magic = magic_new,
     h_mmrroot = [0], h_mmrtotal = mn_ZERO, h_customhash = ZERO_TXPOWID, h_bodyhash = [0]\<rparr>"

text \<open>The super parents are written as runs of equal hashes: the loop holds the hash of the current run and its
  length so far. A header always has 32 super parents.\<close>

fun write_runs :: "byte list \<Rightarrow> nat \<Rightarrow> byte list list \<Rightarrow> byte list result" where
  "write_runs sparent counter [] =
     bindE (writeHashToStream (md sparent)) (\<lambda>h. Inr (mb_writeDataStream (of_nat counter) @ h))"
| "write_runs sparent counter (cu # rest) =
     (if md_isEqual (md sparent) (md cu) then write_runs sparent (counter + 1) rest
      else bindE (writeHashToStream (md sparent)) (\<lambda>h. bindE (write_runs cu 1 rest) (\<lambda>bs.
        Inr (mb_writeDataStream (of_nat counter) @ h @ bs))))"

definition write_superparents :: "byte list list \<Rightarrow> byte list result" where
  "write_superparents ps =
     (if length ps < MINIMA_CASCADE_LEVELS then Inl Undef
      else case take MINIMA_CASCADE_LEVELS ps of [] \<Rightarrow> Inr [] | p # rest \<Rightarrow> write_runs p 1 rest)"

text \<open>Reading: \<open>ps\<close> holds the super parents read so far. A run may have length zero, so that only the end of
  the input bounds the number of rounds; each takes at least five bytes.\<close>

fun read_runs :: "nat \<Rightarrow> byte list list \<Rightarrow> byte list list reader" where
  "read_runs n ps inp =
     (if MINIMA_CASCADE_LEVELS \<le> length ps then Inr (ps, inp)
      else case n of 0 \<Rightarrow> Inl NoFuel
      | Suc n \<Rightarrow> bindE (mb_readDataStream inp) (\<lambda>(len, inp). bindE (readHashFromStream inp) (\<lambda>(sup, inp).
          let ps = ps @ replicate (unat len) (mData sup) in
          if MINIMA_CASCADE_LEVELS < length ps then Inl (Throw IosFailure) else read_runs n ps inp)))"

definition read_superparents :: "byte list list reader" where
  "read_superparents inp = read_runs (Suc (length inp)) [] inp"

definition header_writeDataStream :: "tx_header \<Rightarrow> byte list result" where
  "header_writeDataStream h =
     bindE (write_superparents (h_superparents h)) (\<lambda>sps.
     bindE (writeHashToStream (md (h_mmrroot h))) (\<lambda>root.
     bindE (writeHashToStream (md (h_customhash h))) (\<lambda>custom.
     bindE (writeHashToStream (md (h_bodyhash h))) (\<lambda>body.
     Inr (mn_writeDataStream (h_nonce h) @ md_writeDataStream (md (h_chainid h)) @ mn_writeDataStream (h_timemilli h)
       @ mn_writeDataStream (h_blocknumber h) @ md_writeDataStream (h_difficulty h) @ sps @ root
       @ mn_writeDataStream (h_mmrtotal h) @ magic_writeDataStream (h_magic h) @ custom @ body)))))"

definition header_readDataStream :: "tx_header reader" where
  "header_readDataStream inp =
     bindE (mn_readDataStream inp) (\<lambda>(nonce, inp). bindE (md_readDataStream inp) (\<lambda>(chain, inp).
     bindE (mn_readDataStream inp) (\<lambda>(time, inp). bindE (mn_readDataStream inp) (\<lambda>(block, inp).
     bindE (md_readDataStream inp) (\<lambda>(diff, inp). bindE (read_superparents inp) (\<lambda>(sps, inp).
     bindE (readHashFromStream inp) (\<lambda>(root, inp). bindE (mn_readDataStream inp) (\<lambda>(total, inp).
     bindE (magic_readDataStream inp) (\<lambda>(magic, inp). bindE (readHashFromStream inp) (\<lambda>(custom, inp).
     bindE (readHashFromStream inp) (\<lambda>(body, inp).
     Inr (\<lparr>h_nonce = nonce, h_chainid = mData chain, h_timemilli = time, h_blocknumber = block, h_difficulty = diff,
       h_superparents = sps, h_magic = magic, h_mmrroot = mData root, h_mmrtotal = total,
       h_customhash = mData custom, h_bodyhash = mData body\<rparr>, inp))))))))))))"

subsection \<open>The body\<close>

record tx_body =
  b_prng :: "byte list"
  b_txndifficulty :: minidata
  b_transaction :: transaction
  b_witness :: witness
  b_burntransaction :: transaction
  b_burnwitness :: witness
  b_txpowids :: "byte list list"

definition body_new :: "byte list \<Rightarrow> tx_body" where
  "body_new random = \<lparr>b_prng = random, b_txndifficulty = MAX_HASH, b_transaction = tx_new, b_witness = witness_new,
     b_burntransaction = tx_new, b_burnwitness = witness_new, b_txpowids = []\<rparr>"

definition body_writeDataStream :: "tx_body \<Rightarrow> byte list result" where
  "body_writeDataStream b =
     bindE (writeHashToStream (md (b_prng b))) (\<lambda>prng. bindE (tx_writeDataStream (b_transaction b)) (\<lambda>t.
     bindE (witness_writeDataStream (b_witness b)) (\<lambda>w. bindE (tx_writeDataStream (b_burntransaction b)) (\<lambda>bt.
     bindE (witness_writeDataStream (b_burnwitness b)) (\<lambda>bw.
     bindE (mn_of_string (int_to_dec (int (length (b_txpowids b))))) (\<lambda>ramlen.
     bindE (write_all (map (\<lambda>i. writeHashToStream (md i)) (b_txpowids b))) (\<lambda>ids.
     Inr (prng @ md_writeDataStream (b_txndifficulty b) @ t @ w @ bt @ bw @ mn_writeDataStream ramlen @ ids))))))))"

definition body_readDataStream :: "crypto \<Rightarrow> tx_body reader" where
  "body_readDataStream c inp =
     bindE (readHashFromStream inp) (\<lambda>(prng, inp). bindE (md_readDataStream inp) (\<lambda>(diff, inp).
     bindE (tx_readDataStream c tx_new inp) (\<lambda>(t, inp). bindE (witness_readDataStream c inp) (\<lambda>(w, inp).
     bindE (tx_readDataStream c tx_new inp) (\<lambda>(bt, inp). bindE (witness_readDataStream c inp) (\<lambda>(bw, inp).
     bindE (mn_readDataStream inp) (\<lambda>(ramlen, inp).
       let len = getAsInt ramlen in
       if len < 0 then Inl (Throw RuntimeError)
       else bindE (read_many readHashFromStream (nat len) inp) (\<lambda>(ids, inp).
         Inr (\<lparr>b_prng = mData prng, b_txndifficulty = diff, b_transaction = t, b_witness = w, b_burntransaction = bt,
           b_burnwitness = bw, b_txpowids = map mData ids\<rparr>, inp)))))))))"

subsection \<open>The object\<close>

text \<open>What the model takes from outside the sources: the digests, and the text Boost prints for the greatest
  hash value divided by a difficulty, with seven significant digits.\<close>

record penv =
  p_crypto :: crypto
  p_quotient :: "nat \<Rightarrow> string"

record txpow =
  p_header :: tx_header
  p_body :: "tx_body option"
  mTxPOWID :: minidata
  mTxPOWIDStr :: string
  mBlockWeight :: string
  mIsBlockPOW :: bool
  mIsTxnPOW :: bool
  mSuperBlock :: int
  mTxPoWSize :: int

definition txpow_new :: "mininumber \<Rightarrow> byte list \<Rightarrow> txpow" where
  "txpow_new now random = \<lparr>p_header = header_new now, p_body = Some (body_new random), mTxPOWID = md [], mTxPOWIDStr = [],
     mBlockWeight = ''0'', mIsBlockPOW = False, mIsTxnPOW = False, mSuperBlock = 0, mTxPoWSize = 0\<rparr>"

definition txpow_writeDataStream :: "txpow \<Rightarrow> byte list result" where
  "txpow_writeDataStream p =
     bindE (header_writeDataStream (p_header p)) (\<lambda>h. bindE (opt_write body_writeDataStream (p_body p)) (\<lambda>b. Inr (h @ b)))"

definition getSuperLevel_of :: "nat \<Rightarrow> nat \<Rightarrow> int" where
  "getSuperLevel_of blk tid =
     (if tid = 0 then -1 else let quot = blk div tid in if quot = 0 then -1 else int (bit_length quot) - 1)"

definition block_weight :: "penv \<Rightarrow> bool \<Rightarrow> nat \<Rightarrow> string" where
  "block_weight e isblock blk =
     (let w = (if isblock \<and> blk \<noteq> 0 then p_quotient e blk else ''0'') in if w = [] then ''0'' else w)"

definition calculate_ids :: "crypto \<Rightarrow> tx_body \<Rightarrow> tx_body result" where
  "calculate_ids c b =
     bindE (calculateTransactionID c (b_transaction b)) (\<lambda>t. bindE (calculateTransactionID c (b_burntransaction b)) (\<lambda>bt.
     Inr (b\<lparr>b_transaction := t, b_burntransaction := bt\<rparr>)))"

definition clamp_level :: "int \<Rightarrow> int" where
  "clamp_level l = (if l < 0 then 0 else if l \<ge> int MINIMA_CASCADE_LEVELS then int MINIMA_CASCADE_LEVELS - 1 else l)"

text \<open>The steps of \<open>calculateTXPOWID\<close>: the identifiers of the transactions of the body, the fields computed
  from the identifier (which then has its value cached), and the size, left as it is when writing fails.\<close>

definition body_ids :: "crypto \<Rightarrow> minidata \<Rightarrow> tx_body option \<Rightarrow> (tx_body option \<times> bool) result" where
  "body_ids c tid body =
     (case body of None \<Rightarrow> Inr (None, False)
      | Some b \<Rightarrow> bindE (calculate_ids c b) (\<lambda>b.
          Inr (Some b, md_compare tid (b_txndifficulty b) < 0 \<and> \<not> tx_isEmpty (b_transaction b))))"

definition set_ids :: "penv \<Rightarrow> minidata \<Rightarrow> tx_body option \<Rightarrow> bool \<Rightarrow> txpow \<Rightarrow> txpow" where
  "set_ids e tid body istxn p =
     (let diff = h_difficulty (p_header p); isblock = md_compare tid diff < 0
      in p\<lparr>p_body := body, mTxPOWID := md_cached tid, mTxPOWIDStr := to0xString tid,
           mBlockWeight := block_weight e isblock (md_getValue diff), mIsBlockPOW := isblock, mIsTxnPOW := istxn,
           mSuperBlock := clamp_level (getSuperLevel_of (md_getValue diff) (md_getValue tid))\<rparr>)"

definition set_size :: "txpow \<Rightarrow> txpow result" where
  "set_size p =
     (case txpow_writeDataStream p of
        Inr bs \<Rightarrow> Inr (p\<lparr>mTxPoWSize := int (length bs)\<rparr>) | Inl (Throw ex) \<Rightarrow> Inr p | Inl er \<Rightarrow> Inl er)"

definition calculateTXPOWID :: "penv \<Rightarrow> txpow \<Rightarrow> txpow result" where
  "calculateTXPOWID e p =
     bindE (hashObject (p_crypto e) (header_writeDataStream (p_header p))) (\<lambda>hash.
     bindE (body_ids (p_crypto e) (md hash) (p_body p)) (\<lambda>(body, istxn). set_size (set_ids e (md hash) body istxn p)))"

definition txpow_readDataStream :: "penv \<Rightarrow> txpow \<Rightarrow> txpow reader" where
  "txpow_readDataStream e p inp =
     bindE (header_readDataStream inp) (\<lambda>(h, inp). bindE (opt_read (body_readDataStream (p_crypto e)) inp) (\<lambda>(b, inp).
     bindE (calculateTXPOWID e (p\<lparr>p_header := h, p_body := b\<rparr>)) (\<lambda>p. Inr (p, inp))))"

text \<open>A fresh object carries the time and random bytes; reading replaces both.\<close>

definition txpow_ReadFromStream :: "penv \<Rightarrow> txpow reader" where
  "txpow_ReadFromStream e inp = txpow_readDataStream e (txpow_new mn_ZERO []) inp"

definition txpow_convertMiniDataVersion :: "penv \<Rightarrow> byte list \<Rightarrow> txpow option result" where
  "txpow_convertMiniDataVersion e zTxpData =
     (case txpow_ReadFromStream e zTxpData of
        Inr (p, rest) \<Rightarrow> Inr (Some p) | Inl (Throw ex) \<Rightarrow> Inr None | Inl er \<Rightarrow> Inl er)"

definition txpow_deepCopy :: "penv \<Rightarrow> txpow \<Rightarrow> txpow option result" where
  "txpow_deepCopy e p =
     (case txpow_writeDataStream p of
        Inr bs \<Rightarrow> txpow_convertMiniDataVersion e bs | Inl (Throw ex) \<Rightarrow> Inr None | Inl er \<Rightarrow> Inl er)"

subsection \<open>Accessors\<close>

definition need_body :: "txpow \<Rightarrow> tx_body result" where
  "need_body p = (case p_body p of None \<Rightarrow> Inl (Throw RuntimeError) | Some b \<Rightarrow> Inr b)"

definition getBlockTransactions :: "txpow \<Rightarrow> byte list list" where
  "getBlockTransactions p = (case p_body p of None \<Rightarrow> [] | Some b \<Rightarrow> b_txpowids b)"

definition getTransactions :: "txpow \<Rightarrow> string list" where
  "getTransactions p = map (\<lambda>i. to0xString (md i)) (getBlockTransactions p)"

definition setHeaderBodyHash :: "crypto \<Rightarrow> txpow \<Rightarrow> txpow result" where
  "setHeaderBodyHash c p =
     bindE (need_body p) (\<lambda>b. bindE (hashObject c (body_writeDataStream b)) (\<lambda>h.
     Inr (p\<lparr>p_header := (p_header p)\<lparr>h_bodyhash := h\<rparr>\<rparr>)))"

definition txpow_isMonotonic :: "txpow \<Rightarrow> bool result" where
  "txpow_isMonotonic p =
     bindE (need_body p) (\<lambda>b. Inr (isCheckedMonotonic (b_transaction b)
       \<and> (tx_isEmpty (b_burntransaction b) \<or> isCheckedMonotonic (b_burntransaction b))))"

definition clearBody :: "txpow \<Rightarrow> txpow" where
  "clearBody p = p\<lparr>p_body := None\<rparr>"

definition addBlockTxPOW :: "byte list \<Rightarrow> txpow \<Rightarrow> txpow result" where
  "addBlockTxPOW zTxPOWID p =
     bindE (need_body p) (\<lambda>b. Inr (p\<lparr>p_body := Some (b\<lparr>b_txpowids := b_txpowids b @ [zTxPOWID]\<rparr>)\<rparr>))"

definition getSuperParent :: "int \<Rightarrow> txpow \<Rightarrow> byte list result" where
  "getSuperParent zLevel p =
     (let ps = h_superparents (p_header p) in
      if zLevel < 0 \<or> int (length ps) \<le> zLevel then Inl (Throw OutOfRange) else Inr (ps ! nat zLevel))"

definition setSuperParent :: "int \<Rightarrow> byte list \<Rightarrow> txpow \<Rightarrow> txpow result" where
  "setSuperParent zLevel zSuperParent p =
     (let ps = h_superparents (p_header p) in
      if zLevel < 0 \<or> int (length ps) \<le> zLevel then Inl (Throw OutOfRange)
      else Inr (p\<lparr>p_header := (p_header p)\<lparr>h_superparents := ps[nat zLevel := zSuperParent]\<rparr>\<rparr>))"

definition getParentID :: "txpow \<Rightarrow> byte list result" where
  "getParentID p = getSuperParent 0 p"

definition txpow_getBurn :: "txpow \<Rightarrow> mininumber result" where
  "txpow_getBurn p =
     bindE (need_body p) (\<lambda>b. bindE (getBurn (b_transaction b)) (\<lambda>x. bindE (getBurn (b_burntransaction b)) (\<lambda>y. mn_add x y)))"

definition isTransaction :: "txpow \<Rightarrow> bool" where
  "isTransaction p = (case p_body p of None \<Rightarrow> False
     | Some b \<Rightarrow> \<not> tx_isEmpty (b_transaction b) \<or> \<not> tx_isEmpty (b_burntransaction b))"

definition getSizeinBytesWithoutBlockTxns :: "txpow \<Rightarrow> int" where
  "getSizeinBytesWithoutBlockTxns p = mTxPoWSize p - 32 * int (length (getBlockTransactions p))"

end
