(* ===== verification/TxPoWLaws.thy ===== *)
theory TxPoWLaws
  imports TxPoW
begin

text \<open>
  Laws of blocks and transactions on the wire: the run-length form of the super parents, the round trip of
  headers, bodies and whole objects, what the identifier commits to, and the super level.
\<close>

subsection \<open>Runs of super parents\<close>

lemma md_isEqual_md [simp]: "md_isEqual (md a) (md b) \<longleftrightarrow> a = b"
  by (auto simp: md_isEqual_def md_def list_all2_eq)

declare read_runs.simps [simp del]

lemma writeHash_fits: "hash_fits b \<Longrightarrow> writeHashToStream (md b) = Inr (writeInt32BE (int (length b)) @ b)"
  by (simp add: writeHashToStream_def md_def MINIMA_MAX_HASH_LENGTH_def)

lemma readHash_written: "hash_fits b \<Longrightarrow> readHashFromStream (writeInt32BE (int (length b)) @ b @ rest) = Inr (md b, rest)"
  using carried_hash [of b] by (simp add: carried_def writeHash_fits)

lemma read_run:
  assumes "length acc < MINIMA_CASCADE_LEVELS" "hash_fits p" "length acc + k \<le> MINIMA_CASCADE_LEVELS"
  shows "read_runs (Suc n) acc (mb_writeDataStream (of_nat k) @ writeInt32BE (int (length p)) @ p @ inp)
    = read_runs n (acc @ replicate k p) inp"
proof -
  have "unat (of_nat k :: byte) = k" using assms(3) by (simp add: MINIMA_CASCADE_LEVELS_def)
  then show ?thesis
    using assms by (subst read_runs.simps) (simp add: readHash_written md_def)
qed

lemma runs_carried:
  assumes "hash_fits p" "\<forall>x \<in> set rest. hash_fits x" "0 < k" "length acc + k + length rest = MINIMA_CASCADE_LEVELS"
  shows "\<exists>bs. write_runs p k rest = Inr bs \<and> (\<forall>n inp. length bs \<le> n \<longrightarrow> read_runs n acc (bs @ inp) = Inr (acc @ replicate k p @ rest, inp))"
  using assms
proof (induction rest arbitrary: p k acc)
  case Nil
  let ?bs = "mb_writeDataStream (of_nat k) @ writeInt32BE (int (length p)) @ p"
  have "read_runs n acc (?bs @ inp) = Inr (acc @ replicate k p, inp)" if n: "length ?bs \<le> n" for n inp
  proof -
    obtain n' where "n = Suc n'" using n by (cases n) (auto simp: mb_writeDataStream_def)
    moreover have "read_runs n' (acc @ replicate k p) inp = Inr (acc @ replicate k p, inp)"
      using Nil by (subst read_runs.simps) simp
    ultimately show ?thesis using read_run [of acc p k n' inp] Nil by simp
  qed
  then show ?case using Nil(1) by (simp add: writeHash_fits)
next
  case (Cons c rest)
  show ?case
  proof (cases "p = c")
    case True
    have "\<exists>bs. write_runs p (k + 1) rest = Inr bs
      \<and> (\<forall>n inp. length bs \<le> n \<longrightarrow> read_runs n acc (bs @ inp) = Inr (acc @ replicate (k + 1) p @ rest, inp))"
      using Cons.prems by (intro Cons.IH) auto
    then show ?thesis using True by (simp add: replicate_app_Cons_same)
  next
    case False
    obtain bs where bs: "write_runs c 1 rest = Inr bs"
      "\<And>n inp. length bs \<le> n \<Longrightarrow> read_runs n (acc @ replicate k p) (bs @ inp) = Inr ((acc @ replicate k p) @ replicate 1 c @ rest, inp)"
      using Cons.IH [of c 1 "acc @ replicate k p"] Cons.prems by auto
    let ?bs = "mb_writeDataStream (of_nat k) @ writeInt32BE (int (length p)) @ p @ bs"
    have "read_runs n acc (?bs @ inp) = Inr (acc @ replicate k p @ c # rest, inp)" if n: "length ?bs \<le> n" for n inp
    proof -
      obtain n' where n': "n = Suc n'" using n by (cases n) (auto simp: mb_writeDataStream_def)
      then have "length bs \<le> n'" using n by (simp add: mb_writeDataStream_def)
      then show ?thesis using read_run [of acc p k n' "bs @ inp"] bs(2) Cons.prems n' by simp
    qed
    then show ?thesis using bs(1) False Cons.prems(1) by (simp add: writeHash_fits)
  qed
qed

text \<open>Reading the runs never stops for want of rounds.\<close>

lemma read_n_length: "read_n n inp = Inr (bs, rest) \<Longrightarrow> length inp = n + length rest"
  by (auto simp: read_n_def split: if_splits)

lemma read_n_fails: "fails_in {Throw IosFailure} (read_n n inp)"
  by (simp add: read_n_def fails_in_def)

lemma read_runs_fuel: "length inp < n \<Longrightarrow> fails_in {Throw IosFailure} (read_runs n ps inp)"
proof (induction n arbitrary: ps inp)
  case (Suc n)
  show ?case
    using Suc.prems
    by (subst read_runs.simps)
      (auto intro!: fails_rules read_n_fails Suc.IH split del: if_split simp: mb_readDataStream_def readHashFromStream_def readInt32BE_def Let_def
        dest!: read_n_length split: if_splits)
qed simp


lemma read_superparents_total: "fails_in {Throw IosFailure} (read_superparents inp)"
  by (simp add: read_superparents_def read_runs_fuel)

lemma superparents_carried:
  assumes "\<forall>x \<in> set ps. hash_fits x" "length ps = MINIMA_CASCADE_LEVELS"
  shows "carried (write_superparents ps) read_superparents ps"
proof -
  obtain p rest where ps: "ps = p # rest" using assms(2) by (cases ps) (auto simp: MINIMA_CASCADE_LEVELS_def)
  obtain bs where bs: "write_runs p 1 rest = Inr bs"
    "\<And>n inp. length bs \<le> n \<Longrightarrow> read_runs n [] (bs @ inp) = Inr (ps, inp)"
    using runs_carried [of p rest 1 "[]"] assms unfolding ps by auto
  have "write_superparents ps = Inr bs" using bs(1) assms(2) by (simp add: write_superparents_def ps)
  moreover have "read_superparents (bs @ inp) = Inr (ps, inp)" for inp
    using bs(2) by (simp add: read_superparents_def)
  ultimately show ?thesis by (simp add: carried_def)
qed

subsection \<open>Headers, witnesses and bodies\<close>

definition header_fits :: "tx_header \<Rightarrow> bool" where
  "header_fits h = (mn_wf (h_nonce h) \<and> data_fits (h_chainid h) \<and> mn_wf (h_timemilli h) \<and> mn_wf (h_blocknumber h)
     \<and> work_fits (h_difficulty h) \<and> list_all (\<lambda>x. hash_fits x) (h_superparents h)
     \<and> length (h_superparents h) = MINIMA_CASCADE_LEVELS \<and> magic_fits (h_magic h) \<and> hash_fits (h_mmrroot h)
     \<and> mn_wf (h_mmrtotal h) \<and> hash_fits (h_customhash h) \<and> hash_fits (h_bodyhash h))"

lemma mData_md [simp]: "mData (md b) = b"
  by (simp add: md_def)

interpretation header_stream: fallible_stream header_writeDataStream header_readDataStream header_fits
proof
  fix h assume h: "header_fits h"
  note f = h [unfolded header_fits_def]
  have "carried (write_superparents (h_superparents h)) read_superparents (h_superparents h)"
    using f by (intro superparents_carried) (simp_all add: list_all_iff)
  then obtain sps where sps: "write_superparents (h_superparents h) = Inr sps"
    "\<And>rest. read_superparents (sps @ rest) = Inr (h_superparents h, rest)"
    by (auto elim: carriedE)
  have hashes: "writeHashToStream (md b) = Inr (writeInt32BE (int (length b)) @ b)"
    "readHashFromStream (writeInt32BE (int (length b)) @ b @ rest) = Inr (md b, rest)"
    if "b \<in> {h_mmrroot h, h_customhash h, h_bodyhash h}" for b rest
    using f that by (auto simp: writeHash_fits readHash_written)
  show "carried (header_writeDataStream h) header_readDataStream h"
    using f sps by (simp add: header_writeDataStream_def header_readDataStream_def hashes work_stream
        magic_stream.roundtrip)
qed

definition witness_fits :: "crypto \<Rightarrow> witness \<Rightarrow> bool" where
  "witness_fits c w = (list_all sig_fits (wt_signatures w) \<and> list_fits (wt_signatures w)
     \<and> list_all (cp_fits c) (wt_coinproofs w) \<and> list_fits (wt_coinproofs w)
     \<and> list_all (script_fits c) (wt_scripts w) \<and> list_fits (wt_scripts w))"

interpretation cp_read_stream: fallible_stream cp_writeDataStream "cp_ReadFromStream c" "cp_fits c" for c
proof
  fix cp assume "cp_fits c cp"
  then show "carried (cp_writeDataStream cp) (cp_ReadFromStream c) cp"
    using cp_stream.carried [of c cp] by (auto simp: carried_def cp_ReadFromStream_def)
qed

interpretation witness_stream: fallible_stream witness_writeDataStream "witness_readDataStream c" "witness_fits c" for c
proof
  fix w assume w: "witness_fits c w"
  have "carried (write_list sig_writeDataStream (wt_signatures w)) (read_list sig_readDataStream) (wt_signatures w)"
    "carried (write_list cp_writeDataStream (wt_coinproofs w)) (read_list (cp_ReadFromStream c)) (wt_coinproofs w)"
    "carried (write_list script_writeDataStream (wt_scripts w)) (read_list (script_readDataStream c)) (wt_scripts w)"
    using w fallible_stream.carried [OF sig_stream.list_stream] fallible_stream.carried [OF cp_read_stream.list_stream]
      fallible_stream.carried [OF script_stream.list_stream]
    by (simp_all add: witness_fits_def)
  then show "carried (witness_writeDataStream w) (witness_readDataStream c) w"
    by (cases w) (auto simp: carried_def witness_writeDataStream_def witness_readDataStream_def)
qed

definition body_fits :: "crypto \<Rightarrow> tx_body \<Rightarrow> bool" where
  "body_fits c b = (hash_fits (b_prng b) \<and> work_fits (b_txndifficulty b) \<and> tx_fits c (b_transaction b)
     \<and> witness_fits c (b_witness b) \<and> tx_fits c (b_burntransaction b) \<and> witness_fits c (b_burnwitness b)
     \<and> list_all (\<lambda>x. hash_fits x) (b_txpowids b) \<and> list_fits (b_txpowids b))"

text \<open>The number of transactions of a block is written through its decimal text.\<close>

lemma count_by_text:
  assumes "0 \<le> i" "i < 2 ^ 31"
  shows "\<exists>x. mn_of_string (int_to_dec i) = Inr x \<and> mn_wf x \<and> getAsInt x = i"
proof -
  have "nat_to_dec 0 = ''0''" by code_simp
  then have "int_to_dec i = to_plain_string (mk i 0)"
    using assms(1) by (simp add: int_to_dec_def to_plain_string_def Let_def strip_zeros_def)
  moreover have w: "mn_wf (mk i 0)" using assms by (intro constant_wf) simp
  ultimately obtain x where x: "mn_of_string (int_to_dec i) = Inr x" "mn_wf x" "mval x = of_int i"
    using mn_of_string_to_plain [OF w] by (auto simp: exactly_iff constant_val)
  then have "getAsBigInteger x = i" by (simp add: getAsBigInteger_val)
  then show ?thesis using x assms by (auto simp: getAsInt_def)
qed

interpretation hash_stream: fallible_stream writeHashToStream readHashFromStream "\<lambda>d. d = md (mData d) \<and> hash_fits (mData d)"
proof
  fix d assume "d = md (mData d) \<and> hash_fits (mData d)"
  then show "carried (writeHashToStream d) readHashFromStream d" using carried_hash [of "mData d"] by metis
qed

lemma ids_carried:
  "list_all (\<lambda>x. hash_fits x) ids \<Longrightarrow>
   carried (write_all (map (\<lambda>i. writeHashToStream (md i)) ids)) (read_many readHashFromStream (length ids)) (map md ids)"
  using hash_stream.carried_many [of "map md ids"] by (simp add: list_all_iff comp_def)

interpretation body_stream: fallible_stream body_writeDataStream "body_readDataStream c" "body_fits c" for c
proof
  fix b assume b: "body_fits c b"
  note f = b [unfolded body_fits_def]
  obtain n where n: "mn_of_string (int_to_dec (int (length (b_txpowids b)))) = Inr n" "mn_wf n"
    "getAsInt n = int (length (b_txpowids b))"
    using count_by_text [of "int (length (b_txpowids b))"] f by auto
  have h: "carried (writeHashToStream (md (b_prng b))) readHashFromStream (md (b_prng b))"
    using f by (intro carried_hash) simp
  have i: "carried (write_all (map (\<lambda>i. writeHashToStream (md i)) (b_txpowids b)))
    (read_many readHashFromStream (length (b_txpowids b))) (map md (b_txpowids b))"
    using f by (intro ids_carried) simp
  have t: "carried (tx_writeDataStream t) (tx_readDataStream c tx_new) t" if "t \<in> {b_transaction b, b_burntransaction b}" for t
    using f that by (intro tx_stream.carried) auto
  have w: "carried (witness_writeDataStream w) (witness_readDataStream c) w" if "w \<in> {b_witness b, b_burnwitness b}" for w
    using f that by (intro witness_stream.carried) auto
  show "carried (body_writeDataStream b) (body_readDataStream c) b"
    using h i t [of "b_transaction b"] t [of "b_burntransaction b"] w [of "b_witness b"] w [of "b_burnwitness b"]
      n f work_stream [of "b_txndifficulty b"]
    by (cases b) (auto simp: carried_def body_writeDataStream_def body_readDataStream_def comp_def)
qed

subsection \<open>Whole objects\<close>

lemma txpow_write_cong:
  "p_header a = p_header b \<Longrightarrow> p_body a = p_body b \<Longrightarrow> txpow_writeDataStream a = txpow_writeDataStream b"
  by (simp add: txpow_writeDataStream_def)

lemma calculate_ids_idem: "calculate_ids c b = Inr b' \<Longrightarrow> calculate_ids c b' = Inr b'"
  by (auto simp: calculate_ids_def calculateTransactionID_idem)

text \<open>What \<open>calculateTXPOWID\<close> computes depends on the header and the body alone.\<close>

lemma body_ids_idem: "body_ids c tid body = Inr (body', t) \<Longrightarrow> body_ids c tid body' = Inr (body', t)"
  by (auto simp: body_ids_def calculate_ids_idem split: option.splits)

lemma set_size_cases: "set_size p = Inr p' \<Longrightarrow> \<exists>n. p' = p\<lparr>mTxPoWSize := n\<rparr>"
  by (auto simp: set_size_def split: sum.splits error.splits) (metis txpow.surjective txpow.update_convs(9))

lemma set_ids_fields [simp]:
  "p_header (set_ids e tid b t p) = p_header p" "p_body (set_ids e tid b t p) = b"
  "mTxPOWID (set_ids e tid b t p) = md_cached tid" "mTxPOWIDStr (set_ids e tid b t p) = to0xString tid"
  "mIsBlockPOW (set_ids e tid b t p) = (md_compare tid (h_difficulty (p_header p)) < 0)"
  "mSuperBlock (set_ids e tid b t p) = clamp_level (getSuperLevel_of (md_getValue (h_difficulty (p_header p))) (md_getValue tid))"
  by (simp_all add: set_ids_def Let_def)

lemma calculateTXPOWID_E:
  assumes "calculateTXPOWID e q = Inr p"
  obtains hash body istxn where "hashObject (p_crypto e) (header_writeDataStream (p_header q)) = Inr hash"
    "body_ids (p_crypto e) (md hash) (p_body q) = Inr (body, istxn)" "set_size (set_ids e (md hash) body istxn q) = Inr p"
    "p_header p = p_header q" "p_body p = body" "mTxPOWID p = md_cached (md hash)" "mTxPOWIDStr p = to0xString (md hash)"
    "mIsBlockPOW p = (md_compare (md hash) (h_difficulty (p_header q)) < 0)"
    "mSuperBlock p = clamp_level (getSuperLevel_of (md_getValue (h_difficulty (p_header q))) (md_getValue (md hash)))"
proof -
  obtain hash body istxn where h: "hashObject (p_crypto e) (header_writeDataStream (p_header q)) = Inr hash"
    "body_ids (p_crypto e) (md hash) (p_body q) = Inr (body, istxn)" "set_size (set_ids e (md hash) body istxn q) = Inr p"
    using assms by (auto simp: calculateTXPOWID_def)
  obtain n where "p = set_ids e (md hash) body istxn q\<lparr>mTxPoWSize := n\<rparr>" using set_size_cases [OF h(3)] by blast
  then show ?thesis using h by (intro that) simp_all
qed

lemma calculateTXPOWID_again:
  assumes "calculateTXPOWID e q = Inr p" "txpow_writeDataStream p = Inr bs" "p_header q' = p_header p" "p_body q' = p_body p"
  shows "calculateTXPOWID e q' = Inr p"
proof -
  obtain hash body istxn where h: "hashObject (p_crypto e) (header_writeDataStream (p_header q)) = Inr hash"
    "body_ids (p_crypto e) (md hash) (p_body q) = Inr (body, istxn)" "set_size (set_ids e (md hash) body istxn q) = Inr p"
    "p_header p = p_header q" "p_body p = body"
    by (rule calculateTXPOWID_E [OF assms(1)])
  have w: "txpow_writeDataStream x = Inr bs" if "p_header x = p_header q" "p_body x = body" for x
    using assms(2) that h txpow_write_cong [of x p] by simp
  have "set_size (set_ids e (md hash) body istxn q') = set_size (set_ids e (md hash) body istxn q)"
    using assms(3) h(4) w by (cases q, cases q') (simp add: set_size_def set_ids_def Let_def)
  then show ?thesis
    using h assms(3,4) body_ids_idem [OF h(2)] by (simp add: calculateTXPOWID_def)
qed

definition txpow_fits :: "penv \<Rightarrow> txpow \<Rightarrow> bool" where
  "txpow_fits e p = (header_fits (p_header p) \<and> (case p_body p of None \<Rightarrow> True | Some b \<Rightarrow> body_fits (p_crypto e) b)
     \<and> calculateTXPOWID e p = Inr p)"

interpretation txpow_stream: fallible_stream txpow_writeDataStream "txpow_ReadFromStream e" "txpow_fits e" for e
proof
  fix p assume p: "txpow_fits e p"
  obtain hs where hs: "header_writeDataStream (p_header p) = Inr hs"
    "\<And>rest. header_readDataStream (hs @ rest) = Inr (p_header p, rest)"
    using header_stream.carried [of "p_header p"] p by (auto simp: txpow_fits_def elim: carriedE)
  have "carried (opt_write body_writeDataStream (p_body p)) (opt_read (body_readDataStream (p_crypto e))) (p_body p)"
    using p by (intro carried_opt body_stream.carried) (simp add: txpow_fits_def)
  then obtain bs where bs: "opt_write body_writeDataStream (p_body p) = Inr bs"
    "\<And>rest. opt_read (body_readDataStream (p_crypto e)) (bs @ rest) = Inr (p_body p, rest)"
    by (auto elim: carriedE)
  have w: "txpow_writeDataStream p = Inr (hs @ bs)" using hs bs by (simp add: txpow_writeDataStream_def)
  have "calculateTXPOWID e p = Inr p" using p by (simp only: txpow_fits_def)
  from calculateTXPOWID_again [OF this w]
  have "calculateTXPOWID e ((txpow_new mn_ZERO [])\<lparr>p_header := p_header p, p_body := p_body p\<rparr>) = Inr p"
    by simp
  then show "carried (txpow_writeDataStream p) (txpow_ReadFromStream e) p"
    using w hs bs by (simp add: carried_def txpow_ReadFromStream_def txpow_readDataStream_def)
qed

text \<open>C24 A block or transaction whose parts fit their formats is written to a stream from which exactly the same
  object is read back, body or no body, identifiers and derived fields included, with the following bytes
  untouched; \<open>deepCopy\<close> gives the same object.\<close>

theorem txpow_stream_roundtrip:
  assumes "txpow_fits e p"
  shows "(\<exists>bs. txpow_writeDataStream p = Inr bs \<and> (\<forall>rest. txpow_ReadFromStream e (bs @ rest) = Inr (p, rest)))
    \<and> txpow_deepCopy e p = Inr (Some p)"
proof -
  obtain bs where bs: "txpow_writeDataStream p = Inr bs" "\<And>rest. txpow_ReadFromStream e (bs @ rest) = Inr (p, rest)"
    using txpow_stream.carried [OF assms] by (auto elim: carriedE)
  then have "txpow_deepCopy e p = Inr (Some p)"
    using bs(2) [of "[]"] by (simp add: txpow_deepCopy_def txpow_convertMiniDataVersion_def)
  then show ?thesis using bs by blast
qed

lemma calculated_fits:
  assumes "header_fits (p_header q)" "\<And>b. p_body q = Some b \<Longrightarrow> body_fits (p_crypto e) b"
  shows "\<exists>p. calculateTXPOWID e q = Inr p \<and> txpow_fits e p"
proof -
  obtain hs where hs: "header_writeDataStream (p_header q) = Inr hs"
    using header_stream.carried [OF assms(1)] by (auto elim: carriedE)
  have b: "\<exists>t. body_ids (p_crypto e) tid (p_body q) = Inr (p_body q, t)" for tid
  proof (cases "p_body q")
    case (Some b)
    then have "calculate_ids (p_crypto e) b = Inr b"
      using assms(2) [OF Some] by (simp add: calculate_ids_def body_fits_def tx_fits_def)
    then show ?thesis using Some by (simp add: body_ids_def)
  qed (auto simp: body_ids_def)
  have "\<exists>bs. opt_write body_writeDataStream (p_body q) = Inr bs"
    using assms(2) body_stream.carried [of "p_crypto e"] by (cases "p_body q") (auto simp: opt_write_def carried_def)
  then obtain bs where w: "txpow_writeDataStream x = Inr bs" if "p_header x = p_header q" "p_body x = p_body q" for x
    using hs by (auto simp: txpow_writeDataStream_def)
  then obtain p where p: "calculateTXPOWID e q = Inr p"
    using b hs by (fastforce simp: calculateTXPOWID_def hashObject_def set_size_def)
  have f: "p_header p = p_header q" "p_body p = p_body q"
  proof (rule_tac [!] calculateTXPOWID_E [OF p])
    fix hash body istxn
    assume "body_ids (p_crypto e) (md hash) (p_body q) = Inr (body, istxn)" "p_body p = body"
    then show "p_body p = p_body q" using b [of "md hash"] by auto
  qed
  then have "calculateTXPOWID e p = Inr p" using calculateTXPOWID_again [OF p w, of p] by simp
  then show ?thesis using p f assms by (auto simp: txpow_fits_def split: option.splits)
qed

text \<open>A sample whose digests are constant, so that its identifier is 1.\<close>

definition sample_penv :: penv where
  "sample_penv = \<lparr>p_crypto = \<lparr>sha2_256 = (\<lambda>x. [1]), sha3_256 = (\<lambda>x. [1])\<rparr>, p_quotient = (\<lambda>n. ''1'')\<rparr>"

definition sample_body :: tx_body where
  "sample_body = (body_new [7])\<lparr>b_transaction := tx_new\<lparr>tx_id := [1]\<rparr>, b_burntransaction := tx_new\<lparr>tx_id := [1]\<rparr>,
     b_txpowids := [[7], [8, 9]]\<rparr>"

definition sample_txpow :: txpow where
  "sample_txpow = (txpow_new mn_ONE [])\<lparr>p_body := Some sample_body\<rparr>"

lemma magic_new_fits: "magic_fits magic_new"
proof -
  have "length (be_bytes MIN_TXPOW_VAL) \<le> 32"
    by (rule length_be_bytes_le) (simp add: MIN_TXPOW_VAL_def MAX_VALDEC_def MIN_HASHES_def getAsBigInteger_def pow10_def)
  then show ?thesis
    by (simp add: magic_fits_def magic_new_def work_fits_def MIN_TXPOW_WORK_def cpp_int_to_big_endian_def
        DEFAULT_TXPOW_SIZE_def DEFAULT_KISSVM_OPERATIONS_def DEFAULT_TXPOW_TXNS_def constant_wf MINIMA_MAX_MINIDATA_LENGTH_def)
qed

lemma sample_header_fits: "header_fits (p_header sample_txpow)"
  by (simp add: sample_txpow_def txpow_new_def header_new_def header_fits_def magic_new_fits work_fits_def MAX_HASH_def
      MAIN_NET_def MINIMA_MAX_MINIDATA_LENGTH_def MINIMA_CASCADE_LEVELS_def ZERO_TXPOWID_def
      list_all_iff)

lemma sample_body_fits: "body_fits (p_crypto sample_penv) sample_body"
proof -
  have "tx_fits (p_crypto sample_penv) (tx_new\<lparr>tx_id := [1]\<rparr>)" by code_simp
  then show ?thesis
    by (simp add: sample_body_def body_new_def body_fits_def witness_fits_def witness_new_def work_fits_def MAX_HASH_def
        MINIMA_MAX_MINIDATA_LENGTH_def)
qed

lemma sample_calculated: "\<exists>p. calculateTXPOWID sample_penv sample_txpow = Inr p \<and> txpow_fits sample_penv p"
  by (rule calculated_fits [OF sample_header_fits]) (simp add: sample_txpow_def sample_body_fits)

theorem txpow_stream_roundtrip_witness:
  "\<exists>p. calculateTXPOWID sample_penv sample_txpow = Inr p \<and> txpow_deepCopy sample_penv p = Inr (Some p)"
  using sample_calculated txpow_stream_roundtrip by blast

subsection \<open>The super level\<close>

lemma level_iff:
  assumes "0 < tid" "0 < k"
  shows "int k \<le> getSuperLevel_of blk tid \<longleftrightarrow> tid * 2 ^ k \<le> blk"
proof -
  define q where "q = blk div tid"
  have d: "tid * 2 ^ k \<le> blk \<longleftrightarrow> 2 ^ k \<le> q" using assms(1) by (simp add: q_def less_eq_div_iff_mult_less_eq mult.commute)
  show ?thesis
  proof (cases "q = 0")
    case True
    then show ?thesis using assms d by (simp add: getSuperLevel_of_def q_def Let_def)
  next
    case False
    then have g: "getSuperLevel_of blk tid = int (bit_length q) - 1" using assms by (simp add: getSuperLevel_of_def q_def Let_def)
    have b: "2 ^ (bit_length q - 1) \<le> q" "q < 2 ^ bit_length q" using False bit_length_ge [of q] bit_length_bound [of q] by simp_all
    have "k \<le> bit_length q - 1 \<longleftrightarrow> 2 ^ k \<le> q"
    proof
      assume "k \<le> bit_length q - 1"
      then have "(2::nat) ^ k \<le> 2 ^ (bit_length q - 1)" by (simp add: power_increasing)
      then show "2 ^ k \<le> q" using b(1) by linarith
    next
      assume "2 ^ k \<le> q"
      then have "(2::nat) ^ k < 2 ^ bit_length q" using b(2) by linarith
      then show "k \<le> bit_length q - 1" by simp
    qed
    moreover have "0 < bit_length q" using False by (subst bit_length.simps) simp
    ultimately show ?thesis using g d by linarith
  qed
qed

text \<open>C25 The super level of a block, from 0 to 31, counts how often its difficulty could have been halved with the
  identifier still within it: level \<open>k\<close> or more for exactly the identifiers with \<open>id * 2^k\<close> at most the
  difficulty. A block is one whose identifier is below its difficulty.\<close>

theorem super_level:
  assumes "calculateTXPOWID e q = Inr p" "0 < md_getValue (mTxPOWID p)"
    and "cache_ok (h_difficulty (p_header p))" "0 < md_getValue (h_difficulty (p_header p))"
  shows "0 \<le> mSuperBlock p \<and> mSuperBlock p \<le> 31
    \<and> (\<forall>k \<in> {1..31}. int k \<le> mSuperBlock p \<longleftrightarrow> md_getValue (mTxPOWID p) * 2 ^ k \<le> md_getValue (h_difficulty (p_header p)))
    \<and> (mIsBlockPOW p \<longleftrightarrow> md_getValue (mTxPOWID p) < md_getValue (h_difficulty (p_header p)))"
proof -
  obtain hash where h: "p_header p = p_header q" "mTxPOWID p = md_cached (md hash)"
    "mIsBlockPOW p = (md_compare (md hash) (h_difficulty (p_header q)) < 0)"
    "mSuperBlock p = clamp_level (getSuperLevel_of (md_getValue (h_difficulty (p_header q))) (md_getValue (md hash)))"
    by (rule calculateTXPOWID_E [OF assms(1)])
  have v: "md_getValue (mTxPOWID p) = md_getValue (md hash)" using h(2) by (simp add: md_cached_def md_getValue_def)
  have ne: "hash \<noteq> [0]" "mData (h_difficulty (p_header q)) \<noteq> [0]"
    using assms(2,4) v md_getValue_ok [OF assms(3)] h(1) by (auto simp: md_getValue_def md_def be_val_Cons)
  have "md_compare (md hash) (h_difficulty (p_header q)) = cmp3 (md_getValue (md hash)) (md_getValue (h_difficulty (p_header q)))"
    using md_compare_val [of "md hash" "h_difficulty (p_header q)"] ne assms(3) h(1) md_getValue_ok [OF assms(3)]
    by (simp add: cache_ok_def md_def md_getValue_def)
  then have block: "mIsBlockPOW p \<longleftrightarrow> md_getValue (mTxPOWID p) < md_getValue (h_difficulty (p_header p))"
    using h(1,3) v by (simp add: cmp3_def)
  have "int k \<le> mSuperBlock p \<longleftrightarrow> md_getValue (mTxPOWID p) * 2 ^ k \<le> md_getValue (h_difficulty (p_header p))" if "k \<in> {1..31}" for k
  proof -
    have "int k \<le> mSuperBlock p \<longleftrightarrow> int k \<le> getSuperLevel_of (md_getValue (h_difficulty (p_header q))) (md_getValue (md hash))"
      using that unfolding h(4) by (auto simp: clamp_level_def MINIMA_CASCADE_LEVELS_def)
    then show ?thesis using level_iff [of "md_getValue (md hash)" k] that assms(2) v h(1) by simp
  qed
  moreover have "0 \<le> mSuperBlock p" "mSuperBlock p \<le> 31"
    unfolding h(4) by (simp_all add: clamp_level_def MINIMA_CASCADE_LEVELS_def)
  ultimately show ?thesis using block by blast
qed

lemma be_val_max: "be_val (replicate n 255) = 256 ^ n - 1"
proof (induction n)
  case (Suc n)
  have "be_val (replicate (Suc n) 255) = be_val (replicate n 255 @ [255])" by (simp add: replicate_append_same)
  then show ?case using Suc by (simp add: diff_mult_distrib)
qed simp
lemma max_hash_value: "md_getValue MAX_HASH = MAX_VALDEC"
  by (simp add: MAX_HASH_def md_getValue_def md_def be_val_max MAX_VALDEC_def)

theorem super_level_witness: "\<exists>p. calculateTXPOWID sample_penv sample_txpow = Inr p \<and> 3 \<le> mSuperBlock p"
proof -
  obtain p where p: "calculateTXPOWID sample_penv sample_txpow = Inr p" using sample_calculated by blast
  have h: "hashObject (p_crypto sample_penv) (header_writeDataStream (p_header sample_txpow)) = Inr [1]"
    using header_stream.carried [OF sample_header_fits] by (auto elim!: carriedE simp: hashObject_def hashData_def sample_penv_def)
  have d: "p_header p = p_header sample_txpow" "mTxPOWID p = md_cached (md [1])"
    by (rule_tac [!] calculateTXPOWID_E [OF p]) (use h in auto)
  have v: "h_difficulty (p_header sample_txpow) = MAX_HASH" by (simp add: sample_txpow_def txpow_new_def header_new_def)
  have m: "md_getValue MAX_HASH = MAX_VALDEC" "cache_ok MAX_HASH" "md_getValue (md_cached (md [1])) = 1"
    by (rule max_hash_value) (simp_all add: cache_ok_def MAX_HASH_def md_def md_cached_def md_getValue_def be_val_Cons)
  have "\<forall>k \<in> {1..31}. int k \<le> mSuperBlock p \<longleftrightarrow> md_getValue (mTxPOWID p) * 2 ^ k \<le> md_getValue (h_difficulty (p_header p))"
    using super_level [OF p] d v m by (auto simp: MAX_VALDEC_def)
  from bspec [OF this, of 3] show ?thesis using d v m p by (auto simp: MAX_VALDEC_def)
qed



end
