(* ===== verification/Cascade.thy ===== *)
theory Cascade
  imports TxPoWLaws
begin

text \<open>
  The cascade, the node's record of the chain behind the recent blocks: \<open>src/org/minima/database/cascade\<close>.
  Nodes are objects owned by the vector \<open>mNodes\<close> and linked by raw parent pointers from the tip down; the
  model has the objects in a store from addresses to nodes, a freed object being absent from it. Following a
  pointer to a freed object is undefined. The printed form and the reader, which goes on after a node that
  fails at an unknown position of the stream, are left out.
\<close>

subsection \<open>The code\<close>

definition MINIMA_CASCADE_LEVEL_NODES :: int where "MINIMA_CASCADE_LEVEL_NODES = 256"

record cnode =
  cn_txpow :: "txpow option"
  cn_level :: int
  cn_super :: int
  cn_parent :: "nat option"

type_synonym cstore = "nat \<Rightarrow> cnode option"

record cascade =
  cs_store :: cstore
  cs_nodes :: "nat list"
  cs_tip :: "nat option"
  cs_weight :: mininumber
  cs_next :: nat

definition cascade_new :: cascade where
  "cascade_new = \<lparr>cs_store = Map.empty, cs_nodes = [], cs_tip = None, cs_weight = mn_ZERO, cs_next = 0\<rparr>"

definition deref_node :: "cstore \<Rightarrow> nat \<Rightarrow> cnode result" where
  "deref_node h a = (case h a of None \<Rightarrow> Inl Undef | Some n \<Rightarrow> Inr n)"

definition cnode_new :: "penv \<Rightarrow> txpow \<Rightarrow> cnode result" where
  "cnode_new e zTxPoW =
     bindE (txpow_deepCopy e zTxPoW) (\<lambda>copy.
     Inr \<lparr>cn_txpow = map_option clearBody copy, cn_level = 0, cn_super = mSuperBlock zTxPoW, cn_parent = None\<rparr>)"

definition cn_getTxPoW :: "cnode \<Rightarrow> txpow result" where
  "cn_getTxPoW n = (case cn_txpow n of None \<Rightarrow> Inl (Throw RuntimeError) | Some t \<Rightarrow> Inr t)"

definition getCurrentWeight :: "cnode \<Rightarrow> string result" where
  "getCurrentWeight n =
     (case cn_txpow n of None \<Rightarrow> Inr ''0''
      | Some t \<Rightarrow> bindE (mn_of_string (mBlockWeight t)) (\<lambda>weight. bindE (mn_pow mn_TWO (cn_level n)) (\<lambda>factor.
          bindE (mn_mult weight factor) (\<lambda>r. bindE (setSignificantDigits r 7) (\<lambda>s. Inr (to_plain_string s))))))"

definition weight_number :: "cnode \<Rightarrow> mininumber result" where
  "weight_number n = bindE (getCurrentWeight n) mn_of_string"

definition addToTip :: "penv \<Rightarrow> txpow \<Rightarrow> cascade \<Rightarrow> cascade result" where
  "addToTip e zTxPoW cs =
     bindE (cnode_new e zTxPoW) (\<lambda>node. let a = cs_next cs in
     Inr (cs\<lparr>cs_store := (cs_store cs)(a \<mapsto> node\<lparr>cn_parent := cs_tip cs\<rparr>), cs_nodes := cs_nodes cs @ [a],
       cs_tip := Some a, cs_next := Suc a\<rparr>))"

text \<open>The nodes from a pointer on, following the parents: the loop under every function below. The store has as
  many objects as \<open>mNodes\<close>, which bounds the length of a chain.\<close>

fun walk :: "cstore \<Rightarrow> nat \<Rightarrow> nat option \<Rightarrow> cnode list result" where
  "walk h n None = Inr []"
| "walk h 0 (Some a) = Inl NoFuel"
| "walk h (Suc n) (Some a) = bindE (deref_node h a) (\<lambda>nd. bindE (walk h n (cn_parent nd)) (\<lambda>nds. Inr (nd # nds)))"

definition chain_nodes :: "cascade \<Rightarrow> cnode list result" where
  "chain_nodes cs = walk (cs_store cs) (length (cs_nodes cs)) (cs_tip cs)"

definition cs_getLength :: "cascade \<Rightarrow> int result" where
  "cs_getLength cs = bindE (chain_nodes cs) (\<lambda>nds. Inr (int (length nds)))"

text \<open>The loop of \<open>cascadeChain\<close>: the store, the last node kept, the node at hand, the total weight, the level
  being filled and how many nodes it has, and the nodes kept.\<close>

definition update_node :: "nat \<Rightarrow> (cnode \<Rightarrow> cnode) \<Rightarrow> cstore \<Rightarrow> cstore result" where
  "update_node a f h = bindE (deref_node h a) (\<lambda>n. Inr (h(a \<mapsto> f n)))"

fun cascade_loop :: "nat \<Rightarrow> cstore \<Rightarrow> nat \<Rightarrow> nat option \<Rightarrow> mininumber \<Rightarrow> int \<Rightarrow> int \<Rightarrow> nat set
    \<Rightarrow> (cstore \<times> nat \<times> mininumber \<times> nat set) result" where
  "cascade_loop n h newcascade None sumw casclevel totlevel kept = Inr (h, newcascade, sumw, kept)"
| "cascade_loop 0 h newcascade (Some a) sumw casclevel totlevel kept = Inl NoFuel"
| "cascade_loop (Suc n) h newcascade (Some a) sumw casclevel totlevel kept =
     bindE (deref_node h a) (\<lambda>nd.
       if cn_super nd \<ge> casclevel
       then bindE (update_node a (\<lambda>x. x\<lparr>cn_level := casclevel\<rparr>) h) (\<lambda>h.
            bindE (update_node newcascade (\<lambda>x. x\<lparr>cn_parent := Some a\<rparr>) h) (\<lambda>h.
            bindE (deref_node h a) (\<lambda>nd. bindE (weight_number nd) (\<lambda>w. bindE (mn_add sumw w) (\<lambda>sumw.
              if totlevel + 1 \<ge> MINIMA_CASCADE_LEVEL_NODES \<and> casclevel < int MINIMA_CASCADE_LEVELS - 1
              then cascade_loop n h a (cn_parent nd) sumw (casclevel + 1) 0 (insert a kept)
              else cascade_loop n h a (cn_parent nd) sumw casclevel (totlevel + 1) (insert a kept))))))
       else cascade_loop n h newcascade (cn_parent nd) sumw casclevel totlevel kept)"

definition cascadeChain :: "cascade \<Rightarrow> cascade result" where
  "cascadeChain cs =
     (case cs_tip cs of None \<Rightarrow> Inr cs
      | Some tip \<Rightarrow>
          bindE (deref_node (cs_store cs) tip) (\<lambda>nd. bindE (weight_number nd) (\<lambda>w.
          bindE (cascade_loop (length (cs_nodes cs)) (cs_store cs) tip (cn_parent nd) w 0 1 {tip}) (\<lambda>(h, root, sumw, kept).
          bindE (update_node root (\<lambda>x. x\<lparr>cn_parent := None\<rparr>) h) (\<lambda>h.
          Inr (cs\<lparr>cs_store := h |` kept, cs_nodes := filter (\<lambda>a. a \<in> kept) (cs_nodes cs), cs_weight := sumw\<rparr>))))))"

fun past_exists :: "string \<Rightarrow> cnode list \<Rightarrow> bool result" where
  "past_exists zTxPoWID [] = Inr False"
| "past_exists zTxPoWID (n # ns) =
     bindE (cn_getTxPoW n) (\<lambda>t. if mTxPOWIDStr t = zTxPoWID then Inr True else past_exists zTxPoWID ns)"

definition hasBlock :: "string \<Rightarrow> cascade \<Rightarrow> bool result" where
  "hasBlock zTxPoWID cs = bindE (chain_nodes cs) (past_exists zTxPoWID)"

fun check_supers :: "cnode list \<Rightarrow> txpow \<Rightarrow> bool \<Rightarrow> int \<Rightarrow> int list \<Rightarrow> bool \<Rightarrow> bool result" where
  "check_supers nodes txp lastnode clevel [] foundzero = Inr True"
| "check_supers nodes txp lastnode clevel (i # is) foundzero =
     bindE (getSuperParent i txp) (\<lambda>sp. let sparent = to0xString (md sp) in
       if sparent = ''0x00'' then check_supers nodes txp lastnode clevel is True
       else if foundzero then Inr False
       else if lastnode \<and> \<not> i > clevel then check_supers nodes txp lastnode clevel is foundzero
       else bindE (past_exists sparent nodes) (\<lambda>ok.
         if ok then check_supers nodes txp lastnode clevel is foundzero else Inr False))"

fun check_nodes :: "int \<Rightarrow> cnode list \<Rightarrow> bool result" where
  "check_nodes oldlevel [] = Inr True"
| "check_nodes oldlevel (n # ns) =
     bindE (cn_getTxPoW n) (\<lambda>txp. let clevel = cn_level n in
       if clevel \<noteq> oldlevel \<and> clevel \<noteq> oldlevel + 1 then Inr False
       else let lastnode = (case ns of [] \<Rightarrow> True | p # ps \<Rightarrow> cn_level p \<noteq> clevel) in
         bindE (check_supers (n # ns) txp lastnode clevel [clevel..int MINIMA_CASCADE_LEVELS - 1] False) (\<lambda>ok.
           if ok then check_nodes clevel ns else Inr False))"

definition checkCascadeCorrect :: "cascade \<Rightarrow> bool result" where
  "checkCascadeCorrect cs =
     bindE (chain_nodes cs) (\<lambda>nds. case nds of [] \<Rightarrow> Inr True
       | n # ns \<Rightarrow> if cn_level n \<noteq> 0 then Inr False else check_nodes 0 nds)"

text \<open>Written to a stream: the length, then every node from the tip down with its level.\<close>

definition cnode_writeDataStream :: "cnode \<Rightarrow> byte list result" where
  "cnode_writeDataStream n =
     bindE (cn_getTxPoW n) (\<lambda>t. bindE (txpow_writeDataStream t) (\<lambda>bs. bindE (mn_of_int (cn_level n)) (\<lambda>l.
     Inr (bs @ mn_writeDataStream l))))"

definition cascade_writeDataStream :: "cascade \<Rightarrow> byte list result" where
  "cascade_writeDataStream cs = bindE (chain_nodes cs) (write_list cnode_writeDataStream)"

definition cnode_readDataStream :: "penv \<Rightarrow> cnode reader" where
  "cnode_readDataStream e inp =
     bindE (txpow_ReadFromStream e inp) (\<lambda>(t, inp). bindE (mn_readDataStream inp) (\<lambda>(l, inp).
     Inr (\<lparr>cn_txpow = Some t, cn_level = getAsInt l, cn_super = mSuperBlock t, cn_parent = None\<rparr>, inp)))"

subsection \<open>What a cascade is: a list of blocks with levels\<close>

text \<open>The specification works on the list of nodes from the tip down, without pointers.\<close>

definition bare :: "cnode \<Rightarrow> cnode" where
  "bare n = n\<lparr>cn_parent := None\<rparr>"

fun keep :: "int \<Rightarrow> int \<Rightarrow> cnode list \<Rightarrow> cnode list" where
  "keep casclevel totlevel [] = []"
| "keep casclevel totlevel (n # ns) =
     (if cn_super n \<ge> casclevel
      then n\<lparr>cn_level := casclevel\<rparr> #
        (if totlevel + 1 \<ge> 256 \<and> casclevel < 31 then keep (casclevel + 1) 0 ns else keep casclevel (totlevel + 1) ns)
      else keep casclevel totlevel ns)"

definition cascade_list :: "cnode list \<Rightarrow> cnode list" where
  "cascade_list ns = (case ns of [] \<Rightarrow> [] | n # ns \<Rightarrow> n # keep 0 1 ns)"

fun add_weights :: "mininumber \<Rightarrow> cnode list \<Rightarrow> mininumber result" where
  "add_weights sumw [] = Inr sumw"
| "add_weights sumw (n # ns) =
     bindE (weight_number n) (\<lambda>w. bindE (mn_add sumw w) (\<lambda>t. add_weights t ns))"

end
