(* ===== verification/CascadeLaws.thy ===== *)
theory CascadeLaws
  imports Cascade
begin

text \<open>
  Laws of the cascade: the pointer operations implement operations on the list of nodes from the tip down
  (\<open>holds\<close>), without leaks, dangling pointers or cycles; and what that list satisfies.
\<close>

subsection \<open>Chains in the store\<close>

fun path :: "cstore \<Rightarrow> nat option \<Rightarrow> nat list \<Rightarrow> bool" where
  "path h p [] = (p = None)"
| "path h p (a # as) = (p = Some a \<and> (case h a of None \<Rightarrow> False | Some n \<Rightarrow> path h (cn_parent n) as))"

lemma path_Some: "h a = Some n \<Longrightarrow> path h (Some a) (a # as) = path h (cn_parent n) as"
  by simp

definition nodes_at :: "cstore \<Rightarrow> nat list \<Rightarrow> cnode list" where
  "nodes_at h as = map (\<lambda>a. bare (the (h a))) as"

lemma nodes_at_simps [simp]: "nodes_at h [] = []" "nodes_at h (a # as) = bare (the (h a)) # nodes_at h as"
  by (simp_all add: nodes_at_def)

lemma bare_simps [simp]: "bare (bare n) = bare n" "cn_super (bare n) = cn_super n" "cn_level (bare n) = cn_level n"
  "cn_txpow (bare n) = cn_txpow n" "cn_parent (bare n) = None" "bare (n\<lparr>cn_parent := p\<rparr>) = bare n"
  "bare (n\<lparr>cn_level := l\<rparr>) = (bare n)\<lparr>cn_level := l\<rparr>"
  by (simp_all add: bare_def)

lemma weight_bare: "weight_number (bare n) = weight_number n"
  by (simp add: weight_number_def getCurrentWeight_def split: option.split)

lemma path_cong: "(\<And>a. a \<in> set as \<Longrightarrow> h a = h' a) \<Longrightarrow> path h p as = path h' p as"
  by (induction as arbitrary: p) (auto split: option.splits)

lemma nodes_at_cong: "(\<And>a. a \<in> set as \<Longrightarrow> h a = h' a) \<Longrightarrow> nodes_at h as = nodes_at h' as"
  by (simp add: nodes_at_def)

lemma walk_path:
  "path h p as \<Longrightarrow> length as \<le> n \<Longrightarrow> \<exists>ns. walk h n p = Inr ns \<and> map bare ns = nodes_at h as"
proof (induction as arbitrary: p n)
  case (Cons a as)
  then obtain nd n' where "h a = Some nd" "p = Some a" "path h (cn_parent nd) as" "n = Suc n'"
    by (cases n) (auto split: option.splits)
  then show ?case using Cons.IH [of "cn_parent nd" n'] Cons.prems(2) by (auto simp: deref_node_def)
qed simp

text \<open>What the loop of \<open>cascadeChain\<close> does to the chain \<open>as\<close> below the node \<open>b\<close> kept last.\<close>

definition rethreads :: "cstore \<Rightarrow> nat \<Rightarrow> nat list \<Rightarrow> int \<Rightarrow> int \<Rightarrow> cstore \<Rightarrow> nat \<Rightarrow> nat list \<Rightarrow> bool" where
  "rethreads h b as lv tot h' rt ks =
     (set ks \<subseteq> set as \<and> distinct ks \<and> rt \<in> insert b (set ks) \<and> dom h' = dom h
      \<and> path (h'(rt \<mapsto> (the (h' rt))\<lparr>cn_parent := None\<rparr>)) (Some b) (b # ks)
      \<and> nodes_at h' (b # ks) = bare (the (h b)) # keep lv tot (nodes_at h as)
      \<and> (\<forall>x. x \<notin> insert b (set as) \<longrightarrow> h' x = h x))"

lemma loop_refines:
  assumes "path h p as" "distinct (b # as)" "b \<in> dom h" "length as \<le> n"
  shows "case add_weights sumw (keep lv tot (nodes_at h as)) of
      Inl er \<Rightarrow> cascade_loop n h b p sumw lv tot kept = Inl er
    | Inr w \<Rightarrow> \<exists>h' rt ks. cascade_loop n h b p sumw lv tot kept = Inr (h', rt, w, kept \<union> set ks)
        \<and> rethreads h b as lv tot h' rt ks"
  using assms
proof (induction as arbitrary: h b p sumw lv tot kept n)
  case Nil
  then obtain nb where "h b = Some nb" by auto
  then show ?case using Nil by (auto simp: rethreads_def intro!: exI [of _ h] exI [of _ b] exI [of _ "[]"])
next
  case (Cons a as)
  obtain nd n' where a: "h a = Some nd" "p = Some a" "path h (cn_parent nd) as" "n = Suc n'" "length as \<le> n'"
    using Cons.prems by (cases n) (auto split: option.splits)
  obtain nb where b: "h b = Some nb" using Cons.prems by auto
  have ne: "a \<noteq> b" "a \<notin> set as" "b \<notin> set as" "distinct as" using Cons.prems by auto
  show ?case
  proof (cases "cn_super nd \<ge> lv")
    case False
    have "case add_weights sumw (keep lv tot (nodes_at h as)) of
      Inl er \<Rightarrow> cascade_loop n' h b (cn_parent nd) sumw lv tot kept = Inl er
    | Inr w \<Rightarrow> \<exists>h' rt ks. cascade_loop n' h b (cn_parent nd) sumw lv tot kept = Inr (h', rt, w, kept \<union> set ks)
        \<and> rethreads h b as lv tot h' rt ks"
      using a ne b by (intro Cons.IH) auto
    moreover have "rethreads h b (a # as) lv tot h' rt ks" if "rethreads h b as lv tot h' rt ks" for h' rt ks
      using that a False by (auto simp: rethreads_def)
    moreover have "keep lv tot (nodes_at h (a # as)) = keep lv tot (nodes_at h as)" using False a by simp
    moreover have "cascade_loop n h b p sumw lv tot kept = cascade_loop n' h b (cn_parent nd) sumw lv tot kept"
      using a False by (simp add: deref_node_def)
    ultimately show ?thesis by (auto split: sum.splits) blast
  next
    case True
    define h1 where "h1 = h(a \<mapsto> nd\<lparr>cn_level := lv\<rparr>, b \<mapsto> nb\<lparr>cn_parent := Some a\<rparr>)"
    define full where "full = (tot + 1 \<ge> 256 \<and> lv < 31)"
    define lv1 where "lv1 = (if full then lv + 1 else lv)"
    define tot1 where "tot1 = (if full then 0 else tot + 1)"
    have h1: "h1 a = Some (nd\<lparr>cn_level := lv\<rparr>)" "h1 b = Some (nb\<lparr>cn_parent := Some a\<rparr>)" "dom h1 = dom h"
      using ne a b by (auto simp: h1_def)
    have same: "h1 x = h x" if "x \<in> set as" for x using that ne by (auto simp: h1_def)
    have k: "keep lv tot (nodes_at h (a # as)) = (bare nd)\<lparr>cn_level := lv\<rparr> # keep lv1 tot1 (nodes_at h1 as)"
      using a True nodes_at_cong [of as h h1] same by (simp add: lv1_def tot1_def full_def)
    have step: "cascade_loop n h b p sumw lv tot kept =
       bindE (weight_number (nd\<lparr>cn_level := lv\<rparr>)) (\<lambda>w. bindE (mn_add sumw w) (\<lambda>sumw.
         cascade_loop n' h1 a (cn_parent nd) sumw lv1 tot1 (insert a kept)))"
      using a b ne True h1(1,2)
      by (cases "tot + 1 \<ge> 256"; cases "lv < 31") (simp_all add: deref_node_def update_node_def h1_def
          MINIMA_CASCADE_LEVEL_NODES_def MINIMA_CASCADE_LEVELS_def lv1_def tot1_def full_def)
    have wt: "weight_number ((bare nd)\<lparr>cn_level := lv\<rparr>) = weight_number (nd\<lparr>cn_level := lv\<rparr>)"
      using weight_bare [of "nd\<lparr>cn_level := lv\<rparr>"] by simp
    have IH: "case add_weights s (keep lv1 tot1 (nodes_at h1 as)) of
        Inl er \<Rightarrow> cascade_loop n' h1 a (cn_parent nd) s lv1 tot1 (insert a kept) = Inl er
      | Inr w \<Rightarrow> \<exists>h' rt ks. cascade_loop n' h1 a (cn_parent nd) s lv1 tot1 (insert a kept) = Inr (h', rt, w, insert a kept \<union> set ks)
          \<and> rethreads h1 a as lv1 tot1 h' rt ks" for s
      using a ne h1 path_cong [of as h h1] same by (intro Cons.IH) auto
    have re: "rethreads h b (a # as) lv tot h' rt (a # ks)" if r: "rethreads h1 a as lv1 tot1 h' rt ks" for h' rt ks
    proof -
      have hb: "h' b = Some (nb\<lparr>cn_parent := Some a\<rparr>)" using r ne h1 by (auto simp: rethreads_def)
      have rb: "rt \<noteq> b" and ks: "set ks \<subseteq> set as" "distinct ks" "rt \<in> insert a (set ks)" "dom h' = dom h"
        using r ne h1(3) by (auto simp: rethreads_def)
      have out: "h' x = h x" if "x \<notin> insert b (set (a # as))" for x
        using r that by (simp add: rethreads_def h1_def)
      define hh where "hh = h'(rt \<mapsto> (the (h' rt))\<lparr>cn_parent := None\<rparr>)"
      have hhb: "hh b = Some (nb\<lparr>cn_parent := Some a\<rparr>)" using hb rb by (simp only: hh_def fun_upd_other not_sym)
      have p: "path hh (Some a) (a # ks)" and d: "nodes_at h' (a # ks) = bare (the (h1 a)) # keep lv1 tot1 (nodes_at h1 as)"
        using r by (simp_all only: rethreads_def hh_def)
      have p2: "path hh (Some b) (b # a # ks)"
        using p unfolding path_Some [of hh b, OF hhb] by simp
      have d2: "nodes_at h' (b # a # ks) = bare (the (h b)) # keep lv tot (nodes_at h (a # as))"
        using d hb b h1(1) unfolding k by (simp only: nodes_at_simps option.sel bare_simps)
      show ?thesis
        unfolding rethreads_def hh_def [symmetric] using ks ne out p2 d2 by (simp only: set_simps distinct.simps) blast
    qed
    have goal: "case add_weights s (keep lv1 tot1 (nodes_at h1 as)) of
        Inl er \<Rightarrow> cascade_loop n' h1 a (cn_parent nd) s lv1 tot1 (insert a kept) = Inl er
      | Inr w \<Rightarrow> \<exists>h' rt ks. cascade_loop n' h1 a (cn_parent nd) s lv1 tot1 (insert a kept) = Inr (h', rt, w, kept \<union> set ks)
          \<and> rethreads h b (a # as) lv tot h' rt ks" for s
    proof (cases "add_weights s (keep lv1 tot1 (nodes_at h1 as))")
      case (Inr w)
      then obtain h' rt ks where l: "cascade_loop n' h1 a (cn_parent nd) s lv1 tot1 (insert a kept) = Inr (h', rt, w, insert a kept \<union> set ks)"
        "rethreads h1 a as lv1 tot1 h' rt ks"
        using IH [of s] by auto
      then have "cascade_loop n' h1 a (cn_parent nd) s lv1 tot1 (insert a kept) = Inr (h', rt, w, kept \<union> set (a # ks))"
        by simp
      then show ?thesis unfolding Inr using re [OF l(2)] by (simp only: sum.case) blast
    qed (use IH [of s] in simp)
    show ?thesis
    proof (cases "bindE (weight_number (nd\<lparr>cn_level := lv\<rparr>)) (mn_add sumw)")
      case (Inl er)
      have "add_weights sumw (keep lv tot (nodes_at h (a # as))) = Inl er" "cascade_loop n h b p sumw lv tot kept = Inl er"
        unfolding step k using Inl
        by (cases "weight_number (nd\<lparr>cn_level := lv\<rparr>)"; simp add: wt)+
      then show ?thesis by simp
    next
      case (Inr s)
      then have l: "add_weights sumw (keep lv tot (nodes_at h (a # as))) = add_weights s (keep lv1 tot1 (nodes_at h1 as))"
        "cascade_loop n h b p sumw lv tot kept = cascade_loop n' h1 a (cn_parent nd) s lv1 tot1 (insert a kept)"
        unfolding step k by (auto simp: wt)
      show ?thesis unfolding l by (rule goal)
    qed
  qed
qed


subsection \<open>The state and its operations\<close>

text \<open>\<open>holds cs ns\<close>: the objects owned by the cascade are exactly those of its store, and its chain of parent
  pointers from the tip, without cycles, has the nodes \<open>ns\<close>.\<close>

definition owns :: "cascade \<Rightarrow> bool" where
  "owns cs = (distinct (cs_nodes cs) \<and> dom (cs_store cs) = set (cs_nodes cs) \<and> (\<forall>a \<in> set (cs_nodes cs). a < cs_next cs))"

definition holds_at :: "nat list \<Rightarrow> cascade \<Rightarrow> cnode list \<Rightarrow> bool" where
  "holds_at as cs ns = (owns cs \<and> path (cs_store cs) (cs_tip cs) as \<and> distinct as \<and> ns = nodes_at (cs_store cs) as)"

definition holds :: "cascade \<Rightarrow> cnode list \<Rightarrow> bool" where
  "holds cs ns = (\<exists>as. holds_at as cs ns)"

lemma path_dom: "path h p as \<Longrightarrow> set as \<subseteq> dom h"
  by (induction as arbitrary: p) (auto split: option.splits)

lemma holds_at_sub: "holds_at as cs ns \<Longrightarrow> set as \<subseteq> set (cs_nodes cs)"
  using path_dom [of "cs_store cs" "cs_tip cs" as] by (simp add: holds_at_def owns_def)

lemma holds_at_length: "holds_at as cs ns \<Longrightarrow> length as \<le> length (cs_nodes cs)"
proof -
  assume h: "holds_at as cs ns"
  then have "set as \<subseteq> set (cs_nodes cs)" by (rule holds_at_sub)
  then have "card (set as) \<le> card (set (cs_nodes cs))" by (simp add: card_mono)
  then show ?thesis using h by (simp add: holds_at_def owns_def distinct_card)
qed

lemma holds_new: "holds cascade_new []"
  by (auto simp: holds_def holds_at_def owns_def cascade_new_def intro!: exI [of _ "[]"])

lemma chain_nodes_holds: "holds cs ns \<Longrightarrow> \<exists>ms. chain_nodes cs = Inr ms \<and> map bare ms = ns"
  using walk_path holds_at_length unfolding holds_def chain_nodes_def by (metis holds_at_def)

lemma addToTip_holds:
  assumes "holds cs ns" "addToTip e t cs = Inr cs'"
  shows "\<exists>n. cnode_new e t = Inr n \<and> holds cs' (n # ns)"
proof -
  obtain as where as: "holds_at as cs ns" using assms(1) by (auto simp: holds_def)
  obtain n where n: "cnode_new e t = Inr n" "bare n = n"
    and cs': "cs' = cs\<lparr>cs_store := (cs_store cs)(cs_next cs \<mapsto> n\<lparr>cn_parent := cs_tip cs\<rparr>), cs_nodes := cs_nodes cs @ [cs_next cs],
       cs_tip := Some (cs_next cs), cs_next := Suc (cs_next cs)\<rparr>"
    using assms(2) by (auto simp: addToTip_def cnode_new_def bare_def Let_def)
  have fresh: "cs_next cs \<notin> set as" "cs_next cs \<notin> set (cs_nodes cs)"
    using as path_dom [of "cs_store cs" "cs_tip cs" as] by (auto simp: holds_at_def owns_def)
  let ?h = "cs_store cs'"
  have same: "?h x = cs_store cs x" if "x \<in> set as" for x using that fresh by (auto simp: cs')
  have "holds_at (cs_next cs # as) cs' (n # ns)"
    using as fresh n(2) path_cong [of as "cs_store cs" ?h] nodes_at_cong [of as "cs_store cs" ?h] same
    by (auto simp: holds_at_def owns_def cs' less_Suc_eq)
  then show ?thesis using n(1) by (auto simp: holds_def)
qed


definition cascade_weight :: "cnode list \<Rightarrow> mininumber result" where
  "cascade_weight ns = (case ns of [] \<Rightarrow> Inr mn_ZERO
     | n # ns \<Rightarrow> bindE (weight_number n) (\<lambda>w. add_weights w (keep 0 1 ns)))"

lemma chain_holds:
  assumes "owns cs" "path (cs_store cs) (Some b) (b # as)" "distinct (b # as)" "rethreads (cs_store cs) b as 0 1 h' rt ks"
  defines "h2 \<equiv> h'(rt \<mapsto> (the (h' rt))\<lparr>cn_parent := None\<rparr>)"
  shows "holds_at (b # ks) (cs\<lparr>cs_store := h2 |` insert b (set ks), cs_nodes := filter (\<lambda>a. a \<in> insert b (set ks)) (cs_nodes cs),
      cs_tip := Some b, cs_weight := w\<rparr>) (bare (the (cs_store cs b)) # keep 0 1 (nodes_at (cs_store cs) as))"
    (is "holds_at _ ?cs _")
proof -
  have r: "set ks \<subseteq> set as" "distinct ks" "rt \<in> insert b (set ks)" "dom h' = dom (cs_store cs)" "path h2 (Some b) (b # ks)"
    "nodes_at h' (b # ks) = bare (the (cs_store cs b)) # keep 0 1 (nodes_at (cs_store cs) as)"
    using assms(4) by (simp_all only: rethreads_def h2_def)
  have sub: "insert b (set ks) \<subseteq> dom (cs_store cs)" using r(1) path_dom [OF assms(2)] by auto
  then have rt: "rt \<in> dom h'" using r(3,4) by auto
  have "dom h2 = dom h'" using rt by (auto simp: h2_def)
  then have dm: "dom (h2 |` insert b (set ks)) = insert b (set ks)" using sub r(4) by auto
  have bare2: "bare (the (h2 x)) = bare (the (h' x))" for x by (simp add: h2_def)
  have "owns ?cs" using assms(1) dm sub by (auto simp: owns_def)
  moreover have "path (h2 |` insert b (set ks)) (Some b) (b # ks)"
    using r(5) path_cong [of "b # ks" "h2 |` insert b (set ks)" h2 "Some b"] by simp
  moreover have "nodes_at (h2 |` insert b (set ks)) (b # ks) = nodes_at h' (b # ks)"
    using nodes_at_cong [of "b # ks" "h2 |` insert b (set ks)" h2] bare2 by (simp add: nodes_at_def)
  ultimately show ?thesis
    using r(1,2,6) assms(3) unfolding holds_at_def by auto
qed

lemma cascadeChain_implements:
  assumes "holds cs (n # ns)"
  shows "case cascade_weight (n # ns) of Inl er \<Rightarrow> cascadeChain cs = Inl er
    | Inr w \<Rightarrow> \<exists>cs'. cascadeChain cs = Inr cs' \<and> holds cs' (cascade_list (n # ns)) \<and> cs_weight cs' = w
        \<and> length (cs_nodes cs') = length (cascade_list (n # ns))"
proof -
  obtain b as where h: "owns cs" "path (cs_store cs) (cs_tip cs) (b # as)" "distinct (b # as)"
    "n = bare (the (cs_store cs b))" "ns = nodes_at (cs_store cs) as" "holds_at (b # as) cs (n # ns)"
    using assms unfolding holds_def holds_at_def by (metis list.distinct(1) nodes_at_simps(1) nodes_at_simps(2) list.inject neq_Nil_conv)
  obtain nb where b: "cs_tip cs = Some b" "cs_store cs b = Some nb" "path (cs_store cs) (cn_parent nb) as"
    using h(2) by (auto split: option.splits)
  have n: "n = bare nb" using h(4) b(2) by simp
  have len: "length as \<le> length (cs_nodes cs)" using holds_at_length [OF h(6)] by simp
  have bd: "b \<in> dom (cs_store cs)" using b(2) by blast
  note loop = loop_refines [OF b(3) h(3) bd len, of _ 0 1 "{b}", folded h(5)]
  show ?thesis
  proof (cases "weight_number nb")
    case (Inl er)
    then have "cascade_weight (n # ns) = Inl er"
      by (simp add: cascade_weight_def n weight_bare)
    moreover have "cascadeChain cs = Inl er"
      using Inl b by (simp add: cascadeChain_def deref_node_def)
    ultimately show ?thesis by simp
  next
    case (Inr w0)
    have cw: "cascade_weight (n # ns) = add_weights w0 (keep 0 1 ns)"
      using Inr by (simp add: cascade_weight_def n weight_bare)
    have cc: "cascadeChain cs = bindE (cascade_loop (length (cs_nodes cs)) (cs_store cs) b (cn_parent nb) w0 0 1 {b}) (\<lambda>(h, rt, sumw, kept).
          bindE (update_node rt (\<lambda>x. x\<lparr>cn_parent := None\<rparr>) h) (\<lambda>h.
          Inr (cs\<lparr>cs_store := h |` kept, cs_nodes := filter (\<lambda>a. a \<in> kept) (cs_nodes cs), cs_weight := sumw\<rparr>)))"
      using Inr b by (simp add: cascadeChain_def deref_node_def)
    show ?thesis
    proof (cases "add_weights w0 (keep 0 1 ns)")
      case (Inl er)
      then show ?thesis unfolding cw cc using loop [of w0] by simp
    next
      case (Inr w)
      then obtain h' rt ks where l: "cascade_loop (length (cs_nodes cs)) (cs_store cs) b (cn_parent nb) w0 0 1 {b} = Inr (h', rt, w, insert b (set ks))"
        "rethreads (cs_store cs) b as 0 1 h' rt ks"
        using loop [of w0] by auto
      have "insert b (set as) \<subseteq> dom (cs_store cs)" using path_dom [OF h(2)] by simp
      then have "rt \<in> dom h'" using l(2) unfolding rethreads_def by blast
      then have u: "update_node rt f h' = Inr (h'(rt \<mapsto> f (the (h' rt))))" for f
        by (auto simp: update_node_def deref_node_def)
      define cs' where "cs' = cs\<lparr>cs_store := h'(rt \<mapsto> (the (h' rt))\<lparr>cn_parent := None\<rparr>) |` insert b (set ks),
        cs_nodes := filter (\<lambda>a. a \<in> insert b (set ks)) (cs_nodes cs), cs_weight := w\<rparr>"
      have c: "cascadeChain cs = Inr cs'"
        unfolding cc l(1) cs'_def by (simp only: bindE_simps prod.case u)
      have "cs' = cs\<lparr>cs_store := h'(rt \<mapsto> (the (h' rt))\<lparr>cn_parent := None\<rparr>) |` insert b (set ks),
        cs_nodes := filter (\<lambda>a. a \<in> insert b (set ks)) (cs_nodes cs), cs_tip := Some b, cs_weight := w\<rparr>"
        using b(1) by (simp add: cs'_def)
      then have hl: "holds_at (b # ks) cs' (cascade_list (n # ns))"
        using chain_holds [OF h(1) _ h(3) l(2)] h(2,4,5) b(1) by (simp add: cascade_list_def)
      moreover have "length (cs_nodes cs') = length (cascade_list (n # ns))"
      proof -
        have "set (cs_nodes cs') = insert b (set ks)"
          using holds_at_sub [OF hl] by (auto simp: cs'_def)
        moreover have "distinct (cs_nodes cs')" "distinct (b # ks)" using hl by (simp_all add: holds_at_def owns_def)
        ultimately have "length (cs_nodes cs') = length (b # ks)" by (metis distinct_card list.simps(15))
        then show ?thesis using hl by (simp add: holds_at_def nodes_at_def)
      qed
      ultimately show ?thesis using Inr c by (auto simp: cw holds_def cs'_def)
    qed
  qed
qed

subsection \<open>The shape of a cascade\<close>

definition at_level :: "int \<Rightarrow> cnode list \<Rightarrow> nat" where
  "at_level l ns = length (filter (\<lambda>n. cn_level n = l) ns)"

lemma at_level_simps [simp]: "at_level l [] = 0" "at_level l (n # ns) = (if cn_level n = l then Suc (at_level l ns) else at_level l ns)"
  by (simp_all add: at_level_def)

fun steps :: "int \<Rightarrow> cnode list \<Rightarrow> bool" where
  "steps l [] = True"
| "steps l (n # ns) = ((cn_level n = l \<or> cn_level n = l + 1) \<and> steps (cn_level n) ns)"

lemma keep_range: "lv \<le> 31 \<Longrightarrow> m \<in> set (keep lv tot ns) \<Longrightarrow> lv \<le> cn_level m \<and> cn_level m \<le> 31 \<and> cn_level m \<le> cn_super m"
  by (induction lv tot ns rule: keep.induct) (fastforce split: if_splits)+

lemma keep_steps: "lv \<le> 31 \<Longrightarrow> p = lv \<or> p + 1 = lv \<Longrightarrow> steps p (keep lv tot ns)"
  by (induction lv tot ns arbitrary: p rule: keep.induct) auto

lemma at_level_zero: "(\<And>n. n \<in> set ns \<Longrightarrow> cn_level n \<noteq> l) \<Longrightarrow> at_level l ns = 0"
  by (simp add: at_level_def filter_empty_conv)

lemma keep_count: "lv \<le> 31 \<Longrightarrow> 0 \<le> tot \<Longrightarrow> (lv < 31 \<Longrightarrow> tot < 256) \<Longrightarrow> l < 31 \<Longrightarrow>
    int (at_level l (keep lv tot ns)) \<le> (if l = lv then 256 - tot else 256)"
proof (induction lv tot ns rule: keep.induct)
  case (2 lv tot n ns)
  show ?case
  proof (cases "cn_super n \<ge> lv")
    case True
    show ?thesis
    proof (cases "tot + 1 \<ge> 256 \<and> lv < 31")
      case full: True
      have "at_level lv (keep (lv + 1) 0 ns) = 0"
        using keep_range [of "lv + 1"] full by (intro at_level_zero) fastforce
      then show ?thesis using 2 True full by (auto split: if_splits)
    next
      case notfull: False
      then show ?thesis using 2 True by (auto split: if_splits)
    qed
  qed (use 2 in auto)
qed fastforce

lemma keep_top: "lv \<le> 31 \<Longrightarrow> m \<in> set ns \<Longrightarrow> 31 \<le> cn_super m \<Longrightarrow> \<exists>l. m\<lparr>cn_level := l\<rparr> \<in> set (keep lv tot ns)"
  by (induction lv tot ns rule: keep.induct) auto

lemma keep_subset: "m \<in> set (keep lv tot ns) \<Longrightarrow> \<exists>x \<in> set ns. m = x\<lparr>cn_level := cn_level m\<rparr>"
  by (induction lv tot ns rule: keep.induct) (auto split: if_splits)

text \<open>C27 The rethreading of the cascade implements its specification on lists: from a state whose chain, from
  the tip down, has the nodes \<open>ns\<close>, \<open>cascadeChain\<close> fails exactly when the sum of the weights does, and else
  ends in a state whose chain has exactly the nodes \<open>cascade_list ns\<close>, with their sum as total weight. No
  pointer is dangling, no cycle is made, and every object no longer in the chain has been freed.\<close>

theorem cascadeChain_refines:
  assumes "holds cs (n # ns)"
  shows "case cascade_weight (n # ns) of Inl er \<Rightarrow> cascadeChain cs = Inl er
    | Inr w \<Rightarrow> \<exists>cs'. cascadeChain cs = Inr cs' \<and> holds cs' (cascade_list (n # ns)) \<and> cs_weight cs' = w
        \<and> length (cs_nodes cs') = length (cascade_list (n # ns))"
  by (rule cascadeChain_implements [OF assms])

text \<open>C28 The shape of a cascade, from a chain whose tip is at level 0 (new nodes are): the tip stays, every other
  node of the result is one of the chain, at a level between 0 and 31 and not above its super level; the
  levels go up along the chain in steps of at most one; a level below the last holds at most 256 nodes, so
  that only the last level grows without bound; and blocks of the highest super level are never dropped.\<close>

theorem cascade_shape:
  assumes "holds cs (n # ns)" "cn_level n = 0" "cascadeChain cs = Inr cs'"
  shows "\<exists>ms. holds cs' (n # ms)
    \<and> (\<forall>m \<in> set ms. (\<exists>x \<in> set ns. m = x\<lparr>cn_level := cn_level m\<rparr>)
         \<and> 0 \<le> cn_level m \<and> cn_level m \<le> 31 \<and> cn_level m \<le> cn_super m)
    \<and> steps 0 (n # ms)
    \<and> (\<forall>l < 31. at_level l (n # ms) \<le> 256)
    \<and> (\<forall>m \<in> set ns. 31 \<le> cn_super m \<longrightarrow> (\<exists>l. m\<lparr>cn_level := l\<rparr> \<in> set ms))"
proof (intro exI [of _ "keep 0 1 ns"] conjI)
  show "holds cs' (n # keep 0 1 ns)"
    using cascadeChain_implements [OF assms(1)] assms(3) by (auto simp: cascade_list_def split: sum.splits)
  show "\<forall>l < 31. at_level l (n # keep 0 1 ns) \<le> 256"
    using keep_count [of 0 1 _ ns] assms(2) by (fastforce split: if_splits)
  show "steps 0 (n # keep 0 1 ns)" using assms(2) keep_steps [of 0 0 1 ns] by simp
  show "\<forall>m \<in> set ns. 31 \<le> cn_super m \<longrightarrow> (\<exists>l. m\<lparr>cn_level := l\<rparr> \<in> set (keep 0 1 ns))"
    using keep_top [of 0] by simp
  show "\<forall>m \<in> set (keep 0 1 ns). (\<exists>x \<in> set ns. m = x\<lparr>cn_level := cn_level m\<rparr>)
      \<and> 0 \<le> cn_level m \<and> cn_level m \<le> 31 \<and> cn_level m \<le> cn_super m"
    using keep_range [of 0] keep_subset by fastforce
qed

definition sample_cnode :: "int \<Rightarrow> cnode" where
  "sample_cnode s = \<lparr>cn_txpow = None, cn_level = 0, cn_super = s, cn_parent = None\<rparr>"

definition sample_cascade :: cascade where
  "sample_cascade = \<lparr>cs_store = [0 \<mapsto> sample_cnode 0, 1 \<mapsto> (sample_cnode 2)\<lparr>cn_parent := Some 0\<rparr>], cs_nodes = [0, 1],
     cs_tip = Some 1, cs_weight = mn_ZERO, cs_next = 2\<rparr>"

lemma sample_holds: "holds sample_cascade [sample_cnode 2, sample_cnode 0]"
proof -
  have "holds_at [1, 0] sample_cascade [sample_cnode 2, sample_cnode 0]"
    by (auto simp: holds_at_def owns_def sample_cascade_def sample_cnode_def bare_def)
  then show ?thesis by (auto simp: holds_def)
qed

lemma sample_weight: "\<not> isl (cascade_weight [sample_cnode 2, sample_cnode 0])"
  by code_simp

theorem cascadeChain_refines_witness:
  "\<exists>cs'. cascadeChain sample_cascade = Inr cs' \<and> holds cs' [sample_cnode 2, sample_cnode 0]"
proof -
  have l: "cascade_list [sample_cnode 2, sample_cnode 0] = [sample_cnode 2, sample_cnode 0]" by code_simp
  show ?thesis
    using cascadeChain_refines [OF sample_holds] sample_weight unfolding l
    by (cases "cascade_weight [sample_cnode 2, sample_cnode 0]") auto
qed

theorem cascade_shape_witness:
  "\<exists>cs' ms. cascadeChain sample_cascade = Inr cs' \<and> holds cs' (sample_cnode 2 # ms) \<and> steps 0 (sample_cnode 2 # ms)"
proof -
  obtain cs' where c: "cascadeChain sample_cascade = Inr cs'"
    using cascadeChain_implements [OF sample_holds] sample_weight
    by (cases "cascade_weight [sample_cnode 2, sample_cnode 0]") auto
  have "cn_level (sample_cnode 2) = 0" by (simp add: sample_cnode_def)
  from cascade_shape [OF sample_holds this c] c show ?thesis by blast
qed

end
