(* ===== verification/TxBlock.thy ===== *)
theory TxBlock
  imports TxPoWLaws
begin

text \<open>
  The block as the tree keeps it, \<open>src/org/minima/objects/tx_block.cpp\<close>: a TxPoW together with the peaks of the MMR
  before it, the coins its transactions spend with proofs against that MMR, and the coins they create. The
  MMR the block is built on is an argument with its ancestors; making a set on top of it finalises it, so it is
  returned too. The map of the states a coin did not keep is not part of the stream form. The proofs of the
  coins spent share the coins of the witnesses they come from, which have to live as long as the block does.
\<close>

subsection \<open>The code\<close>

record txblock =
  bl_txpow :: "txpow option"
  bl_peaks :: "mmr_entry list"
  bl_spent :: "coin_proof list"
  bl_new :: "coin list"
  bl_removed :: "string \<Rightarrow> state_variable list option"

definition getTxPoW :: "txblock \<Rightarrow> txpow result" where
  "getTxPoW b = (case bl_txpow b of None \<Rightarrow> Inl (Throw RuntimeError) | Some t \<Rightarrow> Inr t)"

definition getTxpoWFromList :: "byte list \<Rightarrow> txpow list \<Rightarrow> txpow option" where
  "getTxpoWFromList zTxPoWID zAllTrans = find (\<lambda>t. md_isEqual (mTxPOWID t) (md zTxPoWID)) zAllTrans"

text \<open>Every coin spent enters the set on top of the parent, which then gives its proof.\<close>

fun spend_coins :: "crypto \<Rightarrow> mmr list \<Rightarrow> coin_proof list \<Rightarrow> mmr \<Rightarrow> (coin_proof list \<times> mmr) result" where
  "spend_coins c ps [] m = Inr ([], m)"
| "spend_coins c ps (csp # cs) m =
     (let entry = c_entry (cp_coin csp) in
      bindE (cp_getMMRData c csp) (\<lambda>d. bindE (updateEntry c ps entry (cp_proof csp) d m) (\<lambda>m.
      bindE (getProofToPeak ps m entry) (\<lambda>p. bindE (spend_coins c ps cs m) (\<lambda>(cps, m).
      Inr (\<lparr>cp_coin = cp_coin csp, cp_proof = p\<rparr> # cps, m))))))"

text \<open>The base of the identifiers of the new coins: the transaction's own identifier when it has no inputs or
  follows the genesis block, else the first coin it spends.\<close>

definition base_coinid :: "transaction \<Rightarrow> witness \<Rightarrow> mmr \<Rightarrow> byte list" where
  "base_coinid t w m =
     (case wt_coinproofs w of [] \<Rightarrow> tx_id t
      | cp # cps \<Rightarrow> if mn_isEqual (mBlockTime m) mn_ONE then tx_id t else c_coinid (cp_coin cp))"

definition create_token :: "crypto \<Rightarrow> txpow option \<Rightarrow> byte list \<Rightarrow> coin \<Rightarrow> coin \<Rightarrow> coin result" where
  "create_token c blk coinid newoutput correctcoin =
     (if c_tokenid newoutput \<noteq> TOKENID_CREATE then Inr correctcoin
      else case c_token newoutput of
        None \<Rightarrow> Inl (Throw RuntimeError)
      | Some creator \<Rightarrow>
          bindE (deref blk) (\<lambda>b.
          bindE (token_new c coinid (t_scale creator) (c_amount newoutput) (t_name creator) (t_script creator)
            (h_blocknumber (p_header b))) (\<lambda>newtoken.
          bindE (deref (t_tokenid newtoken)) (\<lambda>tid.
          Inr (correctcoin\<lparr>c_tokenid := tid, c_token := Some newtoken\<rparr>)))))"

definition new_coin :: "crypto \<Rightarrow> txpow option \<Rightarrow> byte list \<Rightarrow> transaction \<Rightarrow> int \<Rightarrow> coin \<Rightarrow> (byte list \<times> coin) result" where
  "new_coin c blk basecoinid t num newoutput =
     bindE (calculateCoinID c basecoinid num) (\<lambda>coinid.
     bindE (getSameCoinWithCoinID c coinid newoutput) (\<lambda>copy. bindE (deref copy) (\<lambda>correctcoin.
     bindE (create_token c blk coinid newoutput
       (if c_storestate correctcoin then correctcoin\<lparr>c_state := tx_state t\<rparr> else correctcoin)) (\<lambda>co.
     Inr (coinid, co)))))"

fun new_coins :: "crypto \<Rightarrow> txpow option \<Rightarrow> byte list \<Rightarrow> transaction \<Rightarrow> int \<Rightarrow> coin list \<Rightarrow> txblock \<Rightarrow> txblock result" where
  "new_coins c blk basecoinid t num [] b = Inr b"
| "new_coins c blk basecoinid t num (newoutput # outputs) b =
     bindE (new_coin c blk basecoinid t num newoutput) (\<lambda>(coinid, co).
     new_coins c blk basecoinid t (num + 1) outputs
       (b\<lparr>bl_new := bl_new b @ [co],
          bl_removed := (if c_storestate co then bl_removed b
                         else (bl_removed b)(to0xString (md coinid) \<mapsto> tx_state t))\<rparr>))"

definition calculateCoins_txn :: "crypto \<Rightarrow> mmr list \<Rightarrow> transaction \<Rightarrow> witness \<Rightarrow> mmr \<times> txblock \<Rightarrow> (mmr \<times> txblock) result" where
  "calculateCoins_txn c ps t w s =
     (case s of (m, b) \<Rightarrow>
        bindE (spend_coins c ps (wt_coinproofs w) m) (\<lambda>(cps, m).
        bindE (new_coins c (bl_txpow b) (base_coinid t w m) t 0 (tx_outputs t) (b\<lparr>bl_spent := bl_spent b @ cps\<rparr>)) (\<lambda>b.
        Inr (m, b))))"

definition calculateCoins :: "crypto \<Rightarrow> mmr list \<Rightarrow> txpow \<Rightarrow> mmr \<times> txblock \<Rightarrow> (mmr \<times> txblock) result" where
  "calculateCoins c ps zTxPoW s =
     bindE (need_body zTxPoW) (\<lambda>body.
     bindE (calculateCoins_txn c ps (b_transaction body) (b_witness body) s) (\<lambda>s.
     calculateCoins_txn c ps (b_burntransaction body) (b_burnwitness body) s))"

fun block_txns :: "crypto \<Rightarrow> mmr list \<Rightarrow> txpow list \<Rightarrow> byte list list \<Rightarrow> mmr \<times> txblock \<Rightarrow> (mmr \<times> txblock) result" where
  "block_txns c ps zAllTrans [] s = Inr s"
| "block_txns c ps zAllTrans (txnid # txns) s =
     (case getTxpoWFromList txnid zAllTrans of
        None \<Rightarrow> Inl (Throw InvalidArgument)
      | Some txp \<Rightarrow> bindE (calculateCoins c ps txp s) (block_txns c ps zAllTrans txns))"

definition txblock_of :: "txpow option \<Rightarrow> mmr_entry list \<Rightarrow> txblock" where
  "txblock_of t peaks = \<lparr>bl_txpow = t, bl_peaks = peaks, bl_spent = [], bl_new = [], bl_removed = Map.empty\<rparr>"

definition txblock_new :: "penv \<Rightarrow> mmr list \<Rightarrow> mmr \<Rightarrow> txpow \<Rightarrow> txpow list \<Rightarrow> (txblock \<times> mmr) result" where
  "txblock_new e ps zParentMMR zTxPoW zAllTrans =
     bindE (txpow_deepCopy e zTxPoW) (\<lambda>copy.
     bindE (mmr_child (p_crypto e) zParentMMR) (\<lambda>(copymmr, parent).
     bindE (calculateCoins (p_crypto e) (parent # ps) zTxPoW (copymmr, txblock_of copy (getPeaks zParentMMR))) (\<lambda>s.
     bindE (block_txns (p_crypto e) (parent # ps) zAllTrans (getBlockTransactions zTxPoW) s) (\<lambda>(m, b).
     Inr (b, parent)))))"

definition txblock_test :: "penv \<Rightarrow> txpow \<Rightarrow> txblock result" where
  "txblock_test e zTxPoW = bindE (txpow_deepCopy e zTxPoW) (\<lambda>copy. Inr (txblock_of copy []))"

definition txblock_copy :: "penv \<Rightarrow> txblock \<Rightarrow> txblock result" where
  "txblock_copy e zOther =
     bindE (case bl_txpow zOther of None \<Rightarrow> Inr None | Some t \<Rightarrow> txpow_deepCopy e t) (\<lambda>copy.
     Inr (zOther\<lparr>bl_txpow := copy, bl_peaks := map e_copy (bl_peaks zOther)\<rparr>))"

definition removedState :: "string \<Rightarrow> txblock \<Rightarrow> state_variable list option" where
  "removedState zCoinID b = bl_removed b zCoinID"

definition txblock_writeDataStream :: "txblock \<Rightarrow> byte list result" where
  "txblock_writeDataStream b =
     bindE (getTxPoW b) (\<lambda>t. bindE (txpow_writeDataStream t) (\<lambda>tp.
     bindE (write_list e_writeDataStream (bl_peaks b)) (\<lambda>pk. bindE (write_list cp_writeDataStream (bl_spent b)) (\<lambda>sp.
     bindE (write_list coin_writeDataStream (bl_new b)) (\<lambda>nw. Inr (tp @ pk @ sp @ nw))))))"

text \<open>Here a coin proof that cannot be read is followed at once.\<close>

definition txblock_ReadFromStream :: "penv \<Rightarrow> txblock reader" where
  "txblock_ReadFromStream e inp =
     bindE (txpow_ReadFromStream e inp) (\<lambda>(t, inp). bindE (read_list e_readDataStream inp) (\<lambda>(pk, inp).
     bindE (read_list (cp_ReadFromStream (p_crypto e)) inp) (\<lambda>(sp, inp).
     bindE (read_list (coin_readDataStream (p_crypto e)) inp) (\<lambda>(nw, inp).
     Inr (\<lparr>bl_txpow = Some t, bl_peaks = pk, bl_spent = sp, bl_new = nw, bl_removed = Map.empty\<rparr>, inp)))))"

definition txblock_convertMiniDataVersion :: "penv \<Rightarrow> byte list \<Rightarrow> txblock option result" where
  "txblock_convertMiniDataVersion e zTxpData =
     (case txblock_ReadFromStream e zTxpData of
        Inr (b, rest) \<Rightarrow> Inr (Some b) | Inl (Throw ex) \<Rightarrow> Inr None | Inl er \<Rightarrow> Inl er)"

end
