(* ===== verification/TxBlockLaws.thy ===== *)
theory TxBlockLaws
  imports TxBlock
begin

text \<open>
  Laws of the blocks of \<open>TxBlock\<close>: their stream form, and what a block made on a parent holds, coin by coin.
\<close>

subsection \<open>The stream form\<close>

definition e_fits :: "mmr_entry \<Rightarrow> bool" where
  "e_fits x = (0 \<le> mRow x \<and> mRow x < 2 ^ 31 \<and> en_fits (mEntryNumber x) \<and> (\<exists>d. mMMRData x = Some d \<and> d_fits d))"

interpretation e_stream: fallible_stream e_writeDataStream e_readDataStream e_fits
proof
  fix x assume x: "e_fits x"
  then obtain d where d: "mMMRData x = Some d" "d_fits d" by (auto simp: e_fits_def)
  obtain n where n: "mn_of_int (mRow x) = Inr n" "mn_wf n" "getAsInt n = mRow x"
    using getAsInt_small [of "mRow x"] x by (auto simp: e_fits_def)
  have "carried (en_writeDataStream (mEntryNumber x)) en_readDataStream (mEntryNumber x)"
    using x by (intro en_stream.carried) (simp add: e_fits_def)
  moreover have "carried (d_writeDataStream d) d_readDataStream d" using d by (intro d_stream.carried)
  ultimately show "carried (e_writeDataStream x) e_readDataStream x"
    using d n mn_stream.roundtrip [OF n(2)]
    by (auto simp: e_writeDataStream_def e_readDataStream_def elim!: carriedE)
qed

interpretation entries_stream: fallible_stream "write_list e_writeDataStream" "read_list e_readDataStream"
    "\<lambda>xs. list_all e_fits xs \<and> list_fits xs"
  by (rule e_stream.list_stream)

interpretation proofs_stream: fallible_stream "write_list cp_writeDataStream" "read_list (cp_ReadFromStream c)"
    "\<lambda>xs. list_all (cp_fits c) xs \<and> list_fits xs" for c
  by (rule cp_read_stream.list_stream)

definition txblock_fits :: "penv \<Rightarrow> txblock \<Rightarrow> bool" where
  "txblock_fits e b = ((\<exists>t. bl_txpow b = Some t \<and> txpow_fits e t)
     \<and> list_all e_fits (bl_peaks b) \<and> list_fits (bl_peaks b)
     \<and> list_all (cp_fits (p_crypto e)) (bl_spent b) \<and> list_fits (bl_spent b)
     \<and> list_all (coin_fits (p_crypto e)) (bl_new b) \<and> list_fits (bl_new b) \<and> bl_removed b = Map.empty)"

interpretation txblock_stream: fallible_stream txblock_writeDataStream "txblock_ReadFromStream e" "txblock_fits e" for e
proof
  fix b assume b: "txblock_fits e b"
  then obtain t where t: "bl_txpow b = Some t" "txpow_fits e t" by (auto simp: txblock_fits_def)
  have "carried (txpow_writeDataStream t) (txpow_ReadFromStream e) t" using t by (intro txpow_stream.carried)
  moreover have "carried (write_list e_writeDataStream (bl_peaks b)) (read_list e_readDataStream) (bl_peaks b)"
    using b by (intro entries_stream.carried) (simp add: txblock_fits_def)
  moreover have "carried (write_list cp_writeDataStream (bl_spent b)) (read_list (cp_ReadFromStream (p_crypto e))) (bl_spent b)"
    using b by (intro proofs_stream.carried) (simp add: txblock_fits_def)
  moreover have "carried (write_list coin_writeDataStream (bl_new b)) (read_list (coin_readDataStream (p_crypto e))) (bl_new b)"
    using b by (intro coins_stream.carried) (simp add: txblock_fits_def)
  moreover have "bl_removed b = Map.empty" using b by (simp add: txblock_fits_def)
  ultimately show "carried (txblock_writeDataStream b) (txblock_ReadFromStream e) b"
    using t(1) by (cases b) (auto simp: txblock_writeDataStream_def txblock_ReadFromStream_def getTxPoW_def elim!: carriedE)
qed

lemma txblock_write_removed: "txblock_writeDataStream (b\<lparr>bl_removed := x\<rparr>) = txblock_writeDataStream b"
  by (simp add: txblock_writeDataStream_def getTxPoW_def)

subsection \<open>The coins of a block\<close>

lemma setEntry_time: "setEntry r n d m = Inr (x, m') \<Longrightarrow> mBlockTime m' = mBlockTime m"
  by (auto simp: setEntry_def Let_def split: if_splits)

lemma updateEntry_loop_time:
  "updateEntry_loop n c ps peaks pr i entry m = Inr m' \<Longrightarrow> mBlockTime m' = mBlockTime m"
  by (induction n c ps peaks pr i entry m rule: updateEntry_loop.induct)
    (auto simp: Let_def dest!: setEntry_time split: if_splits option.splits)

lemma updateEntry_time: "updateEntry c ps n pr d m = Inr m' \<Longrightarrow> mBlockTime m' = mBlockTime m"
  by (auto simp: updateEntry_def Let_def simp del: updateEntry_loop.simps dest!: setEntry_time updateEntry_loop_time)

lemma spend_coins_spent:
  "spend_coins c ps cs m = Inr (cps, m') \<Longrightarrow> map cp_coin cps = map cp_coin cs \<and> mBlockTime m' = mBlockTime m"
  by (induction cs arbitrary: m cps m') (fastforce simp: Let_def dest: updateEntry_time)+

text \<open>How a new coin relates to the output it is made from: only its identifier, state and token may differ.\<close>

definition made_from :: "crypto \<Rightarrow> mininumber \<Rightarrow> byte list \<Rightarrow> transaction \<Rightarrow> nat \<Rightarrow> coin \<Rightarrow> coin \<Rightarrow> bool" where
  "made_from c blocknum base t i out co =
     (calculateCoinID c base (int i) = Inr (c_coinid co) \<and> c_address co = c_address out \<and> c_amount co = c_amount out
      \<and> c_storestate co = c_storestate out \<and> c_state co = (if c_storestate out then tx_state t else c_state out)
      \<and> (if c_tokenid out = TOKENID_CREATE
         then \<exists>creator newtoken. c_token out = Some creator \<and> c_token co = Some newtoken
           \<and> token_new c (c_coinid co) (t_scale creator) (c_amount out) (t_name creator) (t_script creator) blocknum = Inr newtoken
           \<and> t_tokenid newtoken = Some (c_tokenid co)
         else c_tokenid co = c_tokenid out \<and> c_token co = c_token out))"

lemma deref_eq [simp]: "deref p = Inr x \<longleftrightarrow> p = Some x"
  by (cases p) (simp_all add: deref_def)

lemma deepCopy_fits: "coin_fits c co \<Longrightarrow> deepCopy c co = Inr (Some co)"
  using coin_stream.carried [of c co] by (auto simp: carried_def deepCopy_def dest: spec [of _ "[]"])

lemma new_coin_made:
  assumes "new_coin c (Some b) base t (int i) out = Inr (cid, co)" "coin_fits c out"
  shows "cid = c_coinid co \<and> made_from c (h_blocknumber (p_header b)) base t i out co"
proof -
  have copy: "getSameCoinWithCoinID c x out = Inr (Some (out\<lparr>c_coinid := x\<rparr>))" for x
    using deepCopy_fits [OF assms(2)] by (simp add: getSameCoinWithCoinID_def)
  show ?thesis
    using assms(1) by (auto simp: new_coin_def copy create_token_def made_from_def split: if_splits option.splits)
qed

fun made_all :: "crypto \<Rightarrow> mininumber \<Rightarrow> byte list \<Rightarrow> transaction \<Rightarrow> nat \<Rightarrow> coin list \<Rightarrow> coin list \<Rightarrow> bool" where
  "made_all c bn base t i [] ms = (ms = [])"
| "made_all c bn base t i (out # outs) ms =
     (case ms of [] \<Rightarrow> False | co # ms \<Rightarrow> made_from c bn base t i out co \<and> made_all c bn base t (Suc i) outs ms)"

lemma new_coins_made:
  assumes "new_coins c (Some t0) base t (int i) outs b = Inr b'" "list_all (coin_fits c) outs"
  shows "\<exists>ms. bl_new b' = bl_new b @ ms \<and> made_all c (h_blocknumber (p_header t0)) base t i outs ms
    \<and> bl_txpow b' = bl_txpow b \<and> bl_peaks b' = bl_peaks b \<and> bl_spent b' = bl_spent b"
  using assms
proof (induction outs arbitrary: i b)
  case (Cons out outs)
  then obtain cid co where co: "new_coin c (Some t0) base t (int i) out = Inr (cid, co)"
    and "\<exists>x y. new_coins c (Some t0) base t (int (Suc i)) outs (b\<lparr>bl_new := bl_new b @ [co], bl_removed := x\<rparr>) = Inr b'"
    by (auto simp: add.commute)
  then obtain x where "new_coins c (Some t0) base t (int (Suc i)) outs (b\<lparr>bl_new := bl_new b @ [co], bl_removed := x\<rparr>) = Inr b'"
    by auto
  from Cons.IH [OF this] Cons.prems(2) obtain ms where
    "bl_new b' = bl_new b @ co # ms" "made_all c (h_blocknumber (p_header t0)) base t (Suc i) outs ms"
    "bl_txpow b' = bl_txpow b" "bl_peaks b' = bl_peaks b" "bl_spent b' = bl_spent b" by auto
  moreover have "made_from c (h_blocknumber (p_header t0)) base t i out co"
    using new_coin_made [OF co] Cons.prems(2) by simp
  ultimately show ?case by (intro exI [of _ "co # ms"]) simp
qed simp

text \<open>The transactions of a block in the order of the code, and what their coins have to be.\<close>

definition txns_of :: "txpow \<Rightarrow> (transaction \<times> witness) list" where
  "txns_of p = (case p_body p of None \<Rightarrow> []
     | Some b \<Rightarrow> [(b_transaction b, b_witness b), (b_burntransaction b, b_burnwitness b)])"

definition listed_txns :: "txpow \<Rightarrow> txpow list \<Rightarrow> (transaction \<times> witness) list" where
  "listed_txns p zAllTrans =
     concat (map txns_of (p # map (\<lambda>i. the (getTxpoWFromList i zAllTrans)) (getBlockTransactions p)))"

definition base_at :: "mininumber \<Rightarrow> transaction \<Rightarrow> witness \<Rightarrow> byte list" where
  "base_at time t w = (if wt_coinproofs w = [] \<or> mn_isEqual time mn_ONE then tx_id t else c_coinid (cp_coin (hd (wt_coinproofs w))))"

fun made_txns :: "crypto \<Rightarrow> mininumber \<Rightarrow> mininumber \<Rightarrow> (transaction \<times> witness) list \<Rightarrow> coin list \<Rightarrow> bool" where
  "made_txns c bn time [] ms = (ms = [])"
| "made_txns c bn time ((t, w) # ts) ms =
     (made_all c bn (base_at time t w) t 0 (tx_outputs t) (take (length (tx_outputs t)) ms)
      \<and> made_txns c bn time ts (drop (length (tx_outputs t)) ms))"

definition spent_coins :: "(transaction \<times> witness) list \<Rightarrow> coin list" where
  "spent_coins ts = concat (map (\<lambda>(t, w). map cp_coin (wt_coinproofs w)) ts)"

lemma spent_coins_simps [simp]:
  "spent_coins [] = []" "spent_coins ((t, w) # ts) = map cp_coin (wt_coinproofs w) @ spent_coins ts"
  "spent_coins (ts @ us) = spent_coins ts @ spent_coins us"
  by (simp_all add: spent_coins_def)

lemma made_all_length: "made_all c bn base t i outs ms \<Longrightarrow> length ms = length outs"
  by (induction outs arbitrary: i ms) (auto split: list.splits)

lemma base_coinid_at: "base_coinid t w m = base_at (mBlockTime m) t w"
  by (cases "wt_coinproofs w") (simp_all add: base_coinid_def base_at_def)

text \<open>What a step of the construction on some transactions does to the block under construction.\<close>

definition adds :: "crypto \<Rightarrow> txpow \<Rightarrow> (transaction \<times> witness) list \<Rightarrow> mmr \<times> txblock \<Rightarrow> mmr \<times> txblock \<Rightarrow> bool" where
  "adds c t0 ts s s' =
     (\<exists>ms. bl_new (snd s') = bl_new (snd s) @ ms \<and> made_txns c (h_blocknumber (p_header t0)) (mBlockTime (fst s)) ts ms
      \<and> map cp_coin (bl_spent (snd s')) = map cp_coin (bl_spent (snd s)) @ spent_coins ts
      \<and> mBlockTime (fst s') = mBlockTime (fst s) \<and> bl_txpow (snd s') = bl_txpow (snd s) \<and> bl_peaks (snd s') = bl_peaks (snd s))"

lemma adds_refl: "adds c t0 [] s s"
  by (simp add: adds_def)

lemma made_txns_append:
  "made_txns c bn time ts ms \<Longrightarrow> made_txns c bn time us ns \<Longrightarrow> made_txns c bn time (ts @ us) (ms @ ns)"
proof (induction ts arbitrary: ms)
  case (Cons x ts)
  obtain t w where x: "x = (t, w)" by (cases x)
  have "length (tx_outputs t) \<le> length ms"
    using Cons.prems(1) made_all_length by (fastforce simp: x)
  then show ?case using Cons by (simp add: x)
qed simp

lemma adds_trans: "adds c t0 ts s s' \<Longrightarrow> adds c t0 us s' s'' \<Longrightarrow> adds c t0 (ts @ us) s s''"
  unfolding adds_def by (auto intro!: made_txns_append)

lemma calculateCoins_txn_adds:
  assumes "calculateCoins_txn c ps t w s = Inr s'" "bl_txpow (snd s) = Some t0" "list_all (coin_fits c) (tx_outputs t)"
  shows "adds c t0 [(t, w)] s s'"
proof -
  obtain m b where s: "s = (m, b)" by (cases s)
  obtain cps m1 b1 where st: "spend_coins c ps (wt_coinproofs w) m = Inr (cps, m1)"
    "new_coins c (Some t0) (base_coinid t w m1) t (int 0) (tx_outputs t) (b\<lparr>bl_spent := bl_spent b @ cps\<rparr>) = Inr b1"
    "s' = (m1, b1)"
    using assms(1,2) by (auto simp: calculateCoins_txn_def s)
  obtain ms where ms: "bl_new b1 = bl_new b @ ms"
    "made_all c (h_blocknumber (p_header t0)) (base_coinid t w m1) t 0 (tx_outputs t) ms"
    "bl_txpow b1 = bl_txpow b" "bl_peaks b1 = bl_peaks b" "bl_spent b1 = bl_spent b @ cps"
    using new_coins_made [OF st(2) assms(3)] by auto
  have "map cp_coin cps = map cp_coin (wt_coinproofs w)" "mBlockTime m1 = mBlockTime m"
    using spend_coins_spent [OF st(1)] by simp_all
  then show ?thesis
    using ms made_all_length [OF ms(2)]
    by (intro exI [of _ ms] | simp add: adds_def s st(3) base_coinid_at)+
qed

definition outputs_fit :: "crypto \<Rightarrow> txpow \<Rightarrow> bool" where
  "outputs_fit c p = list_all (\<lambda>(t, w). list_all (coin_fits c) (tx_outputs t)) (txns_of p)"

lemma calculateCoins_adds:
  assumes "calculateCoins c ps p s = Inr s'" "bl_txpow (snd s) = Some t0" "outputs_fit c p"
  shows "adds c t0 (txns_of p) s s'"
proof -
  obtain b s1 where b: "p_body p = Some b"
    and s1: "calculateCoins_txn c ps (b_transaction b) (b_witness b) s = Inr s1"
    and s2: "calculateCoins_txn c ps (b_burntransaction b) (b_burnwitness b) s1 = Inr s'"
    using assms(1) by (auto simp: calculateCoins_def need_body_def split: option.splits)
  have a: "adds c t0 [(b_transaction b, b_witness b)] s s1"
    using s1 assms(2,3) b by (intro calculateCoins_txn_adds) (simp_all add: outputs_fit_def txns_of_def)
  then have "bl_txpow (snd s1) = Some t0" using assms(2) by (auto simp: adds_def)
  then have "adds c t0 [(b_burntransaction b, b_burnwitness b)] s1 s'"
    using s2 assms(3) b by (intro calculateCoins_txn_adds) (simp_all add: outputs_fit_def txns_of_def)
  from adds_trans [OF a this] show ?thesis by (simp add: txns_of_def b)
qed

lemma block_txns_adds:
  assumes "block_txns c ps zAllTrans ids s = Inr s'" "bl_txpow (snd s) = Some t0" "list_all (outputs_fit c) zAllTrans"
  shows "adds c t0 (concat (map (\<lambda>i. txns_of (the (getTxpoWFromList i zAllTrans))) ids)) s s'"
  using assms
proof (induction ids arbitrary: s)
  case (Cons i ids)
  then obtain p s1 where p: "getTxpoWFromList i zAllTrans = Some p"
    and s1: "calculateCoins c ps p s = Inr s1" "block_txns c ps zAllTrans ids s1 = Inr s'"
    by (auto split: option.splits)
  have "outputs_fit c p"
    using p Cons.prems(3) by (auto simp: getTxpoWFromList_def find_Some_iff list_all_length)
  then have a: "adds c t0 (txns_of p) s s1" using s1 Cons.prems(2) by (intro calculateCoins_adds)
  then have "bl_txpow (snd s1) = Some t0" using Cons.prems(2) by (auto simp: adds_def)
  from adds_trans [OF a Cons.IH [OF s1(2) this Cons.prems(3)]] show ?case by (simp add: p)
qed (simp add: adds_refl)

lemma copy_peaks_time: "copy_peaks es tot m = Inr (tot', m') \<Longrightarrow> mBlockTime m' = mBlockTime m"
  by (induction es arbitrary: tot m) (fastforce dest: setEntry_time)+

lemma mmr_child_time:
  "mmr_child c m = Inr (m', parent) \<Longrightarrow> mn_add (mBlockTime m) mn_ONE = Inr (mBlockTime m') \<and> mFinalized parent"
  by (auto simp: mmr_child_def finalizeSet_def Let_def dest!: copy_peaks_time split: if_splits)

subsection \<open>Properties\<close>

text \<open>A block whose parts fit their formats is written to a stream from which the same block is read back with
  the following bytes untouched; only the removed states, which are for notifications of the node that
  made the block, are lost. Two such blocks with the same stream form agree in everything else.\<close>

theorem txblock_stream_roundtrip:
  assumes "txblock_fits e (b\<lparr>bl_removed := Map.empty\<rparr>)" "txblock_fits e (b'\<lparr>bl_removed := Map.empty\<rparr>)"
  shows "(\<exists>bs. txblock_writeDataStream b = Inr bs
      \<and> (\<forall>rest. txblock_ReadFromStream e (bs @ rest) = Inr (b\<lparr>bl_removed := Map.empty\<rparr>, rest)))
    \<and> (txblock_writeDataStream b = txblock_writeDataStream b' \<longleftrightarrow> b\<lparr>bl_removed := Map.empty\<rparr> = b'\<lparr>bl_removed := Map.empty\<rparr>)"
  using txblock_stream.carried [OF assms(1)] txblock_stream.injective [OF assms]
  by (simp add: txblock_write_removed) (auto elim: carriedE)

lemma fits_outputs: "txpow_fits e p \<Longrightarrow> outputs_fit (p_crypto e) p"
  by (auto simp: txpow_fits_def outputs_fit_def txns_of_def body_fits_def tx_fits_def split: option.splits)

lemma fits_deepCopy: "txpow_fits e p \<Longrightarrow> txpow_deepCopy e p = Inr (Some p)"
proof -
  assume "txpow_fits e p"
  then obtain bs where "txpow_writeDataStream p = Inr bs" "txpow_ReadFromStream e (bs @ []) = Inr (p, [])"
    using txpow_stream.carried [of e p] by (auto simp only: carried_def)
  then show ?thesis by (simp add: txpow_deepCopy_def txpow_convertMiniDataVersion_def)
qed

text \<open>C29 A block made on a parent MMR from a TxPoW and the transactions it lists holds the peaks of the parent, a copy
  of the TxPoW, the coins its transactions spend, in their order, and one new coin for every output of these
  transactions, in their order: with the identifier the base coin and the position of the output give,
  the address and the amount of the output, the transaction's state when the output keeps state, and with the
  output's token, or a new token of that identifier when the output creates one.\<close>

theorem txblock_coins:
  assumes "txpow_fits e p" "list_all (txpow_fits e) zAllTrans" "txblock_new e ps m p zAllTrans = Inr (b, parent)"
  shows "bl_txpow b = Some p \<and> bl_peaks b = getPeaks m \<and> mFinalized parent
    \<and> map cp_coin (bl_spent b) = spent_coins (listed_txns p zAllTrans)
    \<and> (\<exists>time. mn_add (mBlockTime m) mn_ONE = Inr time
        \<and> made_txns (p_crypto e) (h_blocknumber (p_header p)) time (listed_txns p zAllTrans) (bl_new b))"
proof -
  obtain m1 s1 m2 where st: "mmr_child (p_crypto e) m = Inr (m1, parent)"
    "calculateCoins (p_crypto e) (parent # ps) p (m1, txblock_of (Some p) (getPeaks m)) = Inr s1"
    "block_txns (p_crypto e) (parent # ps) zAllTrans (getBlockTransactions p) s1 = Inr (m2, b)"
    using assms(3) by (auto simp: txblock_new_def fits_deepCopy [OF assms(1)])
  have a1: "adds (p_crypto e) p (txns_of p) (m1, txblock_of (Some p) (getPeaks m)) s1"
    using st(2) assms(1) by (intro calculateCoins_adds) (simp_all add: txblock_of_def fits_outputs)
  then have "bl_txpow (snd s1) = Some p" by (simp add: adds_def txblock_of_def)
  moreover have "list_all (outputs_fit (p_crypto e)) zAllTrans"
    using assms(2) by (simp add: list_all_iff fits_outputs)
  ultimately have "adds (p_crypto e) p (concat (map (\<lambda>i. txns_of (the (getTxpoWFromList i zAllTrans))) (getBlockTransactions p)))
      s1 (m2, b)"
    using st(3) by (intro block_txns_adds)
  from adds_trans [OF a1 this]
  have "adds (p_crypto e) p (listed_txns p zAllTrans) (m1, txblock_of (Some p) (getPeaks m)) (m2, b)"
    by (simp add: listed_txns_def comp_def)
  then show ?thesis using mmr_child_time [OF st(1)] by (simp add: adds_def txblock_of_def)
qed

definition sample_mint :: txpow where
  "sample_mint = (txpow_new mn_ONE [])\<lparr>p_body := Some (sample_body\<lparr>b_txpowids := [],
     b_transaction := tx_new\<lparr>tx_id := [1], tx_outputs := [coin_new [5] [7] mn_ONE TOKENID_MINIMA False]\<rparr>\<rparr>)\<rparr>"

lemma sample_mint_fits: "body_fits (p_crypto sample_penv) (the (p_body sample_mint))"
proof -
  have "tx_fits (p_crypto sample_penv) (tx_new\<lparr>tx_id := [1], tx_outputs := [coin_new [5] [7] mn_ONE TOKENID_MINIMA False]\<rparr>)"
    by code_simp
  then show ?thesis using sample_body_fits by (simp add: sample_mint_def body_fits_def)
qed

lemma sample_mint_calculated:
  "\<exists>p. calculateTXPOWID sample_penv sample_mint = Inr p \<and> txpow_fits sample_penv p"
proof (rule calculated_fits)
  show "header_fits (p_header sample_mint)" using sample_header_fits by (simp add: sample_mint_def sample_txpow_def)
qed (use sample_mint_fits in \<open>simp add: sample_mint_def\<close>)

lemma fits_ids: "body_fits c b \<Longrightarrow> calculate_ids c b = Inr b"
  by (simp add: body_fits_def tx_fits_def calculate_ids_def)

lemma sample_mint_made:
  "\<exists>p b parent. txpow_fits sample_penv p \<and> txblock_new sample_penv [] mmr_new p [] = Inr (b, parent)
     \<and> p_body p = p_body sample_mint"
proof -
  define c where "c = p_crypto sample_penv"
  obtain p where p: "calculateTXPOWID sample_penv sample_mint = Inr p" "txpow_fits sample_penv p"
    using sample_mint_calculated by blast
  have b: "p_body p = p_body sample_mint"
  proof -
    obtain hash body istxn where "body_ids (p_crypto sample_penv) (md hash) (p_body sample_mint) = Inr (body, istxn)" "p_body p = body"
      by (rule calculateTXPOWID_E [OF p(1)])
    then show ?thesis using fits_ids [OF sample_mint_fits] by (auto simp: body_ids_def sample_mint_def)
  qed
  define out where "out = coin_new [5] [7] mn_ONE TOKENID_MINIMA False"
  have "coin_fits c out" unfolding c_def out_def by code_simp
  then have same: "getSameCoinWithCoinID c x out = Inr (Some (out\<lparr>c_coinid := x\<rparr>))" for x
    by (simp add: getSameCoinWithCoinID_def deepCopy_fits)
  have "\<not> isl (calculateCoinID c [1] 0)" unfolding c_def by code_simp
  then have id: "\<exists>i. calculateCoinID c [1] 0 = Inr i" by (cases "calculateCoinID c [1] 0") auto
  have "\<not> isl (mmr_child c mmr_new)" unfolding c_def by code_simp
  then obtain m1 parent where m1: "mmr_child c mmr_new = Inr (m1, parent)" by (cases "mmr_child c mmr_new") auto
  have tid: "c_tokenid (out\<lparr>c_coinid := i\<rparr>) \<noteq> TOKENID_CREATE" "c_tokenid out \<noteq> TOKENID_CREATE" for i
    by (simp_all add: out_def coin_new_def TOKENID_MINIMA_def TOKENID_CREATE_def)
  have "\<exists>b. txblock_new sample_penv [] mmr_new p [] = Inr (b, parent)"
    using id m1 same tid
    by (auto simp: txblock_new_def fits_deepCopy [OF p(2)] b sample_mint_def sample_body_def body_new_def need_body_def
        calculateCoins_def calculateCoins_txn_def getBlockTransactions_def witness_new_def base_coinid_def tx_new_def
        out_def [symmetric] c_def [symmetric] new_coin_def create_token_def)
  then show ?thesis using p(2) b by blast
qed

theorem txblock_coins_witness:
  "\<exists>p b parent. txblock_new sample_penv [] mmr_new p [] = Inr (b, parent) \<and> bl_txpow b = Some p
     \<and> map c_amount (bl_new b) = [mn_ONE]"
proof -
  obtain p b parent where p: "txpow_fits sample_penv p" "txblock_new sample_penv [] mmr_new p [] = Inr (b, parent)"
    "p_body p = p_body sample_mint"
    using sample_mint_made by blast
  have l: "listed_txns p [] = [(tx_new\<lparr>tx_id := [1], tx_outputs := [coin_new [5] [7] mn_ONE TOKENID_MINIMA False]\<rparr>, witness_new),
      (tx_new\<lparr>tx_id := [1]\<rparr>, witness_new)]"
    by (simp add: listed_txns_def txns_of_def getBlockTransactions_def p(3) sample_mint_def sample_body_def body_new_def)
  from txblock_coins [OF p(1) _ p(2)] show ?thesis
    using p by (fastforce simp: l made_from_def coin_new_def tx_new_def split: list.splits)
qed

definition sample_block :: txblock where
  "sample_block = \<lparr>bl_txpow = None, bl_peaks = [full_entry 3 (en 2) (mmr_data [9] mn_ONE)], bl_spent = [],
     bl_new = [coin_new [5] [7] mn_ONE TOKENID_MINIMA False], bl_removed = [''0x05'' \<mapsto> []]\<rparr>"

theorem txblock_stream_roundtrip_witness:
  "\<exists>p bs. txblock_writeDataStream (sample_block\<lparr>bl_txpow := Some p\<rparr>) = Inr bs
     \<and> txblock_ReadFromStream sample_penv bs = Inr (sample_block\<lparr>bl_txpow := Some p, bl_removed := Map.empty\<rparr>, [])"
proof -
  obtain p where p: "txpow_fits sample_penv p" using sample_calculated by blast
  have "list_all e_fits (bl_peaks sample_block)" "list_all (coin_fits (p_crypto sample_penv)) (bl_new sample_block)"
    by (simp_all add: sample_block_def e_fits_def full_entry_def en_fits_def d_fits_def mmr_data_def d_Clone_def constant_wf) code_simp
  then have "txblock_fits sample_penv ((sample_block\<lparr>bl_txpow := Some p\<rparr>)\<lparr>bl_removed := Map.empty\<rparr>)"
    using p by (simp add: txblock_fits_def sample_block_def)
  from txblock_stream_roundtrip [OF this this] show ?thesis by (metis append_Nil2)
qed

end
