(* ===== verification/TxPowTree.thy ===== *)
theory TxPowTree
  imports TxBlockLaws
begin

text \<open>
  The tree of recent blocks: \<open>tx_po_w_tree_node.cpp\<close> and \<open>tx_pow_tree.cpp\<close> under \<open>src/org/minima/database/txpowtree\<close>.
  Nodes are shared objects; the model has them in a store from addresses to nodes. A node owns its children and
  knows its parent weakly, so that the nodes below a root that is held are all alive. What a node asks of the
  wallet is an argument, absent when relevant coins are not looked for. Notifications, log lines, the printed
  tree and loading from the database are left out.
\<close>

subsection \<open>Nodes\<close>

record wallet =
  isAddressRelevant :: "string \<Rightarrow> bool"
  isKeyRelevant :: "string \<Rightarrow> bool"

record tnode =
  tn_block :: txblock
  tn_parent :: "nat option"
  tn_children :: "nat list"
  tn_weight :: mininumber
  tn_mmr :: mmr
  tn_mmrparent :: "nat option"
  tn_coins :: "coin list"
  tn_relevant :: "entry_number list"
  tn_computed :: "coin list"
  tn_full :: bool

type_synonym tstore = "nat \<Rightarrow> tnode option"

definition checkRelevant :: "wallet option \<Rightarrow> coin \<Rightarrow> bool" where
  "checkRelevant zWallet co =
     (case zWallet of None \<Rightarrow> False
      | Some w \<Rightarrow> isAddressRelevant w (to0xString (md (c_address co)))
          \<or> list_ex (\<lambda>sv. sv_type sv = STATETYPE_HEX
              \<and> (isAddressRelevant w (sv_data sv) \<or> isKeyRelevant w (sv_data sv))) (c_state co))"

fun set_peaks :: "mmr_entry list \<Rightarrow> mmr \<Rightarrow> mmr result" where
  "set_peaks [] m = Inr m"
| "set_peaks (p # ps) m =
     (case mMMRData p of None \<Rightarrow> set_peaks ps m
      | Some d \<Rightarrow> bindE (setEntry (mRow p) (mEntryNumber p) d m) (\<lambda>(x, m). set_peaks ps m))"

text \<open>The loops of \<open>constructMMR\<close>: the MMR, the coins of the block and the relevant entries so far.\<close>

type_synonym coins_state = "mmr \<times> coin list \<times> entry_number list"

definition mark_spent :: "crypto \<Rightarrow> coin \<Rightarrow> coin result" where
  "mark_spent c co = bindE (deepCopy c co) (\<lambda>spc. bindE (deref spc) (\<lambda>spentcoin.
     Inr (spentcoin\<lparr>c_spent := mb_of_bool True\<rparr>)))"

fun spend_inputs :: "crypto \<Rightarrow> wallet option \<Rightarrow> coin_proof list \<Rightarrow> coins_state \<Rightarrow> coins_state result" where
  "spend_inputs c wl [] s = Inr s"
| "spend_inputs c wl (cp # cps) (m, cs, rel) =
     (let entrynumber = c_entry (cp_coin cp) in
      bindE (mark_spent c (cp_coin cp)) (\<lambda>spentcoin.
      bindE (CreateMMRDataLeafNode c (coin_writeDataStream spentcoin) mn_ZERO) (\<lambda>d.
      bindE (updateEntry c [] entrynumber (cp_proof cp) d m) (\<lambda>m.
      spend_inputs c wl cps (m, cs @ [spentcoin], if checkRelevant wl spentcoin then rel @ [entrynumber] else rel)))))"

definition mark_new :: "crypto \<Rightarrow> mininumber \<Rightarrow> entry_number \<Rightarrow> coin \<Rightarrow> coin result" where
  "mark_new c block entrynumber output = bindE (deepCopy c output) (\<lambda>nc. bindE (deref nc) (\<lambda>newcoin.
     Inr (newcoin\<lparr>c_entry := entrynumber, c_created := block, c_spent := mb_of_bool False\<rparr>)))"

fun add_outputs :: "crypto \<Rightarrow> wallet option \<Rightarrow> mininumber \<Rightarrow> coin list \<Rightarrow> coins_state \<Rightarrow> coins_state result" where
  "add_outputs c wl block [] s = Inr s"
| "add_outputs c wl block (output # outputs) (m, cs, rel) =
     (let entrynumber = mEntryCount m in
      bindE (mark_new c block entrynumber output) (\<lambda>newcoin.
      bindE (CreateMMRDataLeafNode c (coin_writeDataStream newcoin) (c_amount output)) (\<lambda>d.
      bindE (addEntry c [] d m) (\<lambda>(x, m).
      add_outputs c wl block outputs
        (m, cs @ [newcoin], if checkRelevant wl output then rel @ [entrynumber] else rel)))))"

fun copy_coins :: "crypto \<Rightarrow> coin list \<Rightarrow> coin list result" where
  "copy_coins c [] = Inr []"
| "copy_coins c (co # cs) =
     bindE (deepCopy c co) (\<lambda>cp. bindE (deref cp) (\<lambda>x. bindE (copy_coins c cs) (\<lambda>xs. Inr (x # xs))))"

definition calculateRelevantCoins :: "crypto \<Rightarrow> coin list \<Rightarrow> entry_number list \<Rightarrow> coin list result" where
  "calculateRelevantCoins c cs rel = copy_coins c (filter (\<lambda>co. list_ex (en_isEqual (c_entry co)) rel) cs)"

definition constructMMR :: "crypto \<Rightarrow> wallet option \<Rightarrow> txblock \<Rightarrow> coins_state result" where
  "constructMMR c wl b =
     bindE (getTxPoW b) (\<lambda>t. let block = h_blocknumber (p_header t) in
     bindE (set_peaks (bl_peaks b) (mmr_new\<lparr>mBlockTime := block\<rparr>)) (\<lambda>m.
     bindE (calculateEntryNumberFromPeaks m) (\<lambda>m.
     bindE (spend_inputs c wl (bl_spent b) (m, [], [])) (\<lambda>s.
     bindE (add_outputs c wl block (bl_new b) s) (\<lambda>(m, cs, rel).
     bindE (finalizeSet c m) (\<lambda>m. Inr (m, cs, rel)))))))"

definition tnode_new :: "crypto \<Rightarrow> wallet option \<Rightarrow> txblock \<Rightarrow> tnode result" where
  "tnode_new c wl b =
     bindE (constructMMR c wl b) (\<lambda>(m, cs, rel).
     bindE (if wl = None then Inr [] else calculateRelevantCoins c cs rel) (\<lambda>computed.
     Inr \<lparr>tn_block = b, tn_parent = None, tn_children = [], tn_weight = mn_ZERO, tn_mmr = m, tn_mmrparent = None,
       tn_coins = cs, tn_relevant = rel, tn_computed = computed, tn_full = False\<rparr>))"

definition tn_getTxPoW :: "tnode \<Rightarrow> txpow result" where
  "tn_getTxPoW nd = getTxPoW (tn_block nd)"

definition getBlockNumber :: "tnode \<Rightarrow> mininumber result" where
  "getBlockNumber nd = bindE (tn_getTxPoW nd) (\<lambda>t. Inr (h_blocknumber (p_header t)))"

definition isRelevantEntry :: "entry_number \<Rightarrow> tnode \<Rightarrow> bool" where
  "isRelevantEntry n nd = list_ex (\<lambda>x. en_isEqual x n) (tn_relevant nd)"

definition addRelevantCoin :: "entry_number \<Rightarrow> tnode \<Rightarrow> tnode" where
  "addRelevantCoin n nd = (if isRelevantEntry n nd then nd else nd\<lparr>tn_relevant := tn_relevant nd @ [n]\<rparr>)"

definition removeRelevantCoin :: "entry_number \<Rightarrow> tnode \<Rightarrow> tnode" where
  "removeRelevantCoin n nd = nd\<lparr>tn_relevant := filter (\<lambda>x. \<not> en_isEqual x n) (tn_relevant nd)\<rparr>"

definition checkFullTxns :: "(string \<Rightarrow> bool) \<Rightarrow> tnode \<Rightarrow> (bool \<times> tnode) result" where
  "checkFullTxns exists nd =
     (if tn_full nd then Inr (True, nd)
      else bindE (tn_getTxPoW nd) (\<lambda>t.
        if list_all (\<lambda>txn. exists (to0xString (md txn))) (getBlockTransactions t)
        then Inr (True, nd\<lparr>tn_full := True\<rparr>) else Inr (False, nd)))"

text \<open>The stream form of a node; the entries of its MMR come in the order of the hash map, an argument.\<close>

definition tnode_writeDataStream :: "mmr_entry list \<Rightarrow> tnode \<Rightarrow> byte list result" where
  "tnode_writeDataStream es nd =
     bindE (txblock_writeDataStream (tn_block nd)) (\<lambda>b. bindE (mmr_writeDataStream es (tn_mmr nd)) (\<lambda>m.
     bindE (write_list coin_writeDataStream (tn_coins nd)) (\<lambda>cs. bindE (write_list en_writeDataStream (tn_relevant nd)) (\<lambda>rel.
     Inr (b @ m @ cs @ rel)))))"

text \<open>A list whose length is not checked: a negative one is empty.\<close>

definition read_loop :: "'a reader \<Rightarrow> 'a list reader" where
  "read_loop rd inp = bindE (mn_readDataStream inp) (\<lambda>(n, inp). read_many rd (nat (getAsInt n)) inp)"

definition tnode_ReadFromStream :: "penv \<Rightarrow> tnode reader" where
  "tnode_ReadFromStream e inp =
     bindE (txblock_ReadFromStream e inp) (\<lambda>(b, inp). bindE (mmr_readDataStream (p_crypto e) inp) (\<lambda>(m, inp).
     bindE (read_loop (coin_readDataStream (p_crypto e)) inp) (\<lambda>(cs, inp). bindE (read_loop en_readDataStream inp) (\<lambda>(rel, inp).
     bindE (calculateRelevantCoins (p_crypto e) cs rel) (\<lambda>computed.
     Inr (\<lparr>tn_block = b, tn_parent = None, tn_children = [], tn_weight = mn_ZERO, tn_mmr = m, tn_mmrparent = None,
       tn_coins = cs, tn_relevant = rel, tn_computed = computed, tn_full = False\<rparr>, inp))))))"

subsection \<open>Links between nodes\<close>

definition deref_tnode :: "tstore \<Rightarrow> nat \<Rightarrow> tnode result" where
  "deref_tnode h a = (case h a of None \<Rightarrow> Inl Undef | Some nd \<Rightarrow> Inr nd)"

definition update_tnode :: "nat \<Rightarrow> (tnode \<Rightarrow> tnode) \<Rightarrow> tstore \<Rightarrow> tstore result" where
  "update_tnode a f h = bindE (deref_tnode h a) (\<lambda>nd. Inr (h(a \<mapsto> f nd)))"

definition addChildNode :: "nat \<Rightarrow> nat \<Rightarrow> tstore \<Rightarrow> tstore result" where
  "addChildNode a zNode h =
     bindE (update_tnode zNode (\<lambda>x. x\<lparr>tn_parent := Some a, tn_mmrparent := Some a\<rparr>) h) (\<lambda>h.
     update_tnode a (\<lambda>x. x\<lparr>tn_children := tn_children x @ [zNode]\<rparr>) h)"

definition clearParent :: "nat \<Rightarrow> tstore \<Rightarrow> tstore result" where
  "clearParent a h = update_tnode a (\<lambda>x. x\<lparr>tn_parent := None, tn_mmrparent := None\<rparr>) h"

text \<open>The parent of a node that is alive; the parents up from a node, for as many steps as the fuel.\<close>

definition getParent :: "tstore \<Rightarrow> tnode \<Rightarrow> nat option" where
  "getParent h nd = (case tn_parent nd of None \<Rightarrow> None | Some a \<Rightarrow> if h a = None then None else Some a)"

fun ancestors :: "tstore \<Rightarrow> nat \<Rightarrow> nat option \<Rightarrow> nat list result" where
  "ancestors h n None = Inr []"
| "ancestors h 0 (Some a) = Inl NoFuel"
| "ancestors h (Suc n) (Some a) =
     bindE (deref_tnode h a) (\<lambda>nd. bindE (ancestors h n (getParent h nd)) (\<lambda>as. Inr (a # as)))"

fun parent_steps :: "tstore \<Rightarrow> nat \<Rightarrow> nat \<Rightarrow> nat result" where
  "parent_steps h 0 a = Inr a"
| "parent_steps h (Suc k) a =
     bindE (deref_tnode h a) (\<lambda>nd. case getParent h nd of None \<Rightarrow> Inr a | Some b \<Rightarrow> parent_steps h k b)"

definition getParent_n :: "tstore \<Rightarrow> int \<Rightarrow> nat \<Rightarrow> nat result" where
  "getParent_n h zBlocks a = parent_steps h (nat zBlocks) a"

fun past_node :: "tstore \<Rightarrow> mininumber \<Rightarrow> nat list \<Rightarrow> nat option result" where
  "past_node h zBlockNumber [] = Inr None"
| "past_node h zBlockNumber (a # as) =
     bindE (deref_tnode h a) (\<lambda>nd. bindE (getBlockNumber nd) (\<lambda>b.
     if mn_isEqual b zBlockNumber then Inr (Some a) else past_node h zBlockNumber as))"

text \<open>The sets below the MMR of a node, following its parent pointers.\<close>

fun mmr_parents :: "tstore \<Rightarrow> nat \<Rightarrow> nat option \<Rightarrow> mmr list result" where
  "mmr_parents h n None = Inr []"
| "mmr_parents h 0 (Some a) = Inl NoFuel"
| "mmr_parents h (Suc n) (Some a) =
     bindE (deref_tnode h a) (\<lambda>nd. bindE (mmr_parents h n (tn_mmrparent nd)) (\<lambda>ms. Inr (tn_mmr nd # ms)))"

subsection \<open>The tree\<close>

record txtree =
  tr_store :: tstore
  tr_next :: nat
  tr_root :: "nat option"
  tr_tip :: "nat option"
  tr_length :: int
  tr_total :: int
  tr_links :: "(string \<times> nat) list"
  tr_pulse :: "minidata list"

definition txtree_new :: txtree where
  "txtree_new = \<lparr>tr_store = Map.empty, tr_next = 0, tr_root = None, tr_tip = None, tr_length = 0, tr_total = 0,
     tr_links = [], tr_pulse = []\<rparr>"

text \<open>The hash map of the nodes by identifier; the order in which it yields them is left open by the code, here it is
  the order of the first insertions.\<close>

definition put_link :: "string \<Rightarrow> nat \<Rightarrow> (string \<times> nat) list \<Rightarrow> (string \<times> nat) list" where
  "put_link k a lks = (if k \<in> fst ` set lks then map (\<lambda>(x, b). if x = k then (x, a) else (x, b)) lks else lks @ [(k, a)])"

definition findNode :: "string \<Rightarrow> txtree \<Rightarrow> nat option" where
  "findNode zTxPoWID t = map_of (tr_links t) zTxPoWID"

definition addFastLink :: "nat \<Rightarrow> txtree \<Rightarrow> txtree result" where
  "addFastLink a t =
     bindE (deref_tnode (tr_store t) a) (\<lambda>nd. bindE (tn_getTxPoW nd) (\<lambda>p.
     Inr (t\<lparr>tr_links := put_link (mTxPOWIDStr p) a (tr_links t)\<rparr>)))"

text \<open>The traversal with a stack gives the nodes in the order in which it acts on them; the children of a node are
  pushed in their order, so that the last is visited first.\<close>

fun traverseTree :: "nat \<Rightarrow> tstore \<Rightarrow> nat list \<Rightarrow> nat list result" where
  "traverseTree n h [] = Inr []"
| "traverseTree 0 h (a # stack) = Inl NoFuel"
| "traverseTree (Suc n) h (a # stack) =
     bindE (deref_tnode h a) (\<lambda>nd. bindE (traverseTree n h (rev (tn_children nd) @ stack)) (\<lambda>as. Inr (a # as)))"

text \<open>The action that resets the weights and the links.\<close>

fun reset_nodes :: "nat list \<Rightarrow> tstore \<times> (string \<times> nat) list \<Rightarrow> (tstore \<times> (string \<times> nat) list) result" where
  "reset_nodes [] s = Inr s"
| "reset_nodes (a # as) (h, lks) =
     bindE (deref_tnode h a) (\<lambda>nd. bindE (tn_getTxPoW nd) (\<lambda>p. bindE (mn_of_string (mBlockWeight p)) (\<lambda>w.
     reset_nodes as (h(a \<mapsto> nd\<lparr>tn_weight := w\<rparr>), put_link (mTxPOWIDStr p) a lks))))"

text \<open>\<open>std::sort\<close> with the comparison of the code, in a stable order of equal block numbers.\<close>

fun block_numbers :: "tstore \<Rightarrow> nat list \<Rightarrow> (nat \<times> mininumber) list result" where
  "block_numbers h [] = Inr []"
| "block_numbers h (a # as) =
     bindE (deref_tnode h a) (\<lambda>nd. bindE (getBlockNumber nd) (\<lambda>b. bindE (block_numbers h as) (\<lambda>bs. Inr ((a, b) # bs))))"

definition comes_before :: "nat \<times> mininumber \<Rightarrow> nat \<times> mininumber \<Rightarrow> bool" where
  "comes_before x y = (mn_compareTo (snd y) (snd x) > 0)"

fun insert_sorted :: "('a \<Rightarrow> 'a \<Rightarrow> bool) \<Rightarrow> 'a \<Rightarrow> 'a list \<Rightarrow> 'a list" where
  "insert_sorted before x [] = [x]"
| "insert_sorted before x (y # ys) = (if before y x then y # insert_sorted before x ys else x # y # ys)"

definition sort_by :: "('a \<Rightarrow> 'a \<Rightarrow> bool) \<Rightarrow> 'a list \<Rightarrow> 'a list" where
  "sort_by before xs = foldr (insert_sorted before) xs []"

definition sort_nodes :: "tstore \<Rightarrow> nat list \<Rightarrow> nat list result" where
  "sort_nodes h as = bindE (block_numbers h as) (\<lambda>bs. Inr (map fst (sort_by comes_before bs)))"

fun add_child_weights :: "nat \<Rightarrow> nat list \<Rightarrow> tstore \<Rightarrow> tstore result" where
  "add_child_weights a [] h = Inr h"
| "add_child_weights a (ch # chs) h =
     bindE (deref_tnode h a) (\<lambda>nd. bindE (deref_tnode h ch) (\<lambda>cnd.
     bindE (mn_add (tn_weight nd) (tn_weight cnd)) (\<lambda>w.
     add_child_weights a chs (h(a \<mapsto> nd\<lparr>tn_weight := w\<rparr>)))))"

fun add_weights_in :: "nat list \<Rightarrow> tstore \<Rightarrow> tstore result" where
  "add_weights_in [] h = Inr h"
| "add_weights_in (a # as) h =
     bindE (deref_tnode h a) (\<lambda>nd. bindE (add_child_weights a (tn_children nd) h) (add_weights_in as))"

fun heaviest :: "tstore \<Rightarrow> nat \<Rightarrow> nat list \<Rightarrow> nat result" where
  "heaviest h best [] = Inr best"
| "heaviest h best (ch # chs) =
     bindE (deref_tnode h ch) (\<lambda>cnd. bindE (deref_tnode h best) (\<lambda>bnd.
     heaviest h (if mn_compareTo (tn_weight cnd) (tn_weight bnd) > 0 then ch else best) chs))"

fun find_tip :: "nat \<Rightarrow> tstore \<Rightarrow> nat \<Rightarrow> int \<Rightarrow> (nat \<times> int) result" where
  "find_tip 0 h tip len = Inl NoFuel"
| "find_tip (Suc n) h tip len =
     bindE (deref_tnode h tip) (\<lambda>nd.
       case tn_children nd of [] \<Rightarrow> Inr (tip, len + 1)
       | ch # chs \<Rightarrow> bindE (heaviest h ch chs) (\<lambda>best.
           if best = tip then Inr (tip, len + 1) else find_tip n h best (len + 1)))"

fun node_ids :: "tstore \<Rightarrow> nat list \<Rightarrow> minidata list result" where
  "node_ids h [] = Inr []"
| "node_ids h (a # as) =
     bindE (deref_tnode h a) (\<lambda>nd. bindE (tn_getTxPoW nd) (\<lambda>p. bindE (node_ids h as) (\<lambda>ids. Inr (mTxPOWID p # ids))))"

definition getHeaviestBranch :: "txtree \<Rightarrow> nat list result" where
  "getHeaviestBranch t = ancestors (tr_store t) (tr_next t) (tr_tip t)"

definition calculatePulseList :: "txtree \<Rightarrow> txtree result" where
  "calculatePulseList t =
     bindE (getHeaviestBranch t) (\<lambda>as. bindE (node_ids (tr_store t) (take 512 as)) (\<lambda>ids. Inr (t\<lparr>tr_pulse := ids\<rparr>)))"

text \<open>The tree that is traversed has at most as many nodes as were ever made, which bounds the rounds of all these
  loops.\<close>

definition recalculateTree :: "txtree \<Rightarrow> txtree result" where
  "recalculateTree t =
     (case tr_root t of
        None \<Rightarrow> calculatePulseList (t\<lparr>tr_links := [], tr_total := 0, tr_tip := None, tr_length := 0\<rparr>)
      | Some rt \<Rightarrow>
          bindE (traverseTree (tr_next t) (tr_store t) [rt]) (\<lambda>allnodes.
          bindE (reset_nodes allnodes (tr_store t, [])) (\<lambda>(h, lks).
          bindE (sort_nodes h allnodes) (\<lambda>sorted. bindE (add_weights_in sorted h) (\<lambda>h.
          bindE (find_tip (tr_next t) h rt 0) (\<lambda>(tip, len).
          calculatePulseList (t\<lparr>tr_store := h, tr_links := lks, tr_total := int (length lks), tr_tip := Some tip,
            tr_length := len\<rparr>)))))))"

definition setRoot :: "nat option \<Rightarrow> txtree \<Rightarrow> txtree result" where
  "setRoot r t =
     (case r of None \<Rightarrow> recalculateTree (t\<lparr>tr_root := None\<rparr>)
      | Some a \<Rightarrow> bindE (clearParent a (tr_store t)) (\<lambda>h. recalculateTree (t\<lparr>tr_store := h, tr_root := Some a\<rparr>)))"

definition getSize :: "txtree \<Rightarrow> int" where
  "getSize t = int (length (tr_links t))"

text \<open>\<open>setLength\<close>: the new root is the node \<open>zMaxLength\<close> places from the tip, or the oldest; what is cut off is
  returned, the main chain from the oldest block on, then the side branches below the new root.\<close>

fun older_links :: "tstore \<Rightarrow> mininumber \<Rightarrow> string set \<Rightarrow> (string \<times> nat) list \<Rightarrow> nat list result" where
  "older_links h b ids [] = Inr []"
| "older_links h b ids ((k, a) # lks) =
     bindE (deref_tnode h a) (\<lambda>nd. bindE (getBlockNumber nd) (\<lambda>n. bindE (tn_getTxPoW nd) (\<lambda>p.
     bindE (older_links h b ids lks) (\<lambda>as.
     Inr (if mn_isLess n b \<and> mTxPOWIDStr p \<notin> ids then a # as else as)))))"

fun id_strings :: "tstore \<Rightarrow> nat list \<Rightarrow> string set result" where
  "id_strings h [] = Inr {}"
| "id_strings h (a # as) =
     bindE (deref_tnode h a) (\<lambda>nd. bindE (tn_getTxPoW nd) (\<lambda>p. bindE (id_strings h as) (\<lambda>ids. Inr (insert (mTxPOWIDStr p) ids))))"

definition setLength :: "int \<Rightarrow> txtree \<Rightarrow> (nat list \<times> txtree) result" where
  "setLength zMaxLength t =
     bindE (getHeaviestBranch t) (\<lambda>branch.
       if branch = [] then bindE (setRoot None t) (\<lambda>t. Inr ([], t))
       else let h = tr_store t; k = min (length branch) (max 1 (nat zMaxLength)); newroot = branch ! (k - 1);
                mainchain = rev (drop k branch) in
         bindE (deref_tnode h newroot) (\<lambda>nd. bindE (getBlockNumber nd) (\<lambda>b.
         bindE (id_strings h mainchain) (\<lambda>ids. bindE (older_links h b ids (tr_links t)) (\<lambda>side.
         bindE (setRoot (Some newroot) t) (\<lambda>t. Inr (mainchain @ side, t)))))))"

text \<open>A new node of the tree: allocated, then linked below its parent by the caller.\<close>

definition allocate :: "tnode \<Rightarrow> txtree \<Rightarrow> nat \<times> txtree" where
  "allocate nd t = (tr_next t, t\<lparr>tr_store := (tr_store t)(tr_next t \<mapsto> nd), tr_next := Suc (tr_next t)\<rparr>)"

end
