(* ===== verification/TxPowTreeLaws.thy ===== *)
theory TxPowTreeLaws
  imports TxPowTree
begin

text \<open>
  Laws of the tree of \<open>TxPowTree\<close>: the objects in the store are a finite tree, and the traversal, the weights, the
  tip and the cut are what they would be on that tree.
\<close>

subsection \<open>Trees in the store\<close>

datatype bt = BT (bt_root: nat) (bt_subs: "bt list")

fun bt_nodes :: "bt \<Rightarrow> nat list" where
  "bt_nodes (BT a ts) = a # concat (map bt_nodes ts)"

fun bt_visit :: "bt \<Rightarrow> nat list" where
  "bt_visit (BT a ts) = a # concat (map bt_visit (rev ts))"

definition txp_at :: "tstore \<Rightarrow> nat \<Rightarrow> txpow option" where
  "txp_at h a = (case h a of None \<Rightarrow> None | Some nd \<Rightarrow> bl_txpow (tn_block nd))"

definition own_weight :: "tstore \<Rightarrow> nat \<Rightarrow> mininumber result" where
  "own_weight h a = (case txp_at h a of None \<Rightarrow> Inl (Throw RuntimeError) | Some p \<Rightarrow> mn_of_string (mBlockWeight p))"

fun sum_weights :: "mininumber \<Rightarrow> mininumber result list \<Rightarrow> mininumber result" where
  "sum_weights w [] = Inr w"
| "sum_weights w (r # rs) = bindE r (\<lambda>x. bindE (mn_add w x) (\<lambda>w. sum_weights w rs))"

text \<open>The weight the code gives a node: its own and those of its children.\<close>

definition node_total :: "tstore \<Rightarrow> nat \<Rightarrow> nat list \<Rightarrow> mininumber result" where
  "node_total h a chs = bindE (own_weight h a) (\<lambda>w. sum_weights w (map (own_weight h) chs))"

definition block_of :: "tstore \<Rightarrow> nat \<Rightarrow> rat" where
  "block_of h a = (case txp_at h a of None \<Rightarrow> 0 | Some p \<Rightarrow> mval (h_blocknumber (p_header p)))"

text \<open>The node and its subtrees are in the store: every node has its block, a weight that can be read and added up,
  and children one by one above it that point back at it.\<close>

fun tree_at :: "tstore \<Rightarrow> bt \<Rightarrow> bool" where
  "tree_at h (BT a ts) =
     (\<exists>nd p. h a = Some nd \<and> bl_txpow (tn_block nd) = Some p \<and> tn_children nd = map bt_root ts
      \<and> mn_wf (h_blocknumber (p_header p)) \<and> \<not> isl (node_total h a (map bt_root ts))
      \<and> (\<forall>t \<in> set ts. tree_at h t \<and> block_of h a < block_of h (bt_root t)
          \<and> (\<exists>n. h (bt_root t) = Some n \<and> tn_parent n = Some a)))"

text \<open>Changing the weights of nodes changes nothing else.\<close>

definition unweigh :: "tstore \<Rightarrow> tstore" where
  "unweigh h = (\<lambda>a. map_option (\<lambda>nd. nd\<lparr>tn_weight := mn_ZERO\<rparr>) (h a))"

definition weight_at :: "tstore \<Rightarrow> nat \<Rightarrow> mininumber" where
  "weight_at h a = (case h a of None \<Rightarrow> mn_ZERO | Some nd \<Rightarrow> tn_weight nd)"

lemma unweigh_cases:
  assumes "unweigh h = unweigh h'"
  shows "(h a = None \<and> h' a = None) \<or> (\<exists>nd w. h a = Some nd \<and> h' a = Some (nd\<lparr>tn_weight := w\<rparr>))"
proof -
  have "unweigh h a = unweigh h' a" using assms by simp
  then show ?thesis
    by (cases "h a"; cases "h' a") (auto simp: unweigh_def, metis tnode.surjective tnode.update_convs(4))
qed

lemma unweigh_txp: "unweigh h = unweigh h' \<Longrightarrow> txp_at h = txp_at h'"
proof
  fix a assume "unweigh h = unweigh h'"
  from unweigh_cases [OF this, of a] show "txp_at h a = txp_at h' a" by (auto simp: txp_at_def)
qed

lemma unweigh_own: "unweigh h = unweigh h' \<Longrightarrow> own_weight h = own_weight h' \<and> node_total h = node_total h' \<and> block_of h = block_of h'"
proof -
  assume "unweigh h = unweigh h'"
  then have t: "txp_at h = txp_at h'" by (rule unweigh_txp)
  then have o: "own_weight h = own_weight h'" by (intro ext) (simp only: own_weight_def)
  then have "node_total h = node_total h'" by (intro ext) (simp only: node_total_def)
  moreover have "block_of h = block_of h'" by (intro ext) (simp only: block_of_def t)
  ultimately show ?thesis using o by simp
qed

lemma unweigh_set [simp]: "h a = Some nd \<Longrightarrow> unweigh (h(a \<mapsto> nd\<lparr>tn_weight := w\<rparr>)) = unweigh h"
  by (auto simp: unweigh_def fun_eq_iff)

lemma unweigh_tree: "tree_at h b \<Longrightarrow> unweigh h = unweigh h' \<Longrightarrow> tree_at h' b"
proof (induction h b rule: tree_at.induct)
  case (1 h a ts)
  from 1(2) obtain nd p where p: "h a = Some nd" "bl_txpow (tn_block nd) = Some p" "tn_children nd = map bt_root ts"
    "mn_wf (h_blocknumber (p_header p))" "\<not> isl (node_total h a (map bt_root ts))"
    and t: "\<And>t. t \<in> set ts \<Longrightarrow> tree_at h t \<and> block_of h a < block_of h (bt_root t) \<and> (\<exists>n. h (bt_root t) = Some n \<and> tn_parent n = Some a)"
    by auto
  obtain w where a: "h' a = Some (nd\<lparr>tn_weight := w\<rparr>)" using unweigh_cases [OF 1(3), of a] p(1) by auto
  have "tree_at h' t \<and> block_of h' a < block_of h' (bt_root t) \<and> (\<exists>n. h' (bt_root t) = Some n \<and> tn_parent n = Some a)"
    if "t \<in> set ts" for t
    using 1(1) [OF that] 1(3) t [OF that] unweigh_own [OF 1(3)] unweigh_cases [OF 1(3), of "bt_root t"] by auto
  then show ?case using a p unweigh_own [OF 1(3)] by auto
qed

lemma visit_nodes: "set (bt_visit b) = set (bt_nodes b) \<and> length (bt_visit b) = length (bt_nodes b)"
proof (induction b)
  case (BT a ts)
  have "set (concat (map bt_visit (rev ts))) = set (concat (map bt_nodes ts))" using BT by auto
  moreover have "length (concat (map bt_visit (rev ts))) = length (concat (map bt_nodes ts))"
    using BT by (induction ts) (simp_all add: length_concat rev_map)
  ultimately show ?case by simp
qed

lemma visit_distinct: "distinct (bt_nodes b) \<Longrightarrow> distinct (bt_visit b)"
  using visit_nodes [of b] by (metis card_distinct distinct_card)

lemma root_in [simp]: "bt_root b \<in> set (bt_nodes b)"
  by (cases b) simp

lemma tree_at_node: "tree_at h b \<Longrightarrow> a \<in> set (bt_nodes b) \<Longrightarrow> \<exists>nd p. h a = Some nd \<and> bl_txpow (tn_block nd) = Some p
    \<and> mn_wf (h_blocknumber (p_header p)) \<and> \<not> isl (node_total h a (tn_children nd))
    \<and> (\<forall>ch \<in> set (tn_children nd). ch \<in> set (bt_nodes b) \<and> block_of h a < block_of h ch)"
proof (induction h b rule: tree_at.induct)
  case (1 h x ts)
  show ?case
  proof (cases "a = x")
    case True
    then show ?thesis using 1(2) by (fastforce intro: root_in)
  next
    case False
    then obtain t where t: "t \<in> set ts" "a \<in> set (bt_nodes t)" using 1(3) by auto
    then have "tree_at h t" using 1(2) by auto
    from 1(1) [OF t(1) this t(2)] show ?thesis using t(1) by fastforce
  qed
qed

lemma traverseTree_visits:
  "\<forall>t \<in> set ts. tree_at h t \<Longrightarrow> length (concat (map bt_nodes ts)) \<le> n \<Longrightarrow>
   traverseTree n h (map bt_root ts) = Inr (concat (map bt_visit ts))"
proof (induction n arbitrary: ts)
  case 0
  then have "ts = []" by (cases ts) (auto simp: length_concat, metis bt_nodes.elims length_0_conv list.distinct(1))
  then show ?case by simp
next
  case (Suc n)
  show ?case
  proof (cases ts)
    case (Cons t us)
    obtain a ss where t: "t = BT a ss" by (cases t)
    obtain nd where nd: "h a = Some nd" "tn_children nd = map bt_root ss" "\<forall>s \<in> set ss. tree_at h s"
      using Suc.prems(1) by (auto simp: Cons t)
    have "length (concat (map bt_nodes (rev ss @ us))) \<le> n"
      using Suc.prems(2) by (simp add: Cons t length_concat rev_map [symmetric])
    then have "traverseTree n h (map bt_root (rev ss @ us)) = Inr (concat (map bt_visit (rev ss @ us)))"
      using nd(3) Suc.prems(1) by (intro Suc.IH) (auto simp: Cons)
    then show ?thesis using nd(1,2) by (simp add: Cons t deref_tnode_def rev_map)
  qed simp
qed

subsection \<open>The weights\<close>

lemma deref_tnode_eq [simp]: "deref_tnode h a = Inr nd \<longleftrightarrow> h a = Some nd"
  by (cases "h a") (simp_all add: deref_tnode_def)

lemma weight_at_upd [simp]: "weight_at (h(a \<mapsto> nd)) b = (if b = a then tn_weight nd else weight_at h b)"
  by (simp add: weight_at_def)

lemma not_isl: "\<not> isl r \<Longrightarrow> \<exists>x. r = Inr x"
  by (cases r) simp_all

lemma unweigh_eqI: "h' = (\<lambda>a. map_option (\<lambda>nd. nd\<lparr>tn_weight := f a nd\<rparr>) (h a)) \<Longrightarrow> unweigh h' = unweigh h"
  by (auto simp: unweigh_def fun_eq_iff option.map_comp comp_def)

lemma reset_nodes_weights:
  assumes "\<And>a. a \<in> set as \<Longrightarrow> \<exists>nd p. h a = Some nd \<and> bl_txpow (tn_block nd) = Some p" "\<And>a. a \<in> set as \<Longrightarrow> \<not> isl (own_weight h a)"
  shows "\<exists>h' lks'. reset_nodes as (h, lks) = Inr (h', lks') \<and> unweigh h' = unweigh h
    \<and> (\<forall>a. weight_at h' a = (if a \<in> set as then projr (own_weight h a) else weight_at h a))
    \<and> (\<forall>(k, b) \<in> set lks'. (k, b) \<in> set lks \<or> b \<in> set as)"
  using assms
proof (induction as arbitrary: h lks)
  case (Cons a as)
  obtain nd p where p: "h a = Some nd" "bl_txpow (tn_block nd) = Some p" using Cons.prems(1) by fastforce
  then have o: "own_weight h a = mn_of_string (mBlockWeight p)" by (simp add: own_weight_def txp_at_def)
  then obtain w where w: "mn_of_string (mBlockWeight p) = Inr w" using Cons.prems(2) [of a] not_isl by fastforce
  define h2 where "h2 = h(a \<mapsto> nd\<lparr>tn_weight := w\<rparr>)"
  define l2 where "l2 = put_link (mTxPOWIDStr p) a lks"
  have at: "h2 a = Some (nd\<lparr>tn_weight := w\<rparr>)" "\<And>b. b \<noteq> a \<Longrightarrow> h2 b = h b"
    "\<And>b. weight_at h2 b = (if b = a then w else weight_at h b)" by (simp_all add: h2_def)
  have u: "unweigh h2 = unweigh h" unfolding h2_def using p(1) by simp
  have "\<exists>nd p. h2 b = Some nd \<and> bl_txpow (tn_block nd) = Some p" if "b \<in> set as" for b
    using Cons.prems(1) [of b] that p at by (cases "b = a") auto
  moreover have "\<not> isl (own_weight h2 b)" if "b \<in> set as" for b
    using Cons.prems(2) [of b] that unweigh_own [OF u] by simp
  ultimately obtain h' lks' where r: "reset_nodes as (h2, l2) = Inr (h', lks')" "unweigh h' = unweigh h2"
    "\<forall>b. weight_at h' b = (if b \<in> set as then projr (own_weight h2 b) else weight_at h2 b)"
    "\<forall>(k, b) \<in> set lks'. (k, b) \<in> set l2 \<or> b \<in> set as"
    using Cons.IH [of h2 l2] by auto
  have "weight_at h' b = (if b \<in> set (a # as) then projr (own_weight h b) else weight_at h b)" for b
    using r(3) unweigh_own [OF u] o w by (simp add: at)
  moreover have "\<forall>(k, b) \<in> set lks'. (k, b) \<in> set lks \<or> b \<in> set (a # as)"
    using r(4) by (auto simp: l2_def put_link_def split: if_splits)
  moreover have "reset_nodes (a # as) (h, lks) = Inr (h', lks')"
    using r(1) p w by (simp add: tn_getTxPoW_def getTxPoW_def h2_def l2_def deref_tnode_def)
  ultimately show ?case using r(2) u by (intro exI [of _ h'] exI [of _ lks']) simp
qed simp

lemma add_child_weights_sum:
  assumes "h a = Some nd" "a \<notin> set chs" "\<forall>ch \<in> set chs. h ch \<noteq> None" "sum_weights (tn_weight nd) (map (\<lambda>ch. Inr (weight_at h ch)) chs) = Inr w"
  shows "add_child_weights a chs h = Inr (h(a \<mapsto> nd\<lparr>tn_weight := w\<rparr>))"
  using assms
proof (induction chs arbitrary: h nd)
  case Nil
  then show ?case by (simp add: fun_upd_idem)
next
  case (Cons ch chs)
  obtain cnd where c: "h ch = Some cnd" using Cons.prems(3) by auto
  obtain x where x: "mn_add (tn_weight nd) (tn_weight cnd) = Inr x"
    "sum_weights x (map (\<lambda>ch. Inr (weight_at h ch)) chs) = Inr w"
    using Cons.prems(4) by (auto simp: weight_at_def c)
  let ?nd = "nd\<lparr>tn_weight := x\<rparr>"
  have e: "map (\<lambda>ch. Inr (weight_at (h(a \<mapsto> ?nd)) ch)) chs = map (\<lambda>ch. Inr (weight_at h ch)) chs"
    using Cons.prems(2) by auto
  have "add_child_weights a chs (h(a \<mapsto> ?nd)) = Inr ((h(a \<mapsto> ?nd))(a \<mapsto> ?nd\<lparr>tn_weight := w\<rparr>))"
  proof (rule Cons.IH)
    show "sum_weights (tn_weight ?nd) (map (\<lambda>ch. Inr (weight_at (h(a \<mapsto> ?nd)) ch)) chs) = Inr w"
      unfolding e using x(2) by simp
  qed (use Cons.prems in auto)
  then show ?case using Cons.prems(1) c x by (simp add: fun_eq_iff)
qed

text \<open>The nodes in an order in which parents come before their children: every node is added up before the weights
  of its children are.\<close>

lemma add_weights_in_sums:
  assumes "\<And>a. a \<in> set as \<Longrightarrow> \<exists>nd. h a = Some nd \<and> \<not> isl (node_total h a (tn_children nd))
      \<and> (\<forall>ch \<in> set (tn_children nd). h ch \<noteq> None \<and> weight_at h ch = projr (own_weight h ch)) \<and> weight_at h a = projr (own_weight h a)"
    and "distinct as" "\<And>i j. i \<le> j \<Longrightarrow> j < length as \<Longrightarrow> \<forall>nd. h (as ! j) = Some nd \<longrightarrow> as ! i \<notin> set (tn_children nd)"
  shows "\<exists>h'. add_weights_in as h = Inr h' \<and> unweigh h' = unweigh h
    \<and> (\<forall>a. weight_at h' a = (if a \<in> set as then projr (node_total h a (tn_children (the (h a)))) else weight_at h a))"
  using assms
proof (induction as arbitrary: h)
  case (Cons a as)
  obtain nd where nd: "h a = Some nd" "\<not> isl (node_total h a (tn_children nd))" "weight_at h a = projr (own_weight h a)"
    "\<forall>ch \<in> set (tn_children nd). h ch \<noteq> None \<and> weight_at h ch = projr (own_weight h ch)"
    using Cons.prems(1) [of a] by auto
  obtain w where w: "node_total h a (tn_children nd) = Inr w" using nd(2) by (cases "node_total h a (tn_children nd)") auto
  have own: "sum_weights v (map (\<lambda>ch. Inr (weight_at h ch)) chs) = Inr w"
    if "sum_weights v (map (own_weight h) chs) = Inr w" "set chs \<subseteq> set (tn_children nd)" for v chs
    using that by (induction chs arbitrary: v) (auto simp: nd(4))
  have "own_weight h a = Inr (tn_weight nd)" using w nd(1,3) by (auto simp: node_total_def weight_at_def)
  then have "sum_weights (tn_weight nd) (map (own_weight h) (tn_children nd)) = Inr w" using w by (simp add: node_total_def)
  from own [OF this] have s: "sum_weights (tn_weight nd) (map (\<lambda>ch. Inr (weight_at h ch)) (tn_children nd)) = Inr w" by simp
  define h2 where "h2 = h(a \<mapsto> nd\<lparr>tn_weight := w\<rparr>)"
  have at: "h2 a = Some (nd\<lparr>tn_weight := w\<rparr>)" "\<And>b. b \<noteq> a \<Longrightarrow> h2 b = h b" by (simp_all add: h2_def)
  have "a \<notin> set (tn_children nd)" using Cons.prems(3) [of 0 0] nd(1) by simp
  then have step: "add_child_weights a (tn_children nd) h = Inr h2"
    unfolding h2_def using nd s by (intro add_child_weights_sum) auto
  have u: "unweigh h2 = unweigh h" unfolding h2_def using nd(1) by simp
  note o = unweigh_own [OF u]
  have not: "b \<in> set as \<Longrightarrow> h b = Some bn \<Longrightarrow> a \<notin> set (tn_children bn)" for b bn
    using Cons.prems(3) [of 0 "Suc k" for k] by (fastforce simp: in_set_conv_nth)
  have "\<exists>bn. h2 b = Some bn \<and> \<not> isl (node_total h2 b (tn_children bn))
      \<and> (\<forall>ch \<in> set (tn_children bn). h2 ch \<noteq> None \<and> weight_at h2 ch = projr (own_weight h2 ch)) \<and> weight_at h2 b = projr (own_weight h2 b)"
    if b: "b \<in> set as" for b
  proof -
    obtain bn where bn: "h b = Some bn" "\<not> isl (node_total h b (tn_children bn))" "weight_at h b = projr (own_weight h b)"
      "\<forall>ch \<in> set (tn_children bn). h ch \<noteq> None \<and> weight_at h ch = projr (own_weight h ch)"
      using Cons.prems(1) [of b] b by auto
    have "b \<noteq> a" using b Cons.prems(2) by auto
    then show ?thesis using bn not [OF b bn(1)] o at(2) by (metis weight_at_def)
  qed
  moreover have "\<forall>bn. h2 (as ! j) = Some bn \<longrightarrow> as ! i \<notin> set (tn_children bn)" if "i \<le> j" "j < length as" for i j
  proof -
    have "as ! j \<noteq> a" using that(2) Cons.prems(2) by (metis distinct.simps(2) nth_mem)
    then show ?thesis using Cons.prems(3) [of "Suc i" "Suc j"] that by (simp add: at)
  qed
  ultimately obtain h' where h': "add_weights_in as h2 = Inr h'" "unweigh h' = unweigh h2"
    "\<forall>b. weight_at h' b = (if b \<in> set as then projr (node_total h2 b (tn_children (the (h2 b)))) else weight_at h2 b)"
    using Cons.IH [of h2] Cons.prems(2) by auto
  have "weight_at h' b = (if b \<in> set (a # as) then projr (node_total h b (tn_children (the (h b)))) else weight_at h b)" for b
    using h'(3) o w nd(1) Cons.prems(2) at by (cases "b = a") (auto simp: weight_at_def)
  then show ?case using h' u step nd(1) by (auto simp: deref_tnode_def)
qed simp

subsection \<open>The order of the nodes\<close>

lemma insert_sorted_mset [simp]: "mset (insert_sorted before x ys) = add_mset x (mset ys)"
  by (induction ys) auto

lemma sort_by_mset: "mset (sort_by before xs) = mset xs"
  by (induction xs) (simp_all add: sort_by_def)

lemma insert_sorted_sorted:
  assumes "\<And>y z. y \<in> set (x # ys) \<Longrightarrow> z \<in> set (x # ys) \<Longrightarrow> before y z = (f y < (f z :: rat))" "sorted (map f ys)"
  shows "sorted (map f (insert_sorted before x ys))"
  using assms
proof (induction ys)
  case (Cons y ys)
  have "set (insert_sorted before x ys) = insert x (set ys)"
    using insert_sorted_mset [of before x ys] by (metis set_mset_add_mset_insert set_mset_mset)
  then show ?case using Cons by (auto simp: not_less)
qed simp

lemma sort_by_sorted:
  assumes "\<And>y z. y \<in> set xs \<Longrightarrow> z \<in> set xs \<Longrightarrow> before y z = (f y < (f z :: rat))"
  shows "sorted (map f (sort_by before xs))"
  using assms
proof (induction xs)
  case (Cons x xs)
  have "set (sort_by before xs) = set xs" using sort_by_mset by (metis set_mset_mset)
  then show ?case
    using Cons insert_sorted_sorted [of x "sort_by before xs" before f] by (simp add: sort_by_def)
qed (simp add: sort_by_def)

lemma sort_nodes_sorted:
  assumes "\<And>a. a \<in> set as \<Longrightarrow> \<exists>nd p. h a = Some nd \<and> bl_txpow (tn_block nd) = Some p \<and> mn_wf (h_blocknumber (p_header p))"
  shows "\<exists>bs. sort_nodes h as = Inr bs \<and> mset bs = mset as \<and> sorted (map (block_of h) bs)"
proof -
  define num where "num a = h_blocknumber (p_header (the (txp_at h a)))" for a
  have n: "mn_wf (num a) \<and> block_of h a = mval (num a)" if "a \<in> set as" for a
    using assms [OF that] by (auto simp: num_def txp_at_def block_of_def)
  have b: "block_numbers h as = Inr (map (\<lambda>a. (a, num a)) as)"
    using assms by (induction as) (fastforce simp: num_def txp_at_def getBlockNumber_def tn_getTxPoW_def getTxPoW_def deref_tnode_def)+
  define ps where "ps = sort_by comes_before (map (\<lambda>a. (a, num a)) as)"
  have m: "mset ps = mset (map (\<lambda>a. (a, num a)) as)" unfolding ps_def by (rule sort_by_mset)
  have s: "sorted (map (\<lambda>x. mval (snd x)) ps)"
    unfolding ps_def
  proof (rule sort_by_sorted)
    fix y z assume "y \<in> set (map (\<lambda>a. (a, num a)) as)" "z \<in> set (map (\<lambda>a. (a, num a)) as)"
    then show "comes_before y z = (mval (snd y) < mval (snd z))"
      using n mn_compare_val by (fastforce simp: comes_before_def mn_isMore_def [symmetric])
  qed
  have e: "map (\<lambda>x. mval (snd x)) ps = map (block_of h) (map fst ps)"
  proof -
    have "set ps = set (map (\<lambda>a. (a, num a)) as)" using m by (metis set_mset_mset)
    then show ?thesis using n by auto
  qed
  have "mset (map fst ps) = mset as" using m by (simp add: image_mset.compositionality comp_def)
  moreover have "sort_nodes h as = Inr (map fst ps)" by (simp add: sort_nodes_def b ps_def)
  ultimately show ?thesis using s unfolding e by blast
qed

subsection \<open>The tip\<close>

fun best_sub :: "(nat \<Rightarrow> mininumber) \<Rightarrow> bt \<Rightarrow> bt list \<Rightarrow> bt" where
  "best_sub W b [] = b"
| "best_sub W b (t # ts) = best_sub W (if mn_compareTo (W (bt_root t)) (W (bt_root b)) > 0 then t else b) ts"

lemma best_sub_in: "best_sub W b ts \<in> set (b # ts)"
  by (induction ts arbitrary: b) (auto split: if_splits)

text \<open>The path the code takes from a node down to a tip, when \<open>W\<close> are the weights of the nodes.\<close>

function bt_path :: "(nat \<Rightarrow> mininumber) \<Rightarrow> bt \<Rightarrow> nat list" where
  "bt_path W (BT a []) = [a]"
| "bt_path W (BT a (t # ts)) = a # bt_path W (best_sub W t ts)"
  by pat_completeness auto

termination
proof (relation "measure (\<lambda>(W, b). size b)")
  fix W :: "nat \<Rightarrow> mininumber" and a :: nat and t :: bt and ts :: "bt list"
  have "size (best_sub W t ts) < size (BT a (t # ts))"
    using best_sub_in [of W t ts] size_list_estimation' [of "best_sub W t ts" "t # ts" "size (best_sub W t ts)" size]
    by simp
  then show "((W, best_sub W t ts), (W, BT a (t # ts))) \<in> measure (\<lambda>(W, b). size b)" by simp
qed simp

lemma bt_path_Cons: "\<exists>as. bt_path W b = bt_root b # as"
  by (induction W b rule: bt_path.induct) simp_all

lemma bt_path_sub: "set (bt_path W b) \<subseteq> set (bt_nodes b)"
proof (induction W b rule: bt_path.induct)
  case (2 W a t ts)
  then show ?case using best_sub_in [of W t ts] by fastforce
qed simp

lemma bt_path_length: "length (bt_path W b) \<le> length (bt_nodes b)"
proof (induction W b rule: bt_path.induct)
  case (2 W a t ts)
  have "length (bt_nodes (best_sub W t ts)) \<le> length (concat (map bt_nodes (t # ts)))"
    using best_sub_in [of W t ts] member_le_sum_list [of "length (bt_nodes (best_sub W t ts))" "map (length \<circ> bt_nodes) (t # ts)"]
    by (simp add: length_concat comp_def) (auto simp: image_iff)
  then show ?case using 2 by simp
qed simp

lemma heaviest_best:
  "tree_at h b \<Longrightarrow> \<forall>t \<in> set ts. tree_at h t \<Longrightarrow> heaviest h (bt_root b) (map bt_root ts) = Inr (bt_root (best_sub (weight_at h) b ts))"
proof (induction ts arbitrary: b)
  case (Cons t ts)
  have "\<exists>nd. h (bt_root s) = Some nd" if "tree_at h s" for s using that by (cases s) auto
  then obtain nd cnd where n: "h (bt_root b) = Some nd" "h (bt_root t) = Some cnd" using Cons.prems by fastforce
  then have "weight_at h (bt_root b) = tn_weight nd" "weight_at h (bt_root t) = tn_weight cnd" by (simp_all add: weight_at_def)
  then show ?case using Cons n by (simp add: deref_tnode_def)
qed simp

lemma find_tip_path:
  "tree_at h b \<Longrightarrow> distinct (bt_nodes b) \<Longrightarrow> length (bt_path (weight_at h) b) \<le> n \<Longrightarrow>
   find_tip n h (bt_root b) len = Inr (last (bt_path (weight_at h) b), len + int (length (bt_path (weight_at h) b)))"
proof (induction "weight_at h" b arbitrary: n len rule: bt_path.induct)
  case (1 a)
  then show ?case by (cases n) (auto simp: deref_tnode_def)
next
  case (2 a t ts)
  define b where "b = best_sub (weight_at h) t ts"
  have b: "b \<in> set (t # ts)" unfolding b_def by (rule best_sub_in)
  obtain k where k: "n = Suc k" using 2(4) by (cases n) auto
  have ts: "\<forall>s \<in> set (t # ts). tree_at h s" using 2(2) by auto
  obtain nd where nd: "h a = Some nd" "tn_children nd = map bt_root (t # ts)" using 2(2) by auto
  have hv: "heaviest h (bt_root t) (map bt_root ts) = Inr (bt_root b)"
    unfolding b_def using ts by (intro heaviest_best) auto
  have d: "distinct (bt_nodes b)" "bt_root b \<noteq> a"
    using 2(3) b root_in [of b] by (auto simp: distinct_concat_iff)
  have "find_tip k h (bt_root b) (len + 1) = Inr (last (bt_path (weight_at h) b), len + 1 + int (length (bt_path (weight_at h) b)))"
    unfolding b_def
  proof (rule 2(1))
    show "tree_at h (best_sub (weight_at h) t ts)" using ts b unfolding b_def by blast
    show "distinct (bt_nodes (best_sub (weight_at h) t ts))" using d(1) unfolding b_def .
    show "length (bt_path (weight_at h) (best_sub (weight_at h) t ts)) \<le> k" using 2(4) k by simp
  qed
  then show ?case using nd hv d(2) bt_path_Cons [of "weight_at h" b]
    by (auto simp: k deref_tnode_def b_def [symmetric])
qed

subsection \<open>Recalculation\<close>

lemma ancestors_more: "ancestors h n p = Inr as \<Longrightarrow> n \<le> m \<Longrightarrow> ancestors h m p = Inr as"
proof (induction h n p arbitrary: m as rule: ancestors.induct)
  case (3 h n a)
  obtain k where k: "m = Suc k" "n \<le> k" using 3(3) by (cases m) auto
  obtain nd bs where nd: "deref_tnode h a = Inr nd" "ancestors h n (getParent h nd) = Inr bs" "as = a # bs"
    using 3(2) by auto
  show ?case using 3(1) [OF nd(2) k(2)] nd(1,3) by (simp add: k(1))
qed simp_all

lemma ancestors_path:
  "tree_at h b \<Longrightarrow> ancestors h n (Some (bt_root b)) = Inr us \<Longrightarrow>
   ancestors h (n + length (bt_path W b) - 1) (Some (last (bt_path W b))) = Inr (rev (tl (bt_path W b)) @ us)"
proof (induction W b arbitrary: n us rule: bt_path.induct)
  case (2 W a t ts)
  define b where "b = best_sub W t ts"
  have b: "b \<in> set (t # ts)" unfolding b_def by (rule best_sub_in)
  then obtain nd where nd: "h (bt_root b) = Some nd" "tn_parent nd = Some a" "tree_at h b" "h a \<noteq> None"
    using 2(2) by auto
  have "ancestors h (Suc n) (Some (bt_root b)) = Inr (bt_root b # us)"
    using 2(3) nd by (auto simp: getParent_def)
  from 2(1) [folded b_def, OF nd(3) this]
  show ?case using bt_path_Cons [of W b] by (auto simp: b_def [symmetric])
qed simp

definition holds_tree :: "txtree \<Rightarrow> bt \<Rightarrow> bool" where
  "holds_tree t b = (tr_root t = Some (bt_root b) \<and> tree_at (tr_store t) b \<and> distinct (bt_nodes b)
     \<and> set (bt_nodes b) \<subseteq> {..<tr_next t} \<and> (\<forall>nd. tr_store t (bt_root b) = Some nd \<longrightarrow> tn_parent nd = None))"

text \<open>A tree as \<open>recalculateTree\<close> leaves it.\<close>

definition tip_path :: "txtree \<Rightarrow> bt \<Rightarrow> nat list" where
  "tip_path t b = bt_path (weight_at (tr_store t)) b"

definition settled :: "txtree \<Rightarrow> bt \<Rightarrow> bool" where
  "settled t b = (holds_tree t b
     \<and> (\<forall>a \<in> set (bt_nodes b). \<exists>nd. tr_store t a = Some nd \<and> node_total (tr_store t) a (tn_children nd) = Inr (tn_weight nd))
     \<and> tr_tip t = Some (last (tip_path t b)) \<and> tr_length t = int (length (tip_path t b))
     \<and> getHeaviestBranch t = Inr (rev (tip_path t b))
     \<and> tr_pulse t = map (\<lambda>a. mTxPOWID (the (txp_at (tr_store t) a))) (take 512 (rev (tip_path t b)))
     \<and> (\<forall>(k, a) \<in> set (tr_links t). a \<in> set (bt_nodes b)))"

lemma length_nodes: "distinct as \<Longrightarrow> set as \<subseteq> {..<n} \<Longrightarrow> length as \<le> (n::nat)"
  using card_mono [of "{..<n}" "set as"] by (simp add: distinct_card)

lemma branch_of:
  assumes "holds_tree t b" "tr_tip t = Some (last (bt_path W b))"
  shows "getHeaviestBranch t = Inr (rev (bt_path W b))"
proof -
  have t: "tree_at (tr_store t) b" and l: "length (bt_nodes b) \<le> tr_next t"
    using assms(1) length_nodes by (auto simp: holds_tree_def)
  obtain nd where nd: "tr_store t (bt_root b) = Some nd" using t by (cases b) auto
  then have "ancestors (tr_store t) 1 (Some (bt_root b)) = Inr [bt_root b]"
    using assms(1) by (auto simp: holds_tree_def getParent_def deref_tnode_def)
  from ancestors_path [OF t this, of W] bt_path_Cons [of W b]
  have "ancestors (tr_store t) (length (bt_path W b)) (Some (last (bt_path W b))) = Inr (rev (bt_path W b))" by auto
  from ancestors_more [OF this, of "tr_next t"] bt_path_length [of W b] l
  show ?thesis by (simp add: getHeaviestBranch_def assms(2))
qed

lemma node_ids_all:
  "\<forall>a \<in> set as. \<exists>nd p. h a = Some nd \<and> bl_txpow (tn_block nd) = Some p \<Longrightarrow>
   node_ids h as = Inr (map (\<lambda>a. mTxPOWID (the (txp_at h a))) as)"
  by (induction as) (auto simp: deref_tnode_def tn_getTxPoW_def getTxPoW_def txp_at_def)

lemma recalculated:
  assumes "holds_tree t b"
  shows "\<exists>t'. recalculateTree t = Inr t' \<and> settled t' b \<and> unweigh (tr_store t') = unweigh (tr_store t) \<and> tr_next t' = tr_next t"
proof -
  define h where "h = tr_store t"
  define as where "as = bt_visit b"
  have b: "tr_root t = Some (bt_root b)" "tree_at h b" "distinct (bt_nodes b)" "length (bt_nodes b) \<le> tr_next t"
    using assms length_nodes by (auto simp: holds_tree_def h_def)
  have as: "set as = set (bt_nodes b)" "distinct as"
    using visit_nodes [of b] visit_distinct [OF b(3)] by (simp_all add: as_def)
  note node = tree_at_node [OF b(2)]
  have tr: "traverseTree (tr_next t) h [bt_root b] = Inr as"
    using traverseTree_visits [of "[b]" h "tr_next t"] b by (simp add: as_def)
  have own: "\<not> isl (own_weight h a)" if "a \<in> set as" for a
    using node [of a] that by (auto simp: as node_total_def) (cases "own_weight h a"; simp)
  have kid: "\<exists>nd p. h a = Some nd \<and> bl_txpow (tn_block nd) = Some p" if "a \<in> set as" for a
    using node [of a] that by (auto simp: as)
  obtain h1 lks where h1: "reset_nodes as (h, []) = Inr (h1, lks)" "unweigh h1 = unweigh h"
    "\<forall>a. weight_at h1 a = (if a \<in> set as then projr (own_weight h a) else weight_at h a)"
    "\<forall>(k, a) \<in> set lks. a \<in> set as"
    using reset_nodes_weights [of as h "[]", OF kid own] by auto
  note o1 = unweigh_own [OF h1(2)]
  have node1: "\<exists>nd. h1 a = Some nd \<and> (\<exists>p. bl_txpow (tn_block nd) = Some p \<and> mn_wf (h_blocknumber (p_header p)))
      \<and> \<not> isl (node_total h1 a (tn_children nd))
      \<and> (\<forall>ch \<in> set (tn_children nd). ch \<in> set as \<and> block_of h1 a < block_of h1 ch)" if a: "a \<in> set as" for a
  proof -
    obtain nd p where nd: "h a = Some nd" "bl_txpow (tn_block nd) = Some p" "mn_wf (h_blocknumber (p_header p))"
      "\<not> isl (node_total h a (tn_children nd))" "\<forall>ch \<in> set (tn_children nd). ch \<in> set as \<and> block_of h a < block_of h ch"
      using node [of a] a by (auto simp: as)
    obtain w where "h1 a = Some (nd\<lparr>tn_weight := w\<rparr>)" using unweigh_cases [OF h1(2) [symmetric], of a] nd(1) by auto
    then show ?thesis using nd o1 by auto
  qed
  obtain bs where bs: "sort_nodes h1 as = Inr bs" "mset bs = mset as" "sorted (map (block_of h1) bs)"
    using sort_nodes_sorted [of as h1] node1 by blast
  have bset: "set bs = set as" "distinct bs" using bs(2) as(2) by (metis set_mset_mset, metis mset_eq_imp_distinct_iff)
  have "\<exists>h'. add_weights_in bs h1 = Inr h' \<and> unweigh h' = unweigh h1
    \<and> (\<forall>a. weight_at h' a = (if a \<in> set bs then projr (node_total h1 a (tn_children (the (h1 a)))) else weight_at h1 a))"
  proof (rule add_weights_in_sums)
    fix a assume "a \<in> set bs"
    then have a: "a \<in> set as" by (simp only: bset)
    obtain nd where nd: "h1 a = Some nd" "\<not> isl (node_total h1 a (tn_children nd))" "\<forall>ch \<in> set (tn_children nd). ch \<in> set as"
      using node1 [OF a] by auto
    have "h1 ch \<noteq> None \<and> weight_at h1 ch = projr (own_weight h1 ch)" if "ch \<in> set as" for ch
      using node1 [OF that] h1(3) [rule_format, of ch] that o1 by auto
    then show "\<exists>nd. h1 a = Some nd \<and> \<not> isl (node_total h1 a (tn_children nd))
      \<and> (\<forall>ch \<in> set (tn_children nd). h1 ch \<noteq> None \<and> weight_at h1 ch = projr (own_weight h1 ch)) \<and> weight_at h1 a = projr (own_weight h1 a)"
      using nd a by blast
  next
    fix i j assume ij: "i \<le> j" "j < length bs"
    show "\<forall>nd. h1 (bs ! j) = Some nd \<longrightarrow> bs ! i \<notin> set (tn_children nd)"
    proof (intro allI impI notI)
      fix nd assume "h1 (bs ! j) = Some nd" "bs ! i \<in> set (tn_children nd)"
      then have "block_of h1 (bs ! j) < block_of h1 (bs ! i)" using node1 [of "bs ! j"] ij by (auto simp: bset(1) [symmetric])
      moreover have "block_of h1 (bs ! i) \<le> block_of h1 (bs ! j)" using sorted_nth_mono [OF bs(3) ij(1)] ij by simp
      ultimately show False by simp
    qed
  qed (rule bset(2))
  then obtain h2 where h2: "add_weights_in bs h1 = Inr h2" "unweigh h2 = unweigh h1"
    "\<forall>a. weight_at h2 a = (if a \<in> set bs then projr (node_total h1 a (tn_children (the (h1 a)))) else weight_at h1 a)"
    by blast
  have u: "unweigh h2 = unweigh h" using h1(2) h2(2) by simp
  note o2 = unweigh_own [OF h2(2)]
  have t2: "tree_at h2 b" using unweigh_tree [OF b(2) u [symmetric]] .
  define path where "path = bt_path (weight_at h2) b"
  have ft: "find_tip (tr_next t) h2 (bt_root b) 0 = Inr (last path, int (length path))"
    using find_tip_path [OF t2 b(3), of "tr_next t" 0] bt_path_length [of "weight_at h2" b] b(4) by (simp add: path_def)
  define t1 where "t1 = t\<lparr>tr_store := h2, tr_links := lks, tr_total := int (length lks), tr_tip := Some (last path), tr_length := int (length path)\<rparr>"
  have hold: "holds_tree t1 b"
    using assms t2 unweigh_cases [OF u [symmetric], of "bt_root b"] by (auto simp: holds_tree_def t1_def h_def)
  have br: "getHeaviestBranch t1 = Inr (rev path)"
    using branch_of [OF hold, of "weight_at h2"] by (simp add: t1_def path_def)
  have node2: "\<exists>nd p. h2 a = Some nd \<and> bl_txpow (tn_block nd) = Some p \<and> node_total h2 a (tn_children nd) = Inr (tn_weight nd)"
    if a: "a \<in> set as" for a
  proof -
    obtain nd where nd: "h1 a = Some nd" "\<exists>p. bl_txpow (tn_block nd) = Some p" "\<not> isl (node_total h1 a (tn_children nd))"
      using node1 [OF a] by auto
    obtain w where w: "h2 a = Some (nd\<lparr>tn_weight := w\<rparr>)" using unweigh_cases [OF h2(2) [symmetric], of a] nd(1) by auto
    have "w = projr (node_total h1 a (tn_children nd))" using h2(3) [rule_format, of a] a w nd(1) by (simp add: weight_at_def bset)
    then have "node_total h1 a (tn_children nd) = Inr w" using not_isl [OF nd(3)] by auto
    then show ?thesis using w nd(2) o2 by auto
  qed
  have sub: "set path \<subseteq> set as" unfolding path_def as by (rule bt_path_sub)
  have ids: "node_ids h2 (take 512 (rev path)) = Inr (map (\<lambda>a. mTxPOWID (the (txp_at h2 a))) (take 512 (rev path)))"
  proof (rule node_ids_all, rule)
    fix a assume "a \<in> set (take 512 (rev path))"
    then have "a \<in> set as" using sub in_set_takeD by fastforce
    from node2 [OF this] show "\<exists>nd p. h2 a = Some nd \<and> bl_txpow (tn_block nd) = Some p" by blast
  qed
  define t' where "t' = t1\<lparr>tr_pulse := map (\<lambda>a. mTxPOWID (the (txp_at h2 a))) (take 512 (rev path))\<rparr>"
  have "calculatePulseList t1 = Inr t'" using br ids by (simp add: calculatePulseList_def t'_def t1_def)
  then have "recalculateTree t = Inr t'"
    using tr h1(1) bs(1) h2(1) ft by (simp add: recalculateTree_def b(1) h_def t1_def)
  moreover have "settled t' b"
    using hold br node2 h1(4) by (fastforce simp: settled_def t'_def t1_def path_def tip_path_def as holds_tree_def getHeaviestBranch_def)
  ultimately show ?thesis using u by (intro exI [of _ t']) (simp add: t'_def t1_def h_def)
qed

subsection \<open>Cutting the tree\<close>

lemma bt_path_cong: "(\<And>a. a \<in> set (bt_nodes b) \<Longrightarrow> W a = W' a) \<Longrightarrow> bt_path W b = bt_path W' b"
proof (induction W b rule: bt_path.induct)
  case (2 W a t ts)
  have all: "best_sub W x us = best_sub W' x us" if "set (x # us) \<subseteq> set (t # ts)" for x us
    using that
  proof (induction us arbitrary: x)
    case (Cons u us)
    have "bt_root v \<in> set (bt_nodes (BT a (t # ts)))" if "v \<in> set (t # ts)" for v
      using that root_in [of v] by fastforce
    then have "W (bt_root x) = W' (bt_root x)" "W (bt_root u) = W' (bt_root u)" using 2(2) Cons.prems by simp_all
    then show ?case using Cons by auto
  qed simp
  have e: "best_sub W t ts = best_sub W' t ts" by (rule all) simp
  have "W x = W' x" if "x \<in> set (bt_nodes (best_sub W t ts))" for x
    using 2(2) [of x] that best_sub_in [of W t ts] by auto
  from 2(1) [OF this] show ?case by (simp add: e)
qed simp

text \<open>Every node of the path is the root of a subtree whose path is the rest of it.\<close>

lemma path_subtree:
  "tree_at h b \<Longrightarrow> distinct (bt_nodes b) \<Longrightarrow> i < length (bt_path W b) \<Longrightarrow>
   \<exists>s. bt_root s = bt_path W b ! i \<and> bt_path W s = drop i (bt_path W b) \<and> tree_at h s \<and> distinct (bt_nodes s)
     \<and> set (bt_nodes s) \<subseteq> set (bt_nodes b)"
proof (induction W b arbitrary: i rule: bt_path.induct)
  case (1 W a)
  then show ?case by (intro exI [of _ "BT a []"]) simp
next
  case (2 W a t ts)
  show ?case
  proof (cases i)
    case 0
    then show ?thesis using 2(2,3) by (intro exI [of _ "BT a (t # ts)"]) simp
  next
    case (Suc j)
    define b where "b = best_sub W t ts"
    have b: "b \<in> set (t # ts)" unfolding b_def by (rule best_sub_in)
    then have "tree_at h b" "distinct (bt_nodes b)" using 2(2,3) by (auto simp: distinct_concat_iff)
    then obtain s where s: "bt_root s = bt_path W b ! j" "bt_path W s = drop j (bt_path W b)" "tree_at h s" "distinct (bt_nodes s)"
      "set (bt_nodes s) \<subseteq> set (bt_nodes b)"
      using 2(1) [folded b_def, of j] 2(4) Suc by (auto simp: b_def [symmetric])
    have "set (bt_nodes b) \<subseteq> set (bt_nodes (BT a (t # ts)))" using b by auto
    then show ?thesis using s Suc by (intro exI [of _ s]) (auto simp: b_def [symmetric])
  qed
qed

lemma txp_at_parent: "h r = Some nd \<Longrightarrow> txp_at (h(r \<mapsto> nd\<lparr>tn_parent := x, tn_mmrparent := y\<rparr>)) = txp_at h"
  by (auto simp: fun_eq_iff txp_at_def)

lemma own_parent:
  assumes "h r = Some nd"
  shows "own_weight (h(r \<mapsto> nd\<lparr>tn_parent := x, tn_mmrparent := y\<rparr>)) = own_weight h
    \<and> node_total (h(r \<mapsto> nd\<lparr>tn_parent := x, tn_mmrparent := y\<rparr>)) = node_total h
    \<and> block_of (h(r \<mapsto> nd\<lparr>tn_parent := x, tn_mmrparent := y\<rparr>)) = block_of h"
proof -
  define h' where "h' = h(r \<mapsto> nd\<lparr>tn_parent := x, tn_mmrparent := y\<rparr>)"
  have t: "txp_at h' = txp_at h" unfolding h'_def using assms by (rule txp_at_parent)
  then have o: "own_weight h' = own_weight h" by (intro ext) (simp only: own_weight_def)
  then have "node_total h' = node_total h" by (intro ext) (simp only: node_total_def)
  moreover have "block_of h' = block_of h" by (intro ext) (simp only: block_of_def t)
  ultimately show ?thesis using o by (simp add: h'_def)
qed

lemma tree_at_parent:
  "tree_at h b \<Longrightarrow> h r = Some nd \<Longrightarrow> r \<notin> set (concat (map bt_nodes (bt_subs b))) \<Longrightarrow>
   tree_at (h(r \<mapsto> nd\<lparr>tn_parent := x, tn_mmrparent := y\<rparr>)) b"
proof (induction h b rule: tree_at.induct)
  case (1 h a ts)
  define h' where "h' = h(r \<mapsto> nd\<lparr>tn_parent := x, tn_mmrparent := y\<rparr>)"
  have o: "own_weight h' = own_weight h" "node_total h' = node_total h" "block_of h' = block_of h"
    using own_parent [where h = h and r = r and nd = nd and x = x and y = y] 1(3) by (simp_all add: h'_def)
  obtain an p where p: "h a = Some an" "bl_txpow (tn_block an) = Some p" "tn_children an = map bt_root ts"
    "mn_wf (h_blocknumber (p_header p))" "\<not> isl (node_total h a (map bt_root ts))"
    and t: "\<And>t. t \<in> set ts \<Longrightarrow> tree_at h t \<and> block_of h a < block_of h (bt_root t) \<and> (\<exists>n. h (bt_root t) = Some n \<and> tn_parent n = Some a)"
    using 1(2) by auto
  have "tree_at h' t \<and> block_of h' a < block_of h' (bt_root t) \<and> (\<exists>n. h' (bt_root t) = Some n \<and> tn_parent n = Some a)"
    if "t \<in> set ts" for t
  proof -
    have r: "r \<notin> set (bt_nodes t)" using 1(4) that by auto
    then have "r \<noteq> bt_root t" "r \<notin> set (concat (map bt_nodes (bt_subs t)))" using root_in by (metis, cases t) auto
    then have "tree_at h' t" using 1(1) [OF that _ 1(3)] t [OF that] unfolding h'_def by blast
    then show ?thesis using t [OF that] o \<open>r \<noteq> bt_root t\<close> by (auto simp: h'_def)
  qed
  moreover have "\<exists>bn. h' a = Some bn \<and> bl_txpow (tn_block bn) = Some p \<and> tn_children bn = map bt_root ts"
    using p 1(3) by (auto simp: h'_def)
  ultimately show ?case using p o unfolding h'_def [symmetric] by auto
qed

lemma id_strings_all:
  "\<forall>a \<in> set as. \<exists>nd p. h a = Some nd \<and> bl_txpow (tn_block nd) = Some p \<Longrightarrow> \<exists>ids. id_strings h as = Inr ids"
  by (induction as) (auto simp: deref_tnode_def tn_getTxPoW_def getTxPoW_def)

lemma older_links_all:
  "\<forall>(k, a) \<in> set lks. \<exists>nd p. h a = Some nd \<and> bl_txpow (tn_block nd) = Some p \<and> mn_wf (h_blocknumber (p_header p)) \<Longrightarrow> mn_wf n \<Longrightarrow>
   \<exists>as. older_links h n ids lks = Inr as \<and> (\<forall>a \<in> set as. block_of h a < mval n)"
  by (induction lks)
    (auto simp: deref_tnode_def tn_getTxPoW_def getTxPoW_def getBlockNumber_def block_of_def txp_at_def mn_compare_val)

lemma setLength_settled:
  assumes "settled t b"
  shows "\<exists>side t' b'. setLength n t = Inr (take (length (tip_path t b) - length (tip_path t' b')) (tip_path t b) @ side, t')
    \<and> settled t' b' \<and> tip_path t b = take (length (tip_path t b) - length (tip_path t' b')) (tip_path t b) @ tip_path t' b'
    \<and> tr_length t' = min (tr_length t) (max 1 n) \<and> (\<forall>a \<in> set side. block_of (tr_store t) a < block_of (tr_store t) (bt_root b'))"
proof -
  define h where "h = tr_store t"
  define path where "path = tip_path t b"
  define k where "k = min (length path) (max 1 (nat n))"
  have s: "holds_tree t b" "getHeaviestBranch t = Inr (rev path)" "tr_length t = int (length path)"
    "\<forall>(k, a) \<in> set (tr_links t). a \<in> set (bt_nodes b)"
    "\<And>a. a \<in> set (bt_nodes b) \<Longrightarrow> \<exists>nd. h a = Some nd \<and> node_total h a (tn_children nd) = Inr (tn_weight nd)"
    using assms by (auto simp: settled_def path_def h_def)
  have b: "tree_at h b" "distinct (bt_nodes b)" "set (bt_nodes b) \<subseteq> {..<tr_next t}"
    using s(1) by (auto simp: holds_tree_def h_def)
  note node = tree_at_node [OF b(1)]
  have "path \<noteq> []" using bt_path_Cons [of "weight_at h" b] by (auto simp: path_def tip_path_def h_def)
  then have k: "1 \<le> k" "k \<le> length path" "length path - k < length path" by (auto simp: k_def Suc_le_eq)
  obtain s where sub: "bt_root s = path ! (length path - k)" "bt_path (weight_at h) s = drop (length path - k) path" "tree_at h s"
    "distinct (bt_nodes s)" "set (bt_nodes s) \<subseteq> set (bt_nodes b)"
    using path_subtree [OF b(1,2), of "length path - k" "weight_at h"] k(3) by (auto simp: path_def tip_path_def h_def)
  have pn: "\<And>a. a \<in> set path \<Longrightarrow> a \<in> set (bt_nodes b)"
    using bt_path_sub [of "weight_at h" b] by (auto simp: path_def tip_path_def h_def)
  have rt: "rev path ! (k - 1) = bt_root s" using k by (simp add: rev_nth sub(1))
  obtain nd p where nd: "h (bt_root s) = Some nd" "bl_txpow (tn_block nd) = Some p" "mn_wf (h_blocknumber (p_header p))"
    using node [of "bt_root s"] subsetD [OF sub(5) root_in] by auto
  define h' where "h' = h(bt_root s \<mapsto> nd\<lparr>tn_parent := None, tn_mmrparent := None\<rparr>)"
  have cl: "clearParent (bt_root s) h = Inr h'" using nd(1) by (simp add: clearParent_def update_tnode_def deref_tnode_def h'_def)
  define t1 where "t1 = t\<lparr>tr_store := h', tr_root := Some (bt_root s)\<rparr>"
  have "bt_root s \<notin> set (concat (map bt_nodes (bt_subs s)))" using sub(4) by (cases s) simp
  then have "tree_at h' s" unfolding h'_def using sub(3) nd(1) by (intro tree_at_parent)
  then have "holds_tree t1 s"
    using sub(4,5) b(3) by (auto simp: holds_tree_def t1_def h'_def)
  from recalculated [OF this] obtain t' where t': "recalculateTree t1 = Inr t'" "settled t' s" "unweigh (tr_store t') = unweigh h'"
    by (auto simp: t1_def)
  have tot: "node_total (tr_store t') = node_total h"
    using unweigh_own [OF t'(3)] own_parent [where h = h and r = "bt_root s" and nd = nd and x = None and y = None] nd(1)
    by (simp add: h'_def)
  have w: "weight_at (tr_store t') a = weight_at h a" if a: "a \<in> set (bt_nodes s)" for a
  proof -
    obtain x where x: "h a = Some x" "node_total h a (tn_children x) = Inr (tn_weight x)" using s(5) [of a] a sub(5) by auto
    obtain y where y: "tr_store t' a = Some y" "node_total h a (tn_children y) = Inr (tn_weight y)"
      using t'(2) a tot by (auto simp: settled_def)
    obtain z where z: "h' a = Some z" "tn_children z = tn_children x" using x(1) nd(1) by (cases "a = bt_root s") (auto simp: h'_def)
    have "tn_children y = tn_children z" using unweigh_cases [OF t'(3) [symmetric], of a] y(1) z(1) by auto
    then show ?thesis using x y z by (simp add: weight_at_def)
  qed
  have path': "tip_path t' s = drop (length path - k) path"
    unfolding tip_path_def sub(2) [symmetric] by (rule bt_path_cong) (rule w)
  then have len: "length (tip_path t' s) = k" using k by simp
  have "\<exists>ids. id_strings h (rev (drop k (rev path))) = Inr ids"
    by (rule id_strings_all) (use node pn in \<open>fastforce simp: rev_drop dest: in_set_takeD\<close>)
  then obtain ids where ids: "id_strings h (rev (drop k (rev path))) = Inr ids" by blast
  have "\<exists>as. older_links h (h_blocknumber (p_header p)) ids (tr_links t) = Inr as
      \<and> (\<forall>a \<in> set as. block_of h a < mval (h_blocknumber (p_header p)))"
    by (rule older_links_all) (use node s(4) nd(3) in \<open>fastforce+\<close>)
  then obtain side where side: "older_links h (h_blocknumber (p_header p)) ids (tr_links t) = Inr side"
    "\<forall>a \<in> set side. block_of h a < mval (h_blocknumber (p_header p))"
    by blast
  have bo: "block_of h (bt_root s) = mval (h_blocknumber (p_header p))" using nd by (simp add: block_of_def txp_at_def)
  have sr: "setRoot (Some (bt_root s)) t = Inr t'" using cl t'(1) by (simp add: setRoot_def h_def t1_def)
  have kk: "min (length (rev path)) (max 1 (nat n)) = k" by (simp add: k_def)
  have "setLength n t = Inr (rev (drop k (rev path)) @ side, t')"
    using s(2) nd ids side(1) rt \<open>path \<noteq> []\<close> sr
    by (simp add: setLength_def Let_def h_def [symmetric] kk [simplified] deref_tnode_def getBlockNumber_def tn_getTxPoW_def getTxPoW_def)
  moreover have "rev (drop k (rev path)) = take (length path - k) path" by (simp add: rev_drop)
  moreover have "tr_length t' = int k" using t'(2) len by (simp add: settled_def)
  moreover have "int k = min (int (length path)) (max 1 n)" by (auto simp: k_def)
  ultimately show ?thesis
    using t'(2) path' len s(3) side(2) bo
    by (intro exI [of _ side] exI [of _ t'] exI [of _ s]) (simp add: path_def [symmetric] h_def [symmetric])
qed

subsection \<open>Properties\<close>

text \<open>C31 On a well-formed tree \<open>recalculateTree\<close> returns: every node then has the sum of its own weight and of its
  children's own weights, the tip is the end of the path that goes from the root to the child with
  the greatest such weight (the first of them) each time, the length is the length of that path, the heaviest
  branch is that path from the tip back to the root, the pulse list holds the identifiers of its last 512
  blocks, and nothing but the weights has changed in the nodes.\<close>

theorem tree_recalculated:
  assumes "holds_tree t b"
  shows "\<exists>t'. recalculateTree t = Inr t' \<and> holds_tree t' b \<and> unweigh (tr_store t') = unweigh (tr_store t)
    \<and> (\<forall>a \<in> set (bt_nodes b). \<exists>nd. tr_store t' a = Some nd \<and> node_total (tr_store t') a (tn_children nd) = Inr (tn_weight nd))
    \<and> tr_tip t' = Some (last (tip_path t' b)) \<and> tr_length t' = int (length (tip_path t' b))
    \<and> getHeaviestBranch t' = Inr (rev (tip_path t' b))
    \<and> tr_pulse t' = map (\<lambda>a. mTxPOWID (the (txp_at (tr_store t') a))) (take 512 (rev (tip_path t' b)))"
  using recalculated [OF assms] by (auto simp: settled_def)

text \<open>C32 Cutting the tree to \<open>n\<close> blocks keeps the tip: the path to it is split, the part that stays has \<open>n\<close> blocks (the
  whole path when it is shorter, the tip alone when \<open>n\<close> is not positive) and starts at the new root; the part that
  goes is returned from the oldest block on, followed by blocks older than the new root, and the tree that is
  left is again as a recalculation leaves it.\<close>

theorem setLength_keeps_tip:
  assumes "settled t b"
  shows "\<exists>gone side t' b'. setLength n t = Inr (gone @ side, t') \<and> settled t' b' \<and> tip_path t b = gone @ tip_path t' b'
    \<and> tr_tip t' = tr_tip t \<and> tr_length t' = min (tr_length t) (max 1 n)
    \<and> (\<forall>a \<in> set side. block_of (tr_store t) a < block_of (tr_store t) (bt_root b'))"
proof -
  from setLength_settled [OF assms, of n] obtain side t' b' where r:
    "setLength n t = Inr (take (length (tip_path t b) - length (tip_path t' b')) (tip_path t b) @ side, t')" "settled t' b'"
    "tip_path t b = take (length (tip_path t b) - length (tip_path t' b')) (tip_path t b) @ tip_path t' b'"
    "tr_length t' = min (tr_length t) (max 1 n)" "\<forall>a \<in> set side. block_of (tr_store t) a < block_of (tr_store t) (bt_root b')"
    by blast
  have "tip_path t' b' \<noteq> []" using bt_path_Cons [of "weight_at (tr_store t')" b'] by (auto simp: tip_path_def)
  then have "last (tip_path t' b') = last (tip_path t b)" by (subst r(3)) simp
  then have "tr_tip t' = tr_tip t" using assms r(2) by (simp add: settled_def)
  then show ?thesis using r by blast
qed

text \<open>The weight of a whole subtree, which is what the comments of the code say the nodes get.\<close>

fun subtree_weight :: "tstore \<Rightarrow> bt \<Rightarrow> rat" where
  "subtree_weight h (BT a ts) = mval (projr (own_weight h a)) + sum_list (map (subtree_weight h) ts)"

definition sample_node :: "nat option \<Rightarrow> nat list \<Rightarrow> mininumber \<Rightarrow> string \<Rightarrow> tnode" where
  "sample_node parent children block weight =
     \<lparr>tn_block = txblock_of (Some ((txpow_new mn_ZERO [])\<lparr>p_header := (header_new mn_ZERO)\<lparr>h_blocknumber := block\<rparr>,
        mBlockWeight := weight\<rparr>)) [],
      tn_parent = parent, tn_children = children, tn_weight = mn_ZERO, tn_mmr = mmr_new, tn_mmrparent = parent, tn_coins = [],
      tn_relevant = [], tn_computed = [], tn_full = False\<rparr>"

definition sample_tree :: txtree where
  "sample_tree = txtree_new\<lparr>tr_store := [0 \<mapsto> sample_node None [1, 2] mn_ZERO ''1'', 1 \<mapsto> sample_node (Some 0) [] mn_ONE ''10'',
      2 \<mapsto> sample_node (Some 0) [3] mn_ONE ''1'', 3 \<mapsto> sample_node (Some 2) [4] mn_TWO ''1'',
      4 \<mapsto> sample_node (Some 3) [] mn_TEN ''100''],
     tr_next := 5, tr_root := Some 0\<rparr>"

definition sample_bt :: bt where
  "sample_bt = BT 0 [BT 1 [], BT 2 [BT 3 [BT 4 []]]]"


lemma sample_numbers: "mn_of_string ''1'' = Inr mn_ONE" "mn_of_string ''10'' = Inr (mk 10 0)" "mn_of_string ''100'' = Inr (mk 100 0)"
  by code_simp+

lemma sample_sums: "mn_add mn_ONE (mk 10 0) = Inr (mk 11 0)" "mn_add (mk 11 0) mn_ONE = Inr (mk 12 0)" "mn_add mn_ONE mn_ONE = Inr (mk 2 0)"
    "mn_add mn_ONE (mk 100 0) = Inr (mk 101 0)"
  by code_simp+

lemma sample_own:
  "own_weight (tr_store sample_tree) a = (if a \<in> {0, 2, 3} then Inr mn_ONE else if a = 1 then Inr (mk 10 0)
     else if a = 4 then Inr (mk 100 0) else Inl (Throw RuntimeError))"
  by (simp add: own_weight_def txp_at_def sample_tree_def sample_node_def txblock_of_def txpow_new_def sample_numbers)

lemma sample_block:
  "block_of (tr_store sample_tree) a = (if a \<in> {1, 2} then 1 else if a = 3 then 2 else if a = 4 then 10 else 0)"
  by (simp add: block_of_def txp_at_def sample_tree_def sample_node_def txblock_of_def txpow_new_def mn_TWO_def constant_val)

lemma sample_totals:
  "node_total (tr_store sample_tree) 0 [Suc 0, 2] = Inr (mk 12 0)" "node_total (tr_store sample_tree) (Suc 0) [] = Inr (mk 10 0)"
  "node_total (tr_store sample_tree) 2 [3] = Inr (mk 2 0)" "node_total (tr_store sample_tree) 3 [4] = Inr (mk 101 0)"
  "node_total (tr_store sample_tree) 4 [] = Inr (mk 100 0)"
  by (simp_all add: node_total_def sample_own sample_sums)

lemma sample_store: "tr_store sample_tree a = (if a = 0 then Some (sample_node None [1, 2] mn_ZERO ''1'')
     else if a = 1 then Some (sample_node (Some 0) [] mn_ONE ''10'') else if a = 2 then Some (sample_node (Some 0) [3] mn_ONE ''1'')
     else if a = 3 then Some (sample_node (Some 2) [4] mn_TWO ''1'') else if a = 4 then Some (sample_node (Some 3) [] mn_TEN ''100'') else None)"
  by (simp add: sample_tree_def txtree_new_def)

lemma sample_tree_holds: "holds_tree sample_tree sample_bt"
proof -
  have "tree_at (tr_store sample_tree) sample_bt"
    by (simp add: sample_bt_def sample_store sample_totals sample_block)
      (simp add: sample_node_def txblock_of_def txpow_new_def header_new_def mn_TWO_def constant_wf)
  moreover have "tr_root sample_tree = Some 0" "tr_next sample_tree = 5" by (simp_all add: sample_tree_def)
  ultimately show ?thesis by (simp add: holds_tree_def sample_bt_def sample_store) (simp add: sample_node_def)
qed

theorem tree_recalculated_witness: "\<exists>t'. recalculateTree sample_tree = Inr t' \<and> holds_tree t' sample_bt"
  using tree_recalculated [OF sample_tree_holds] by blast

lemma sample_settled:
  "\<exists>t'. recalculateTree sample_tree = Inr t' \<and> settled t' sample_bt \<and> tip_path t' sample_bt = [0, 1]
     \<and> unweigh (tr_store t') = unweigh (tr_store sample_tree)"
proof -
  obtain t' where t': "recalculateTree sample_tree = Inr t'" "settled t' sample_bt"
    "unweigh (tr_store t') = unweigh (tr_store sample_tree)"
    using recalculated [OF sample_tree_holds] by blast
  have n: "node_total (tr_store t') = node_total (tr_store sample_tree)" using unweigh_own [OF t'(3)] by simp
  have w: "weight_at (tr_store t') a = w"
    if a: "a \<in> set (bt_nodes sample_bt)" and that: "tr_store sample_tree a = Some nd" "node_total (tr_store sample_tree) a (tn_children nd) = Inr w" for a nd w
  proof -
    obtain x where x: "tr_store t' a = Some x" "node_total (tr_store t') a (tn_children x) = Inr (tn_weight x)"
      using t'(2) a by (auto simp only: settled_def)
    obtain v where "tr_store sample_tree a = Some (x\<lparr>tn_weight := v\<rparr>)"
      using unweigh_cases [OF t'(3), of a] unfolding x(1) by (elim disjE exE conjE) simp_all
    then have "tn_children x = tn_children nd" unfolding that(1) by (simp only: option.inject) simp
    then show ?thesis using x that(2) n by (simp add: weight_at_def)
  qed
  have "weight_at (tr_store t') 1 = mk 10 0" "weight_at (tr_store t') 2 = mk 2 0"
    using w [of 1 "sample_node (Some 0) [] mn_ONE ''10''" "mk 10 0"] w [of 2 "sample_node (Some 0) [3] mn_ONE ''1''" "mk 2 0"]
      sample_totals by (simp_all add: sample_bt_def sample_store) (simp_all add: sample_node_def)
  moreover have "mn_compareTo (mk 2 0) (mk 10 0) \<le> 0" by code_simp
  ultimately have "tip_path t' sample_bt = [0, 1]" by (simp add: tip_path_def sample_bt_def)
  then show ?thesis using t' by blast
qed

theorem setLength_keeps_tip_witness:
  "\<exists>t gone side t'. setLength 1 t = Inr (gone @ side, t') \<and> tr_tip t' = Some 1 \<and> tr_length t' = 1"
proof -
  obtain t where t: "settled t sample_bt" "tip_path t sample_bt = [0, 1]" using sample_settled by blast
  then have "tr_length t = 2" "tr_tip t = Some 1" by (simp_all add: settled_def)
  then show ?thesis using setLength_keeps_tip [OF t(1), of 1] by fastforce
qed

text \<open>C33 The tip need not be on the heaviest branch: there is a well-formed tree whose root has two children such that the
  subtree of the second is heavier than that of the first, yet recalculation takes the first as the tip. The code
  sorts the nodes by ascending block number before it adds the weights of children to their parents, so that
  the weight of a grandchild never reaches the root.\<close>

theorem tip_not_heaviest:
  "\<exists>t b ta tb t'. holds_tree t b \<and> bt_subs b = [ta, tb] \<and> recalculateTree t = Inr t'
    \<and> subtree_weight (tr_store t') ta < subtree_weight (tr_store t') tb \<and> tr_tip t' = Some (bt_root ta)"
proof -
  obtain t' where t': "recalculateTree sample_tree = Inr t'" "settled t' sample_bt" "tip_path t' sample_bt = [0, 1]"
    "unweigh (tr_store t') = unweigh (tr_store sample_tree)"
    using sample_settled by blast
  have o: "own_weight (tr_store t') = own_weight (tr_store sample_tree)" using unweigh_own [OF t'(4)] by simp
  have "subtree_weight (tr_store t') (BT 1 []) < subtree_weight (tr_store t') (BT 2 [BT 3 [BT 4 []]])"
    by (simp add: o sample_own constant_val)
  moreover have "bt_subs sample_bt = [BT 1 [], BT 2 [BT 3 [BT 4 []]]]" by (simp add: sample_bt_def)
  moreover have "tr_tip t' = Some (bt_root (BT 1 []))" using t'(2,3) by (simp add: settled_def)
  ultimately show ?thesis using sample_tree_holds t'(1) by blast
qed

end
