(* ===== verification/TreeNodeLaws.thy ===== *)
theory TreeNodeLaws
  imports TxPowTreeLaws
begin

text \<open>
  Laws of the nodes of the tree: the coins a node holds for its block, with the entries of the MMR they get, and
  which of them are relevant to the wallet.
\<close>

lemma setEntry_count: "setEntry r n d m = Inr (x, m') \<Longrightarrow> mEntryCount m' = mEntryCount m"
  by (auto simp: setEntry_def Let_def split: if_splits)

lemma updateEntry_loop_count:
  "updateEntry_loop n c ps peaks pr i entry m = Inr m' \<Longrightarrow> mEntryCount m' = mEntryCount m"
  by (induction n c ps peaks pr i entry m rule: updateEntry_loop.induct)
    (auto simp: Let_def dest!: setEntry_count split: if_splits option.splits)

lemma updateEntry_count: "updateEntry c ps n pr d m = Inr m' \<Longrightarrow> mEntryCount m' = mEntryCount m"
  by (auto simp: updateEntry_def Let_def simp del: updateEntry_loop.simps dest!: setEntry_count updateEntry_loop_count)

lemma addEntry_loop_count: "addEntry_loop n c ps entry m = Inr m' \<Longrightarrow> mEntryCount m' = mEntryCount m \<and> mBlockTime m' = mBlockTime m"
  by (induction n c ps entry m rule: addEntry_loop.induct)
    (auto simp: Let_def split: if_splits, (metis setEntry_count setEntry_time)+)

lemma addEntry_count: "addEntry c ps d m = Inr (x, m') \<Longrightarrow> mEntryCount m' = en_increment (mEntryCount m)"
  by (auto simp: addEntry_def Let_def simp del: addEntry_loop.simps dest!: addEntry_loop_count)
    (metis setEntry_count)

lemma addEntry_time: "addEntry c ps d m = Inr (x, m') \<Longrightarrow> mBlockTime m' = mBlockTime m"
  by (auto simp: addEntry_def Let_def simp del: addEntry_loop.simps dest!: addEntry_loop_count setEntry_time)

lemma set_peaks_time: "set_peaks ps m = Inr m' \<Longrightarrow> mBlockTime m' = mBlockTime m"
  by (induction ps m rule: set_peaks.induct) (auto dest!: setEntry_time split: option.splits)

lemma copy_peaks_total: "copy_peaks es tot m = Inr (tot', m') \<Longrightarrow> tot' = tot + sum_list (map (\<lambda>p. 2 ^ nat (mRow p)) es)"
proof (induction es arbitrary: tot m)
  case (Cons e es)
  obtain m2 where "copy_peaks es (tot + 2 ^ nat (mRow e)) m2 = Inr (tot', m')" using Cons.prems by auto
  from Cons.IH [OF this] show ?case by simp
qed simp

text \<open>The coins of a node: the coins spent, marked as spent, then the new ones with consecutive entries.\<close>

definition spent_mark :: "coin \<Rightarrow> coin" where
  "spent_mark co = co\<lparr>c_spent := mb_of_bool True\<rparr>"

fun new_marks :: "mininumber \<Rightarrow> int \<Rightarrow> coin list \<Rightarrow> coin list" where
  "new_marks block n [] = []"
| "new_marks block n (co # cs) =
     co\<lparr>c_entry := en n, c_created := block, c_spent := mb_of_bool False\<rparr> # new_marks block (n + 1) cs"

lemma spend_inputs_coins:
  "spend_inputs c wl cps (m, cs, rel) = Inr (m', cs', rel') \<Longrightarrow> list_all (\<lambda>cp. coin_fits c (cp_coin cp)) cps \<Longrightarrow>
   cs' = cs @ map (\<lambda>cp. spent_mark (cp_coin cp)) cps
   \<and> rel' = rel @ map c_entry (filter (checkRelevant wl) (map (\<lambda>cp. spent_mark (cp_coin cp)) cps))
   \<and> mEntryCount m' = mEntryCount m \<and> mBlockTime m' = mBlockTime m"
proof (induction cps arbitrary: m cs rel)
  case (Cons cp cps)
  have s: "mark_spent c (cp_coin cp) = Inr (spent_mark (cp_coin cp))"
    using deepCopy_fits [of c "cp_coin cp"] Cons.prems(2) by (simp add: mark_spent_def spent_mark_def)
  obtain d m1 where m1: "updateEntry c [] (c_entry (cp_coin cp)) (cp_proof cp) d m = Inr m1"
    "spend_inputs c wl cps (m1, cs @ [spent_mark (cp_coin cp)],
       if checkRelevant wl (spent_mark (cp_coin cp)) then rel @ [c_entry (cp_coin cp)] else rel) = Inr (m', cs', rel')"
    using Cons.prems(1) by (auto simp: s Let_def)
  have "c_entry (spent_mark (cp_coin cp)) = c_entry (cp_coin cp)" by (simp add: spent_mark_def)
  then show ?case
    using Cons.IH [OF m1(2)] Cons.prems(2) updateEntry_count [OF m1(1)] updateEntry_time [OF m1(1)] by simp
qed simp

lemma checkRelevant_cong: "c_address a = c_address b \<Longrightarrow> c_state a = c_state b \<Longrightarrow> checkRelevant wl a = checkRelevant wl b"
  by (cases wl) (simp_all add: checkRelevant_def)

lemma add_outputs_coins:
  "add_outputs c wl block outs (m, cs, rel) = Inr (m', cs', rel') \<Longrightarrow> list_all (coin_fits c) outs \<Longrightarrow> mEntryCount m = en n \<Longrightarrow> 0 \<le> n \<Longrightarrow>
   cs' = cs @ new_marks block n outs \<and> rel' = rel @ map c_entry (filter (checkRelevant wl) (new_marks block n outs))
   \<and> mEntryCount m' = en (n + int (length outs)) \<and> mBlockTime m' = mBlockTime m"
proof (induction outs arbitrary: m cs rel n)
  case (Cons co outs)
  define newcoin where "newcoin = co\<lparr>c_entry := en n, c_created := block, c_spent := mb_of_bool False\<rparr>"
  have s: "mark_new c block (en n) co = Inr newcoin"
    using deepCopy_fits [of c co] Cons.prems(2) by (simp add: mark_new_def newcoin_def)
  obtain d x m1 where m1: "addEntry c [] d m = Inr (x, m1)"
    "add_outputs c wl block outs (m1, cs @ [newcoin], if checkRelevant wl co then rel @ [en n] else rel) = Inr (m', cs', rel')"
    using Cons.prems(1) by (auto simp: s Let_def Cons.prems(3))
  have "mEntryCount m1 = en (n + 1)"
    using addEntry_count [OF m1(1)] Cons.prems(3,4) by (simp add: en_simps)
  moreover have "checkRelevant wl newcoin = checkRelevant wl co" by (intro checkRelevant_cong) (simp_all add: newcoin_def)
  moreover have "c_entry newcoin = en n" by (simp add: newcoin_def)
  ultimately show ?case
    using Cons.IH [OF m1(2), of "n + 1"] Cons.prems(2,4) addEntry_time [OF m1(1)] by (simp add: newcoin_def [symmetric] add.assoc)
qed simp

text \<open>C30 The node made for a block whose coins fit their formats holds the coins the block spends, marked as spent, and
  then the new coins of the block, unspent, with the block as their origin and with consecutive entry numbers
  from the number of leaves under the peaks of the parent on; the relevant entries are those of its coins
  that are relevant to the wallet, in order, and the MMR has the time of the block and is finalised.\<close>

theorem node_coins:
  assumes "tnode_new c wl b = Inr nd" "bl_txpow b = Some p"
    and "list_all (\<lambda>cp. coin_fits c (cp_coin cp)) (bl_spent b)" "list_all (coin_fits c) (bl_new b)"
  shows "\<exists>m n. set_peaks (bl_peaks b) (mmr_new\<lparr>mBlockTime := h_blocknumber (p_header p)\<rparr>) = Inr m
    \<and> n = sum_list (map (\<lambda>e. 2 ^ nat (mRow e)) (getPeaks m))
    \<and> tn_coins nd = map (\<lambda>cp. spent_mark (cp_coin cp)) (bl_spent b) @ new_marks (h_blocknumber (p_header p)) n (bl_new b)
    \<and> tn_relevant nd = map c_entry (filter (checkRelevant wl) (tn_coins nd))
    \<and> mEntryCount (tn_mmr nd) = en (n + int (length (bl_new b)))
    \<and> mBlockTime (tn_mmr nd) = h_blocknumber (p_header p) \<and> mFinalized (tn_mmr nd)"
proof -
  define block where "block = h_blocknumber (p_header p)"
  obtain m cs rel computed where nd: "constructMMR c wl b = Inr (m, cs, rel)" "tn_mmr nd = m" "tn_coins nd = cs" "tn_relevant nd = rel"
    using assms(1) by (auto simp: tnode_new_def)
  obtain m1 m2 m3 cs3 rel3 m4 where st: "set_peaks (bl_peaks b) (mmr_new\<lparr>mBlockTime := block\<rparr>) = Inr m1"
    "calculateEntryNumberFromPeaks m1 = Inr m2" "spend_inputs c wl (bl_spent b) (m2, [], []) = Inr (m3, cs3, rel3)"
    "add_outputs c wl block (bl_new b) (m3, cs3, rel3) = Inr (m4, cs, rel)" "finalizeSet c m4 = Inr m"
    using nd(1) assms(2) by (auto simp: constructMMR_def getTxPoW_def block_def Let_def)
  define n where "n = sum_list (map (\<lambda>e. 2 ^ nat (mRow e)) (getPeaks m1) :: int list)"
  obtain m2' where m2: "copy_peaks (getPeaks m1) 0 m1 = Inr (n, m2')" "m2 = m2'\<lparr>mEntryCount := en n\<rparr>"
  proof -
    obtain tot m0 where t: "copy_peaks (getPeaks m1) 0 m1 = Inr (tot, m0)" "m2 = m0\<lparr>mEntryCount := en tot\<rparr>"
      using st(2) by (auto simp: calculateEntryNumberFromPeaks_def)
    moreover have "tot = n" using copy_peaks_total [OF t(1)] by (simp only: n_def add_0)
    ultimately show ?thesis by (intro that) simp_all
  qed
  have n0: "0 \<le> n" unfolding n_def by (intro sum_list_nonneg) auto
  have t2: "mBlockTime m2 = block" "mEntryCount m2 = en n"
    using m2 copy_peaks_time [OF m2(1)] set_peaks_time [OF st(1)] by simp_all
  have 3: "cs3 = map (\<lambda>cp. spent_mark (cp_coin cp)) (bl_spent b)" "rel3 = map c_entry (filter (checkRelevant wl) cs3)"
    "mEntryCount m3 = en n" "mBlockTime m3 = block"
    using spend_inputs_coins [OF st(3) assms(3)] t2 by simp_all
  have 4: "cs = cs3 @ new_marks block n (bl_new b)" "rel = rel3 @ map c_entry (filter (checkRelevant wl) (new_marks block n (bl_new b)))"
    "mEntryCount m4 = en (n + int (length (bl_new b)))" "mBlockTime m4 = block"
    using add_outputs_coins [OF st(4) assms(4) 3(3) n0] 3(4) by simp_all
  have "mEntryCount m = mEntryCount m4" "mBlockTime m = mBlockTime m4" "mFinalized m"
    using st(5) by (auto simp: finalizeSet_def Let_def)
  then show ?thesis using st(1) nd(2-4) 3 4 by (auto simp: block_def n_def)
qed

definition sample_fresh :: txblock where
  "sample_fresh = (txblock_of (Some (txpow_new mn_ONE [])) [])\<lparr>bl_new := [coin_new [5] [7] mn_ONE TOKENID_MINIMA False]\<rparr>"

lemma sample_fresh_sets:
  "\<not> isl (bindE (calculateEntryNumberFromPeaks (mmr_new\<lparr>mBlockTime := mn_ZERO\<rparr>)) (\<lambda>m.
     bindE (add_outputs sample_crypto None mn_ZERO [coin_new [5] [7] mn_ONE TOKENID_MINIMA False] (m, [], []))
       (\<lambda>(m, cs, rel). bindE (finalizeSet sample_crypto m) (\<lambda>m. Inr (m, cs, rel)))))"
  by code_simp

lemma sample_fresh_made: "\<exists>nd. tnode_new sample_crypto None sample_fresh = Inr nd"
  using not_isl [OF sample_fresh_sets]
  by (auto simp del: add_outputs.simps simp: tnode_new_def constructMMR_def sample_fresh_def txblock_of_def getTxPoW_def txpow_new_def header_new_def Let_def)

theorem node_coins_witness:
  "\<exists>nd. tnode_new sample_crypto None sample_fresh = Inr nd \<and> map c_amount (tn_coins nd) = [mn_ONE] \<and> mFinalized (tn_mmr nd)"
proof -
  obtain nd where nd: "tnode_new sample_crypto None sample_fresh = Inr nd" using sample_fresh_made by blast
  have "coin_fits sample_crypto (coin_new [5] [7] mn_ONE TOKENID_MINIMA False)" by code_simp
  then have f: "list_all (coin_fits sample_crypto) (bl_new sample_fresh)" by (simp add: sample_fresh_def)
  have "bl_txpow sample_fresh = Some (txpow_new mn_ONE [])" "bl_spent sample_fresh = []"
    by (simp_all add: sample_fresh_def txblock_of_def)
  then show ?thesis using node_coins [OF nd _ _ f] nd by (fastforce simp: sample_fresh_def coin_new_def)
qed

end
