(* ===== verification/Searcher.thy ===== *)
theory Searcher
  imports TreeNodeLaws
begin

text \<open>
  Looking for coins, blocks, transactions and tokens on the chain: \<open>src/org/minima/system/brains/tx_po_w_searcher.cpp\<close>,
  and the copy of relevant coins to a new root that uses it (\<open>tx_po_w_tree_node.cpp\<close>). The chain is the nodes from a
  start node back to the root. The coins of the mega MMR, the simple addresses of the wallet and the
  database of transactions are arguments.
\<close>

subsection \<open>Coins\<close>

text \<open>What is looked for: each pair of a flag and a value in the code is an optional value.\<close>

record coin_query =
  q_coinid :: "byte list option"
  q_amount :: "mininumber option"
  q_address :: "byte list option"
  q_tokenid :: "byte list option"
  q_state :: "(string \<times> bool) option"

definition any_coin :: coin_query where
  "any_coin = \<lparr>q_coinid = None, q_amount = None, q_address = None, q_tokenid = None, q_state = None\<rparr>"

definition wanted :: "('a \<Rightarrow> bool) \<Rightarrow> 'a option \<Rightarrow> bool" where
  "wanted f x = (case x of None \<Rightarrow> True | Some v \<Rightarrow> f v)"

definition coin_matches :: "coin_query \<Rightarrow> coin \<Rightarrow> bool" where
  "coin_matches q co =
     (wanted (\<lambda>t. c_tokenid co = t) (q_tokenid q) \<and> wanted (\<lambda>i. c_coinid co = i) (q_coinid q)
      \<and> wanted (\<lambda>a. mn_isEqual (c_amount co) a) (q_amount q) \<and> wanted (\<lambda>a. c_address co = a) (q_address q)
      \<and> wanted (\<lambda>(s, w). checkForStateVariable s w co) (q_state q))"

definition getSpent :: "coin \<Rightarrow> bool" where
  "getSpent co = mb_isTrue (c_spent co)"

text \<open>The loop over the coins of all nodes: the identifiers met so far, and the copies found, which may be null.\<close>

fun scan_coins :: "crypto \<Rightarrow> coin_query \<Rightarrow> string set \<Rightarrow> coin list \<Rightarrow> coin option list result" where
  "scan_coins c q spentcoins [] = Inr []"
| "scan_coins c q spentcoins (co # cs) =
     (if \<not> coin_matches q co then scan_coins c q spentcoins cs
      else let coinid = to0xString (md (c_coinid co)) in
        if getSpent co then scan_coins c q (insert coinid spentcoins) cs
        else if coinid \<in> spentcoins then scan_coins c q spentcoins cs
        else bindE (deepCopy c co) (\<lambda>copy. bindE (scan_coins c q (insert coinid spentcoins) cs) (\<lambda>found.
          Inr (copy # found))))"

text \<open>Which coins are scanned: those of at most \<open>zDepth + 1\<close> nodes, then those of the mega MMR when it is used and the
  depth is not used up.\<close>

fun node_coin_lists :: "bool \<Rightarrow> tstore \<Rightarrow> nat list \<Rightarrow> coin list list result" where
  "node_coin_lists zRelevant h [] = Inr []"
| "node_coin_lists zRelevant h (a # as) =
     bindE (deref_tnode h a) (\<lambda>nd. bindE (node_coin_lists zRelevant h as) (\<lambda>css.
     Inr ((if zRelevant then tn_computed nd else tn_coins nd) # css)))"

definition scanned_coins :: "coin list option \<Rightarrow> int \<Rightarrow> coin list list \<Rightarrow> coin list" where
  "scanned_coins mega zDepth css =
     concat (take (nat (zDepth + 1)) (if css = [] then [] else css @ (case mega of None \<Rightarrow> [] | Some cs \<Rightarrow> [cs])))"

fun simple_only :: "(string \<Rightarrow> bool) \<Rightarrow> coin option list \<Rightarrow> coin option list result" where
  "simple_only isAddressSimple [] = Inr []"
| "simple_only isAddressSimple (cc # ccs) =
     bindE (deref cc) (\<lambda>co. bindE (simple_only isAddressSimple ccs) (\<lambda>rest.
     Inr (if isAddressSimple (to0xString (md (c_address co))) then cc # rest else rest)))"

definition searchCoins :: "crypto \<Rightarrow> tstore \<Rightarrow> nat \<Rightarrow> nat option \<Rightarrow> bool \<Rightarrow> coin_query \<Rightarrow> (string \<Rightarrow> bool) option \<Rightarrow> int
    \<Rightarrow> coin list option \<Rightarrow> coin option list result" where
  "searchCoins c h n zStartNode zRelevant q simple zDepth mega =
     bindE (ancestors h n zStartNode) (\<lambda>as. bindE (node_coin_lists zRelevant h as) (\<lambda>css.
     bindE (scan_coins c q {} (scanned_coins mega zDepth css)) (\<lambda>coinentry.
     case simple of None \<Rightarrow> Inr coinentry | Some f \<Rightarrow> simple_only f coinentry)))"

definition INT_MAX :: int where "INT_MAX = 2 ^ 31 - 1"

definition getAllRelevantUnspentCoins :: "crypto \<Rightarrow> tstore \<Rightarrow> nat \<Rightarrow> nat option \<Rightarrow> coin option list result" where
  "getAllRelevantUnspentCoins c h n zStartNode = searchCoins c h n zStartNode True any_coin None INT_MAX None"

definition getRelevantUnspentCoins :: "crypto \<Rightarrow> tstore \<Rightarrow> nat \<Rightarrow> nat option \<Rightarrow> string \<Rightarrow> (string \<Rightarrow> bool) option
    \<Rightarrow> coin option list result" where
  "getRelevantUnspentCoins c h n zStartNode zTokenID simple =
     bindE (md_of_string zTokenID) (\<lambda>t.
     searchCoins c h n zStartNode True (any_coin\<lparr>q_tokenid := Some (mData t)\<rparr>) simple INT_MAX None)"

definition front :: "'a option list \<Rightarrow> 'a option" where
  "front xs = (case xs of [] \<Rightarrow> None | x # _ \<Rightarrow> x)"

definition searchCoin :: "crypto \<Rightarrow> txtree \<Rightarrow> byte list \<Rightarrow> coin list option \<Rightarrow> coin option result" where
  "searchCoin c t zCoinID mega =
     bindE (searchCoins c (tr_store t) (tr_next t) (tr_tip t) False (any_coin\<lparr>q_coinid := Some zCoinID\<rparr>) None INT_MAX mega)
       (\<lambda>coins. Inr (front coins))"

definition getFloatingCoin :: "crypto \<Rightarrow> tstore \<Rightarrow> nat \<Rightarrow> nat option \<Rightarrow> mininumber \<Rightarrow> byte list \<Rightarrow> byte list \<Rightarrow> coin option result" where
  "getFloatingCoin c h n zStartNode zAmount zAddress zTokenID =
     bindE (searchCoins c h n zStartNode False
       (any_coin\<lparr>q_amount := Some zAmount, q_address := Some zAddress, q_tokenid := Some zTokenID\<rparr>) None INT_MAX None)
       (\<lambda>coins. Inr (front coins))"

text \<open>The relevant coins of the parent, moved to a node that becomes the root; a coin whose entry or copy is missing is
  skipped as in the code.\<close>

fun copy_relevant :: "crypto \<Rightarrow> mmr list \<Rightarrow> coin option list \<Rightarrow> coins_state \<Rightarrow> coins_state result" where
  "copy_relevant c ps [] s = Inr s"
| "copy_relevant c ps (cc # ccs) (m, cs, rel) =
     (case cc of None \<Rightarrow> copy_relevant c ps ccs (m, cs, rel)
      | Some co \<Rightarrow>
          case mMMRData (getEntry (m # ps) 0 (c_entry co)) of None \<Rightarrow> copy_relevant c ps ccs (m, cs, rel)
          | Some d \<Rightarrow>
              bindE (getProofToPeak ps m (c_entry co)) (\<lambda>p.
              bindE (updateEntry c ps (c_entry co) p (mmr_data (d_hash d) (d_value d)) m) (\<lambda>m.
              bindE (deepCopy c co) (\<lambda>cp. bindE (deref cp) (\<lambda>x.
              copy_relevant c ps ccs (m, cs @ [x], rel @ [c_entry co]))))))"

definition copyParentRelevantCoins :: "crypto \<Rightarrow> nat \<Rightarrow> nat \<Rightarrow> tstore \<Rightarrow> tstore result" where
  "copyParentRelevantCoins c n a h =
     bindE (deref_tnode h a) (\<lambda>nd.
       case getParent h nd of None \<Rightarrow> Inr h
       | Some b \<Rightarrow>
           bindE (getAllRelevantUnspentCoins c h n (Some b)) (\<lambda>unspentcoins.
           bindE (mmr_parents h n (tn_mmrparent nd)) (\<lambda>ps.
           bindE (copy_relevant c ps unspentcoins ((tn_mmr nd)\<lparr>mFinalized := False\<rparr>, tn_coins nd, tn_relevant nd)) (\<lambda>(m, cs, rel).
           bindE (calculateRelevantCoins c cs rel) (\<lambda>computed.
           Inr (h(a \<mapsto> nd\<lparr>tn_mmr := m\<lparr>mFinalized := True\<rparr>, tn_coins := cs, tn_relevant := rel, tn_computed := computed\<rparr>)))))))"

subsection \<open>Blocks and transactions\<close>

text \<open>The first node of the chain with a property of its block.\<close>

fun find_node :: "(tnode \<Rightarrow> bool result) \<Rightarrow> tstore \<Rightarrow> nat list \<Rightarrow> nat option result" where
  "find_node f h [] = Inr None"
| "find_node f h (a # as) =
     bindE (deref_tnode h a) (\<lambda>nd. bindE (f nd) (\<lambda>b. if b then Inr (Some a) else find_node f h as))"

definition search_chain :: "(tnode \<Rightarrow> bool result) \<Rightarrow> txtree \<Rightarrow> nat option result" where
  "search_chain f t = bindE (getHeaviestBranch t) (find_node f (tr_store t))"

definition getTreeNodeForCoin :: "byte list \<Rightarrow> txtree \<Rightarrow> nat option result" where
  "getTreeNodeForCoin zCoinID t = search_chain (\<lambda>nd. Inr (list_ex (\<lambda>co. c_coinid co = zCoinID) (tn_coins nd))) t"

definition getTxPoWBlock :: "mininumber \<Rightarrow> txtree \<Rightarrow> nat option result" where
  "getTxPoWBlock zBlockNumber t = search_chain (\<lambda>nd. bindE (getBlockNumber nd) (\<lambda>b. Inr (mn_isEqual b zBlockNumber))) t"

definition searchChainForTxPoW :: "byte list \<Rightarrow> txtree \<Rightarrow> nat option result" where
  "searchChainForTxPoW zTxPoWID t =
     search_chain (\<lambda>nd. bindE (tn_getTxPoW nd) (\<lambda>p.
       Inr (md_isEqual (mTxPOWID p) (md zTxPoWID) \<or> list_ex (\<lambda>txn. txn = zTxPoWID) (getBlockTransactions p)))) t"

definition searchChainForTxPoWBlock :: "byte list \<Rightarrow> txtree \<Rightarrow> nat option result" where
  "searchChainForTxPoWBlock zTxPoWID t =
     search_chain (\<lambda>nd. bindE (tn_getTxPoW nd) (\<lambda>p. Inr (md_isEqual (mTxPOWID p) (md zTxPoWID)))) t"

definition checkTxPoWForAddress :: "byte list \<Rightarrow> txpow \<Rightarrow> bool result" where
  "checkTxPoWForAddress zAddress p =
     bindE (need_body p) (\<lambda>b. Inr (list_ex (\<lambda>cc. c_address cc = zAddress)
       (tx_inputs (b_transaction b) @ tx_inputs (b_burntransaction b) @ tx_outputs (b_transaction b) @ tx_outputs (b_burntransaction b))))"

definition state_relevant :: "wallet \<Rightarrow> state_variable list \<Rightarrow> bool" where
  "state_relevant w svs = list_ex (\<lambda>sv. sv_type sv = STATETYPE_HEX
     \<and> (isAddressRelevant w (sv_data sv) \<or> isKeyRelevant w (sv_data sv))) svs"

definition checkTxPoWRelevant :: "wallet \<Rightarrow> txpow \<Rightarrow> bool result" where
  "checkTxPoWRelevant w p =
     bindE (need_body p) (\<lambda>b. let t = b_transaction b; bt = b_burntransaction b; mine = (\<lambda>cc. isAddressRelevant w (to0xString (md (c_address cc)))) in
       Inr (list_ex (\<lambda>cc. mine cc \<or> state_relevant w (c_state cc)) (tx_inputs t @ tx_inputs bt)
         \<or> list_ex mine (tx_outputs t @ tx_outputs bt) \<or> state_relevant w (tx_state t) \<or> state_relevant w (tx_state bt)))"

fun txns_for_address :: "(string \<Rightarrow> txpow option) \<Rightarrow> byte list \<Rightarrow> byte list list \<Rightarrow> txpow list result" where
  "txns_for_address txpdb zAddress [] = Inr []"
| "txns_for_address txpdb zAddress (txn # txns) =
     bindE (case txpdb (to0xString (md txn)) of None \<Rightarrow> Inr []
            | Some txp \<Rightarrow> bindE (checkTxPoWForAddress zAddress txp) (\<lambda>b. Inr (if b then [txp] else []))) (\<lambda>xs.
     bindE (txns_for_address txpdb zAddress txns) (\<lambda>ys. Inr (xs @ ys)))"

text \<open>A block is searched once for every coin of it that has the address.\<close>

definition block_for_address :: "(string \<Rightarrow> txpow option) \<Rightarrow> byte list \<Rightarrow> txpow \<Rightarrow> txpow list result" where
  "block_for_address txpdb zAddress p =
     bindE (checkTxPoWForAddress zAddress p) (\<lambda>b. bindE (txns_for_address txpdb zAddress (getBlockTransactions p)) (\<lambda>ys.
     Inr ((if b then [p] else []) @ ys)))"

fun coins_for_address :: "(string \<Rightarrow> txpow option) \<Rightarrow> byte list \<Rightarrow> tnode \<Rightarrow> coin list \<Rightarrow> txpow list result" where
  "coins_for_address txpdb zAddress nd [] = Inr []"
| "coins_for_address txpdb zAddress nd (co # cs) =
     bindE (if c_address co = zAddress then bindE (tn_getTxPoW nd) (block_for_address txpdb zAddress) else Inr []) (\<lambda>xs.
     bindE (coins_for_address txpdb zAddress nd cs) (\<lambda>ys. Inr (xs @ ys)))"

fun nodes_for_address :: "(string \<Rightarrow> txpow option) \<Rightarrow> byte list \<Rightarrow> tstore \<Rightarrow> nat list \<Rightarrow> txpow list result" where
  "nodes_for_address txpdb zAddress h [] = Inr []"
| "nodes_for_address txpdb zAddress h (a # as) =
     bindE (deref_tnode h a) (\<lambda>nd. bindE (coins_for_address txpdb zAddress nd (tn_coins nd)) (\<lambda>xs.
     bindE (nodes_for_address txpdb zAddress h as) (\<lambda>ys. Inr (xs @ ys))))"

definition searchTxPoWviaAddress :: "(string \<Rightarrow> txpow option) \<Rightarrow> byte list \<Rightarrow> txtree \<Rightarrow> txpow list result" where
  "searchTxPoWviaAddress txpdb zAddress t =
     bindE (getHeaviestBranch t) (nodes_for_address txpdb zAddress (tr_store t))"

subsection \<open>Tokens\<close>

text \<open>The tokens of the chain, each once by its printed identifier, then the imported ones; the token of a coin may be
  missing.\<close>

fun chain_tokens :: "string list \<Rightarrow> coin list \<Rightarrow> (string list \<times> ktoken option list)" where
  "chain_tokens added [] = (added, [])"
| "chain_tokens added (co # cs) =
     (let tokenid = to0xString (md (c_tokenid co)) in
      if tokenid \<noteq> ''0x00'' \<and> tokenid \<notin> set added
      then (case chain_tokens (added @ [tokenid]) cs of (ad, ts) \<Rightarrow> (ad, c_token co # ts))
      else chain_tokens added cs)"

fun imported_tokens :: "string list \<Rightarrow> ktoken list \<Rightarrow> ktoken option list" where
  "imported_tokens added [] = []"
| "imported_tokens added (tk # tks) =
     (case t_tokenid tk of None \<Rightarrow> imported_tokens added tks
      | Some tid \<Rightarrow> let tokenid = to0xString (md tid) in
          if tokenid \<in> set added then imported_tokens added tks
          else Some tk # imported_tokens (added @ [tokenid]) tks)"

definition getAllTokens :: "ktoken list \<Rightarrow> txtree \<Rightarrow> ktoken option list result" where
  "getAllTokens s_importedTokens t =
     bindE (getHeaviestBranch t) (\<lambda>as. bindE (node_coin_lists False (tr_store t) as) (\<lambda>css.
     case chain_tokens [] (concat css) of (added, tks) \<Rightarrow> Inr (tks @ imported_tokens added s_importedTokens)))"

definition importToken :: "ktoken \<Rightarrow> ktoken list \<Rightarrow> ktoken list" where
  "importToken zToken s_importedTokens = s_importedTokens @ [zToken]"

definition getToken :: "ktoken list \<Rightarrow> coin list option \<Rightarrow> byte list \<Rightarrow> txtree \<Rightarrow> ktoken option result" where
  "getToken s_importedTokens mega zTokenID t =
     (case find (\<lambda>tk. t_tokenid tk = Some zTokenID) s_importedTokens of
        Some tk \<Rightarrow> Inr (Some tk)
      | None \<Rightarrow>
          bindE (getHeaviestBranch t) (\<lambda>as. bindE (node_coin_lists False (tr_store t) as) (\<lambda>css.
          Inr (case find (\<lambda>co. c_tokenid co = zTokenID) (concat (if css = [] then [] else css @ (case mega of None \<Rightarrow> [] | Some cs \<Rightarrow> [cs]))) of
                 None \<Rightarrow> None | Some co \<Rightarrow> c_token co))))"

end
