(* ===== verification/Difficulty.thy ===== *)
theory Difficulty
  imports Searcher
begin

text \<open>
  The difficulty of the next block: \<open>src/org/minima/system/brains/tx_po_w_generator.cpp\<close>. The time of a stretch of the
  chain is taken between two blocks of median time, the speed of the chain is compared with the target, and the average
  difficulty is scaled by the quotient, held between one half and two.
\<close>

definition MINIMA_BLOCK_SPEED :: mininumber where "MINIMA_BLOCK_SPEED = mk 2 2"
definition MINIMA_BLOCKS_SPEED_CALC :: mininumber where "MINIMA_BLOCKS_SPEED_CALC = mk 256 0"
definition MEDIAN_BLOCK_CALC :: int where "MEDIAN_BLOCK_CALC = 64"
definition MAX_SPBOUND_DIFFICULTY :: mininumber where "MAX_SPBOUND_DIFFICULTY = mk 20 1"
definition MIN_SPBOUND_DIFFICULTY :: mininumber where "MIN_SPBOUND_DIFFICULTY = mk 5 1"
definition mn_EIGHT :: mininumber where "mn_EIGHT = mk 8 0"
definition mn_THOUSAND :: mininumber where "mn_THOUSAND = mk 1 (-3)"

definition cpp_int_to_mini_data :: "int \<Rightarrow> minidata" where
  "cpp_int_to_mini_data v = md (if v = 0 then [0] else be_bytes (nat v))"

definition calculateDifficultyData :: "mininumber \<Rightarrow> minidata result" where
  "calculateDifficultyData zHashes =
     (let denom = getAsBigInteger zHashes in
      if denom = 0 then Inl (Throw RuntimeError) else Inr (cpp_int_to_mini_data (int MAX_VALDEC sdiv denom)))"

definition block_at :: "tstore \<Rightarrow> nat \<Rightarrow> txpow result" where
  "block_at h a = bindE (deref_tnode h a) tn_getTxPoW"

definition getTimeMilli :: "txpow \<Rightarrow> mininumber" where
  "getTimeMilli p = h_timemilli (p_header p)"

definition getBlockDifficulty_of :: "txpow \<Rightarrow> minidata" where
  "getBlockDifficulty_of p = h_difficulty (p_header p)"

subsection \<open>Median time\<close>

text \<open>The blocks collected, with their times.\<close>

fun collect_blocks :: "tstore \<Rightarrow> nat \<Rightarrow> nat option \<Rightarrow> (nat \<times> mininumber) list result" where
  "collect_blocks h (Suc k) (Some a) =
     bindE (deref_tnode h a) (\<lambda>nd. bindE (tn_getTxPoW nd) (\<lambda>p.
     bindE (collect_blocks h k (getParent h nd)) (\<lambda>bs. Inr ((a, getTimeMilli p) # bs))))"
| "collect_blocks h k a = Inr []"

definition earlier :: "nat \<times> mininumber \<Rightarrow> nat \<times> mininumber \<Rightarrow> bool" where
  "earlier x y = (mn_compareTo (snd x) (snd y) < 0)"

definition getMedianTimeBlock_n :: "tstore \<Rightarrow> nat \<Rightarrow> int \<Rightarrow> nat result" where
  "getMedianTimeBlock_n h zStartBlock zBlocksBack =
     bindE (collect_blocks h (nat zBlocksBack) (Some zStartBlock)) (\<lambda>allblocks.
     if allblocks = [] then Inr zStartBlock
     else Inr (fst (sort_by earlier allblocks ! (length allblocks div 2))))"

definition getMedianTimeBlock :: "tstore \<Rightarrow> nat \<Rightarrow> nat result" where
  "getMedianTimeBlock h zStartBlock = getMedianTimeBlock_n h zStartBlock MEDIAN_BLOCK_CALC"

subsection \<open>Speed and difficulty\<close>

definition getChainSpeed :: "tstore \<Rightarrow> nat \<Rightarrow> mininumber \<Rightarrow> mininumber result" where
  "getChainSpeed h zStartBlock zBlocksBack =
     bindE (getParent_n h (getAsInt zBlocksBack) zStartBlock) (\<lambda>pastblock.
     bindE (block_at h pastblock) (\<lambda>past. bindE (block_at h zStartBlock) (\<lambda>now.
     bindE (mn_sub (h_blocknumber (p_header now)) (h_blocknumber (p_header past))) (\<lambda>blockdiff.
     bindE (mn_sub (getTimeMilli now) (getTimeMilli past)) (\<lambda>timediff.
     bindE (mn_div blockdiff timediff) (\<lambda>speedmilli. mn_mult speedmilli mn_THOUSAND))))))"

text \<open>The sum over a stretch of the chain; past the root the code dereferences a null pointer.\<close>

fun sum_difficulty :: "tstore \<Rightarrow> nat \<Rightarrow> nat option \<Rightarrow> int result" where
  "sum_difficulty h 0 current = Inr 0"
| "sum_difficulty h (Suc k) None = Inl Undef"
| "sum_difficulty h (Suc k) (Some a) =
     bindE (deref_tnode h a) (\<lambda>nd. bindE (tn_getTxPoW nd) (\<lambda>p.
     bindE (sum_difficulty h k (getParent h nd)) (\<lambda>rest. Inr (int (md_getValue (getBlockDifficulty_of p)) + rest))))"

definition getAverageDifficulty :: "tstore \<Rightarrow> nat \<Rightarrow> mininumber \<Rightarrow> int result" where
  "getAverageDifficulty h zTopBlock zBlocksBack =
     (let totalblock = nat (getAsInt zBlocksBack) in
      if totalblock = 0 then Inr 0
      else bindE (sum_difficulty h totalblock (Some zTopBlock)) (\<lambda>s. Inr (s sdiv int totalblock)))"

definition clamp_ratio :: "mininumber \<Rightarrow> mininumber" where
  "clamp_ratio speedratio =
     (if mn_isMore speedratio MAX_SPBOUND_DIFFICULTY then MAX_SPBOUND_DIFFICULTY
      else if mn_isLess speedratio MIN_SPBOUND_DIFFICULTY then MIN_SPBOUND_DIFFICULTY else speedratio)"

definition new_difficulty :: "mininumber \<Rightarrow> int \<Rightarrow> minidata" where
  "new_difficulty speedratio averagedifficulty =
     (let newdiff = cpp_int_to_mini_data (multBigInteger speedratio averagedifficulty) in
      if md_compare newdiff MIN_TXPOW_WORK > 0 then MIN_TXPOW_WORK else newdiff)"

definition getBlockDifficulty :: "tstore \<Rightarrow> nat \<Rightarrow> minidata result" where
  "getBlockDifficulty h zParent =
     bindE (block_at h zParent) (\<lambda>parent.
     if mn_isLess (h_blocknumber (p_header parent)) mn_EIGHT then Inr MIN_TXPOW_WORK
     else
       bindE (getParent_n h (getAsInt MINIMA_BLOCKS_SPEED_CALC) zParent) (\<lambda>endblock.
       bindE (getMedianTimeBlock h zParent) (\<lambda>startblock.
       bindE (getMedianTimeBlock h endblock) (\<lambda>endblock.
       bindE (block_at h startblock) (\<lambda>s. bindE (block_at h endblock) (\<lambda>e.
       bindE (mn_sub (h_blocknumber (p_header s)) (h_blocknumber (p_header e))) (\<lambda>blockdiff.
       if mn_isEqual (h_blocknumber (p_header s)) (h_blocknumber (p_header e)) then Inr (getBlockDifficulty_of parent)
       else
         bindE (mn_sub (getTimeMilli s) (getTimeMilli e)) (\<lambda>timediff.
         if mn_isLessEqual timediff mn_ZERO then Inr (getBlockDifficulty_of parent)
         else
           bindE (getChainSpeed h startblock blockdiff) (\<lambda>speed.
           bindE (mn_div MINIMA_BLOCK_SPEED speed) (\<lambda>speedratio.
           bindE (getAverageDifficulty h startblock blockdiff) (\<lambda>averagedifficulty.
           Inr (new_difficulty (clamp_ratio speedratio) averagedifficulty))))))))))))"

subsection \<open>Coin identifiers before mining\<close>

fun reset_coinids :: "crypto \<Rightarrow> bool \<Rightarrow> byte list \<Rightarrow> int \<Rightarrow> coin list \<Rightarrow> coin list result" where
  "reset_coinids c eltoo base num [] = Inr []"
| "reset_coinids c eltoo base num (out # outs) =
     bindE (if eltoo then Inr COINID_OUTPUT else calculateCoinID c base num) (\<lambda>coinid.
     bindE (reset_coinids c eltoo base (num + 1) outs) (\<lambda>rest. Inr (out\<lparr>c_coinid := coinid\<rparr> # rest)))"

definition precomputeTransactionCoinID :: "crypto \<Rightarrow> transaction \<Rightarrow> transaction result" where
  "precomputeTransactionCoinID c t =
     (case tx_inputs t of
        [] \<Rightarrow> Inr t
      | firstcoin # _ \<Rightarrow>
          bindE (reset_coinids c (c_coinid firstcoin = COINID_ELTOO) (c_coinid firstcoin) 0 (tx_outputs t)) (\<lambda>outs.
          Inr (t\<lparr>tx_outputs := outs\<rparr>)))"

end
