(* ===== verification/Checker.thy ===== *)
theory Checker
  imports Difficulty KissEval TxBlock Cascade
begin

text \<open>
  The checks on received transactions and blocks: \<open>src/org/minima/system/brains/tx_po_w_checker.cpp\<close>, with the
  relay policy (\<open>src/org/minima/system/network/minima/relay_policy.cpp\<close>). The checks note on a transaction that its
  scripts were run; the functions that do so return their answer together with the object as they leave it. Log
  lines are left out. A witness holds no null proofs here (see \<open>TxPoW\<close>).
\<close>

definition CURRENT_NETWORK :: "byte list" where "CURRENT_NETWORK = MAIN_NET"
definition MAX_TIME_FUTURE :: mininumber where "MAX_TIME_FUTURE = mk 86400000 0"
definition MAX_RELAY_OUTPUTCOINS :: int where "MAX_RELAY_OUTPUTCOINS = 32"

subsection \<open>Transactions by themselves\<close>

definition proof_ids :: "witness \<Rightarrow> string list" where
  "proof_ids w = map (\<lambda>cp. to0xString (md (c_coinid (cp_coin cp)))) (wt_coinproofs w)"

definition spent_ids :: "txpow \<Rightarrow> string list" where
  "spent_ids p =
     (case p_body p of None \<Rightarrow> []
      | Some b \<Rightarrow> if isTransaction p then proof_ids (b_witness b) @ proof_ids (b_burnwitness b) else [])"

text \<open>The token of an input and of the coin it is proved with: both have to be there and to carry the token of
  their coin. A token without an identifier is a null pointer that is followed.\<close>

definition token_matches :: "coin \<Rightarrow> bool result" where
  "token_matches co =
     (case c_token co of None \<Rightarrow> Inr False
      | Some tk \<Rightarrow> bindE (deref (t_tokenid tk)) (\<lambda>tid. Inr (c_tokenid co = tid)))"

definition input_matches :: "witness \<Rightarrow> coin \<Rightarrow> coin \<Rightarrow> bool result" where
  "input_matches w input pc =
     (if \<not> (mn_isEqual (c_amount input) (c_amount pc) \<and> c_address input = c_address pc \<and> c_tokenid input = c_tokenid pc)
      then Inr False
      else if c_coinid input \<noteq> COINID_ELTOO \<and> c_coinid input \<noteq> c_coinid pc then Inr False
      else bindE (if c_tokenid input = TOKENID_MINIMA then Inr True
                  else bindE (token_matches input) (\<lambda>b. if b then token_matches pc else Inr False)) (\<lambda>b.
        if \<not> b then Inr False
        else if getSpent pc then Inr False
        else Inr (scriptExists (c_address input) w)))"

fun check_inputs :: "witness \<Rightarrow> string set \<Rightarrow> coin list \<Rightarrow> coin_proof list \<Rightarrow> bool result" where
  "check_inputs w used (input # ins) (cp # cps) =
     (let coinid = to0xString (md (c_coinid (cp_coin cp))) in
      if coinid \<in> used then Inr False
      else bindE (input_matches w input (cp_coin cp)) (\<lambda>b.
        if b then check_inputs w (insert coinid used) ins cps else Inr False))"
| "check_inputs w used _ _ = Inr True"

definition output_token_ok :: "coin \<Rightarrow> bool result" where
  "output_token_ok cc =
     (if c_tokenid cc \<noteq> TOKENID_MINIMA \<and> c_tokenid cc \<noteq> TOKENID_CREATE then token_matches cc
      else if c_tokenid cc = TOKENID_CREATE then Inr (c_token cc \<noteq> None)
      else Inr True)"

fun check_outputs :: "coin list \<Rightarrow> bool result" where
  "check_outputs [] = Inr True"
| "check_outputs (cc # ccs) = bindE (output_token_ok cc) (\<lambda>b. if b then check_outputs ccs else Inr False)"

definition checkTxPoWBasic_impl :: "transaction \<Rightarrow> witness \<Rightarrow> bool result" where
  "checkTxPoWBasic_impl zTransaction zWitness =
     (if tx_isEmpty zTransaction then Inr True
      else bindE (checkValid zTransaction) (\<lambda>valid.
        if \<not> valid then Inr False
        else if tx_inputs zTransaction = [] then Inr False
        else if length (tx_inputs zTransaction) \<noteq> length (wt_coinproofs zWitness) then Inr False
        else bindE (check_inputs zWitness {} (tx_inputs zTransaction) (wt_coinproofs zWitness)) (\<lambda>b.
          if \<not> b then Inr False else check_outputs (tx_outputs zTransaction))))"

definition checkTxPoWBasic :: "txpow \<Rightarrow> bool result" where
  "checkTxPoWBasic zTxPoW =
     (if h_chainid (p_header zTxPoW) \<noteq> CURRENT_NETWORK then Inr False
      else if \<not> distinct (spent_ids zTxPoW) then Inr False
      else bindE (need_body zTxPoW) (\<lambda>b.
        bindE (checkTxPoWBasic_impl (b_transaction b) (b_witness b)) (\<lambda>valid.
        if \<not> valid then Inr False
        else if tx_linkhash (b_transaction b) \<noteq> ZERO_TXPOWID then Inr False
        else if tx_isEmpty (b_burntransaction b) then Inr True
        else if tx_linkhash (b_burntransaction b) \<noteq> tx_id (b_transaction b) then Inr False
        else checkTxPoWBasic_impl (b_burntransaction b) (b_burnwitness b))))"

subsection \<open>Scripts\<close>

definition is_blank :: "char \<Rightarrow> bool" where
  "is_blank ch = (ch \<in> {CHR '' '', CHR 0x09, CHR 0x0D, CHR 0x0A})"

definition trim_blank :: "string \<Rightarrow> string" where
  "trim_blank s = rev (dropWhile is_blank (rev (dropWhile is_blank s)))"

text \<open>One script of an input: whether it kept to monotonic functions, and its verdict. The state before the
  transaction comes from a copy of the coin, which is a null pointer when copying fails.\<close>

definition check_script :: "kenv \<Rightarrow> txpow \<Rightarrow> witness \<Rightarrow> transaction \<Rightarrow> int \<Rightarrow> coin \<Rightarrow> string \<Rightarrow> (bool \<times> bool) result" where
  "check_script env zBlock w t i co script =
     bindE (deepCopy (e_crypto env) co) (\<lambda>cp. bindE (deref cp) (\<lambda>coinCopy.
     bindE (contract_new_signed (e_crypto env) script w t (c_state coinCopy)) (\<lambda>s.
     case setGlobals (h_blocknumber (p_header zBlock)) (h_timemilli (p_header zBlock)) t i (c_created co) script
            (setMaxInstructions (getAsInt (mCurrentMaxKISSVMOps (h_magic (p_header zBlock)))) s) of
       (Inl e, s) \<Rightarrow> Inl e
     | (Inr u, s) \<Rightarrow> bindE (contract_run env s) (\<lambda>s. Inr (mMonotonic s, mSuccess s)))))"

definition note_monotonic :: "bool \<Rightarrow> transaction \<Rightarrow> transaction" where
  "note_monotonic keeps t = (if keeps then t else t\<lparr>mIsMonotonic := False\<rparr>)"

text \<open>The scripts of the inputs from the \<open>i\<close>-th on: that of the address, then that of the token.\<close>

fun check_scripts :: "kenv \<Rightarrow> txpow \<Rightarrow> witness \<Rightarrow> int \<Rightarrow> coin_proof list \<Rightarrow> transaction \<Rightarrow> bool result \<times> transaction" where
  "check_scripts env zBlock w i [] t = (Inr True, t\<lparr>mIsValid := True\<rparr>)"
| "check_scripts env zBlock w i (cp # cps) t =
     (let co = cp_coin cp in
      case getScript (c_address co) w of
        None \<Rightarrow> (Inr False, t)
      | Some prfs \<Rightarrow>
          case check_script env zBlock w t i co (sc_script prfs) of
            Inl e \<Rightarrow> (Inl e, t)
          | Inr (keeps, ok) \<Rightarrow>
              let t = note_monotonic keeps t in
              if \<not> ok then (Inr False, t)
              else if c_tokenid co = TOKENID_MINIMA then check_scripts env zBlock w (i + 1) cps t
              else case c_token co of
                None \<Rightarrow> (Inr False, t)
              | Some tk \<Rightarrow>
                  let tokscript = trim_blank (t_script tk) in
                  if tokscript = ''RETURN TRUE'' then check_scripts env zBlock w (i + 1) cps t
                  else case check_script env zBlock w t i co tokscript of
                    Inl e \<Rightarrow> (Inl e, t)
                  | Inr (keeps, ok) \<Rightarrow>
                      let t = note_monotonic keeps t in
                      if \<not> ok then (Inr False, t) else check_scripts env zBlock w (i + 1) cps t)"

definition checkTxPoWScripts_impl :: "kenv \<Rightarrow> transaction \<Rightarrow> witness \<Rightarrow> txpow \<Rightarrow> bool result \<times> transaction" where
  "checkTxPoWScripts_impl env zTransaction zWitness zBlock =
     (if isCheckedMonotonic zTransaction then (Inr (mIsValid zTransaction), zTransaction)
      else let t = zTransaction\<lparr>mHaveCheckedMonotonic := True, mIsMonotonic := True, mIsValid := False\<rparr> in
        if tx_isEmpty t then (Inr True, t\<lparr>mIsValid := True\<rparr>)
        else if length (wt_coinproofs zWitness) \<noteq> length (tx_inputs t) then (Inr False, t)
        else check_scripts env zBlock zWitness 0 (wt_coinproofs zWitness) t)"

definition checkTxPoWScripts :: "kenv \<Rightarrow> txpow \<Rightarrow> txpow \<Rightarrow> bool result \<times> txpow" where
  "checkTxPoWScripts env zTxPoW zBlock =
     (case need_body zTxPoW of
        Inl e \<Rightarrow> (Inl e, zTxPoW)
      | Inr b \<Rightarrow>
          case checkTxPoWScripts_impl env (b_transaction b) (b_witness b) zBlock of
            (r, t) \<Rightarrow>
              let b = b\<lparr>b_transaction := t\<rparr> in
              if r \<noteq> Inr True then (r, zTxPoW\<lparr>p_body := Some b\<rparr>)
              else case checkTxPoWScripts_impl env (b_burntransaction b) (b_burnwitness b) zBlock of
                (r, t) \<Rightarrow> (r, zTxPoW\<lparr>p_body := Some (b\<lparr>b_burntransaction := t\<rparr>)\<rparr>))"

subsection \<open>Proofs, signatures, relay policy\<close>

fun checkMMR_impl :: "crypto \<Rightarrow> mmr list \<Rightarrow> mmr \<Rightarrow> coin_proof list \<Rightarrow> bool result" where
  "checkMMR_impl c ps zTipMMR [] = Inr True"
| "checkMMR_impl c ps zTipMMR (cp # cps) =
     bindE (coin_leaf c (cp_coin cp)) (\<lambda>mmrcoin.
     bindE (checkProofTimeValid c ps zTipMMR (c_entry (cp_coin cp)) mmrcoin (cp_proof cp)) (\<lambda>validmmr.
     if validmmr then checkMMR_impl c ps zTipMMR cps else Inr False))"

definition checkMMR :: "crypto \<Rightarrow> mmr list \<Rightarrow> mmr \<Rightarrow> txpow \<Rightarrow> bool result" where
  "checkMMR c ps zTipMMR zTxPoW =
     bindE (need_body zTxPoW) (\<lambda>b. bindE (checkMMR_impl c ps zTipMMR (wt_coinproofs (b_witness b))) (\<lambda>ok.
     if \<not> ok then Inr False else checkMMR_impl c ps zTipMMR (wt_coinproofs (b_burnwitness b))))"

text \<open>A default tree key that is given the public key of the signature.\<close>

definition tk_default :: tree_key where
  "tk_default = \<lparr>mLevels = 0, mKeysPerLevel = 0, mUses = 0, mMaxUses = 0, mPrivateSeed = [], mPubKey = [],
     mRoot = Tree_Node 0 [] [] mmr_new [] [] None\<rparr>"

fun check_signatures :: "crypto \<Rightarrow> byte list \<Rightarrow> signature list \<Rightarrow> bool result" where
  "check_signatures c transid [] = Inr True"
| "check_signatures c transid (sig # sigs) =
     bindE (sig_getRootPublicKey c sig) (\<lambda>k. bindE (tk_verify c transid sig (tk_setPublicKey k tk_default)) (\<lambda>ok.
     if ok then check_signatures c transid sigs else Inr False))"

definition checkSignatures :: "crypto \<Rightarrow> txpow \<Rightarrow> bool result" where
  "checkSignatures c zTxPoW =
     bindE (need_body zTxPoW) (\<lambda>b. bindE (check_signatures c (tx_id (b_transaction b)) (wt_signatures (b_witness b))) (\<lambda>ok.
     if \<not> ok then Inr False else check_signatures c (tx_id (b_burntransaction b)) (wt_signatures (b_burnwitness b))))"

definition checkMemPoolCoins :: "(byte list \<Rightarrow> bool) \<Rightarrow> txpow \<Rightarrow> bool result" where
  "checkMemPoolCoins inMempool zTxPoW =
     bindE (need_body zTxPoW) (\<lambda>b. Inr (list_ex (\<lambda>cp. inMempool (c_coinid (cp_coin cp)))
       (wt_coinproofs (b_witness b) @ wt_coinproofs (b_burnwitness b))))"

definition checkMaxCoinOutputNumber :: "txpow \<Rightarrow> bool result" where
  "checkMaxCoinOutputNumber zTxPow =
     bindE (need_body zTxPow) (\<lambda>b. Inr (int (length (tx_outputs (b_transaction b))) \<le> MAX_RELAY_OUTPUTCOINS
       \<and> int (length (tx_outputs (b_burntransaction b))) \<le> MAX_RELAY_OUTPUTCOINS))"

definition stored_state :: "transaction \<Rightarrow> int result" where
  "stored_state t = bindE (calculateStateSize t) (\<lambda>sz. Inr (sz * int (length (filter c_storestate (tx_outputs t)))))"

definition checkMaxStateStoreSize :: "int \<Rightarrow> txpow \<Rightarrow> bool result" where
  "checkMaxStateStoreSize zMaxSize zTxPow =
     bindE (need_body zTxPow) (\<lambda>b. bindE (stored_state (b_transaction b)) (\<lambda>totaltxn.
     bindE (stored_state (b_burntransaction b)) (\<lambda>totalburn. Inr (totaltxn + totalburn \<le> zMaxSize))))"

definition checkAllPolicies :: "int \<Rightarrow> txpow \<Rightarrow> bool result" where
  "checkAllPolicies zMaxSize zTxPow =
     bindE (checkMaxCoinOutputNumber zTxPow) (\<lambda>b. if b then checkMaxStateStoreSize zMaxSize zTxPow else Inr False)"

definition checkTxPoWSimple :: "kenv \<Rightarrow> mmr list \<Rightarrow> mmr \<Rightarrow> txpow \<Rightarrow> txpow \<Rightarrow> bool result \<times> txpow" where
  "checkTxPoWSimple env ps zTipMMR zTxPoW zBlock =
     (let magic = h_magic (p_header zBlock); maxsize = getAsLong (mCurrentMaxTxPoWSize magic) in
      case bindE (need_body zTxPoW) (\<lambda>b.
             if md_compare (b_txndifficulty b) (mCurrentMinTxPoWWork magic) > 0 then Inr False
             else if getSizeinBytesWithoutBlockTxns zTxPoW > maxsize then Inr False
             else bindE (checkMaxStateStoreSize maxsize zTxPoW) (\<lambda>ok.
               if \<not> ok then Inr False else checkMMR (e_crypto env) ps zTipMMR zTxPoW)) of
        Inl e \<Rightarrow> (Inl e, zTxPoW)
      | Inr ok \<Rightarrow> if \<not> ok then (Inr False, zTxPoW) else checkTxPoWScripts env zTxPoW zBlock)"

subsection \<open>Super parents\<close>

text \<open>The levels from \<open>blocksup\<close> up to that of a node have the node as super parent; \<open>None\<close> when one has not.\<close>

function super_loop :: "txpow \<Rightarrow> byte list \<Rightarrow> int \<Rightarrow> int \<Rightarrow> int option result" where
  "super_loop zBlock txdata superlevel blocksup =
     (if superlevel \<ge> blocksup
      then bindE (getSuperParent blocksup zBlock) (\<lambda>superparent.
        if superparent \<noteq> txdata then Inr None else super_loop zBlock txdata superlevel (blocksup + 1))
      else Inr (Some blocksup))"
  by pat_completeness auto
termination by (relation "measure (\<lambda>(b, t, sl, bs). nat (sl + 1 - bs))") auto

declare super_loop.simps [simp del]

fun supers_of :: "txpow \<Rightarrow> txpow result list \<Rightarrow> int \<Rightarrow> int option result" where
  "supers_of zBlock [] blocksup = Inr (Some blocksup)"
| "supers_of zBlock (r # rs) blocksup =
     bindE r (\<lambda>p. bindE (super_loop zBlock (mData (mTxPOWID p)) (mSuperBlock p) blocksup) (\<lambda>b. case b of
       None \<Rightarrow> Inr None | Some blocksup \<Rightarrow> supers_of zBlock rs blocksup))"

fun zero_supers :: "txpow \<Rightarrow> nat list \<Rightarrow> bool result" where
  "zero_supers zBlock [] = Inr True"
| "zero_supers zBlock (i # is) =
     bindE (getSuperParent (int i) zBlock) (\<lambda>sp. if sp \<noteq> ZERO_TXPOWID then Inr False else zero_supers zBlock is)"

definition checkParents :: "tstore \<Rightarrow> nat \<Rightarrow> cascade \<Rightarrow> nat \<Rightarrow> txpow \<Rightarrow> bool result" where
  "checkParents h n cs zTip zBlock =
     bindE (ancestors h n (Some zTip)) (\<lambda>as. bindE (supers_of zBlock (map (block_at h) as) 0) (\<lambda>b. case b of
       None \<Rightarrow> Inr False
     | Some blocksup \<Rightarrow>
         bindE (chain_nodes cs) (\<lambda>nds. bindE (supers_of zBlock (map cn_getTxPoW nds) blocksup) (\<lambda>b. case b of
           None \<Rightarrow> Inr False
         | Some blocksup \<Rightarrow> zero_supers zBlock [nat blocksup..<MINIMA_CASCADE_LEVELS]))))"

subsection \<open>Blocks\<close>

text \<open>The checks that both kinds of blocks pass: network, number, super parents, time, difficulty and limits.\<close>

definition check_time :: "tstore \<Rightarrow> nat \<Rightarrow> txpow \<Rightarrow> bool result" where
  "check_time h zParentNode zTxPoW =
     bindE (getMedianTimeBlock_n h zParentNode (MEDIAN_BLOCK_CALC * 2)) (\<lambda>median. bindE (block_at h median) (\<lambda>mp.
     bindE (mn_add (getTimeMilli mp) MAX_TIME_FUTURE) (\<lambda>maxtime.
     Inr (\<not> mn_isLess (getTimeMilli zTxPoW) (getTimeMilli mp) \<and> \<not> mn_isMore (getTimeMilli zTxPoW) maxtime))))"

definition check_header :: "tstore \<Rightarrow> nat \<Rightarrow> cascade \<Rightarrow> nat \<Rightarrow> txpow \<Rightarrow> bool result" where
  "check_header h n cs zParentNode zTxPoW =
     (if h_chainid (p_header zTxPoW) \<noteq> CURRENT_NETWORK then Inr False
      else bindE (block_at h zParentNode) (\<lambda>parent. bindE (increment (h_blocknumber (p_header parent))) (\<lambda>num.
        if \<not> mn_isEqual (h_blocknumber (p_header zTxPoW)) num then Inr False
        else bindE (checkParents h n cs zParentNode zTxPoW) (\<lambda>ok. if \<not> ok then Inr False
        else bindE (check_time h zParentNode zTxPoW) (\<lambda>ok. if \<not> ok then Inr False
        else bindE (getBlockDifficulty h zParentNode) (\<lambda>blockdifficulty.
          if \<not> md_isEqual (getBlockDifficulty_of zTxPoW) blockdifficulty then Inr False
          else bindE (calculateNewCurrent (h_magic (p_header parent))) (\<lambda>m. Inr (checkSame (h_magic (p_header zTxPoW)) m))))))))"

text \<open>The chain is followed on the sets of the parent; the sets in the tree are finalised, so that building on the
  parent leaves it as it is.\<close>

definition check_root :: "penv \<Rightarrow> mmr list \<Rightarrow> mmr \<Rightarrow> txpow \<Rightarrow> txpow list \<Rightarrow> bool result" where
  "check_root e ps parentMMR zTxPoW zTransactions =
     bindE (txpow_deepCopy e zTxPoW) (\<lambda>copy. bindE (deref copy) (\<lambda>txpow_copy.
     bindE (txblock_new e ps parentMMR txpow_copy zTransactions) (\<lambda>(b, parent). bindE (txblock_copy e b) (\<lambda>b.
     bindE (tnode_new (p_crypto e) None b) (\<lambda>node. bindE (getRoot (p_crypto e) (tn_mmr node)) (\<lambda>r. case r of
       None \<Rightarrow> Inr False
     | Some rt \<Rightarrow> Inr (d_hash rt = h_mmrroot (p_header zTxPoW) \<and> mn_isEqual (d_value rt) (h_mmrtotal (p_header zTxPoW)))))))))"

fun check_txns :: "kenv \<Rightarrow> mmr list \<Rightarrow> mmr \<Rightarrow> txpow \<Rightarrow> txpow list \<Rightarrow> bool result \<times> txpow list" where
  "check_txns env ps m zBlock [] = (Inr True, [])"
| "check_txns env ps m zBlock (txp # txps) =
     (case checkTxPoWSimple env ps m txp zBlock of
        (r, txp) \<Rightarrow> if r \<noteq> Inr True then (r, txp # txps)
                    else case check_txns env ps m zBlock txps of (r, txps) \<Rightarrow> (r, txp # txps))"

text \<open>An exception on the way makes the block invalid.\<close>

definition caught :: "bool result \<Rightarrow> bool result" where
  "caught r = (case r of Inl (Throw e) \<Rightarrow> Inr False | r \<Rightarrow> r)"

definition check_limits :: "txpow \<Rightarrow> txpow list \<Rightarrow> bool" where
  "check_limits zTxPoW zTransactions =
     (int (length (getBlockTransactions zTxPoW)) \<le> getAsInt (mCurrentMaxTxnPerBlock (h_magic (p_header zTxPoW))) mod 2 ^ 64
      \<and> distinct (concat (map spent_ids (zTxPoW # zTransactions))))"

definition check_block :: "kenv \<Rightarrow> penv \<Rightarrow> tstore \<Rightarrow> nat \<Rightarrow> cascade \<Rightarrow> nat \<Rightarrow> txpow \<Rightarrow> txpow list
    \<Rightarrow> bool result \<times> txpow \<times> txpow list" where
  "check_block env e h n cs zParentNode zTxPoW zTransactions =
     (case bindE (check_header h n cs zParentNode zTxPoW) (\<lambda>ok.
             if \<not> ok then Inr None
             else if \<not> check_limits zTxPoW zTransactions then Inr None
             else bindE (deref_tnode h zParentNode) (\<lambda>nd. bindE (mmr_parents h n (tn_mmrparent nd)) (\<lambda>ps. Inr (Some (tn_mmr nd, ps))))) of
        Inl er \<Rightarrow> (Inl er, zTxPoW, zTransactions)
      | Inr None \<Rightarrow> (Inr False, zTxPoW, zTransactions)
      | Inr (Some (m, ps)) \<Rightarrow>
          case (if isTransaction zTxPoW then checkTxPoWSimple env ps m zTxPoW zTxPoW else (Inr True, zTxPoW)) of
            (r, zTxPoW) \<Rightarrow>
              if r \<noteq> Inr True then (r, zTxPoW, zTransactions)
              else case check_txns env ps m zTxPoW zTransactions of
                (r, zTransactions) \<Rightarrow>
                  if r \<noteq> Inr True then (r, zTxPoW, zTransactions)
                  else (check_root e ps m zTxPoW zTransactions, zTxPoW, zTransactions))"

definition checkTxPoWBlock :: "kenv \<Rightarrow> penv \<Rightarrow> tstore \<Rightarrow> nat \<Rightarrow> cascade \<Rightarrow> nat option \<Rightarrow> txpow \<Rightarrow> txpow list
    \<Rightarrow> bool result \<times> txpow \<times> txpow list" where
  "checkTxPoWBlock env e h n cs zParentNode zTxPoW zTransactions =
     (case zParentNode of None \<Rightarrow> (Inr False, zTxPoW, zTransactions)
      | Some a \<Rightarrow> case check_block env e h n cs a zTxPoW zTransactions of (r, p, ts) \<Rightarrow> (caught r, p, ts))"

definition checkTxPoWBlockTimed :: "kenv \<Rightarrow> penv \<Rightarrow> tstore \<Rightarrow> nat \<Rightarrow> cascade \<Rightarrow> nat option \<Rightarrow> txpow \<Rightarrow> txpow list
    \<Rightarrow> bool result \<times> txpow \<times> txpow list" where
  "checkTxPoWBlockTimed env e h n cs zParentNode zTxPoW zTransactions =
     (if zParentNode = None then (Inr False, zTxPoW, zTransactions)
      else case checkTxPoWBlock env e h n cs zParentNode zTxPoW zTransactions of (r, p, ts) \<Rightarrow> (caught r, p, ts))"

definition checkTxBlockOnly :: "tstore \<Rightarrow> nat \<Rightarrow> cascade \<Rightarrow> nat option \<Rightarrow> txblock \<Rightarrow> bool result" where
  "checkTxBlockOnly h n cs zParentNode zTxBlock =
     (case zParentNode of None \<Rightarrow> Inr False
      | Some a \<Rightarrow> caught (bindE (getTxPoW zTxBlock) (check_header h n cs a)))"

end
