(* ===== verification/SearcherLaws.thy ===== *)
theory SearcherLaws
  imports Searcher
begin

text \<open>
  What the search for coins finds: the first matching state of each coin on the way back along the chain, when that
  state is unspent.
\<close>

definition newest_unspent :: "coin_query \<Rightarrow> coin list \<Rightarrow> coin list" where
  "newest_unspent q cs = map (nth cs) (filter (\<lambda>i. coin_matches q (cs ! i) \<and> \<not> getSpent (cs ! i)
     \<and> (\<forall>j\<in>{0..<i}. coin_matches q (cs ! j) \<longrightarrow> c_coinid (cs ! j) \<noteq> c_coinid (cs ! i))) [0..<length cs])"

definition printed_ids :: "coin_query \<Rightarrow> coin list \<Rightarrow> string set" where
  "printed_ids q cs = (\<lambda>co. to0xString (md (c_coinid co))) ` {co \<in> set cs. coin_matches q co}"

lemma to0xString_inj: "to0xString (md a) = to0xString (md b) \<Longrightarrow> a = b"
  by (metis to0xString_def md_sel(1) decode16_encode16 sum.inject(2))

lemma printed_id_in: "to0xString (md t) \<in> printed_ids q cs \<longleftrightarrow> (\<exists>co\<in>set cs. coin_matches q co \<and> c_coinid co = t)"
  unfolding printed_ids_def by (auto dest: to0xString_inj)

lemma printed_ids_snoc:
  "printed_ids q (cs @ [co]) = (if coin_matches q co then insert (to0xString (md (c_coinid co))) (printed_ids q cs) else printed_ids q cs)"
  by (auto simp: printed_ids_def)

definition newest_at :: "coin_query \<Rightarrow> coin list \<Rightarrow> nat \<Rightarrow> bool" where
  "newest_at q cs i = (coin_matches q (cs ! i) \<and> \<not> getSpent (cs ! i)
     \<and> (\<forall>j\<in>{0..<i}. coin_matches q (cs ! j) \<longrightarrow> c_coinid (cs ! j) \<noteq> c_coinid (cs ! i)))"

lemma newest_at_split:
  "newest_at q (pre @ co # cs) (length pre)
     = (coin_matches q co \<and> \<not> getSpent co \<and> to0xString (md (c_coinid co)) \<notin> printed_ids q pre)"
  by (auto simp: newest_at_def printed_id_in in_set_conv_nth nth_append Ball_def) 

lemma scan_coins_newest:
  "list_all (coin_fits c) cs \<Longrightarrow>
   scan_coins c q (printed_ids q pre) cs
     = Inr (map (\<lambda>i. Some ((pre @ cs) ! i)) (filter (newest_at q (pre @ cs)) [length pre..<length pre + length cs]))"
proof (induction cs arbitrary: pre)
  case (Cons co cs)
  have r: "[length pre..<length pre + length (co # cs)] = length pre # [length (pre @ [co])..<length (pre @ [co]) + length cs]"
    using upt_conv_Cons [of "length pre" "length pre + length (co # cs)"] by simp
  have IH: "scan_coins c q (printed_ids q (pre @ [co])) cs
     = Inr (map (\<lambda>i. Some ((pre @ co # cs) ! i)) (filter (newest_at q (pre @ co # cs)) [length (pre @ [co])..<length (pre @ [co]) + length cs]))"
    using Cons.IH [of "pre @ [co]"] Cons.prems by simp
  have seen: "insert x (printed_ids q pre) = printed_ids q pre" if "x \<in> printed_ids q pre" for x
    using that by auto
  show ?case
    unfolding r filter.simps list.map newest_at_split scan_coins.simps
    using IH deepCopy_fits [of c co] Cons.prems by (auto simp: printed_ids_snoc seen Let_def)
qed simp

lemma simple_only_filter:
  "simple_only f (map Some cs) = Inr (map Some (filter (\<lambda>co. f (to0xString (md (c_address co)))) cs))"
  by (induction cs) auto

text \<open>C34 A search for coins along the chain (and the mega MMR) whose coins fit their format returns, in order, copies of
  exactly the matching coins that are unspent and have no matching coin with the same identifier nearer to the start
  of the search; with the simple-address filter, those of them with a simple address.\<close>

theorem search_finds_newest:
  assumes "ancestors h n zStartNode = Inr as" "node_coin_lists zRelevant h as = Inr css"
    and "list_all (coin_fits c) (scanned_coins mega zDepth css)"
  shows "searchCoins c h n zStartNode zRelevant q simple zDepth mega
     = Inr (map Some (filter (\<lambda>co. case simple of None \<Rightarrow> True | Some f \<Rightarrow> f (to0xString (md (c_address co))))
         (newest_unspent q (scanned_coins mega zDepth css))))"
proof -
  have "scan_coins c q {} (scanned_coins mega zDepth css) = Inr (map Some (newest_unspent q (scanned_coins mega zDepth css)))"
    using scan_coins_newest [OF assms(3), of q "[]"] by (simp add: printed_ids_def newest_unspent_def newest_at_def [abs_def] comp_def)
  then show ?thesis using assms(1,2) by (cases simple) (simp_all add: searchCoins_def simple_only_filter)
qed

text \<open>A chain of two blocks: the second spends the coin 5 of the first and creates the coin 6; the coin 7 stays.\<close>

definition sample_found :: "byte \<Rightarrow> coin" where
  "sample_found i = coin_new [i] [7] mn_ONE TOKENID_MINIMA False"

definition sample_search :: tstore where
  "sample_search = [0 \<mapsto> (sample_node None [1] mn_ZERO ''1'')\<lparr>tn_coins := [sample_found 5, sample_found 7]\<rparr>,
     1 \<mapsto> (sample_node (Some 0) [] mn_ONE ''1'')\<lparr>tn_coins := [spent_mark (sample_found 5), sample_found 6]\<rparr>]"

definition sample_scanned :: "coin list" where
  "sample_scanned = [spent_mark (sample_found 5), sample_found 6, sample_found 5, sample_found 7]"

lemma sample_scanned_fits: "list_all (coin_fits sample_crypto) sample_scanned"
  by code_simp

lemma sample_newest: "newest_unspent any_coin sample_scanned = [sample_found 6, sample_found 7]"
  by code_simp

theorem search_finds_newest_witness:
  "searchCoins sample_crypto sample_search 2 (Some 1) False any_coin None INT_MAX None
     = Inr [Some (sample_found 6), Some (sample_found 7)]"
proof -
  have a: "ancestors sample_search 2 (Some 1) = Inr [1, 0]"
    by (simp add: sample_search_def sample_node_def getParent_def deref_tnode_def numeral_2_eq_2)
  have n: "node_coin_lists False sample_search [1, 0] = Inr [[spent_mark (sample_found 5), sample_found 6], [sample_found 5, sample_found 7]]"
    by (simp add: sample_search_def deref_tnode_def)
  have s: "scanned_coins None INT_MAX [[spent_mark (sample_found 5), sample_found 6], [sample_found 5, sample_found 7]] = sample_scanned"
    by (simp add: scanned_coins_def INT_MAX_def sample_scanned_def)
  show ?thesis
    using search_finds_newest [OF a n, where c = sample_crypto and mega = None and zDepth = INT_MAX and q = any_coin and simple = None]
      sample_scanned_fits sample_newest s by simp
qed

end
