(* ===== verification/DifficultyLaws.thy ===== *)
theory DifficultyLaws
  imports Difficulty
begin

text \<open>
  The median block of a chain, and the bounds the difficulty of the next block keeps.
\<close>

subsection \<open>Chains\<close>

text \<open>A number that is written without decimals and is not huge, as block numbers and times are.\<close>

definition whole :: "mininumber \<Rightarrow> bool" where
  "whole m = (m_scale m = 0 \<and> 0 \<le> m_unscaled m \<and> m_unscaled m < 10 ^ 60)"

definition whole_block :: "txpow option \<Rightarrow> bool" where
  "whole_block p = (case p of None \<Rightarrow> False | Some p \<Rightarrow> whole (h_blocknumber (p_header p)) \<and> whole (h_timemilli (p_header p)))"

definition is_chain :: "tstore \<Rightarrow> nat \<Rightarrow> nat \<Rightarrow> nat list \<Rightarrow> bool" where
  "is_chain h n a as = (ancestors h n (Some a) = Inr as \<and> list_all (\<lambda>b. whole_block (txp_at h b)) as)"

definition time_at :: "tstore \<Rightarrow> nat \<Rightarrow> mininumber" where
  "time_at h a = getTimeMilli (the (txp_at h a))"

definition difficulty_at :: "tstore \<Rightarrow> nat \<Rightarrow> int" where
  "difficulty_at h a = int (md_getValue (getBlockDifficulty_of (the (txp_at h a))))"

lemma whole_wf:
  assumes "whole m" shows "mn_wf m" "mval m = of_int (m_unscaled m)" "m = mk (m_unscaled m) 0"
proof -
  have b: "m_unscaled m < 10 ^ 60" "0 \<le> m_unscaled m" "m_scale m = 0" using assms by (simp_all add: whole_def)
  have "(10 :: int) ^ 60 < 10 ^ 64" "(10 :: int) ^ 60 < get_max_value" by (simp_all add: get_max_value_def)
  then show "mn_wf m" using b unfolding mn_wf_def in_range_def MAX_DECIMAL_PLACES_def MAX_DIGITS_def by simp
  show "mval m = of_int (m_unscaled m)" "m = mk (m_unscaled m) 0" using b by (simp_all add: mval_def mininumber_eqI)
qed

lemma whole_sub:
  assumes "whole a" "whole b"
  shows "mn_sub a b = Inr (mk (m_unscaled a - m_unscaled b) 0)"
proof -
  let ?d = "m_unscaled a - m_unscaled b"
  have d: "\<bar>?d\<bar> < 10 ^ 60" using assms by (auto simp: whole_def)
  moreover have "(10 :: int) ^ 60 < 10 ^ 64" "(10 :: int) ^ 60 < get_max_value" "(10 :: int) ^ 60 < big"
    by (simp_all add: get_max_value_def big_def)
  ultimately have "finish ?d 0 = Inr (normalize_zero (mk ?d 0))"
    by (intro finish_short) (simp_all add: small_def in_range_def MAX_DECIMAL_PLACES_def MAX_DIGITS_def)
  then show ?thesis using assms by (simp add: mn_sub_def align_scales_def whole_def normalize_zero_def mk_def)
qed

lemma txp_block: "txp_at h a = Some p \<Longrightarrow> \<exists>nd. h a = Some nd \<and> tn_getTxPoW nd = Inr p"
  by (auto simp: txp_at_def tn_getTxPoW_def getTxPoW_def split: option.splits)

lemma ancestors_step:
  assumes "ancestors h n (Some a) = Inr as"
  shows "\<exists>nd m bs. n = Suc m \<and> h a = Some nd \<and> as = a # bs \<and> ancestors h m (getParent h nd) = Inr bs"
  using assms by (cases n) (auto simp: deref_tnode_def split: option.splits)

lemma chain_step:
  assumes "is_chain h n a as"
  shows "\<exists>nd m bs p. h a = Some nd \<and> txp_at h a = Some p \<and> tn_getTxPoW nd = Inr p \<and> as = a # bs
     \<and> (case getParent h nd of None \<Rightarrow> bs = [] | Some b \<Rightarrow> is_chain h m b bs)"
  using assms ancestors_step [of h n a as] txp_block [of h a]
  by (fastforce simp: is_chain_def whole_block_def split: option.splits)

lemma chain_block: "is_chain h n a as \<Longrightarrow> block_at h a = Inr (the (txp_at h a)) \<and> whole (h_blocknumber (p_header (the (txp_at h a))))
    \<and> whole (time_at h a)"
  using chain_step [of h n a as]
  by (auto simp: block_at_def deref_tnode_def is_chain_def whole_block_def time_at_def getTimeMilli_def split: option.splits)

lemma chain_collect:
  "is_chain h n a as \<Longrightarrow> collect_blocks h k (Some a) = Inr (map (\<lambda>b. (b, time_at h b)) (take k as))"
proof (induction k arbitrary: n a as)
  case (Suc k)
  obtain nd m bs p where s: "h a = Some nd" "txp_at h a = Some p" "tn_getTxPoW nd = Inr p" "as = a # bs"
    "case getParent h nd of None \<Rightarrow> bs = [] | Some b \<Rightarrow> is_chain h m b bs"
    using chain_step [OF Suc.prems] by blast
  show ?case
  proof (cases "getParent h nd")
    case None
    then show ?thesis using s by (simp add: deref_tnode_def time_at_def)
  next
    case (Some b)
    then show ?thesis using s Suc.IH [of m b bs] by (simp add: deref_tnode_def time_at_def)
  qed
qed simp

lemma chain_sum:
  "is_chain h n a as \<Longrightarrow> sum_difficulty h k (Some a)
     = (if k \<le> length as then Inr (sum_list (map (difficulty_at h) (take k as))) else Inl Undef)"
proof (induction k arbitrary: n a as)
  case (Suc k)
  obtain nd m bs p where s: "h a = Some nd" "txp_at h a = Some p" "tn_getTxPoW nd = Inr p" "as = a # bs"
    "case getParent h nd of None \<Rightarrow> bs = [] | Some b \<Rightarrow> is_chain h m b bs"
    using chain_step [OF Suc.prems] by blast
  show ?case
  proof (cases "getParent h nd")
    case None
    then show ?thesis using s by (cases k) (simp_all add: deref_tnode_def difficulty_at_def)
  next
    case (Some b)
    then show ?thesis using s Suc.IH [of m b bs] by (simp add: deref_tnode_def difficulty_at_def [abs_def])
  qed
qed simp

lemma chain_at_nth: "is_chain h n a as \<Longrightarrow> i < length as \<Longrightarrow> \<exists>m. is_chain h m (as ! i) (drop i as)"
proof (induction i arbitrary: n a as)
  case 0
  then show ?case using chain_step [OF 0(1)] by force
next
  case (Suc i)
  obtain nd m bs p where s: "as = a # bs" "case getParent h nd of None \<Rightarrow> bs = [] | Some b \<Rightarrow> is_chain h m b bs"
    using chain_step [OF Suc.prems(1)] by blast
  then obtain b where "is_chain h m b bs" using Suc.prems(2) by (auto split: option.splits)
  from Suc.IH [OF this] show ?case using Suc.prems(2) s(1) by simp
qed

lemma chain_parent_steps: "is_chain h n a as \<Longrightarrow> \<exists>b\<in>set as. parent_steps h k a = Inr b"
proof (induction k arbitrary: n a as)
  case 0
  then show ?case using chain_step [OF 0] by force
next
  case (Suc k)
  obtain nd m bs p where s: "h a = Some nd" "as = a # bs" "case getParent h nd of None \<Rightarrow> bs = [] | Some b \<Rightarrow> is_chain h m b bs"
    using chain_step [OF Suc.prems] by blast
  show ?case
  proof (cases "getParent h nd")
    case None
    then show ?thesis using s by (simp add: deref_tnode_def)
  next
    case (Some b)
    then show ?thesis using s Suc.IH [of m b bs] by (auto simp: deref_tnode_def)
  qed
qed

lemma chain_member:
  assumes "is_chain h n a as" "b \<in> set as"
  shows "\<exists>m i. i < length as \<and> is_chain h m b (drop i as)"
  using assms chain_at_nth [OF assms(1)] by (metis in_set_conv_nth)

subsection \<open>The median\<close>

lemma count_mset: "mset xs = mset ys \<Longrightarrow> length (filter P xs) = length (filter P ys)"
  by (metis mset_filter size_mset)

lemma sorted_middle:
  fixes f :: "'a \<Rightarrow> rat"
  assumes "sorted (map f ys)" "i < length ys"
  shows "length (filter (\<lambda>y. f y < f (ys ! i)) ys) \<le> i" "length (filter (\<lambda>y. f (ys ! i) < f y) ys) \<le> length ys - 1 - i"
proof -
  have o: "f (ys ! j) \<le> f (ys ! k)" if "j \<le> k" "k < length ys" for j k
    using sorted_nth_mono [OF assms(1)] that by simp
  have "{j. j < length ys \<and> f (ys ! j) < f (ys ! i)} \<subseteq> {..<i}"
    using o [of i] by (force simp: not_less [symmetric])
  from card_mono [OF _ this] show "length (filter (\<lambda>y. f y < f (ys ! i)) ys) \<le> i" by (simp add: length_filter_conv_card)
  have "{j. j < length ys \<and> f (ys ! i) < f (ys ! j)} \<subseteq> {i<..<length ys}"
    using o [of _ i] assms(2) by (force simp: not_less [symmetric])
  from card_mono [OF _ this] show "length (filter (\<lambda>y. f (ys ! i) < f y) ys) \<le> length ys - 1 - i"
    by (simp add: length_filter_conv_card)
qed

lemma median_of_chain:
  assumes "is_chain h n a as" "0 < zBlocksBack"
  shows "\<exists>m\<in>set (take (nat zBlocksBack) as). getMedianTimeBlock_n h a zBlocksBack = Inr m
     \<and> length (filter (\<lambda>b. mval (time_at h b) < mval (time_at h m)) (take (nat zBlocksBack) as)) \<le> length (take (nat zBlocksBack) as) div 2
     \<and> length (filter (\<lambda>b. mval (time_at h m) < mval (time_at h b)) (take (nat zBlocksBack) as)) \<le> (length (take (nat zBlocksBack) as) - 1) div 2"
proof -
  define xs where "xs = take (nat zBlocksBack) as"
  define bs where "bs = map (\<lambda>b. (b, time_at h b)) xs"
  define ys where "ys = sort_by earlier bs"
  define i where "i = length ys div 2"
  define f where "f x = mval (snd x)" for x :: "nat \<times> mininumber"
  have c: "collect_blocks h (nat zBlocksBack) (Some a) = Inr bs"
    using chain_collect [OF assms(1)] by (simp add: bs_def xs_def)
  have ne: "xs \<noteq> []" using chain_step [OF assms(1)] assms(2) by (auto simp: xs_def)
  have m: "mset ys = mset bs" unfolding ys_def by (rule sort_by_mset)
  have len: "length ys = length xs" using mset_eq_length [OF m] by (simp add: bs_def)
  have wf: "mn_wf (time_at h b)" if "b \<in> set xs" for b
    using that chain_member [OF assms(1)] chain_block whole_wf(1) unfolding xs_def by (meson in_set_takeD)
  have "sorted (map f ys)" unfolding ys_def
  proof (rule sort_by_sorted)
    fix y z assume "y \<in> set bs" "z \<in> set bs"
    then have "mn_wf (snd y)" "mn_wf (snd z)" using wf by (auto simp: bs_def)
    then show "earlier y z = (f y < f z)" by (auto simp: earlier_def f_def mn_compareTo_val cmp3_def)
  qed
  have i: "i < length ys" using ne by (simp add: i_def len)
  note mid = sorted_middle [OF \<open>sorted (map f ys)\<close> i]
  have "ys ! i \<in> set bs" using nth_mem [OF i] m by (metis set_mset_mset)
  then obtain b where b: "b \<in> set xs" "ys ! i = (b, time_at h b)" by (auto simp: bs_def)
  have "getMedianTimeBlock_n h a zBlocksBack = Inr b"
    using c b(2) ne len by (simp add: getMedianTimeBlock_n_def ys_def [symmetric] i_def bs_def)
      (simp add: bs_def [symmetric] ys_def [symmetric])
  moreover have "length (filter P ys) = length (filter (\<lambda>b. P (b, time_at h b)) xs)" for P
    using count_mset [OF m, of P] by (simp add: bs_def filter_map comp_def)
  moreover have "f (ys ! i) = mval (time_at h b)" by (simp add: f_def b(2))
  moreover have "length ys - 1 - i \<le> (length xs - 1) div 2" "i = length xs div 2" by (simp_all add: len i_def)
  ultimately show ?thesis
    using mid b(1) by (intro bexI [of _ b]) (simp_all add: f_def flip: xs_def)
qed

text \<open>C36 On a chain of blocks with whole times, the median block is one of the blocks looked at, at most half of them
  have an earlier time and at most half of the others a later one.\<close>

theorem median_time_block:
  assumes "is_chain h n zStartBlock as" "0 < zBlocksBack" "xs = take (nat zBlocksBack) as"
  shows "\<exists>m\<in>set xs. getMedianTimeBlock_n h zStartBlock zBlocksBack = Inr m
     \<and> length (filter (\<lambda>b. mval (time_at h b) < mval (time_at h m)) xs) \<le> length xs div 2
     \<and> length (filter (\<lambda>b. mval (time_at h m) < mval (time_at h b)) xs) \<le> (length xs - 1) div 2"
  using median_of_chain [OF assms(1,2)] unfolding assms(3) .

subsection \<open>Bounds of the difficulty\<close>

lemma multBigInteger_val:
  assumes "mn_wf m" "0 \<le> z" "0 \<le> mval m"
  shows "multBigInteger m z = \<lfloor>of_int z * mval m\<rfloor>"
proof (cases "m_scale m \<le> 0")
  case True
  have p: "pow10 (- m_scale m) = 10 ^ nat (- m_scale m)" "m_scale m = 0 \<Longrightarrow> pow10 0 = 1"
    using mn_wf_scale [OF assms(1)] True by (simp_all add: pow10_eq)
  have "of_int z * mval m = of_int (z * m_unscaled m * 10 ^ nat (- m_scale m))"
    using True by (simp add: mval_def p10_nonneg)
  then have "\<lfloor>of_int z * mval m\<rfloor> = z * m_unscaled m * 10 ^ nat (- m_scale m)" by linarith
  then show ?thesis using True p by (cases "m_scale m = 0") (simp_all add: multBigInteger_def Let_def)
next
  case False
  have p: "pow10 (m_scale m) = 10 ^ nat (m_scale m)" using mn_wf_scale [OF assms(1)] False by (simp add: pow10_eq)
  have u: "0 \<le> z * m_unscaled m" using assms(2,3) by (simp add: mval_sign)
  have "of_int z * mval m = of_int (z * m_unscaled m) / of_int (10 ^ nat (m_scale m))"
    using False p10_nonneg [of "m_scale m"] by (simp add: mval_def power_int_minus divide_inverse)
  also have "\<lfloor>\<dots>\<rfloor> = z * m_unscaled m div 10 ^ nat (m_scale m)" by (rule floor_divide_of_int_eq)
  finally show ?thesis using False p u by (simp add: multBigInteger_def sdiv_pos)
qed

lemma bound_vals: "mn_wf MAX_SPBOUND_DIFFICULTY" "mval MAX_SPBOUND_DIFFICULTY = 2"
  "mn_wf MIN_SPBOUND_DIFFICULTY" "mval MIN_SPBOUND_DIFFICULTY = 1 / 2" "mn_wf MINIMA_BLOCK_SPEED"
  "mn_wf mn_THOUSAND" "mval mn_THOUSAND = 1000"
  by (simp_all add: MAX_SPBOUND_DIFFICULTY_def MIN_SPBOUND_DIFFICULTY_def MINIMA_BLOCK_SPEED_def mn_THOUSAND_def mn_wf_def in_range_def
      get_max_value_def MAX_DECIMAL_PLACES_def MAX_DIGITS_def mval_mk power_int_minus)

lemma clamp_ratio_bounds: "mn_wf r \<Longrightarrow> mn_wf (clamp_ratio r) \<and> 1 / 2 \<le> mval (clamp_ratio r) \<and> mval (clamp_ratio r) \<le> 2"
  by (simp add: clamp_ratio_def mn_compare_val bound_vals)

lemma mini_data_value [simp]: "md_getValue (cpp_int_to_mini_data v) = nat v"
  by (simp add: cpp_int_to_mini_data_def md_getValue_def md_def be_val_Cons)

lemma min_work_value [simp]: "md_getValue MIN_TXPOW_WORK = MIN_TXPOW_VAL"
  by (simp add: MIN_TXPOW_WORK_def)

lemma work_compare: "md_compare (cpp_int_to_mini_data v) MIN_TXPOW_WORK \<le> 0 \<Longrightarrow> nat v \<le> MIN_TXPOW_VAL"
proof (cases "v = 0")
  case False
  have b: "be_bytes k \<noteq> [0]" for k using hd_be_bytes [of k] by (cases "k = 0") auto
  have n: "be_bytes (nat v) \<noteq> [0]" "be_bytes MIN_TXPOW_VAL \<noteq> [0]" "MIN_TXPOW_VAL \<noteq> 0"
    by (rule b, rule b) (simp add: MIN_TXPOW_VAL_def MAX_VALDEC_def MIN_HASHES_def getAsBigInteger_def pow10_def)
  assume "md_compare (cpp_int_to_mini_data v) MIN_TXPOW_WORK \<le> 0"
  then show ?thesis
    using False n md_compare_val [of "md (be_bytes (nat v))" "md (be_bytes MIN_TXPOW_VAL)"]
    by (simp add: cpp_int_to_mini_data_def MIN_TXPOW_WORK_def cpp_int_to_big_endian_def cache_ok_def md_def cmp3_def split: if_splits)
qed simp

definition near :: "int \<Rightarrow> int \<Rightarrow> bool" where
  "near avg v = (v \<le> 2 * avg \<and> avg \<le> 2 * v + 1)"

lemma new_difficulty_bounds:
  assumes "mn_wf r" "1 / 2 \<le> mval r" "mval r \<le> 2" "0 \<le> avg"
  shows "md_getValue (new_difficulty r avg) \<le> MIN_TXPOW_VAL"
    "new_difficulty r avg = MIN_TXPOW_WORK \<or> near avg (int (md_getValue (new_difficulty r avg)))"
proof -
  define v where "v = multBigInteger r avg"
  have v: "v = \<lfloor>of_int avg * mval r\<rfloor>" unfolding v_def using assms by (intro multBigInteger_val) simp_all
  have "of_int avg * (1 / 2) \<le> of_int avg * mval r" "of_int avg * mval r \<le> of_int avg * 2"
    using assms by (intro mult_left_mono; simp)+
  then have b: "avg \<le> 2 * v + 1" "v \<le> 2 * avg" "0 \<le> v" unfolding v using assms(4) by linarith+
  have n: "new_difficulty r avg = (if md_compare (cpp_int_to_mini_data v) MIN_TXPOW_WORK > 0 then MIN_TXPOW_WORK else cpp_int_to_mini_data v)"
    by (simp add: new_difficulty_def v_def Let_def)
  show "md_getValue (new_difficulty r avg) \<le> MIN_TXPOW_VAL" using work_compare [of v] by (simp add: n)
  show "new_difficulty r avg = MIN_TXPOW_WORK \<or> near avg (int (md_getValue (new_difficulty r avg)))"
    using b by (simp add: n near_def)
qed

text \<open>The quotient of the target and the measured speed is a well-formed number.\<close>

lemma wf_scale_of_bound:
  assumes "mn_wf m" "\<bar>mval m\<bar> < 10 ^ k" shows "- int k \<le> m_scale m"
proof (rule ccontr)
  assume "\<not> - int k \<le> m_scale m"
  then have s: "k \<le> nat (- m_scale m)" "m_scale m \<le> 0" by linarith+
  have u: "1 \<le> \<bar>m_unscaled m\<bar>" using assms(1) s \<open>\<not> - int k \<le> m_scale m\<close> by (auto simp: mn_wf_def)
  have "(10 :: rat) ^ k \<le> 10 ^ nat (- m_scale m)" using s(1) by (intro power_increasing) simp_all
  also have "\<dots> \<le> of_int \<bar>m_unscaled m\<bar> * 10 ^ nat (- m_scale m)" using u by (simp add: mult_le_cancel_right1)
  also have "\<dots> = \<bar>mval m\<bar>" using s(2) by (simp add: abs_mval p10_nonneg)
  finally show False using assms(2) by simp
qed

lemma one_le_abs_of_int: "T \<noteq> 0 \<Longrightarrow> 1 \<le> \<bar>of_int T :: rat\<bar>"
proof -
  assume "T \<noteq> 0"
  then have "1 \<le> \<bar>T\<bar>" by linarith
  then have "(of_int 1 :: rat) \<le> of_int \<bar>T\<bar>" by (simp only: of_int_le_iff)
  then show ?thesis by simp
qed

lemma whole_speed:
  assumes "\<bar>D\<bar> < 10 ^ 60" "\<bar>T\<bar> < 10 ^ 60" "mn_div (mk D 0) (mk T 0) = Inr q" "mn_mult q mn_THOUSAND = Inr s"
  shows "mn_wf s \<and> -66 \<le> m_scale s"
proof -
  have w: "mn_wf (mk u 0)" if "\<bar>u\<bar> < 10 ^ 60" for u
  proof -
    have "(10 :: int) ^ 60 < 10 ^ 64" "(10 :: int) ^ 60 < get_max_value" by (simp_all add: get_max_value_def)
    then show ?thesis using that unfolding mn_wf_def in_range_def MAX_DECIMAL_PLACES_def MAX_DIGITS_def by simp
  qed
  have T: "T \<noteq> 0" using assms(3) by (auto simp: mn_div_def divide_with_context_def)
  have q: "rounded (of_int D / of_int T) (Inr q)"
    using mn_div_rounded [OF w [OF assms(1)] w [OF assms(2)]] T assms(3) by (simp add: mval_mk)
  have "\<bar>of_int D :: rat\<bar> / \<bar>of_int T\<bar> \<le> \<bar>of_int D\<bar>"
    using T one_le_abs_of_int [OF T] by (simp add: divide_le_eq mult_le_cancel_left1)
  moreover have "\<bar>of_int D :: rat\<bar> < 10 ^ 60" using assms(1) by (metis of_int_abs of_int_less_iff of_int_numeral of_int_power)
  ultimately have qb: "mn_wf q" "\<bar>mval q\<bar> < 10 ^ 60" using q by (auto simp: rounded_def rounds_down_def)
  have s: "mn_wf s" "\<bar>mval s\<bar> \<le> \<bar>mval q * 1000\<bar>"
    using mn_mult_rounded [OF qb(1) bound_vals(6)] assms(4) by (simp_all add: rounded_def rounds_down_def bound_vals)
  then have "\<bar>mval s\<bar> < 10 ^ 66" using qb(2) by (simp add: abs_mult)
  then show ?thesis using s(1) wf_scale_of_bound [of s 66] by simp
qed

lemma speed_ratio_wf:
  assumes "mn_wf s" "-66 \<le> m_scale s" "mn_div MINIMA_BLOCK_SPEED s = Inr r"
  shows "mn_wf r"
proof -
  have "mval s \<noteq> 0" using assms(3) by (auto simp: mn_div_def divide_with_context_def)
  from mn_div_rounded [OF bound_vals(5) assms(1) this] show ?thesis
    using assms(2,3) by (simp add: MINIMA_BLOCK_SPEED_def rounded_def)
qed

lemma whole_diff_bound: "whole a \<Longrightarrow> whole b \<Longrightarrow> \<bar>m_unscaled a - m_unscaled b\<bar> < 10 ^ 60"
  by (auto simp: whole_def)

lemma chain_speed_wf:
  assumes "is_chain h n a as" "getChainSpeed h a k = Inr s"
  shows "mn_wf s \<and> -66 \<le> m_scale s"
proof -
  obtain b where b: "b \<in> set as" "parent_steps h (nat (getAsInt k)) a = Inr b"
    using chain_parent_steps [OF assms(1)] by blast
  obtain m i where c: "is_chain h m b (drop i as)" using chain_member [OF assms(1) b(1)] by blast
  note now = chain_block [OF assms(1)] and past = chain_block [OF c]
  note w = whole_diff_bound [of "h_blocknumber (p_header (the (txp_at h a)))" "h_blocknumber (p_header (the (txp_at h b)))"]
    whole_diff_bound [of "time_at h a" "time_at h b"]
  show ?thesis
    using assms(2) now past b(2) w whole_speed
    by (auto simp: getChainSpeed_def getParent_n_def whole_sub time_at_def [symmetric])
qed

lemma sum_list_sdiv: "\<forall>x\<in>set ds. 0 \<le> x \<Longrightarrow> ds \<noteq> [] \<Longrightarrow> sum_list ds sdiv int (length ds) = sum_list ds div int (length ds)"
  using sum_list_nonneg [of ds] by (simp add: sdiv_pos)

text \<open>A stretch of a chain: the difficulties of consecutive blocks.\<close>

definition stretch :: "tstore \<Rightarrow> nat list \<Rightarrow> int list \<Rightarrow> bool" where
  "stretch h as ds = (ds \<noteq> [] \<and> (\<exists>i k. ds = map (difficulty_at h) (take k (drop i as))))"

lemma average_of_stretch:
  assumes "is_chain h n b (drop i as)" "getAverageDifficulty h b k = Inr avg" "0 < getAsInt k"
  shows "\<exists>ds. stretch h as ds \<and> avg = sum_list ds div int (length ds)"
proof -
  define t where "t = nat (getAsInt k)"
  have t: "0 < t" "t \<le> length (drop i as)" "avg = sum_list (map (difficulty_at h) (take t (drop i as))) sdiv int t"
    using assms(2,3) chain_sum [OF assms(1), of t] by (auto simp: getAverageDifficulty_def t_def Let_def split: if_splits)
  define ds where "ds = map (difficulty_at h) (take t (drop i as))"
  have ds: "length ds = t" "ds \<noteq> []" using t by (auto simp: ds_def)
  moreover have "\<forall>x\<in>set ds. 0 \<le> x" by (auto simp: ds_def difficulty_at_def)
  ultimately have "avg = sum_list ds div int (length ds)" using t(3) sum_list_sdiv [of ds] by (simp add: ds_def)
  then show ?thesis using ds(2) unfolding stretch_def ds_def by blast
qed

text \<open>The walk of a negative number of blocks stays where it is, and the speed over no time fails.\<close>

lemma no_speed_over_no_time:
  assumes "is_chain h n a as" "getChainSpeed h a k = Inr s"
  shows "0 < getAsInt k"
proof (rule ccontr)
  assume "\<not> 0 < getAsInt k"
  then have "parent_steps h (nat (getAsInt k)) a = Inr a" by simp
  then show False using assms(2) chain_block [OF assms(1)]
    by (auto simp: getChainSpeed_def getParent_n_def whole_sub time_at_def [symmetric] mn_div_def divide_with_context_def)
qed

text \<open>C35 The difficulty that is set for the block after a chain of blocks with whole numbers and times is the minimum
  of work, or the difficulty of the parent, or within a factor of two (and rounding) of the average over a stretch of
  consecutive blocks of the chain, and not above the minimum of work.\<close>

theorem difficulty_bounded:
  assumes "is_chain h n zParent as" "getBlockDifficulty h zParent = Inr d"
  shows "d = MIN_TXPOW_WORK \<or> d = getBlockDifficulty_of (the (txp_at h zParent))
    \<or> (md_getValue d \<le> MIN_TXPOW_VAL
        \<and> (\<exists>ds. stretch h as ds \<and> near (sum_list ds div int (length ds)) (int (md_getValue d))))"
proof -
  have at: "block_at h b = Inr (the (txp_at h b))" if "b \<in> set as" for b
    using chain_member [OF assms(1) that] chain_block by blast
  have med: "\<exists>m\<in>set as. getMedianTimeBlock h b = Inr m" if b: "b \<in> set as" for b
  proof -
    obtain m i where "is_chain h m b (drop i as)" using chain_member [OF assms(1) b] by blast
    from median_of_chain [OF this, of MEDIAN_BLOCK_CALC] show ?thesis
      by (auto simp: getMedianTimeBlock_def MEDIAN_BLOCK_CALC_def dest!: in_set_takeD in_set_dropD)
  qed
  have p: "zParent \<in> set as" using chain_step [OF assms(1)] by auto
  obtain e0 where e0: "e0 \<in> set as" "getParent_n h (getAsInt MINIMA_BLOCKS_SPEED_CALC) zParent = Inr e0"
    using chain_parent_steps [OF assms(1)] by (auto simp: getParent_n_def)
  obtain s e where se: "s \<in> set as" "e \<in> set as" "getMedianTimeBlock h zParent = Inr s" "getMedianTimeBlock h e0 = Inr e"
    using med [OF p] med [OF e0(1)] by blast
  obtain m i where c: "is_chain h m s (drop i as)" using chain_member [OF assms(1) se(1)] by blast
  from assms(2) consider "d = MIN_TXPOW_WORK" | "d = getBlockDifficulty_of (the (txp_at h zParent))"
    | blockdiff speed r avg where "getChainSpeed h s blockdiff = Inr speed" "mn_div MINIMA_BLOCK_SPEED speed = Inr r"
      "getAverageDifficulty h s blockdiff = Inr avg" "d = new_difficulty (clamp_ratio r) avg"
    by (auto simp: getBlockDifficulty_def at p e0(2) se split: if_splits)
  then show ?thesis
  proof cases
    case 3
    have r: "mn_wf r" using chain_speed_wf [OF c 3(1)] speed_ratio_wf [OF _ _ 3(2)] by blast
    obtain ds where ds: "stretch h as ds" "avg = sum_list ds div int (length ds)"
      using average_of_stretch [OF c 3(3) no_speed_over_no_time [OF c 3(1)]] by blast
    have "\<forall>x\<in>set ds. 0 \<le> x" using ds(1) by (auto simp: stretch_def difficulty_at_def)
    then have "0 \<le> sum_list ds" "ds \<noteq> []" using ds(1) sum_list_nonneg [of ds] by (simp_all add: stretch_def)
    then have "0 \<le> avg" using ds(2) by (simp add: pos_imp_zdiv_nonneg_iff)
    then show ?thesis
      using new_difficulty_bounds [of "clamp_ratio r" avg] clamp_ratio_bounds [OF r] ds 3(4) by blast
  qed simp_all
qed

text \<open>Three blocks that are 50 seconds apart.\<close>

definition sample_minute :: "nat option \<Rightarrow> int \<Rightarrow> tnode" where
  "sample_minute parent i =
     (let p = txpow_new mn_ZERO []; nd = sample_node parent [] (mk (8 + i) 0) ''1'' in
      nd\<lparr>tn_block := txblock_of (Some (p\<lparr>p_header := (p_header p)\<lparr>h_timemilli := mk (50000 * i) 0,
        h_blocknumber := mk (8 + i) 0, h_difficulty := md [1, 0]\<rparr>\<rparr>)) []\<rparr>)"

definition sample_chain :: tstore where
  "sample_chain = [0 \<mapsto> sample_minute None 0, 1 \<mapsto> sample_minute (Some 0) 1, 2 \<mapsto> sample_minute (Some 1) 2]"

lemma sample_chain_at:
  "sample_chain a = (if a = 0 then Some (sample_minute None 0) else if a = 1 then Some (sample_minute (Some 0) 1)
     else if a = 2 then Some (sample_minute (Some 1) 2) else None)"
  by (simp add: sample_chain_def)

lemma sample_minute_block:
  "\<exists>p. tn_getTxPoW (sample_minute parent i) = Inr p \<and> bl_txpow (tn_block (sample_minute parent i)) = Some p
     \<and> h_blocknumber (p_header p) = mk (8 + i) 0 \<and> h_timemilli (p_header p) = mk (50000 * i) 0 \<and> h_difficulty (p_header p) = md [1, 0]"
  "tn_parent (sample_minute parent i) = parent"
  by (simp_all add: sample_minute_def sample_node_def txblock_of_def tn_getTxPoW_def getTxPoW_def Let_def)

definition timed_block :: "nat \<Rightarrow> txpow" where
  "timed_block a = the (txp_at sample_chain a)"

lemma sample_blocks:
  "a < 3 \<Longrightarrow> txp_at sample_chain a = Some (timed_block a) \<and> block_at sample_chain a = Inr (timed_block a)
    \<and> h_blocknumber (p_header (timed_block a)) = mk (8 + int a) 0 \<and> h_timemilli (p_header (timed_block a)) = mk (50000 * int a) 0
    \<and> h_difficulty (p_header (timed_block a)) = md [1, 0]"
  using sample_minute_block(1) [of None 0] sample_minute_block(1) [of "Some 0" 1] sample_minute_block(1) [of "Some 1" 2]
  by (auto simp: timed_block_def txp_at_def sample_chain_at block_at_def deref_tnode_def less_Suc_eq numeral_3_eq_3)

lemma sample_is_chain: "is_chain sample_chain 3 2 [2, 1, 0]" "is_chain sample_chain 3 0 [0]"
  using sample_blocks [of 0] sample_blocks [of 1] sample_blocks [of 2]
  by (simp_all add: is_chain_def whole_block_def whole_def numeral_3_eq_3 deref_tnode_def sample_chain_at getParent_def sample_minute_block)

theorem median_time_block_witness:
  "\<exists>m\<in>{2, 1, 0}. getMedianTimeBlock_n sample_chain 2 64 = Inr m
     \<and> length (filter (\<lambda>b. mval (time_at sample_chain b) < mval (time_at sample_chain m)) [2, 1, 0]) \<le> 1"
  using median_time_block [OF sample_is_chain(1), of 64 "[2, 1, 0]"] by auto

lemma sample_times: "time_at sample_chain 0 = mk 0 0" "time_at sample_chain (Suc 0) = mk 50000 0" "time_at sample_chain 2 = mk 100000 0"
  using sample_blocks [of 0] sample_blocks [of 1] sample_blocks [of 2]
  by (simp_all add: time_at_def getTimeMilli_def)

lemma sample_medians: "getMedianTimeBlock sample_chain 2 = Inr 1" "getMedianTimeBlock sample_chain 0 = Inr 0"
  using chain_collect [OF sample_is_chain(1), of 64] chain_collect [OF sample_is_chain(2), of 64]
  by (simp_all add: getMedianTimeBlock_def getMedianTimeBlock_n_def MEDIAN_BLOCK_CALC_def sample_times sort_by_def earlier_def
      mn_compareTo_def compare_values_def)

lemma rounds_down_half:
  assumes "rounds_down x r" "10 powi -43 \<le> x" shows "x / 2 \<le> mval r"
proof -
  have x: "0 < x" "(10 :: rat) powi -44 \<le> x / 2" using assms(2) by (simp_all add: power_int_minus divide_simps)
  then have r: "0 \<le> mval r" using assms(1) by (force simp: rounds_down_def not_le [symmetric])
  have "mval r * 10 powi -63 \<le> mval r" using r by (simp add: power_int_minus divide_simps)
  then show ?thesis using assms(1) x r unfolding rounds_down_def by linarith
qed

lemma sample_rates:
  "\<exists>q s r. mn_div (mk 1 0) (mk 50000 0) = Inr q \<and> mn_mult q mn_THOUSAND = Inr s \<and> mn_div (mk 2 2) s = Inr r"
proof -
  have w: "mn_wf (mk 50000 0)" "mn_wf (mk 1 0)" using whole_wf(1) [of "mk 50000 0"] whole_wf(1) [of "mk 1 0"] by (simp_all add: whole_def)
  have "rounded (1 / 50000) (mn_div (mk 1 0) (mk 50000 0))" using mn_div_rounded [OF w(2,1)] by (simp add: mval_mk)
  then obtain q where q: "mn_div (mk 1 0) (mk 50000 0) = Inr q" "mn_wf q" "rounds_down (1 / 50000) q"
    by (cases "mn_div (mk 1 0) (mk 50000 0)") (simp_all add: rounded_def get_max_value_def)
  have qb: "1 / 100000 \<le> mval q" "\<bar>mval q\<bar> \<le> 1 / 50000"
    using rounds_down_half [OF q(3)] q(3) by (simp_all add: rounds_down_def power_int_minus)
  have "rounded (mval q * 1000) (mn_mult q mn_THOUSAND)" using mn_mult_rounded [OF q(2) bound_vals(6)] by (simp add: bound_vals)
  then obtain s where s: "mn_mult q mn_THOUSAND = Inr s" "mn_wf s" "rounds_down (mval q * 1000) s"
    using qb(2) by (cases "mn_mult q mn_THOUSAND") (simp_all add: rounded_def get_max_value_def abs_mult)
  have sb: "1 / 200 \<le> mval s"
    using rounds_down_half [OF s(3)] qb(1) by (simp add: power_int_minus)
  have sc: "-66 \<le> m_scale s" using whole_speed [OF _ _ q(1) s(1)] by simp
  have "rounded (1 / 50 / mval s) (mn_div (mk 2 2) s)"
    using mn_div_rounded [OF bound_vals(5) s(2) _ _ sc] sb mval_zero_iff [of s]
    by (simp add: MINIMA_BLOCK_SPEED_def mval_mk power_int_minus del: mval_zero_iff)
  moreover have "\<bar>1 / 50 / mval s\<bar> \<le> 4" using sb by (simp add: divide_simps)
  ultimately show ?thesis
    using q(1) s(1) by (cases "mn_div (mk 2 2) s") (auto simp: rounded_def get_max_value_def)
qed

lemma sample_whole: "whole (mk 8 0)" "whole (mk 9 0)" "whole (mk 0 0)" "whole (mk 50000 0)"
  by (simp_all add: whole_def)

lemma int_of_one: "getAsInt (mk 1 0) = 1" "getAsInt (mk 256 0) = 256"
  by (simp_all add: getAsInt_def getAsBigInteger_def pow10_def)

lemma sample_speed:
  assumes "mn_div (mk 1 0) (mk 50000 0) = Inr q" "mn_mult q mn_THOUSAND = Inr s"
  shows "getChainSpeed sample_chain 1 (mk 1 0) = Inr s"
proof -
  have "getParent_n sample_chain (getAsInt (mk 1 0)) 1 = Inr 0"
    by (simp add: getParent_n_def int_of_one sample_chain_at deref_tnode_def getParent_def sample_minute_block)
  then show ?thesis
    using sample_blocks [of 0] sample_blocks [of 1] whole_sub [OF sample_whole(2,1)] whole_sub [OF sample_whole(4,3)] assms
    by (simp add: getChainSpeed_def getTimeMilli_def)
qed

lemma sample_parents: "parent_steps sample_chain (Suc (Suc k)) 2 = Inr 0"
proof -
  have "parent_steps sample_chain k 0 = Inr 0"
    by (cases k) (simp_all add: sample_chain_at deref_tnode_def getParent_def sample_minute_block)
  then show ?thesis by (simp add: sample_chain_at deref_tnode_def getParent_def sample_minute_block)
qed

lemma sample_difficulty:
  "\<exists>d. getBlockDifficulty sample_chain 2 = Inr d"
proof -
  have p: "getParent_n sample_chain (getAsInt MINIMA_BLOCKS_SPEED_CALC) 2 = Inr 0"
    using sample_parents [of 254] by (simp add: getParent_n_def MINIMA_BLOCKS_SPEED_CALC_def int_of_one)
  have c: "\<not> mn_isLess (mk 10 0) mn_EIGHT" "\<not> mn_isEqual (mk 9 0) (mk 8 0)" "\<not> mn_isLessEqual (mk 50000 0) mn_ZERO"
    by (simp_all add: mn_isLess_def mn_isEqual_def mn_isLessEqual_def mn_compareTo_def compare_values_def mn_EIGHT_def mn_ZERO_def)
  have "md_getValue (md [1, 0]) = 256" by (simp add: md_getValue_def md_def be_val_Cons)
  then have "getAverageDifficulty sample_chain 1 (mk 1 0) = Inr 256"
    using sample_blocks [of 1] sample_minute_block [of "Some 0" 1]
    by (auto simp: getAverageDifficulty_def int_of_one sample_chain_at deref_tnode_def getBlockDifficulty_of_def)
  moreover obtain q sp r where "mn_div (mk 1 0) (mk 50000 0) = Inr q" "mn_mult q mn_THOUSAND = Inr sp" "mn_div (mk 2 2) sp = Inr r"
    using sample_rates by blast
  ultimately show ?thesis
    using sample_speed [of q sp] sample_blocks [of 0] sample_blocks [of 1] sample_blocks [of 2]
      whole_sub [OF sample_whole(2,1)] whole_sub [OF sample_whole(4,3)]
    by (simp add: getBlockDifficulty_def p c sample_medians getTimeMilli_def MINIMA_BLOCK_SPEED_def)
qed

theorem difficulty_bounded_witness:
  "\<exists>d. getBlockDifficulty sample_chain 2 = Inr d \<and> (d = MIN_TXPOW_WORK \<or> d = getBlockDifficulty_of (the (txp_at sample_chain 2))
    \<or> (md_getValue d \<le> MIN_TXPOW_VAL
        \<and> (\<exists>ds. stretch sample_chain [2, 1, 0] ds \<and> near (sum_list ds div int (length ds)) (int (md_getValue d)))))"
  using difficulty_bounded [OF sample_is_chain(1)] sample_difficulty by blast

end
