(* ===== verification/CheckerLaws.thy ===== *)
theory CheckerLaws
  imports Checker SearcherLaws DifficultyLaws KissMonotone
begin

text \<open>
  What the checks accept: the super parents a block has to name, the transactions that pass without the chain, and
  the verdict of the scripts that is kept.
\<close>

subsection \<open>Super parents\<close>

text \<open>The nodes back from the parent, each with its identifier and its level. The super parent of a level is the first
  node at that level or above, and zero when there is none.\<close>

definition chain_id :: "txpow \<Rightarrow> byte list \<times> int" where
  "chain_id p = (mData (mTxPOWID p), mSuperBlock p)"

definition level_parent :: "(byte list \<times> int) list \<Rightarrow> nat \<Rightarrow> byte list" where
  "level_parent nodes l = (case find (\<lambda>(i, s). int l \<le> s) nodes of None \<Rightarrow> ZERO_TXPOWID | Some (i, s) \<Rightarrow> i)"

lemma level_parent_Cons:
  "level_parent (chain_id p # nodes) l = (if int l \<le> mSuperBlock p then mData (mTxPOWID p) else level_parent nodes l)"
  by (simp add: level_parent_def chain_id_def)

definition levels_ok :: "txpow \<Rightarrow> (nat \<Rightarrow> byte list) \<Rightarrow> int \<Rightarrow> int \<Rightarrow> bool" where
  "levels_ok z f b e = (\<forall>l. b \<le> int l \<and> int l < e \<longrightarrow> h_superparents (p_header z) ! l = f l)"

lemma levels_ok_split: "b \<le> m \<Longrightarrow> m \<le> e \<Longrightarrow> levels_ok z f b e = (levels_ok z f b m \<and> levels_ok z f m e)"
  unfolding levels_ok_def by (meson dual_order.strict_trans2 le_less_trans not_less order.trans)

lemma levels_ok_empty [simp]: "e \<le> b \<Longrightarrow> levels_ok z f b e"
  by (auto simp: levels_ok_def)

lemma levels_ok_one: "levels_ok z f b (b + 1) = (0 \<le> b \<longrightarrow> h_superparents (p_header z) ! nat b = f (nat b))"
proof -
  have "(b \<le> int l \<and> int l < b + 1) = (0 \<le> b \<and> l = nat b)" for l by auto
  then show ?thesis by (simp add: levels_ok_def)
qed

lemma levels_ok_cong: "(\<And>l. b \<le> int l \<Longrightarrow> int l < e \<Longrightarrow> f l = g l) \<Longrightarrow> levels_ok z f b e = levels_ok z g b e"
  by (auto simp: levels_ok_def)

lemma super_loop_levels:
  assumes "length (h_superparents (p_header z)) = 32" "0 \<le> b" "sl < 32"
  shows "super_loop z t sl b = Inr (if levels_ok z (\<lambda>_. t) b (sl + 1) then Some (max b (sl + 1)) else None)"
  using assms
proof (induction z t sl b rule: super_loop.induct)
  case (1 z t sl b)
  show ?case
  proof (cases "b \<le> sl")
    case True
    have sp: "getSuperParent b z = Inr (h_superparents (p_header z) ! nat b)"
      using 1(2-4) True by (simp add: getSuperParent_def Let_def)
    have split: "levels_ok z (\<lambda>_. t) b (sl + 1) = (h_superparents (p_header z) ! nat b = t \<and> levels_ok z (\<lambda>_. t) (b + 1) (sl + 1))"
      using levels_ok_split [of b "b + 1" "sl + 1" z "\<lambda>_. t"] True 1(3,4) by (simp add: levels_ok_one)
    show ?thesis
      using 1(1) [OF True] 1(2-) True sp split by (subst super_loop.simps) (auto simp: max_def)
  next
    case False
    then show ?thesis by (subst super_loop.simps) (simp add: max_def)
  qed
qed

definition reach :: "int \<Rightarrow> txpow list \<Rightarrow> int" where
  "reach b ps = fold (\<lambda>p b. max b (mSuperBlock p + 1)) ps b"

lemma reach_simps [simp]: "reach b [] = b" "reach b (p # ps) = reach (max b (mSuperBlock p + 1)) ps"
  by (simp_all add: reach_def)

lemma reach_ge: "b \<le> reach b ps"
  by (induction ps arbitrary: b) (auto intro: order.trans [OF max.cobounded1])

lemma reach_bound: "b \<le> 32 \<Longrightarrow> \<forall>p\<in>set ps. mSuperBlock p < 32 \<Longrightarrow> reach b ps \<le> 32"
  by (induction ps arbitrary: b) auto

lemma level_parent_beyond: "reach b ps \<le> int l \<Longrightarrow> level_parent (map chain_id ps) l = ZERO_TXPOWID"
proof (induction ps arbitrary: b)
  case (Cons p ps)
  have "mSuperBlock p + 1 \<le> int l" using Cons.prems reach_ge [of "max b (mSuperBlock p + 1)" ps] by simp
  then show ?case using Cons by (simp add: level_parent_Cons)
qed (simp add: level_parent_def)

lemma supers_of_levels:
  assumes "length (h_superparents (p_header z)) = 32" "0 \<le> b" "b \<le> 32" "\<forall>p\<in>set ps. mSuperBlock p < 32"
  shows "supers_of z (map Inr ps) b
     = Inr (if levels_ok z (level_parent (map chain_id ps)) b (reach b ps) then Some (reach b ps) else None)"
  using assms
proof (induction ps arbitrary: b)
  case (Cons p ps)
  define m where "m = max b (mSuperBlock p + 1)"
  have m: "b \<le> m" "0 \<le> m" "m \<le> 32" "m \<le> reach m ps" using Cons.prems reach_ge by (auto simp: m_def)
  have l: "levels_ok z (level_parent (map chain_id (p # ps))) b m = levels_ok z (\<lambda>_. mData (mTxPOWID p)) b (mSuperBlock p + 1)"
  proof (cases "b \<le> mSuperBlock p + 1")
    case True
    then show ?thesis by (simp add: m_def) (rule levels_ok_cong, simp add: level_parent_Cons)
  qed (simp add: m_def)
  have r: "levels_ok z (level_parent (map chain_id (p # ps))) m (reach m ps) = levels_ok z (level_parent (map chain_id ps)) m (reach m ps)"
    by (rule levels_ok_cong) (simp add: level_parent_Cons m_def)
  show ?case
    using Cons.IH [of m] Cons.prems m levels_ok_split [OF m(1,4)] l r super_loop_levels [of z b "mSuperBlock p" "mData (mTxPOWID p)"]
    by (simp add: m_def [symmetric])
qed simp

lemma supers_of_append:
  "supers_of z (rs @ qs) b = bindE (supers_of z rs b) (\<lambda>r. case r of None \<Rightarrow> Inr None | Some b \<Rightarrow> supers_of z qs b)"
proof (induction rs arbitrary: b)
  case (Cons r rs)
  show ?case by (cases r) (auto simp: Cons bindE_def split: sum.splits option.splits)
qed simp

lemma zero_supers_levels:
  assumes "length (h_superparents (p_header z)) = 32" "m \<le> 32"
  shows "zero_supers z [m..<32] = Inr (levels_ok z (\<lambda>_. ZERO_TXPOWID) (int m) 32)"
  using assms(2)
proof (induction "32 - m" arbitrary: m)
  case (Suc k)
  have m: "[m..<32] = m # [Suc m..<32]" using Suc(2) by (subst upt_rec) simp
  have sp: "getSuperParent (int m) z = Inr (h_superparents (p_header z) ! m)"
    using assms(1) Suc(2) by (simp add: getSuperParent_def Let_def)
  have "levels_ok z (\<lambda>_. ZERO_TXPOWID) (int m) 32
      = (h_superparents (p_header z) ! m = ZERO_TXPOWID \<and> levels_ok z (\<lambda>_. ZERO_TXPOWID) (int (Suc m)) 32)"
    using levels_ok_split [of "int m" "int m + 1" 32 z "\<lambda>_. ZERO_TXPOWID"] Suc(2) levels_ok_one [of z "\<lambda>_. ZERO_TXPOWID" "int m"]
    by (simp add: add.commute)
  then show ?case using Suc(1) [of "Suc m"] Suc(2) by (simp add: m sp)
qed simp

text \<open>C38 For a block with its 32 super parents, and blocks behind it whose levels are below 32, the check of the super
  parents says whether every one of them is the first block back from the parent, through the tree and then the
  cascade, that has at least that level, or zero when there is none.\<close>

theorem super_parents_checked:
  assumes "ancestors h n (Some zTip) = Inr as" "map (block_at h) as = map Inr ps"
    and "chain_nodes cs = Inr nds" "map cn_getTxPoW nds = map Inr qs"
    and "\<forall>p\<in>set (ps @ qs). mSuperBlock p < 32" "length (h_superparents (p_header zBlock)) = 32"
  shows "checkParents h n cs zTip zBlock
     = Inr (\<forall>l\<in>{0..<32}. h_superparents (p_header zBlock) ! l = level_parent (map chain_id (ps @ qs)) l)"
proof -
  define f where "f = level_parent (map chain_id (ps @ qs))"
  define m where "m = reach 0 (ps @ qs)"
  have m: "0 \<le> m" "m \<le> 32" unfolding m_def using reach_ge [of 0] reach_bound [OF _ assms(5)] by auto
  have s: "bindE (supers_of zBlock (map Inr ps) 0) (\<lambda>r. case r of None \<Rightarrow> Inr None | Some b \<Rightarrow> supers_of zBlock (map Inr qs) b)
      = Inr (if levels_ok zBlock f 0 m then Some m else None)"
    unfolding f_def m_def supers_of_append [symmetric] map_append [symmetric]
    by (rule supers_of_levels [OF assms(6) _ _ assms(5)]) simp_all
  have z: "zero_supers zBlock [nat m..<32] = Inr (levels_ok zBlock f m 32)"
    using zero_supers_levels [OF assms(6), of "nat m"] m level_parent_beyond [of 0 "ps @ qs"]
    by (auto simp: f_def m_def intro!: levels_ok_cong)
  have a: "levels_ok zBlock f 0 32 = (\<forall>l\<in>{0..<32}. h_superparents (p_header zBlock) ! l = f l)"
    by (auto simp: levels_ok_def)
  have "checkParents h n cs zTip zBlock = bindE (bindE (supers_of zBlock (map Inr ps) 0)
      (\<lambda>r. case r of None \<Rightarrow> Inr None | Some b \<Rightarrow> supers_of zBlock (map Inr qs) b))
      (\<lambda>r. case r of None \<Rightarrow> Inr False | Some b \<Rightarrow> zero_supers zBlock [nat b..<32])"
    by (auto simp: checkParents_def assms(1-4) bindE_assoc MINIMA_CASCADE_LEVELS_def bindE_def split: sum.splits option.splits)
  also have "\<dots> = Inr (levels_ok zBlock f 0 32)"
    using z levels_ok_split [OF m] by (simp add: s)
  finally show ?thesis unfolding a unfolding f_def .
qed

lemma sample_levels: "a < 3 \<Longrightarrow> mSuperBlock (timed_block a) = 0 \<and> mTxPOWID (timed_block a) = md []"
  by (auto simp: timed_block_def txp_at_def sample_chain_at sample_minute_def sample_node_def txblock_of_def txpow_new_def Let_def)

definition sample_child :: txpow where
  "sample_child = (let p = txpow_new mn_ZERO [] in p\<lparr>p_header := (p_header p)\<lparr>h_superparents := [] # replicate 31 ZERO_TXPOWID\<rparr>\<rparr>)"

theorem super_parents_checked_witness: "checkParents sample_chain 3 cascade_new 2 sample_child = Inr True"
proof -
  have as: "ancestors sample_chain 3 (Some 2) = Inr [2, 1, 0]" using sample_is_chain(1) by (simp add: is_chain_def)
  have ps: "map (block_at sample_chain) [2, 1, 0] = map Inr [timed_block 2, timed_block 1, timed_block 0]"
    using sample_blocks [of 0] sample_blocks [of 1] sample_blocks [of 2] by simp
  have cs: "chain_nodes cascade_new = Inr []" by (simp add: chain_nodes_def cascade_new_def)
  have sp: "h_superparents (p_header sample_child) = [] # replicate 31 ZERO_TXPOWID" by (simp add: sample_child_def Let_def)
  have "level_parent (map chain_id [timed_block 2, timed_block 1, timed_block 0]) l = (if l = 0 then [] else ZERO_TXPOWID)" for l
    using sample_levels [of 0] sample_levels [of 1] sample_levels [of 2] by (simp add: level_parent_def chain_id_def md_def)
  then have "\<forall>l\<in>{0..<32}. h_superparents (p_header sample_child) ! l = level_parent (map chain_id ([timed_block 2, timed_block 1, timed_block 0] @ [])) l"
    by (auto simp: sp nth_Cons')
  then show ?thesis
    using super_parents_checked [OF as ps cs, of "[]" sample_child] sample_levels [of 0] sample_levels [of 1] sample_levels [of 2]
    by (simp add: sp)
qed

subsection \<open>Transactions by themselves\<close>

definition has_token :: "coin \<Rightarrow> bool" where
  "has_token co = (\<exists>tk. c_token co = Some tk \<and> t_tokenid tk = Some (c_tokenid co))"

text \<open>The coin of a proof stands for an input.\<close>

definition proves :: "witness \<Rightarrow> coin \<Rightarrow> coin_proof \<Rightarrow> bool" where
  "proves w input cp =
     (let co = cp_coin cp in
      mn_isEqual (c_amount input) (c_amount co) \<and> c_address input = c_address co \<and> c_tokenid input = c_tokenid co
      \<and> (c_coinid input = COINID_ELTOO \<or> c_coinid input = c_coinid co)
      \<and> (c_tokenid input = TOKENID_MINIMA \<or> has_token input \<and> has_token co)
      \<and> \<not> getSpent co \<and> scriptExists (c_address input) w)"

definition output_token :: "coin \<Rightarrow> bool" where
  "output_token co = (c_tokenid co = TOKENID_MINIMA \<or> (if c_tokenid co = TOKENID_CREATE then c_token co \<noteq> None else has_token co))"

definition proof_coinids :: "witness \<Rightarrow> byte list list" where
  "proof_coinids w = map (\<lambda>cp. c_coinid (cp_coin cp)) (wt_coinproofs w)"

definition tx_proved :: "transaction \<Rightarrow> witness \<Rightarrow> bool" where
  "tx_proved t w = (tx_isEmpty t
     \<or> checkValid t = Inr True \<and> tx_inputs t \<noteq> [] \<and> distinct (proof_coinids w)
        \<and> list_all2 (proves w) (tx_inputs t) (wt_coinproofs w) \<and> list_all output_token (tx_outputs t))"

lemma token_matches_iff: "token_matches co = Inr True \<longleftrightarrow> has_token co"
  by (auto simp: token_matches_def has_token_def deref_def split: option.splits)

lemma input_matches_iff: "input_matches w input (cp_coin cp) = Inr True \<longleftrightarrow> proves w input cp"
  by (auto simp: input_matches_def proves_def Let_def token_matches_iff split: if_splits)

lemma check_inputs_iff:
  "length ins = length cps \<Longrightarrow> check_inputs w ((\<lambda>i. to0xString (md i)) ` used) ins cps = Inr True
    \<longleftrightarrow> list_all2 (proves w) ins cps \<and> distinct (map (\<lambda>cp. c_coinid (cp_coin cp)) cps)
       \<and> (\<forall>cp\<in>set cps. c_coinid (cp_coin cp) \<notin> used)"
proof (induction ins cps arbitrary: used rule: list_induct2)
  case (Cons input ins cp cps)
  have u: "insert (to0xString (md i)) ((\<lambda>i. to0xString (md i)) ` used) = (\<lambda>i. to0xString (md i)) ` insert i used" for i by simp
  have i: "to0xString (md i) \<in> (\<lambda>i. to0xString (md i)) ` used \<longleftrightarrow> i \<in> used" for i by (auto dest: to0xString_inj)
  have b: "bindE r (\<lambda>b. if b then X else Inr False) = Inr True \<longleftrightarrow> r = Inr True \<and> X = Inr True" for r and X :: "bool result"
    by (auto split: if_splits)
  show ?case
    unfolding check_inputs.simps Let_def u i
  proof (cases "c_coinid (cp_coin cp) \<in> used")
    case False
    then show "((if c_coinid (cp_coin cp) \<in> used then Inr False
        else bindE (input_matches w input (cp_coin cp)) (\<lambda>b. if b then check_inputs w
          ((\<lambda>i. to0xString (md i)) ` insert (c_coinid (cp_coin cp)) used) ins cps else Inr False)) = Inr True)
      = (list_all2 (proves w) (input # ins) (cp # cps) \<and> distinct (map (\<lambda>cp. c_coinid (cp_coin cp)) (cp # cps))
        \<and> (\<forall>cp\<in>set (cp # cps). c_coinid (cp_coin cp) \<notin> used))"
      unfolding if_not_P [OF False] b input_matches_iff using Cons.IH [of "insert (c_coinid (cp_coin cp)) used"]
      by auto (metis (no_types, lifting) imageI)
  qed simp
qed simp

lemma check_outputs_iff: "check_outputs cs = Inr True \<longleftrightarrow> list_all output_token cs"
  by (induction cs)
    (auto simp: output_token_ok_def output_token_def token_matches_iff TOKENID_MINIMA_def TOKENID_CREATE_def split: if_splits)

lemma basic_impl_iff: "checkTxPoWBasic_impl t w = Inr True \<longleftrightarrow> tx_proved t w"
  using check_inputs_iff [of "tx_inputs t" "wt_coinproofs w" w "{}"]
  by (auto simp: checkTxPoWBasic_impl_def tx_proved_def check_outputs_iff proof_coinids_def list_all2_lengthD split: if_splits)

lemma distinct_printed: "distinct (map (\<lambda>i. to0xString (md i)) ids) = distinct ids"
  by (simp add: distinct_map) (auto intro: inj_onI dest: to0xString_inj)

lemma spent_ids_distinct:
  "p_body p = Some b \<Longrightarrow> isTransaction p \<Longrightarrow>
   distinct (spent_ids p) = distinct (proof_coinids (b_witness b) @ proof_coinids (b_burnwitness b))"
  using distinct_printed [of "proof_coinids (b_witness b) @ proof_coinids (b_burnwitness b)"]
  by (simp add: spent_ids_def proof_ids_def proof_coinids_def comp_def)

text \<open>C37 The basic check accepts exactly the objects of the network with a body in which no coin is proved twice, the
  transaction links to nothing and the burn transaction, if any, to the transaction; and in each of the two that is
  not empty the amounts are valid and every input is proved by its own coin: equal in amount, address, token and
  identifier (a floating input may leave the identifier open), unspent, with its script and its token.\<close>

theorem basic_check_accepts:
  "checkTxPoWBasic p = Inr True \<longleftrightarrow>
     h_chainid (p_header p) = MAIN_NET \<and> (\<exists>b. p_body p = Some b
       \<and> (\<not> isTransaction p \<or> distinct (proof_coinids (b_witness b) @ proof_coinids (b_burnwitness b)))
       \<and> tx_proved (b_transaction b) (b_witness b) \<and> tx_linkhash (b_transaction b) = ZERO_TXPOWID
       \<and> (tx_isEmpty (b_burntransaction b)
           \<or> tx_linkhash (b_burntransaction b) = tx_id (b_transaction b) \<and> tx_proved (b_burntransaction b) (b_burnwitness b)))"
proof (cases "p_body p")
  case None
  then show ?thesis by (auto simp: checkTxPoWBasic_def need_body_def)
next
  case (Some b)
  have d: "distinct (spent_ids p) = (\<not> isTransaction p \<or> distinct (proof_coinids (b_witness b) @ proof_coinids (b_burnwitness b)))"
    using spent_ids_distinct [OF Some] Some by (cases "isTransaction p") (simp_all add: spent_ids_def)
  show ?thesis
    unfolding checkTxPoWBasic_def d Some need_body_def CURRENT_NETWORK_def
    by (auto simp: basic_impl_iff tx_proved_def [of "b_burntransaction b"] split: if_splits)
qed

subsection \<open>The verdict of the scripts\<close>

lemma same_untimed_upd: "same_untimed f g \<Longrightarrow> same_untimed (f(k \<mapsto> v)) (g(k \<mapsto> v))"
  by (simp add: same_untimed_def)

lemma same_untimed_timed: "k \<in> timed \<Longrightarrow> same_untimed f g \<Longrightarrow> same_untimed (f(k \<mapsto> v)) (g(k \<mapsto> w))"
  by (auto simp: same_untimed_def)

lemma same_untimed_refl: "same_untimed f f"
  by (simp add: same_untimed_def)

lemma has_timed_upd: "has_timed f \<Longrightarrow> has_timed (f(k \<mapsto> v))"
  by (simp add: has_timed_def)

lemma has_timed_set: "has_timed (f(''@BLOCK'' \<mapsto> a, ''@BLOCKMILLI'' \<mapsto> b, ''@CREATED'' \<mapsto> c, ''@COINAGE'' \<mapsto> d))"
  by (simp add: has_timed_def timed_def)

text \<open>Setting the globals for another block changes the three globals of time only.\<close>

lemma setGlobals_retimed:
  assumes "setGlobals b1 t1 trx i cr sc s = (Inr u, s1)"
    and "number_value b2 = Inr vb" "number_value t2 = Inr vt" "bindE (mn_sub b2 cr) number_value = Inr va"
  shows "\<exists>g. setGlobals b2 t2 trx i cr sc s = (Inr (), retime g s) \<and> s1 = retime (mGlobals s1) s
     \<and> has_timed (mGlobals s1) \<and> has_timed g \<and> same_untimed (mGlobals s1) g"
proof -
  have step: "vbind (set_global k r) f (retime g s) = (Inr u, s1) \<longleftrightarrow> (\<exists>v. r = Inr v \<and> f () (retime (g(k \<mapsto> v)) s) = (Inr u, s1))"
    for k r f g s s1 and u :: unit
    by (cases r) (auto simp: vbind_def set_global_def vlift_def setGlobalVariable_def vmod_def retime_def)
  have last: "set_global k r (retime g s) = (Inr u, s1) \<longleftrightarrow> (\<exists>v. r = Inr v \<and> s1 = retime (g(k \<mapsto> v)) s)"
    for k r g s s1 and u :: unit
    by (cases r) (auto simp: vbind_def set_global_def vlift_def setGlobalVariable_def vmod_def retime_def)
  have lift: "vbind (vlift r) f s = (Inr u, s1) \<longleftrightarrow> (\<exists>v. r = Inr v \<and> f v s = (Inr u, s1))"
    for r :: "mininumber result" and f s s1 and u :: unit
    by (cases r) (auto simp: vbind_def vlift_def)
  have i: "\<not> (i < 0 \<or> length (tx_inputs trx) \<le> nat i)"
    using assms(1) by (auto simp: setGlobals_def vthrow_def vlift_def)
  have s: "retime (mGlobals s) s = s" by (simp add: retime_def)
  have a: "setGlobals b1 t1 trx i cr sc (retime (mGlobals s) s) = (Inr u, s1)" using assms(1) by (simp only: s)
  have "\<exists>g. setGlobals b2 t2 trx i cr sc (retime (mGlobals s) s) = (Inr (), retime g s) \<and> s1 = retime (mGlobals s1) s
     \<and> has_timed (mGlobals s1) \<and> has_timed g \<and> same_untimed (mGlobals s1) g"
    using a unfolding setGlobals_def if_not_P [OF i] Let_def step last lift assms(2-4)
    apply (elim exE conjE)
    apply (rule exI, intro conjI)
        apply ((rule exI conjI refl | assumption)+)[1]
       apply (simp only: retime_sel)
      apply (simp only: retime_sel, (rule has_timed_set | rule has_timed_upd)+)[1]
     apply ((rule has_timed_set | rule has_timed_upd)+)[1]
    apply (simp only: retime_sel)
    apply (rule same_untimed_upd | rule same_untimed_timed, simp add: timed_def | rule same_untimed_refl)+
    done
  then show ?thesis by (simp only: s)
qed

text \<open>Another block with the same limit of operations, at which the globals of time of every input can be set.\<close>

definition comparable :: "txpow \<Rightarrow> txpow \<Rightarrow> coin_proof list \<Rightarrow> bool" where
  "comparable z z' cps =
     (getAsInt (mCurrentMaxKISSVMOps (h_magic (p_header z'))) = getAsInt (mCurrentMaxKISSVMOps (h_magic (p_header z)))
      \<and> mn_wf (h_blocknumber (p_header z')) \<and> mn_wf (h_timemilli (p_header z'))
      \<and> list_all (\<lambda>cp. \<not> isl (bindE (mn_sub (h_blocknumber (p_header z')) (c_created (cp_coin cp))) number_value)) cps)"

lemma check_script_retimed:
  assumes "check_script env z w t i (cp_coin cp) script = Inr (True, ok)" "comparable z z' [cp]"
  shows "check_script env z' w t i (cp_coin cp) script = Inr (True, ok)"
proof -
  define co where "co = cp_coin cp"
  define mx where "mx = getAsInt (mCurrentMaxKISSVMOps (h_magic (p_header z)))"
  obtain cop x s where s: "deepCopy (e_crypto env) co = Inr cop" "deref cop = Inr x"
    "contract_new_signed (e_crypto env) script w t (c_state x) = Inr s"
    using assms(1) by (auto simp: check_script_def co_def)
  obtain u s1 s2 where r: "setGlobals (h_blocknumber (p_header z)) (h_timemilli (p_header z)) t i (c_created co) script
      (setMaxInstructions mx s) = (Inr u, s1)" "contract_run env s1 = Inr s2" "mMonotonic s2" "mSuccess s2 = ok"
    using assms(1) s by (auto simp: check_script_def co_def [symmetric] mx_def [symmetric] split: sum.splits prod.splits)
  obtain va where v: "bindE (mn_sub (h_blocknumber (p_header z')) (c_created co)) number_value = Inr va"
    using assms(2) by (cases "bindE (mn_sub (h_blocknumber (p_header z')) (c_created co)) number_value") (auto simp: comparable_def co_def)
  have n: "number_value (h_blocknumber (p_header z')) = Inr (NumberValue (h_blocknumber (p_header z')))"
    "number_value (h_timemilli (p_header z')) = Inr (NumberValue (h_timemilli (p_header z')))"
    using assms(2) by (simp_all add: comparable_def number_value_def)
  obtain g where g: "setGlobals (h_blocknumber (p_header z')) (h_timemilli (p_header z')) t i (c_created co) script
      (setMaxInstructions mx s) = (Inr (), retime g (setMaxInstructions mx s))"
    "s1 = retime (mGlobals s1) (setMaxInstructions mx s)" "has_timed (mGlobals s1)" "has_timed g" "same_untimed (mGlobals s1) g"
    using setGlobals_retimed [OF r(1) n v] by blast
  have "retime g (setMaxInstructions mx s) = retime g s1" by (subst g(2)) (simp add: retime_def)
  moreover have "contract_run env (retime g s1) = Inr (retime g s2)"
    using contract_run_retime [OF g(3-5) r(2,3)] .
  ultimately have "contract_run env (retime g (setMaxInstructions mx s)) = Inr (retime g s2)" by simp
  moreover have "getAsInt (mCurrentMaxKISSVMOps (h_magic (p_header z'))) = mx" using assms(2) by (simp add: comparable_def mx_def)
  ultimately show ?thesis
    using s g(1) r(3,4) by (simp add: check_script_def co_def [symmetric] retime_def)
qed

text \<open>What a step that goes on has run: the flags of the two scripts.\<close>

definition input_scripts :: "kenv \<Rightarrow> txpow \<Rightarrow> witness \<Rightarrow> transaction \<Rightarrow> int \<Rightarrow> coin_proof \<Rightarrow> bool \<Rightarrow> bool" where
  "input_scripts env z w t i cp keeps =
     (\<exists>prfs k1. getScript (c_address (cp_coin cp)) w = Some prfs \<and> check_script env z w t i (cp_coin cp) (sc_script prfs) = Inr (k1, True)
        \<and> (c_tokenid (cp_coin cp) = TOKENID_MINIMA \<and> keeps = k1
           \<or> c_tokenid (cp_coin cp) \<noteq> TOKENID_MINIMA \<and> (\<exists>tk. c_token (cp_coin cp) = Some tk
               \<and> (trim_blank (t_script tk) = ''RETURN TRUE'' \<and> keeps = k1
                  \<or> trim_blank (t_script tk) \<noteq> ''RETURN TRUE''
                    \<and> (\<exists>k2. check_script env z w (note_monotonic k1 t) i (cp_coin cp) (trim_blank (t_script tk)) = Inr (k2, True)
                          \<and> keeps = (k1 \<and> k2))))))"

lemma note_monotonic_twice: "note_monotonic k2 (note_monotonic k1 t) = note_monotonic (k1 \<and> k2) t"
  by (simp add: note_monotonic_def)

lemma check_scripts_step:
  "check_scripts env z w i (cp # cps) t = (Inr True, t')
     \<longleftrightarrow> (\<exists>keeps. input_scripts env z w t i cp keeps \<and> check_scripts env z w (i + 1) cps (note_monotonic keeps t) = (Inr True, t'))"
proof (cases "getScript (c_address (cp_coin cp)) w")
  case None
  then show ?thesis by (simp add: input_scripts_def)
next
  case (Some prfs)
  show ?thesis
  proof (cases "check_script env z w t i (cp_coin cp) (sc_script prfs)")
    case (Inl e)
    then show ?thesis using Some by (simp add: input_scripts_def)
  next
    case (Inr x)
    obtain k1 ok where x: "x = (k1, ok)" by (cases x)
    show ?thesis
    proof (cases "ok \<and> c_tokenid (cp_coin cp) \<noteq> TOKENID_MINIMA")
      case True
      show ?thesis
      proof (cases "c_token (cp_coin cp)")
        case (Some tk)
        then show ?thesis
          using \<open>getScript _ w = Some prfs\<close> Inr x True
          by (cases "trim_blank (t_script tk) = ''RETURN TRUE''";
              cases "check_script env z w (note_monotonic k1 t) i (cp_coin cp) (trim_blank (t_script tk))")
            (auto simp: input_scripts_def Let_def note_monotonic_twice split: if_splits)
      qed (use Some Inr x True in \<open>simp add: input_scripts_def\<close>)
    qed (use Some Inr x in \<open>auto simp: input_scripts_def Let_def\<close>)
  qed
qed

lemma check_scripts_monotonic: "check_scripts env z w i cps t = (Inr True, t') \<Longrightarrow> mIsMonotonic t' \<Longrightarrow> mIsMonotonic t"
proof (induction cps arbitrary: i t)
  case (Cons cp cps)
  obtain keeps where "check_scripts env z w (i + 1) cps (note_monotonic keeps t) = (Inr True, t')"
    using Cons.prems(1) unfolding check_scripts_step by blast
  from Cons.IH [OF this Cons.prems(2)] show ?case by (simp add: note_monotonic_def split: if_splits)
qed auto

lemma input_scripts_retimed:
  "input_scripts env z w t i cp True \<Longrightarrow> comparable z z' [cp] \<Longrightarrow> input_scripts env z' w t i cp True"
proof -
  assume a: "input_scripts env z w t i cp True" "comparable z z' [cp]"
  obtain prfs k1 where p: "getScript (c_address (cp_coin cp)) w = Some prfs" "check_script env z w t i (cp_coin cp) (sc_script prfs) = Inr (k1, True)"
    and rest: "c_tokenid (cp_coin cp) = TOKENID_MINIMA \<and> True = k1
           \<or> c_tokenid (cp_coin cp) \<noteq> TOKENID_MINIMA \<and> (\<exists>tk. c_token (cp_coin cp) = Some tk
               \<and> (trim_blank (t_script tk) = ''RETURN TRUE'' \<and> True = k1
                  \<or> trim_blank (t_script tk) \<noteq> ''RETURN TRUE''
                    \<and> (\<exists>k2. check_script env z w (note_monotonic k1 t) i (cp_coin cp) (trim_blank (t_script tk)) = Inr (k2, True)
                          \<and> True = (k1 \<and> k2))))"
    using a(1) unfolding input_scripts_def by blast
  have k1: "k1 = True" using rest by blast
  have n: "note_monotonic True t = t" by (simp add: note_monotonic_def)
  have s: "check_script env z' w t i (cp_coin cp) sc = Inr (True, True)"
    if k: "check_script env z w t i (cp_coin cp) sc = Inr (True, True)" for sc
    by (rule check_script_retimed [OF k a(2)])
  have first: "check_script env z' w t i (cp_coin cp) (sc_script prfs) = Inr (True, True)" using s p(2) k1 by simp
  consider (minima) "c_tokenid (cp_coin cp) = TOKENID_MINIMA"
    | (plain) tk where "c_tokenid (cp_coin cp) \<noteq> TOKENID_MINIMA" "c_token (cp_coin cp) = Some tk" "trim_blank (t_script tk) = ''RETURN TRUE''"
    | (script) tk where "c_tokenid (cp_coin cp) \<noteq> TOKENID_MINIMA" "c_token (cp_coin cp) = Some tk" "trim_blank (t_script tk) \<noteq> ''RETURN TRUE''"
        "check_script env z w t i (cp_coin cp) (trim_blank (t_script tk)) = Inr (True, True)"
    using rest unfolding k1 n by auto
  then show ?thesis
  proof cases
    case minima
    then show ?thesis unfolding input_scripts_def using p(1) first by (intro exI [of _ prfs] exI [of _ True]) simp
  next
    case plain
    then show ?thesis unfolding input_scripts_def using p(1) first by (intro exI [of _ prfs] exI [of _ True]) simp
  next
    case script
    then show ?thesis
      unfolding input_scripts_def using p(1) first s [OF script(4)] by (intro exI [of _ prfs] exI [of _ True]) (auto simp: n)
  qed
qed

lemma check_scripts_retimed:
  "check_scripts env z w i cps t = (Inr True, t') \<Longrightarrow> mIsMonotonic t' \<Longrightarrow> comparable z z' cps
    \<Longrightarrow> t' = t\<lparr>mIsValid := True\<rparr> \<and> check_scripts env z' w i cps t = (Inr True, t')"
proof (induction cps arbitrary: i t)
  case (Cons cp cps)
  obtain keeps where k: "input_scripts env z w t i cp keeps" "check_scripts env z w (i + 1) cps (note_monotonic keeps t) = (Inr True, t')"
    using Cons.prems(1) unfolding check_scripts_step by blast
  have "mIsMonotonic (note_monotonic keeps t)" using check_scripts_monotonic [OF k(2) Cons.prems(2)] .
  then have t: "keeps" "note_monotonic keeps t = t" by (simp_all add: note_monotonic_def split: if_splits)
  have c: "comparable z z' [cp]" "comparable z z' cps" using Cons.prems(3) by (simp_all add: comparable_def)
  have "input_scripts env z' w t i cp True" using input_scripts_retimed [OF _ c(1)] k(1) t(1) by simp
  moreover have "check_scripts env z' w (i + 1) cps t = (Inr True, t')" "t' = t\<lparr>mIsValid := True\<rparr>"
    using Cons.IH [OF _ Cons.prems(2) c(2)] k(2) t(2) by auto
  moreover have "note_monotonic True t = t" by (simp add: note_monotonic_def)
  ultimately show ?case unfolding check_scripts_step by metis
qed auto

text \<open>C39 The verdict that is kept: when the scripts of a transaction were run and accepted, and the transaction is
  still marked monotonic, the check answers true at once for every other block; and running the scripts afresh for a
  block with the same limit of operations, at which the globals of time can be set, gives the same answer and leaves
  the same transaction.\<close>

theorem kept_verdict_sound:
  assumes "\<not> isCheckedMonotonic t" "checkTxPoWScripts_impl env t w z = (Inr True, t')" "isCheckedMonotonic t'"
    and "comparable z z' (wt_coinproofs w)"
  shows "checkTxPoWScripts_impl env t' w z'' = (Inr True, t')
    \<and> checkTxPoWScripts_impl env (clearIsMonotonic t') w z' = (Inr True, t')"
proof -
  define t0 where "t0 = t\<lparr>mHaveCheckedMonotonic := True, mIsMonotonic := True, mIsValid := False\<rparr>"
  have run: "(if tx_isEmpty t0 then (Inr True, t0\<lparr>mIsValid := True\<rparr>)
      else if length (wt_coinproofs w) \<noteq> length (tx_inputs t0) then (Inr False, t0)
      else check_scripts env z w 0 (wt_coinproofs w) t0) = (Inr True, t')"
    using assms(2) unfolding checkTxPoWScripts_impl_def if_not_P [OF assms(1)] Let_def t0_def [symmetric] .
  have m: "mIsMonotonic t'" using assms(3) by (simp add: isCheckedMonotonic_def)
  have v: "t' = t0\<lparr>mIsValid := True\<rparr>" "(if tx_isEmpty t0 then (Inr True, t0\<lparr>mIsValid := True\<rparr>)
      else if length (wt_coinproofs w) \<noteq> length (tx_inputs t0) then (Inr False, t0)
      else check_scripts env z' w 0 (wt_coinproofs w) t0) = (Inr True, t')"
    using run check_scripts_retimed [OF _ m assms(4)] by (auto split: if_splits)
  have "(clearIsMonotonic t')\<lparr>mHaveCheckedMonotonic := True, mIsMonotonic := True, mIsValid := False\<rparr> = t0"
    by (simp add: v(1) clearIsMonotonic_def t0_def)
  moreover have "\<not> isCheckedMonotonic (clearIsMonotonic t')" by (simp add: isCheckedMonotonic_def clearIsMonotonic_def)
  ultimately have "checkTxPoWScripts_impl env (clearIsMonotonic t') w z' = (Inr True, t')"
    using v(2) by (simp only: checkTxPoWScripts_impl_def Let_def if_False)
  moreover have "mIsValid t'" by (simp add: v(1))
  ultimately show ?thesis using assms(3) by (simp add: checkTxPoWScripts_impl_def)
qed

text \<open>A payment whose one input has the script that returns true, checked for a block and for a later one.\<close>

definition sample_input :: coin where
  "sample_input = coin_new [5] [7] mn_ONE TOKENID_MINIMA False"

definition sample_spend :: transaction where
  "sample_spend = addOutput (coin_new [9] [7] mn_ONE TOKENID_MINIMA False) (addInput sample_input tx_new)"

definition sample_accepted :: transaction where
  "sample_accepted = sample_spend\<lparr>mHaveCheckedMonotonic := True, mIsMonotonic := True, mIsValid := True\<rparr>"

definition sample_proved :: witness where
  "sample_proved = \<lparr>wt_signatures = [], wt_coinproofs = [\<lparr>cp_coin = sample_input, cp_proof = empty_proof mn_ZERO\<rparr>],
     wt_scripts = [\<lparr>sc_script = ''RETURN TRUE'', sc_proof = empty_proof mn_ZERO,
       sc_address = \<lparr>a_script = [], a_data = [7], a_minima = []\<rparr>\<rparr>]\<rparr>"

definition sample_limit :: "mininumber \<Rightarrow> txpow" where
  "sample_limit num = (let p = txpow_new mn_ZERO []; h = p_header p in
     p\<lparr>p_header := h\<lparr>h_blocknumber := num, h_magic := (h_magic h)\<lparr>mCurrentMaxKISSVMOps := mn_TEN\<rparr>\<rparr>\<rparr>)"

lemma sample_limit_sel: "h_blocknumber (p_header (sample_limit num)) = num" "h_timemilli (p_header (sample_limit num)) = mn_ZERO"
  "mCurrentMaxKISSVMOps (h_magic (p_header (sample_limit num))) = mn_TEN"
  by (simp_all add: sample_limit_def txpow_new_def header_new_def Let_def)

lemma sample_returns_true:
  "check_script sample_env (sample_limit mn_ZERO) sample_proved
     (sample_spend\<lparr>mHaveCheckedMonotonic := True, mIsMonotonic := True, mIsValid := False\<rparr>) 0 sample_input ''RETURN TRUE'' = Inr (True, True)"
  unfolding check_script_def sample_limit_sel by code_simp

lemma sample_verdict: "checkTxPoWScripts_impl sample_env sample_spend sample_proved (sample_limit mn_ZERO) = (Inr True, sample_accepted)"
proof -
  have "getScript (c_address sample_input) sample_proved = Some (hd (wt_scripts sample_proved))" "c_tokenid sample_input = TOKENID_MINIMA"
    by (simp_all add: getScript_def sample_proved_def sample_input_def coin_new_def)
  moreover have "wt_coinproofs sample_proved = [\<lparr>cp_coin = sample_input, cp_proof = empty_proof mn_ZERO\<rparr>]"
    "sc_script (hd (wt_scripts sample_proved)) = ''RETURN TRUE''" by (simp_all add: sample_proved_def)
  moreover have "\<not> isCheckedMonotonic sample_spend" "length (tx_inputs sample_spend) = 1"
    by (simp_all add: isCheckedMonotonic_def sample_spend_def addOutput_def addInput_def tx_new_def)
  ultimately show ?thesis
    using sample_returns_true
    by (simp add: checkTxPoWScripts_impl_def Let_def tx_isEmpty_def note_monotonic_def sample_accepted_def)
qed

theorem kept_verdict_sound_witness:
  "checkTxPoWScripts_impl sample_env (clearIsMonotonic sample_accepted) sample_proved (sample_limit mn_TEN) = (Inr True, sample_accepted)"
proof -
  have "\<not> isCheckedMonotonic sample_spend" "isCheckedMonotonic sample_accepted"
    by (simp_all add: isCheckedMonotonic_def sample_accepted_def sample_spend_def addOutput_def addInput_def tx_new_def)
  moreover have "\<not> isl (bindE (mn_sub mn_TEN (c_created sample_input)) number_value)" by code_simp
  then have "comparable (sample_limit mn_ZERO) (sample_limit mn_TEN) (wt_coinproofs sample_proved)"
    by (simp add: comparable_def sample_limit_sel sample_proved_def)
  ultimately show ?thesis using kept_verdict_sound [OF _ sample_verdict] by blast
qed

definition sample_spender :: txpow where
  "sample_spender = (let p = txpow_new mn_ZERO [] in
     p\<lparr>p_body := Some ((body_new [])\<lparr>b_transaction := sample_spend, b_witness := sample_proved\<rparr>)\<rparr>)"

lemma sample_spend_checks:
  "checkValid sample_spend = Inr True" "scriptExists [7] sample_proved" "mn_isEqual mn_ONE mn_ONE"
  by code_simp+

theorem basic_check_accepts_witness: "checkTxPoWBasic sample_spender = Inr True"
proof -
  have "proves sample_proved sample_input \<lparr>cp_coin = sample_input, cp_proof = empty_proof mn_ZERO\<rparr>"
    using sample_spend_checks(2,3) by (simp add: proves_def sample_input_def coin_new_def getSpent_def mb_isTrue_def mb_of_bool_def)
  then have "tx_proved sample_spend sample_proved"
    unfolding tx_proved_def using sample_spend_checks(1)
    by (simp add: proof_coinids_def sample_proved_def sample_spend_def output_token_def addInput_def addOutput_def tx_new_def coin_new_def)
  then show ?thesis unfolding basic_check_accepts
    by (simp add: sample_spender_def txpow_new_def header_new_def body_new_def Let_def sample_spend_def tx_new_def addInput_def
      addOutput_def proof_coinids_def sample_proved_def tx_isEmpty_def witness_new_def)
qed

end
