(* ===== verification/TxPoWDB.thy ===== *)
theory TxPoWDB
  imports Checker "HOL-Library.AList"
begin

text \<open>
  Where transactions and blocks are kept: the mempool in memory (\<open>txpowdb/ram/ram_d_b.cpp\<close>, \<open>ram_data.cpp\<close>), the
  tables on disk (\<open>txpowdb/sql/tx_po_w_sql_d_b.cpp\<close>, \<open>txpowdb/onchain/tx_po_w_on_chain_d_b.cpp\<close>), the database over
  them (\<open>txpowdb/tx_po_w_d_b.cpp\<close>) and the blocks in memory (\<open>archive/tx_block_d_b.cpp\<close>), all under
  \<open>src/org/minima/database\<close>.

  Transactions and blocks are shared objects on which the checks note what they found, so the mempool holds
  addresses into a store of objects. The hash maps are association lists in the order of their iteration, which
  the code does not rely on. A table is the list of its rows in the order of their keys, with the meaning that
  SQL gives the statements of the code; that SQLite opens its files and runs the statements is assumed. The
  clock is an argument of the operations that read it.
\<close>

subsection \<open>Shared objects\<close>

type_synonym pstore = "nat \<Rightarrow> txpow option"

definition deref_txpow :: "pstore \<Rightarrow> nat \<Rightarrow> txpow result" where
  "deref_txpow h a = (case h a of None \<Rightarrow> Inl Undef | Some p \<Rightarrow> Inr p)"

definition catch_with :: "'a \<Rightarrow> 'a result \<Rightarrow> 'a result" where
  "catch_with d r = (case r of Inl (Throw ex) \<Rightarrow> Inr d | r \<Rightarrow> r)"

subsection \<open>The mempool\<close>

definition NUMBER_HOURS_RAMTXPOWDB :: int where "NUMBER_HOURS_RAMTXPOWDB = 1"
definition RAM_MAX_TIME :: int where "RAM_MAX_TIME = 1000 * 60 * 60 * NUMBER_HOURS_RAMTXPOWDB"

record ram_data =
  rd_txpow :: nat
  rd_lastaccess :: int
  rd_main :: bool
  rd_cascade :: bool

type_synonym ram_db = "(string \<times> ram_data) list"

definition ram_data_new :: "int \<Rightarrow> nat \<Rightarrow> ram_data" where
  "ram_data_new now a = \<lparr>rd_txpow = a, rd_lastaccess = now, rd_main = False, rd_cascade = False\<rparr>"

definition updateLastAccess :: "int \<Rightarrow> ram_data \<Rightarrow> ram_data" where
  "updateLastAccess now d = d\<lparr>rd_lastaccess := now\<rparr>"

definition ram_exists :: "string \<Rightarrow> ram_db \<Rightarrow> bool" where
  "ram_exists zTxPoWID db = (map_of db zTxPoWID \<noteq> None)"

definition ram_update :: "string \<Rightarrow> (ram_data \<Rightarrow> ram_data) \<Rightarrow> ram_db \<Rightarrow> ram_db" where
  "ram_update k f db = map (\<lambda>(x, d). (x, if x = k then f d else d)) db"

definition ram_addTxPoW :: "int \<Rightarrow> pstore \<Rightarrow> nat option \<Rightarrow> ram_db \<Rightarrow> (bool \<times> ram_db) result" where
  "ram_addTxPoW now h zTxPoW db =
     (case zTxPoW of None \<Rightarrow> Inr (False, db)
      | Some a \<Rightarrow> bindE (deref_txpow h a) (\<lambda>p. let txpid = mTxPOWIDStr p in
          if ram_exists txpid db then Inr (False, ram_update txpid (updateLastAccess now) db)
          else Inr (True, db @ [(txpid, ram_data_new now a)])))"

definition ram_getTxPoW :: "int \<Rightarrow> string \<Rightarrow> ram_db \<Rightarrow> nat option \<times> ram_db" where
  "ram_getTxPoW now zTxPoWID db =
     (case map_of db zTxPoWID of None \<Rightarrow> (None, db)
      | Some d \<Rightarrow> (Some (rd_txpow d), ram_update zTxPoWID (updateLastAccess now) db))"

definition ram_remove :: "string \<Rightarrow> ram_db \<Rightarrow> ram_db" where
  "ram_remove zTxPoWID db = filter (\<lambda>(k, d). k \<noteq> zTxPoWID) db"

text \<open>The entries used lately go to a new map, under the identifiers their objects have now.\<close>

fun keep_recent :: "pstore \<Rightarrow> int \<Rightarrow> ram_db \<Rightarrow> ram_db \<Rightarrow> ram_db result" where
  "keep_recent h timecut newmap [] = Inr newmap"
| "keep_recent h timecut newmap ((k, d) # kvs) =
     (if rd_lastaccess d > timecut
      then bindE (deref_txpow h (rd_txpow d)) (\<lambda>p. let txpid = mTxPOWIDStr p in
        keep_recent h timecut (if ram_exists txpid newmap then newmap else newmap @ [(txpid, d)]) kvs)
      else keep_recent h timecut newmap kvs)"

definition ram_cleanDB :: "int \<Rightarrow> pstore \<Rightarrow> ram_db \<Rightarrow> ram_db result" where
  "ram_cleanDB now h db = keep_recent h (now - RAM_MAX_TIME) [] db"

definition ram_getSize :: "ram_db \<Rightarrow> int" where
  "ram_getSize db = int (length db)"

definition wipeRamDB :: "ram_db \<Rightarrow> ram_db" where
  "wipeRamDB db = []"

definition ram_clearMainChainTxns :: "ram_db \<Rightarrow> ram_db" where
  "ram_clearMainChainTxns db = map (\<lambda>(k, d). (k, d\<lparr>rd_main := False\<rparr>)) db"

definition ram_setOnMainChain :: "string \<Rightarrow> ram_db \<Rightarrow> ram_db" where
  "ram_setOnMainChain zTxPoWID = ram_update zTxPoWID (\<lambda>d. d\<lparr>rd_main := True\<rparr>)"

definition ram_setInCascade :: "string \<Rightarrow> ram_db \<Rightarrow> ram_db" where
  "ram_setInCascade zTxPoWID = ram_update zTxPoWID (\<lambda>d. d\<lparr>rd_cascade := True\<rparr>)"

fun ram_getAllUnusedTxns :: "pstore \<Rightarrow> ram_db \<Rightarrow> nat list result" where
  "ram_getAllUnusedTxns h [] = Inr []"
| "ram_getAllUnusedTxns h ((k, d) # kvs) =
     bindE (deref_txpow h (rd_txpow d)) (\<lambda>p. bindE (ram_getAllUnusedTxns h kvs) (\<lambda>ret.
     Inr (if \<not> rd_main d \<and> isTransaction p \<and> \<not> rd_cascade d then rd_txpow d # ret else ret)))"

text \<open>Whether some transaction of the mempool spends a coin.\<close>

definition spends :: "byte list \<Rightarrow> tx_body \<Rightarrow> bool" where
  "spends zCoinID b = list_ex (\<lambda>cp. c_coinid (cp_coin cp) = zCoinID) (wt_coinproofs (b_witness b) @ wt_coinproofs (b_burnwitness b))"

fun ram_checkForCoinID :: "pstore \<Rightarrow> byte list \<Rightarrow> ram_db \<Rightarrow> bool result" where
  "ram_checkForCoinID h zCoinID [] = Inr False"
| "ram_checkForCoinID h zCoinID ((k, d) # kvs) =
     bindE (deref_txpow h (rd_txpow d)) (\<lambda>p.
       if isTransaction p \<and> \<not> rd_cascade d
       then bindE (need_body p) (\<lambda>b. if spends zCoinID b then Inr True else ram_checkForCoinID h zCoinID kvs)
       else ram_checkForCoinID h zCoinID kvs)"

subsection \<open>The table of transactions\<close>

definition NUMBER_DAYS_SQLTXPOWDB :: int where "NUMBER_DAYS_SQLTXPOWDB = 3"
definition MAX_SQL_MILLI :: int where "MAX_SQL_MILLI = 1000 * 60 * 60 * 24 * NUMBER_DAYS_SQLTXPOWDB"

record txpow_row =
  row_txpowid :: string
  row_isblock :: bool
  row_istransaction :: bool
  row_parentid :: string
  row_timemilli :: int
  row_txpowdata :: "byte list"
  row_isrelevant :: bool

definition sql_exists :: "string \<Rightarrow> txpow_row list \<Rightarrow> bool" where
  "sql_exists zTxPoWID rws = list_ex (\<lambda>r. row_txpowid r = zTxPoWID) rws"

definition sql_addTxPoW :: "int \<Rightarrow> txpow \<Rightarrow> bool \<Rightarrow> txpow_row list \<Rightarrow> (bool \<times> txpow_row list) result" where
  "sql_addTxPoW now zTxPoW zIsRelevant rws =
     catch_with (False, rws)
       (bindE (txpow_writeDataStream zTxPoW) (\<lambda>bytes. bindE (getParentID zTxPoW) (\<lambda>parent.
        Inr (True, if sql_exists (mTxPOWIDStr zTxPoW) rws then rws
          else rws @ [\<lparr>row_txpowid = mTxPOWIDStr zTxPoW, row_isblock = mIsBlockPOW zTxPoW,
            row_istransaction = isTransaction zTxPoW, row_parentid = to0xString (md parent), row_timemilli = now,
            row_txpowdata = bytes, row_isrelevant = zIsRelevant\<rparr>]))))"

definition sql_getTxPoW :: "penv \<Rightarrow> string \<Rightarrow> txpow_row list \<Rightarrow> txpow option result" where
  "sql_getTxPoW e zTxPoWID rws =
     (case find (\<lambda>r. row_txpowid r = zTxPoWID) rws of None \<Rightarrow> Inr None
      | Some r \<Rightarrow> txpow_convertMiniDataVersion e (row_txpowdata r))"

definition sql_getChildBlocks :: "string \<Rightarrow> txpow_row list \<Rightarrow> string list" where
  "sql_getChildBlocks zParentTxPoWID rws =
     map row_txpowid (filter (\<lambda>r. row_isblock r \<and> row_parentid r = zParentTxPoWID) rws)"

definition sql_getRelevantSize :: "txpow_row list \<Rightarrow> int" where
  "sql_getRelevantSize rws = int (length (filter row_isrelevant rws))"

text \<open>\<open>ORDER BY timemilli DESC LIMIT OFFSET\<close>: a negative limit is none, a negative offset is 0.\<close>

definition newest :: "int \<Rightarrow> int \<Rightarrow> txpow_row list \<Rightarrow> txpow_row list" where
  "newest zLimit zOffset rws =
     (let rs = drop (nat zOffset) (sort_key (\<lambda>r. - row_timemilli r) rws) in if zLimit < 0 then rs else take (nat zLimit) rs)"

fun rows_txpows :: "penv \<Rightarrow> txpow_row list \<Rightarrow> txpow list result" where
  "rows_txpows e [] = Inr []"
| "rows_txpows e (r # rs) =
     bindE (txpow_convertMiniDataVersion e (row_txpowdata r)) (\<lambda>txp. bindE (rows_txpows e rs) (\<lambda>txps.
     Inr (case txp of None \<Rightarrow> txps | Some p \<Rightarrow> p # txps)))"

definition sql_getAllRelevant :: "penv \<Rightarrow> int \<Rightarrow> int \<Rightarrow> txpow_row list \<Rightarrow> txpow list result" where
  "sql_getAllRelevant e zLimit zOffset rws = rows_txpows e (newest zLimit zOffset (filter row_isrelevant rws))"

definition sql_getLatestTxPoW :: "penv \<Rightarrow> int \<Rightarrow> int \<Rightarrow> txpow_row list \<Rightarrow> txpow list result" where
  "sql_getLatestTxPoW e zLimit zOffset rws = rows_txpows e (newest zLimit zOffset rws)"

definition sql_getLatestTxPoWSize :: "int \<Rightarrow> txpow_row list \<Rightarrow> int" where
  "sql_getLatestTxPoWSize zMinMilliTime rws = int (length (filter (\<lambda>r. row_timemilli r > zMinMilliTime) rws))"

definition sql_getSize :: "txpow_row list \<Rightarrow> int" where
  "sql_getSize rws = int (length rws)"

definition sql_cleanDB :: "int \<Rightarrow> bool \<Rightarrow> txpow_row list \<Rightarrow> int \<times> txpow_row list" where
  "sql_cleanDB now zHard rws =
     (let maxtime = (if zHard then now + 100000 else now - MAX_SQL_MILLI); old = (\<lambda>r. row_timemilli r < maxtime \<and> \<not> row_isrelevant r) in
      (int (length (filter old rws)), filter (\<lambda>r. \<not> old r) rws))"

definition sql_wipeDB :: "txpow_row list \<Rightarrow> txpow_row list" where
  "sql_wipeDB rws = []"

subsection \<open>The table of what is on the chain\<close>

record onchain_row =
  oc_blockid :: string
  oc_block :: int
  oc_txpowid :: string
  oc_timemilli :: int

definition addOnChainTxPoW :: "int \<Rightarrow> string \<Rightarrow> mininumber \<Rightarrow> string \<Rightarrow> onchain_row list \<Rightarrow> onchain_row list" where
  "addOnChainTxPoW now zBlockID zBlock zTxPoWID rws =
     rws @ [\<lparr>oc_blockid = zBlockID, oc_block = getAsLong zBlock, oc_txpowid = zTxPoWID, oc_timemilli = now\<rparr>]"

definition getOnChainTxPoW :: "string \<Rightarrow> onchain_row list \<Rightarrow> onchain_row option" where
  "getOnChainTxPoW zTxPoWID rws = find (\<lambda>r. oc_txpowid r = zTxPoWID) rws"

definition getInBlockTxPoW :: "string \<Rightarrow> onchain_row list \<Rightarrow> onchain_row list" where
  "getInBlockTxPoW zBlockID rws = filter (\<lambda>r. oc_blockid r = zBlockID) rws"

definition getInBlockTxPoW_number :: "int \<Rightarrow> onchain_row list \<Rightarrow> onchain_row list" where
  "getInBlockTxPoW_number zBlock rws = filter (\<lambda>r. oc_block r = zBlock) rws"

definition getFirstTxPoW :: "onchain_row list \<Rightarrow> onchain_row option" where
  "getFirstTxPoW rws = (case sort_key oc_timemilli rws of [] \<Rightarrow> None | r # rs \<Rightarrow> Some r)"

definition getLastTxPoW :: "onchain_row list \<Rightarrow> onchain_row option" where
  "getLastTxPoW rws = (case sort_key (\<lambda>r. - oc_timemilli r) rws of [] \<Rightarrow> None | r # rs \<Rightarrow> Some r)"

definition onchain_getSize :: "onchain_row list \<Rightarrow> int" where
  "onchain_getSize rws = int (length rws)"

definition MAX_ONCHAINSQL_MILLI :: int where "MAX_ONCHAINSQL_MILLI = 1000 * 60 * 60 * 24 * 1000"

definition onchain_cleanDB :: "int \<Rightarrow> bool \<Rightarrow> onchain_row list \<Rightarrow> int \<times> onchain_row list" where
  "onchain_cleanDB now zHard rws =
     (let maxtime = (if zHard then now + 100000 else now - MAX_ONCHAINSQL_MILLI) in
      (int (length (filter (\<lambda>r. oc_timemilli r < maxtime) rws)), filter (\<lambda>r. \<not> oc_timemilli r < maxtime) rws))"

subsection \<open>The database of transactions and blocks\<close>

record txpowdb =
  db_objects :: pstore
  db_next :: nat
  db_ram :: ram_db
  db_sql :: "txpow_row list"
  db_onchain :: "onchain_row list"

definition new_object :: "txpow \<Rightarrow> txpowdb \<Rightarrow> nat \<times> txpowdb" where
  "new_object p db = (db_next db, db\<lparr>db_objects := (db_objects db)(db_next db \<mapsto> p), db_next := Suc (db_next db)\<rparr>)"

text \<open>The table is written when the identifier is new to it; the answer is whether the wallet has a part in it.\<close>

definition add_to_sql :: "int \<Rightarrow> wallet \<Rightarrow> txpow \<Rightarrow> txpowdb \<Rightarrow> bool result \<times> txpowdb" where
  "add_to_sql now w p db =
     (case checkTxPoWRelevant w p of Inl e \<Rightarrow> (Inl e, db)
      | Inr relevant \<Rightarrow>
          if sql_exists (mTxPOWIDStr p) (db_sql db) then (Inr relevant, db)
          else case sql_addTxPoW now p relevant (db_sql db) of Inl e \<Rightarrow> (Inl e, db)
            | Inr (ok, rws) \<Rightarrow> (Inr relevant, db\<lparr>db_sql := rws\<rparr>))"

definition addTxPoW :: "int \<Rightarrow> wallet \<Rightarrow> nat option \<Rightarrow> txpowdb \<Rightarrow> bool result \<times> txpowdb" where
  "addTxPoW now w zTxPoW db =
     (case zTxPoW of None \<Rightarrow> (Inr False, db)
      | Some a \<Rightarrow>
          case bindE (deref_txpow (db_objects db) a) (\<lambda>p.
                 if ram_exists (mTxPOWIDStr p) (db_ram db) then Inr (p, db_ram db)
                 else bindE (ram_addTxPoW now (db_objects db) (Some a) (db_ram db)) (\<lambda>(new, ram). Inr (p, ram))) of
            Inl e \<Rightarrow> (Inl e, db)
          | Inr (p, ram) \<Rightarrow> add_to_sql now w p (db\<lparr>db_ram := ram\<rparr>))"

definition addSQLTxPoW :: "int \<Rightarrow> wallet \<Rightarrow> nat option \<Rightarrow> txpowdb \<Rightarrow> unit result \<times> txpowdb" where
  "addSQLTxPoW now w zTxPoW db =
     (case zTxPoW of None \<Rightarrow> (Inr (), db)
      | Some a \<Rightarrow>
          case deref_txpow (db_objects db) a of Inl e \<Rightarrow> (Inl e, db)
          | Inr p \<Rightarrow>
              if sql_exists (mTxPOWIDStr p) (db_sql db) then (Inr (), db)
              else case add_to_sql now w p db of (r, db) \<Rightarrow> (bindE r (\<lambda>x. Inr ()), db))"

text \<open>What comes from the table is a fresh object.\<close>

definition db_getTxPoW :: "penv \<Rightarrow> int \<Rightarrow> string \<Rightarrow> txpowdb \<Rightarrow> (nat option \<times> txpowdb) result" where
  "db_getTxPoW e now zTxPoWID db =
     (case ram_getTxPoW now zTxPoWID (db_ram db) of
        (Some a, ram) \<Rightarrow> Inr (Some a, db\<lparr>db_ram := ram\<rparr>)
      | (None, ram) \<Rightarrow> bindE (sql_getTxPoW e zTxPoWID (db_sql db)) (\<lambda>up. case up of None \<Rightarrow> Inr (None, db)
          | Some p \<Rightarrow> case new_object p db of (a, db) \<Rightarrow> Inr (Some a, db)))"

fun getAllTxPoW :: "penv \<Rightarrow> int \<Rightarrow> string list \<Rightarrow> txpowdb \<Rightarrow> (nat list \<times> txpowdb) result" where
  "getAllTxPoW e now [] db = Inr ([], db)"
| "getAllTxPoW e now (child # children) db =
     bindE (db_getTxPoW e now child db) (\<lambda>(txp, db). bindE (getAllTxPoW e now children db) (\<lambda>(ret, db).
     Inr (case txp of None \<Rightarrow> ret | Some a \<Rightarrow> a # ret, db)))"

definition db_exists :: "string \<Rightarrow> txpowdb \<Rightarrow> bool" where
  "db_exists zTxPoWID db = (ram_exists zTxPoWID (db_ram db) \<or> sql_exists zTxPoWID (db_sql db))"

definition db_getChildBlocks :: "penv \<Rightarrow> int \<Rightarrow> string \<Rightarrow> txpowdb \<Rightarrow> (nat list \<times> txpowdb) result" where
  "db_getChildBlocks e now zParentTxPoWID db = getAllTxPoW e now (sql_getChildBlocks zParentTxPoWID (db_sql db)) db"

definition cleanDBRAM :: "int \<Rightarrow> txpowdb \<Rightarrow> txpowdb result" where
  "cleanDBRAM now db = bindE (ram_cleanDB now (db_objects db) (db_ram db)) (\<lambda>ram. Inr (db\<lparr>db_ram := ram\<rparr>))"

definition wipeDBRAM :: "txpowdb \<Rightarrow> txpowdb" where
  "wipeDBRAM db = db\<lparr>db_ram := wipeRamDB (db_ram db)\<rparr>"

definition cleanDBSQL :: "int \<Rightarrow> txpowdb \<Rightarrow> txpowdb" where
  "cleanDBSQL now db = db\<lparr>db_sql := snd (sql_cleanDB now False (db_sql db)),
     db_onchain := snd (onchain_cleanDB now False (db_onchain db))\<rparr>"

definition clearMainChainTxns :: "txpowdb \<Rightarrow> txpowdb" where
  "clearMainChainTxns db = db\<lparr>db_ram := ram_clearMainChainTxns (db_ram db)\<rparr>"

definition setOnMainChain :: "string \<Rightarrow> txpowdb \<Rightarrow> txpowdb" where
  "setOnMainChain zTxPoWID db = db\<lparr>db_ram := ram_setOnMainChain zTxPoWID (db_ram db)\<rparr>"

definition setInCascade :: "string \<Rightarrow> txpowdb \<Rightarrow> txpowdb" where
  "setInCascade zTxPoWID db = db\<lparr>db_ram := ram_setInCascade zTxPoWID (db_ram db)\<rparr>"

definition getAllUnusedTxns :: "txpowdb \<Rightarrow> nat list result" where
  "getAllUnusedTxns db = ram_getAllUnusedTxns (db_objects db) (db_ram db)"

definition removeMemPoolTxPoW :: "string \<Rightarrow> txpowdb \<Rightarrow> txpowdb" where
  "removeMemPoolTxPoW zTxPoWID db = db\<lparr>db_ram := ram_remove zTxPoWID (db_ram db)\<rparr>"

definition checkMempoolCoins :: "byte list \<Rightarrow> txpowdb \<Rightarrow> bool result" where
  "checkMempoolCoins zCoinID db = ram_checkForCoinID (db_objects db) zCoinID (db_ram db)"

subsection \<open>Blocks in memory\<close>

type_synonym block_db = "(string \<times> txblock) list"

definition addTxBlock :: "txblock \<Rightarrow> block_db \<Rightarrow> block_db result" where
  "addTxBlock zTxBlock db = bindE (getTxPoW zTxBlock) (\<lambda>p. Inr (AList.update (mTxPOWIDStr p) zTxBlock db))"

definition findTxBlock :: "string \<Rightarrow> block_db \<Rightarrow> txblock option" where
  "findTxBlock zTxPowID db = map_of db zTxPowID"

fun blocks_below :: "string \<Rightarrow> block_db \<Rightarrow> txblock list result" where
  "blocks_below zTxPowID [] = Inr []"
| "blocks_below zTxPowID ((k, b) # kvs) =
     bindE (getTxPoW b) (\<lambda>p. bindE (getParentID p) (\<lambda>parent. bindE (blocks_below zTxPowID kvs) (\<lambda>ret.
     Inr (if to0xString (md parent) = zTxPowID then b # ret else ret))))"

fun clear_old :: "mininumber \<Rightarrow> block_db \<Rightarrow> block_db \<Rightarrow> block_db result" where
  "clear_old zMinBlock newDB [] = Inr newDB"
| "clear_old zMinBlock newDB ((k, b) # kvs) =
     bindE (getTxPoW b) (\<lambda>p.
     clear_old zMinBlock (if mn_isMoreEqual (h_blocknumber (p_header p)) zMinBlock then AList.update (mTxPOWIDStr p) b newDB else newDB) kvs)"

definition clearOld :: "mininumber \<Rightarrow> block_db \<Rightarrow> block_db result" where
  "clearOld zMinBlock db = clear_old zMinBlock [] db"

definition clearAll :: "block_db \<Rightarrow> block_db" where
  "clearAll db = []"

end
