(* ===== verification/TxPoWDBLaws.thy ===== *)
theory TxPoWDBLaws
  imports TxPoWDB
begin

text \<open>
  The mempool and the blocks in memory as finite maps. A locale has the argument for both: a step that refines an
  abstract step under an invariant does so along every sequence of operations. The objects of the mempool may
  change between the operations as long as they keep their identifiers.
\<close>

subsection \<open>Sequences of operations\<close>

fun run_steps :: "('op \<Rightarrow> 's \<Rightarrow> 's result) \<Rightarrow> 'op list \<Rightarrow> 's \<Rightarrow> 's result" where
  "run_steps step [] s = Inr s"
| "run_steps step (op # ops) s = bindE (step op s) (run_steps step ops)"

locale refined_steps =
  fixes step :: "'op \<Rightarrow> 's \<Rightarrow> 's result"
    and spec :: "'op \<Rightarrow> 'a \<Rightarrow> 'a"
    and abstr :: "'s \<Rightarrow> 'a"
    and inv :: "'s \<Rightarrow> bool"
    and ok :: "'op \<Rightarrow> bool"
  assumes step_refines: "ok op \<Longrightarrow> inv s \<Longrightarrow> \<exists>t. step op s = Inr t \<and> inv t \<and> abstr t = spec op (abstr s)"
begin

lemma run_refines:
  "list_all ok ops \<Longrightarrow> inv s \<Longrightarrow> \<exists>t. run_steps step ops s = Inr t \<and> inv t \<and> abstr t = fold spec ops (abstr s)"
proof (induction ops arbitrary: s)
  case (Cons op ops)
  then obtain u where u: "step op s = Inr u" "inv u" "abstr u = spec op (abstr s)"
    using step_refines by fastforce
  then show ?case using Cons.IH[of u] Cons.prems(1) by auto
qed simp

end

subsection \<open>The mempool\<close>

text \<open>Identifiers that do not change: \<open>f\<close> gives them for the objects of interest.\<close>

definition names :: "(nat \<Rightarrow> string option) \<Rightarrow> pstore \<Rightarrow> bool" where
  "names f h = (\<forall>a s. f a = Some s \<longrightarrow> (\<exists>p. h a = Some p \<and> mTxPOWIDStr p = s))"

definition keyed :: "(nat \<Rightarrow> string option) \<Rightarrow> ram_db \<Rightarrow> bool" where
  "keyed f db = (distinct (map fst db) \<and> (\<forall>(k, d) \<in> set db. f (rd_txpow d) = Some k))"

datatype ram_op =
    Ram_add int nat
  | Ram_get int string
  | Ram_remove string
  | Ram_clean int
  | Ram_wipe
  | Ram_clear
  | Ram_main string
  | Ram_cascade string

fun ram_step :: "pstore \<times> ram_op \<Rightarrow> ram_db \<Rightarrow> ram_db result" where
  "ram_step (h, Ram_add now a) db = bindE (ram_addTxPoW now h (Some a) db) (\<lambda>(b, db). Inr db)"
| "ram_step (h, Ram_get now k) db = Inr (snd (ram_getTxPoW now k db))"
| "ram_step (h, Ram_remove k) db = Inr (ram_remove k db)"
| "ram_step (h, Ram_clean now) db = ram_cleanDB now h db"
| "ram_step (h, Ram_wipe) db = Inr (wipeRamDB db)"
| "ram_step (h, Ram_clear) db = Inr (ram_clearMainChainTxns db)"
| "ram_step (h, Ram_main k) db = Inr (ram_setOnMainChain k db)"
| "ram_step (h, Ram_cascade k) db = Inr (ram_setInCascade k db)"

definition change :: "string \<Rightarrow> (ram_data \<Rightarrow> ram_data) \<Rightarrow> (string \<Rightarrow> ram_data option) \<Rightarrow> string \<Rightarrow> ram_data option" where
  "change k f m = m(k := map_option f (m k))"

fun ram_spec :: "(nat \<Rightarrow> string option) \<Rightarrow> pstore \<times> ram_op \<Rightarrow> (string \<Rightarrow> ram_data option) \<Rightarrow> string \<Rightarrow> ram_data option" where
  "ram_spec f (h, Ram_add now a) m =
     (let k = the (f a) in if m k = None then m(k \<mapsto> ram_data_new now a) else change k (updateLastAccess now) m)"
| "ram_spec f (h, Ram_get now k) m = change k (updateLastAccess now) m"
| "ram_spec f (h, Ram_remove k) m = m(k := None)"
| "ram_spec f (h, Ram_clean now) m =
     (\<lambda>k. case m k of None \<Rightarrow> None | Some d \<Rightarrow> if now - rd_lastaccess d < 3600000 then Some d else None)"
| "ram_spec f (h, Ram_wipe) m = Map.empty"
| "ram_spec f (h, Ram_clear) m = (\<lambda>k. map_option (\<lambda>d. d\<lparr>rd_main := False\<rparr>) (m k))"
| "ram_spec f (h, Ram_main k) m = change k (\<lambda>d. d\<lparr>rd_main := True\<rparr>) m"
| "ram_spec f (h, Ram_cascade k) m = change k (\<lambda>d. d\<lparr>rd_cascade := True\<rparr>) m"

definition ram_ok :: "(nat \<Rightarrow> string option) \<Rightarrow> pstore \<times> ram_op \<Rightarrow> bool" where
  "ram_ok f x = (names f (fst x) \<and> (case snd x of Ram_add now a \<Rightarrow> f a \<noteq> None | _ \<Rightarrow> True))"

lemma map_of_ram_update: "map_of (ram_update k g db) = change k g (map_of db)"
  by (induction db) (auto simp: ram_update_def change_def fun_eq_iff)

lemma keys_ram_update [simp]: "map fst (ram_update k g db) = map fst db"
  by (auto simp: ram_update_def)

lemma keyed_ram_update: "keyed f db \<Longrightarrow> (\<And>d. rd_txpow (g d) = rd_txpow d) \<Longrightarrow> keyed f (ram_update k g db)"
  by (auto simp: keyed_def ram_update_def o_def case_prod_unfold)

lemma access_object [simp]: "rd_txpow (updateLastAccess now d) = rd_txpow d"
  by (simp add: updateLastAccess_def)

lemma keyed_object:
  assumes "keyed f db" "names f h" "(k, d) \<in> set db"
  shows "\<exists>p. h (rd_txpow d) = Some p \<and> mTxPOWIDStr p = k"
  using assms by (auto simp: keyed_def names_def)

lemma ram_add_refines:
  assumes "keyed f db" "names f h" "f a = Some k"
  shows "\<exists>b t. ram_addTxPoW now h (Some a) db = Inr (b, t) \<and> keyed f t \<and> map_of t = ram_spec f (h, Ram_add now a) (map_of db)
    \<and> b = (map_of db k = None)"
proof -
  obtain p where p: "h a = Some p" "mTxPOWIDStr p = k" using assms by (auto simp: names_def)
  show ?thesis
  proof (cases "map_of db k")
    case None
    then have "k \<notin> fst ` set db" by (simp add: map_of_eq_None_iff)
    then show ?thesis using assms None p
      by (auto simp: ram_addTxPoW_def deref_txpow_def ram_exists_def keyed_def ram_data_new_def Let_def map_add_def fun_eq_iff
          split: option.split)
  next
    case (Some d)
    then show ?thesis using assms p
      by (auto simp: ram_addTxPoW_def deref_txpow_def ram_exists_def map_of_ram_update keyed_ram_update Let_def)
  qed
qed

lemma change_absent: "m k = None \<Longrightarrow> change k g m = m"
  by (auto simp: change_def fun_eq_iff)

lemma ram_get_refines:
  "keyed f db \<Longrightarrow> keyed f (snd (ram_getTxPoW now k db)) \<and> map_of (snd (ram_getTxPoW now k db)) = change k (updateLastAccess now) (map_of db)
    \<and> fst (ram_getTxPoW now k db) = map_option rd_txpow (map_of db k)"
  by (auto simp: ram_getTxPoW_def map_of_ram_update keyed_ram_update change_absent split: option.split)

lemma keep_recent_filter:
  assumes "names f h"
  shows "keyed f (acc @ kvs) \<Longrightarrow> keep_recent h tc acc kvs = Inr (acc @ filter (\<lambda>(k, d). rd_lastaccess d > tc) kvs)"
proof (induction kvs arbitrary: acc)
  case (Cons x kvs)
  obtain k d where x: "x = (k, d)" by (cases x)
  obtain p where p: "h (rd_txpow d) = Some p" "mTxPOWIDStr p = k"
    using keyed_object[OF Cons.prems assms, of k d] x by auto
  have new: "map_of acc k = None" using Cons.prems x by (auto simp: keyed_def map_of_eq_None_iff)
  have "keyed f (acc @ kvs)" using Cons.prems x by (auto simp: keyed_def)
  moreover have "keyed f ((acc @ [(k, d)]) @ kvs)" using Cons.prems x by simp
  ultimately show ?case using Cons.IH p new x by (simp add: deref_txpow_def ram_exists_def Let_def)
qed simp

lemma map_of_filter_entries:
  "distinct (map fst db) \<Longrightarrow>
   map_of (filter (\<lambda>(k, d). P k d) db) = (\<lambda>k. case map_of db k of None \<Rightarrow> None | Some d \<Rightarrow> if P k d then Some d else None)"
  by (induction db) (fastforce simp: fun_eq_iff map_of_eq_None_iff image_iff split: option.split)+

lemma keyed_filter: "keyed f db \<Longrightarrow> keyed f (filter P db)"
  by (auto simp: keyed_def distinct_map_filter)

lemma ram_clean_refines:
  assumes "keyed f db" "names f h"
  shows "\<exists>t. ram_cleanDB now h db = Inr t \<and> keyed f t \<and> map_of t = ram_spec f (h, Ram_clean now) (map_of db)"
proof -
  have "ram_cleanDB now h db = Inr (filter (\<lambda>(k, d). rd_lastaccess d > now - RAM_MAX_TIME) db)"
    using keep_recent_filter[OF assms(2), of "[]" db] assms(1) by (simp add: ram_cleanDB_def)
  then show ?thesis using assms(1)
    by (auto simp: keyed_filter map_of_filter_entries keyed_def[of f db] RAM_MAX_TIME_def NUMBER_HOURS_RAMTXPOWDB_def fun_eq_iff
        split: option.split)
qed

lemma ram_remove_refines: "keyed f db \<Longrightarrow> keyed f (ram_remove k db) \<and> map_of (ram_remove k db) = (map_of db)(k := None)"
  by (auto simp: ram_remove_def keyed_filter map_of_filter_entries keyed_def[of f db] fun_eq_iff split: option.split)

lemma ram_clear_refines:
  "keyed f db \<Longrightarrow> keyed f (ram_clearMainChainTxns db)
    \<and> map_of (ram_clearMainChainTxns db) = (\<lambda>k. map_option (\<lambda>d. d\<lparr>rd_main := False\<rparr>) (map_of db k))"
proof -
  have "map_of (ram_clearMainChainTxns db) k = map_option (\<lambda>d. d\<lparr>rd_main := False\<rparr>) (map_of db k)" for k
    by (induction db) (auto simp: ram_clearMainChainTxns_def)
  then show "keyed f db \<Longrightarrow> ?thesis" by (auto simp: ram_clearMainChainTxns_def keyed_def o_def case_prod_unfold)
qed

lemma ram_step_refines:
  assumes "ram_ok f x" "keyed f db"
  shows "\<exists>t. ram_step x db = Inr t \<and> keyed f t \<and> map_of t = ram_spec f x (map_of db)"
proof -
  obtain h op where x: "x = (h, op)" by (cases x)
  have n: "names f h" using assms x by (simp add: ram_ok_def)
  show ?thesis
  proof (cases op)
    case (Ram_add now a)
    then obtain k where "f a = Some k" using assms x by (auto simp: ram_ok_def)
    then show ?thesis using ram_add_refines[OF assms(2) n, of a k now] x Ram_add by auto
  qed (use assms n x in \<open>auto simp: ram_get_refines ram_remove_refines ram_clean_refines[simplified] ram_clear_refines
      wipeRamDB_def keyed_def[of f "[]"] ram_setOnMainChain_def ram_setInCascade_def map_of_ram_update keyed_ram_update\<close>)
qed

interpretation mempool: refined_steps ram_step "ram_spec f" map_of "keyed f" "ram_ok f" for f
  by unfold_locales (rule ram_step_refines)

text \<open>What the mempool answers, in terms of the map.\<close>

definition unused :: "pstore \<Rightarrow> (string \<Rightarrow> ram_data option) \<Rightarrow> nat set" where
  "unused h m = {a. \<exists>k d p. m k = Some d \<and> rd_txpow d = a \<and> h a = Some p \<and> isTransaction p \<and> \<not> rd_main d \<and> \<not> rd_cascade d}"

definition pending_spend :: "pstore \<Rightarrow> (string \<Rightarrow> ram_data option) \<Rightarrow> byte list \<Rightarrow> bool" where
  "pending_spend h m coinid = (\<exists>k d p b. m k = Some d \<and> h (rd_txpow d) = Some p \<and> isTransaction p \<and> \<not> rd_cascade d
     \<and> p_body p = Some b \<and> spends coinid b)"

lemma isTransaction_body: "isTransaction p \<Longrightarrow> \<exists>b. p_body p = Some b"
  by (auto simp: isTransaction_def split: option.splits)

lemma map_of_member: "distinct (map fst db) \<Longrightarrow> map_of db k = Some d \<longleftrightarrow> (k, d) \<in> set db"
  by (simp add: map_of_eq_Some_iff)

lemma ram_unused:
  assumes "keyed f db" "names f h"
  shows "\<exists>as. ram_getAllUnusedTxns h db = Inr as \<and> set as = unused h (map_of db)"
proof -
  have "\<forall>(k, d) \<in> set db. h (rd_txpow d) \<noteq> None" using keyed_object[OF assms] by fastforce
  then have "\<exists>as. ram_getAllUnusedTxns h db = Inr as \<and> set as = {a. \<exists>k d p. (k, d) \<in> set db \<and> rd_txpow d = a \<and> h a = Some p
      \<and> isTransaction p \<and> \<not> rd_main d \<and> \<not> rd_cascade d}"
  proof (induction db)
    case (Cons x db)
    obtain k d where x: "x = (k, d)" by (cases x)
    obtain p where p: "h (rd_txpow d) = Some p" using Cons.prems x by auto
    from Cons obtain as where "ram_getAllUnusedTxns h db = Inr as" "set as = {a. \<exists>k d p. (k, d) \<in> set db \<and> rd_txpow d = a
      \<and> h a = Some p \<and> isTransaction p \<and> \<not> rd_main d \<and> \<not> rd_cascade d}" by auto
    then show ?case using p x by (auto simp: deref_txpow_def)
  qed simp
  then show ?thesis using assms(1) by (simp add: unused_def keyed_def map_of_member)
qed

lemma ram_pending:
  assumes "keyed f db" "names f h"
  shows "ram_checkForCoinID h coinid db = Inr (pending_spend h (map_of db) coinid)"
proof -
  have "\<forall>(k, d) \<in> set db. h (rd_txpow d) \<noteq> None" using keyed_object[OF assms] by fastforce
  then have "ram_checkForCoinID h coinid db = Inr (\<exists>k d p b. (k, d) \<in> set db \<and> h (rd_txpow d) = Some p \<and> isTransaction p
      \<and> \<not> rd_cascade d \<and> p_body p = Some b \<and> spends coinid b)"
  proof (induction db)
    case (Cons x db)
    obtain k d where x: "x = (k, d)" by (cases x)
    obtain p where p: "h (rd_txpow d) = Some p" using Cons.prems x by auto
    show ?case
    proof (cases "isTransaction p \<and> \<not> rd_cascade d")
      case True
      then obtain b where "p_body p = Some b" using isTransaction_body by blast
      then show ?thesis using Cons p x True by (cases "spends coinid b") (auto simp: deref_txpow_def need_body_def)
    next
      case False
      then show ?thesis using Cons p x by (auto simp: deref_txpow_def)
    qed
  qed simp
  then show ?thesis using assms(1) by (simp add: pending_spend_def keyed_def map_of_member)
qed

text \<open>C40 The mempool is a finite map from identifiers. Starting empty, any sequence of additions, reads, removals,
  clean-ups, wipes and marks ends without a failure in a table whose lookups are those of the map that the
  sequence makes of the empty one: adding keeps the first object and refreshes it when it is there, a clean-up
  removes exactly what was not used for an hour. Afterwards the unused transactions are those neither on the main
  chain nor in the cascade, a coin counts as pending exactly when a transaction outside the cascade spends it,
  and the size is the number of identifiers.\<close>

theorem mempool_refines:
  assumes "list_all (ram_ok f) ops" "names f h"
  shows "\<exists>db as. run_steps ram_step ops [] = Inr db \<and> (let m = fold (ram_spec f) ops Map.empty in
      (\<forall>k now. ram_exists k db = (m k \<noteq> None) \<and> fst (ram_getTxPoW now k db) = map_option rd_txpow (m k))
      \<and> ram_getAllUnusedTxns h db = Inr as \<and> set as = unused h m
      \<and> (\<forall>coinid. ram_checkForCoinID h coinid db = Inr (pending_spend h m coinid))
      \<and> ram_getSize db = int (card (dom m)))"
proof -
  obtain db where db: "run_steps ram_step ops [] = Inr db" "keyed f db" "map_of db = fold (ram_spec f) ops Map.empty"
    using mempool.run_refines[OF assms(1), of "[]"] by (auto simp: keyed_def)
  obtain as where as: "ram_getAllUnusedTxns h db = Inr as" "set as = unused h (map_of db)"
    using ram_unused[OF db(2) assms(2)] by blast
  have "ram_getSize db = int (card (dom (map_of db)))"
    using db(2) distinct_card[of "map fst db"] by (simp add: ram_getSize_def keyed_def dom_map_of_conv_image_fst)
  moreover have "ram_exists k db = (map_of db k \<noteq> None)" "fst (ram_getTxPoW now k db) = map_option rd_txpow (map_of db k)" for k now
    using ram_get_refines[OF db(2)] by (auto simp: ram_exists_def)
  ultimately show ?thesis using as ram_pending[OF db(2) assms(2)] db(1) unfolding Let_def db(3)[symmetric] by blast
qed

definition sample_txn :: txpow where
  "sample_txn = (txpow_new mn_ZERO [])\<lparr>mTxPOWIDStr := ''0x01'',
     p_body := Some ((body_new [])\<lparr>b_transaction := tx_new\<lparr>tx_state := [\<lparr>sv_type = 2, sv_port = 0, sv_data = ''1''\<rparr>]\<rparr>\<rparr>)\<rparr>"

lemma mempool_refines_witness:
  "\<exists>db as. run_steps ram_step (map (Pair [7 \<mapsto> sample_txn]) [Ram_add 5 7, Ram_main ''0x01'', Ram_add 9 7, Ram_clean 3600006, Ram_clear]) [] = Inr db
    \<and> ram_exists ''0x01'' db \<and> ram_getSize db = 1"
proof -
  let ?ops = "map (Pair [7 \<mapsto> sample_txn]) [Ram_add 5 7, Ram_main ''0x01'', Ram_add 9 7, Ram_clean 3600006, Ram_clear]"
  have n: "names [7 \<mapsto> ''0x01''] [7 \<mapsto> sample_txn]" by (simp add: names_def sample_txn_def)
  then have ok: "list_all (ram_ok [7 \<mapsto> ''0x01'']) ?ops" by (simp add: ram_ok_def)
  have m: "fold (ram_spec [7 \<mapsto> ''0x01'']) ?ops Map.empty = [''0x01'' \<mapsto> \<lparr>rd_txpow = 7, rd_lastaccess = 9, rd_main = False, rd_cascade = False\<rparr>]"
    by (simp add: change_def ram_data_new_def updateLastAccess_def fun_eq_iff)
  show ?thesis using mempool_refines[OF ok n] unfolding m Let_def by auto
qed

subsection \<open>Blocks in memory\<close>

definition keyed_blocks :: "block_db \<Rightarrow> bool" where
  "keyed_blocks db = (distinct (map fst db) \<and> (\<forall>(k, b) \<in> set db. \<exists>p. bl_txpow b = Some p \<and> mTxPOWIDStr p = k))"

datatype block_op = Block_add txblock | Block_clear_old mininumber | Block_clear

fun block_step :: "block_op \<Rightarrow> block_db \<Rightarrow> block_db result" where
  "block_step (Block_add b) db = addTxBlock b db"
| "block_step (Block_clear_old n) db = clearOld n db"
| "block_step Block_clear db = Inr (clearAll db)"

definition block_number :: "txblock \<Rightarrow> mininumber" where
  "block_number b = h_blocknumber (p_header (the (bl_txpow b)))"

fun block_spec :: "block_op \<Rightarrow> (string \<Rightarrow> txblock option) \<Rightarrow> string \<Rightarrow> txblock option" where
  "block_spec (Block_add b) m = m(mTxPOWIDStr (the (bl_txpow b)) \<mapsto> b)"
| "block_spec (Block_clear_old n) m =
     (\<lambda>k. case m k of None \<Rightarrow> None | Some b \<Rightarrow> if mn_isMoreEqual (block_number b) n then Some b else None)"
| "block_spec Block_clear m = Map.empty"

definition block_ok :: "block_op \<Rightarrow> bool" where
  "block_ok op = (case op of Block_add b \<Rightarrow> bl_txpow b \<noteq> None | _ \<Rightarrow> True)"

lemma update_absent: "k \<notin> fst ` set al \<Longrightarrow> AList.update k v al = al @ [(k, v)]"
  by (induction al) auto

lemma clear_old_filter:
  "keyed_blocks (acc @ kvs) \<Longrightarrow> clear_old n acc kvs = Inr (acc @ filter (\<lambda>(k, b). mn_isMoreEqual (block_number b) n) kvs)"
proof (induction kvs arbitrary: acc)
  case (Cons x kvs)
  obtain k b where x: "x = (k, b)" by (cases x)
  obtain p where p: "bl_txpow b = Some p" "mTxPOWIDStr p = k" using Cons.prems x by (auto simp: keyed_blocks_def)
  have new: "k \<notin> fst ` set acc" using Cons.prems x by (auto simp: keyed_blocks_def)
  have "keyed_blocks (acc @ kvs)" using Cons.prems x by (auto simp: keyed_blocks_def)
  moreover have "keyed_blocks ((acc @ [(k, b)]) @ kvs)" using Cons.prems x by simp
  ultimately show ?case using Cons.IH p x update_absent[OF new] by (simp add: getTxPoW_def block_number_def)
qed simp

lemma keyed_blocks_map:
  "keyed_blocks db = (distinct (map fst db) \<and> (\<forall>k b. map_of db k = Some b \<longrightarrow> (\<exists>p. bl_txpow b = Some p \<and> mTxPOWIDStr p = k)))"
  by (auto simp: keyed_blocks_def map_of_member)

lemma keyed_blocks_update:
  "keyed_blocks db \<Longrightarrow> bl_txpow b = Some p \<Longrightarrow> keyed_blocks (AList.update (mTxPOWIDStr p) b db)"
  unfolding keyed_blocks_map by (auto simp: distinct_update update_conv split: if_splits)

lemma block_step_refines:
  assumes "block_ok op" "keyed_blocks db"
  shows "\<exists>t. block_step op db = Inr t \<and> keyed_blocks t \<and> map_of t = block_spec op (map_of db)"
proof (cases op)
  case (Block_add b)
  then show ?thesis using assms keyed_blocks_update[of db b]
    by (auto simp: block_ok_def addTxBlock_def getTxPoW_def update_conv split: option.splits)
next
  case (Block_clear_old n)
  then show ?thesis using assms clear_old_filter[of "[]" db n]
    by (auto simp: clearOld_def keyed_blocks_def map_of_filter_entries distinct_map_filter split: option.split)
qed (use assms in \<open>auto simp: clearAll_def keyed_blocks_def\<close>)

interpretation blocks: refined_steps block_step block_spec map_of keyed_blocks block_ok
  by unfold_locales (rule block_step_refines)

end
