(* ===== verification/Spec2Isabelle.thy ===== *)
theory Spec2Isabelle
  imports KissBits CascadeLaws CheckerLaws TxPoWDBLaws
begin

text \<open>Root.\<close>

end
